(* ===== verification/Prelude.thy ===== *)
theory Prelude
  imports Main "HOL-Library.Word" "HOL-Library.While_Combinator" "HOL-Library.Multiset"
begin

text \<open>
  The prelude of the development: the execution monad in which the kernel's C functions are
  written, its loops, and the generic facts the component theories share.

  A C function of type \<open>a\<close> over a kernel state of type \<open>'s\<close> is a value of type
  \<open>('s, 'a) K\<close>. It takes the state and a \<^emph>\<open>schedule\<close>, and returns either a result with the new
  state and what is left of the schedule, or the reason why control never comes back:

    \<^item> \<open>Panic msg\<close>: the code called \<^verbatim>\<open>panic(msg)\<close>;
    \<^item> \<open>Fault\<close>: the code dereferenced a null, dangling or ill-typed pointer (in C: undefined);
    \<^item> \<open>Diverges\<close>: a loop that runs for ever without giving up the CPU;
    \<^item> \<open>Blocked s\<close>: the caller is waiting, in state \<open>s\<close>, and the schedule is used up;
    \<^item> \<open>Exited s\<close>: the calling process has exited and \<open>s\<close> is the state it left.

  A schedule is the list of what everybody else (other processes, other harts, devices) does
  while the caller is off its CPU or spins: each point of the source where the caller gives way
  consumes one entry and continues in the state that entry produces. Theorems about code that
  may wait are stated for every schedule, or for every schedule that keeps a stated condition.
\<close>

unbundle bit_operations_syntax

named_theorems ksimps \<open>equations that run primitive operations of the kernel monad\<close>
named_theorems pure_specs \<open>what an operation does when its locks are free\<close>

section \<open>The execution monad\<close>

type_synonym 's schedule = "('s \<Rightarrow> 's) list"

datatype 's stop = Panic string | Fault | Diverges | Blocked 's | Exited 's

datatype ('a, 's) outcome = Ok 'a 's "'s schedule" | Stop "'s stop"

type_synonym ('s, 'a) K = "'s \<Rightarrow> 's schedule \<Rightarrow> ('a, 's) outcome"

definition ret :: "'a \<Rightarrow> ('s, 'a) K" where
  "ret a s e = Ok a s e"

definition bind :: "('s, 'a) K \<Rightarrow> ('a \<Rightarrow> ('s, 'b) K) \<Rightarrow> ('s, 'b) K" where
  "bind m f s e = (case m s e of Ok a s' e' \<Rightarrow> f a s' e' | Stop x \<Rightarrow> Stop x)"

definition seq :: "('s, 'a) K \<Rightarrow> ('s, 'b) K \<Rightarrow> ('s, 'b) K" where
  "seq m n s e = (case m s e of Ok a s' e' \<Rightarrow> n s' e' | Stop x \<Rightarrow> Stop x)"

definition skip :: "('s, unit) K" where
  "skip s e = Ok () s e"

definition gets :: "('s \<Rightarrow> 'a) \<Rightarrow> ('s, 'a) K" where
  "gets f s e = Ok (f s) s e"

definition modify :: "('s \<Rightarrow> 's) \<Rightarrow> ('s, unit) K" where
  "modify f s e = Ok () (f s) e"

definition halt :: "'s stop \<Rightarrow> ('s, 'a) K" where
  "halt x s e = Stop x"

definition panic :: "string \<Rightarrow> ('s, 'a) K" where
  "panic msg s e = Stop (Panic msg)"

definition fault :: "('s, 'a) K" where
  "fault s e = Stop Fault"

text \<open>A value that must be there: the model's form of following a pointer.\<close>

definition need :: "'a option \<Rightarrow> ('s, 'a) K" where
  "need x s e = (case x of Some a \<Rightarrow> Ok a s e | None \<Rightarrow> Stop Fault)"

text \<open>The caller gives way: the next entry of the schedule runs.\<close>

definition give_way :: "('s, unit) K" where
  "give_way s e = (case e of [] \<Rightarrow> Stop (Blocked s) | f # e' \<Rightarrow> Ok () (f s) e')"

text \<open>A C \<^verbatim>\<open>if\<close> without \<^verbatim>\<open>else\<close>.\<close>

definition whenK :: "bool \<Rightarrow> ('s, unit) K \<Rightarrow> ('s, unit) K" where
  "whenK b m = (if b then m else skip)"

lemmas monad_defs = ret_def bind_def seq_def skip_def gets_def modify_def halt_def panic_def
  fault_def need_def

lemma ret_run [simp]: "ret a s e = Ok a s e" by (simp add: ret_def)
lemma skip_run [simp]: "skip s e = Ok () s e" by (simp add: skip_def)
lemma gets_run [simp]: "gets f s e = Ok (f s) s e" by (simp add: gets_def)
lemma modify_run [simp]: "modify f s e = Ok () (f s) e" by (simp add: modify_def)
lemma panic_run [simp]: "panic msg s e = Stop (Panic msg)" by (simp add: panic_def)
lemma halt_run [simp]: "halt x s e = Stop x" by (simp add: halt_def)
lemma fault_run [simp]: "fault s e = Stop Fault" by (simp add: fault_def)

lemma need_run [simp]:
  "need (Some a) s e = Ok a s e" "need None s e = Stop Fault"
  by (simp_all add: need_def)

lemma whenK_run [simp]: "whenK True m = m" "whenK False m = skip"
  by (simp_all add: whenK_def)

lemma give_way_run [simp]:
  "give_way s [] = Stop (Blocked s)" "give_way s (f # e) = Ok () (f s) e"
  by (simp_all add: give_way_def)

text \<open>
  Stepping through a \<open>bind\<close> or a \<open>seq\<close> once the first statement's outcome is known.
\<close>

lemma bind_Ok: "m s e = Ok a s' e' \<Longrightarrow> bind m f s e = f a s' e'"
  by (simp add: bind_def)

lemma bind_Stop: "m s e = Stop x \<Longrightarrow> bind m f s e = Stop x"
  by (simp add: bind_def)

lemma seq_Ok: "m s e = Ok a s' e' \<Longrightarrow> seq m n s e = n s' e'"
  by (simp add: seq_def)

lemma seq_Stop: "m s e = Stop x \<Longrightarrow> seq m n s e = Stop x"
  by (simp add: seq_def)

lemma bind_eq_Ok:
  "bind m f s e = Ok b t d \<longleftrightarrow> (\<exists>a s' e'. m s e = Ok a s' e' \<and> f a s' e' = Ok b t d)"
  by (auto simp: bind_def split: outcome.splits)

lemma seq_eq_Ok:
  "seq m n s e = Ok b t d \<longleftrightarrow> (\<exists>a s' e'. m s e = Ok a s' e' \<and> n s' e' = Ok b t d)"
  by (auto simp: seq_def split: outcome.splits)

lemma bind_assoc: "bind (bind m f) g = bind m (\<lambda>a. bind (f a) g)"
  by (rule ext, rule ext) (simp add: bind_def split: outcome.splits)

lemma whenK_eq_Ok:
  "whenK b m s e = Ok a t d \<longleftrightarrow> (if b then m s e = Ok a t d else t = s \<and> d = e)"
  by (auto simp: whenK_def)

section \<open>Loops\<close>

text \<open>
  \<open>forK is body\<close> is a counted \<^verbatim>\<open>for\<close> loop over the indices \<open>is\<close>. The body says how it
  leaves: \<open>None\<close> goes on with the next index, \<open>Some a\<close> leaves the loop with \<open>a\<close> (the source's
  \<^verbatim>\<open>break\<close>, \<^verbatim>\<open>return\<close> or \<^verbatim>\<open>goto\<close>).
\<close>

primrec forK :: "'i list \<Rightarrow> ('i \<Rightarrow> ('s, 'a option) K) \<Rightarrow> ('s, 'a option) K" where
  "forK [] body = ret None"
| "forK (i # is) body =
     bind (body i) (\<lambda>r. case r of None \<Rightarrow> forK is body | Some a \<Rightarrow> ret (Some a))"

text \<open>The same loop with a body that never leaves it.\<close>

primrec for_each :: "'i list \<Rightarrow> ('i \<Rightarrow> ('s, unit) K) \<Rightarrow> ('s, unit) K" where
  "for_each [] body = skip"
| "for_each (i # is) body = seq (body i) (for_each is body)"

text \<open>
  \<open>loopK body x\<close> is a \<^verbatim>\<open>while\<close> loop over the local variables \<open>x\<close>: the body returns \<open>Inl x'\<close> to
  go round again and \<open>Inr a\<close> to leave the loop with \<open>a\<close>. A loop that goes round for ever is
  \<open>Stop Diverges\<close>.
\<close>

definition going :: "('x + 'a, 's) outcome \<Rightarrow> bool" where
  "going r = (case r of Ok (Inl x) s e \<Rightarrow> True | _ \<Rightarrow> False)"

definition go_on :: "('x \<Rightarrow> ('s, 'x + 'a) K) \<Rightarrow> ('x + 'a, 's) outcome \<Rightarrow> ('x + 'a, 's) outcome" where
  "go_on body r = (case r of Ok (Inl x) s e \<Rightarrow> body x s e | _ \<Rightarrow> r)"

definition loop_result :: "('x + 'a, 's) outcome option \<Rightarrow> ('a, 's) outcome" where
  "loop_result r = (case r of
       None \<Rightarrow> Stop Diverges
     | Some (Ok (Inr a) s e) \<Rightarrow> Ok a s e
     | Some (Ok (Inl x) s e) \<Rightarrow> Stop Diverges
     | Some (Stop x) \<Rightarrow> Stop x)"

definition loopK :: "('x \<Rightarrow> ('s, 'x + 'a) K) \<Rightarrow> 'x \<Rightarrow> ('s, 'a) K" where
  "loopK body x s e = loop_result (while_option going (go_on body) (Ok (Inl x) s e))"

lemma while_option_going:
  "loop_result (while_option going (go_on body) r) =
     (case r of Ok (Inl x) s e \<Rightarrow> loopK body x s e | Ok (Inr a) s e \<Rightarrow> Ok a s e | Stop x \<Rightarrow> Stop x)"
proof (cases "going r")
  case True
  then obtain x s e where "r = Ok (Inl x) s e"
    by (auto simp: going_def split: outcome.splits sum.splits)
  then show ?thesis by (simp add: loopK_def)
next
  case False
  then have "while_option going (go_on body) r = Some r"
    by (subst while_option_unfold) simp
  with False show ?thesis
    by (auto simp: going_def loop_result_def split: outcome.splits sum.splits)
qed

lemma loopK_unfold [code]:
  "loopK body x s e =
     (case body x s e of
        Ok r s' e' \<Rightarrow> (case r of Inl x' \<Rightarrow> loopK body x' s' e' | Inr a \<Rightarrow> Ok a s' e')
      | Stop z \<Rightarrow> Stop z)"
proof -
  have "loopK body x s e = loop_result (while_option going (go_on body) (body x s e))"
    unfolding loopK_def
    by (subst while_option_unfold) (simp add: going_def go_on_def)
  then show ?thesis
    by (simp add: while_option_going split: outcome.splits sum.splits)
qed

lemma loopK_step:
  "body x s e = Ok (Inl x') s' e' \<Longrightarrow> loopK body x s e = loopK body x' s' e'"
  by (subst loopK_unfold) simp

lemma loopK_done: "body x s e = Ok (Inr a) s' e' \<Longrightarrow> loopK body x s e = Ok a s' e'"
  by (subst loopK_unfold) simp

lemma loopK_stop: "body x s e = Stop z \<Longrightarrow> loopK body x s e = Stop z"
  by (subst loopK_unfold) simp

text \<open>A loop whose every round leads back to the same kind of configuration never ends.\<close>

lemma loopK_diverges:
  fixes body :: "'x \<Rightarrow> ('s, 'x + 'a) K"
  assumes start: "I x s e"
    and round: "\<And>x s e. I x s e \<Longrightarrow> \<exists>x' s' e'. body x s e = Ok (Inl x') s' e' \<and> I x' s' e'"
  shows "loopK body x s e = Stop Diverges"
proof -
  let ?P = "\<lambda>r :: ('x + 'a, 's) outcome. \<exists>x s e. r = Ok (Inl x) s e \<and> I x s e"
  have "while_option going (go_on body) (Ok (Inl x) s e) = None"
  proof (rule ccontr)
    assume "while_option going (go_on body) (Ok (Inl x) s e) \<noteq> None"
    then obtain t where t: "while_option going (go_on body) (Ok (Inl x) s e) = Some t"
      by auto
    have "?P t"
    proof (rule while_option_rule [OF _ t])
      show "?P (Ok (Inl x) s e)" using start by blast
    next
      fix r assume "?P r" and "going r"
      then show "?P (go_on body r)"
        using round by (fastforce simp: go_on_def)
    qed
    moreover have "\<not> going t" by (rule while_option_stop [OF t])
    ultimately show False by (auto simp: going_def)
  qed
  then show ?thesis by (simp add: loopK_def loop_result_def)
qed

lemma for_each_Ok:
  assumes "\<And>i s e. i \<in> set js \<Longrightarrow> P s \<Longrightarrow> body i s e = Ok () (f i s) e \<and> P (f i s)" and "P s"
  shows "for_each js body s e = Ok () (fold f js s) e \<and> P (fold f js s)"
  using assms
proof (induction js arbitrary: s)
  case Nil
  then show ?case by simp
next
  case (Cons i js)
  then have "body i s e = Ok () (f i s) e" and "P (f i s)" by auto
  with Cons show ?case by (simp add: seq_def)
qed

lemma for_each_append: "for_each (xs @ ys) body = seq (for_each xs body) (for_each ys body)"
  by (induction xs) (auto simp: fun_eq_iff seq_def split: outcome.splits)

text \<open>A \<^verbatim>\<open>for\<close> loop that looks for the first index with a property and acts on it.\<close>

lemma forK_find:
  assumes "\<And>i. i \<in> set js \<Longrightarrow> body i s e = (if P i then Ok (Some (a i)) (f i s) e else Ok None s e)"
  shows "forK js body s e =
    (case find P js of None \<Rightarrow> Ok None s e | Some i \<Rightarrow> Ok (Some (a i)) (f i s) e)"
  using assms by (induction js) (auto simp: bind_def)

text \<open>A loop that is never left does not return.\<close>

lemma loopK_never_Ok:
  fixes body :: "'x \<Rightarrow> ('s, 'x + 'a) K"
  assumes "\<And>x s e a t d. body x s e \<noteq> Ok (Inr a) t d"
  shows "loopK body x s e \<noteq> Ok a t d"
proof
  assume "loopK body x s e = Ok a t d"
  then obtain r where r: "while_option going (go_on body) (Ok (Inl x) s e) = Some r"
    and ra: "r = Ok (Inr a) t d"
    by (auto simp: loopK_def loop_result_def split: option.splits outcome.splits sum.splits)
  let ?P = "\<lambda>r :: ('x + 'a, 's) outcome. \<forall>a t d. r \<noteq> Ok (Inr a) t d"
  have "?P r"
    by (rule while_option_rule [OF _ r, where P = ?P])
       (use assms in \<open>auto simp: go_on_def split: outcome.splits sum.splits\<close>)
  with ra show False by simp
qed

end
