(* ===== verification/KTypes.thy ===== *)
theory KTypes
  imports Prelude
begin

text \<open>
  The constants and the data of the kernel's headers: \<^verbatim>\<open>types.h\<close>, \<^verbatim>\<open>param.h\<close>, \<^verbatim>\<open>memlayout.h\<close>,
  \<^verbatim>\<open>riscv.h\<close>, \<^verbatim>\<open>spinlock.h\<close>, \<^verbatim>\<open>sleeplock.h\<close>, \<^verbatim>\<open>proc.h\<close>, \<^verbatim>\<open>file.h\<close>, \<^verbatim>\<open>buf.h\<close>, \<^verbatim>\<open>fs.h\<close>, \<^verbatim>\<open>virtio.h\<close>,
  \<^verbatim>\<open>pipe_rt.h\<close>, \<^verbatim>\<open>pqueue.h\<close> and \<^verbatim>\<open>timer.h\<close>,
  and the record of the kernel's global variables that every operation reads and writes.

  Pointers. A pointer into a static table (\<^verbatim>\<open>proc[]\<close>, \<^verbatim>\<open>ftable.file[]\<close>) is an index into it, and the
  null pointer is \<open>None\<close>. A pointer to memory that \<^verbatim>\<open>kalloc()\<close> hands out is its 64-bit address:
  the kernel allocates whole pages and puts one object on each, so physical memory is a map
  from page addresses to the object on the page (\<open>page\<close>). An access at the wrong type, through
  a null pointer or to a page that has been freed is \<open>Fault\<close>.
\<close>

section \<open>Integers and constants\<close>

type_synonym uchar = "8 word"
type_synonym cshort = "16 word" \<comment> \<open>C \<open>short\<close>, read with \<open>sint\<close>\<close>
type_synonym cint = "32 word" \<comment> \<open>C \<open>int\<close>, read with \<open>sint\<close>\<close>
type_synonym uint = "32 word"
type_synonym uint64 = "64 word"
type_synonym addr = uint64

definition NPROC :: nat where "NPROC = 64"
definition NCPU :: nat where "NCPU = 8"
definition NOFILE :: nat where "NOFILE = 16"
definition NFILE :: nat where "NFILE = 100"
definition NINODE :: nat where "NINODE = 50"
definition NDEV :: nat where "NDEV = 10"
definition ROOTDEV :: uint where "ROOTDEV = 1"
definition MAXARG :: nat where "MAXARG = 32"
definition MAXOPBLOCKS :: nat where "MAXOPBLOCKS = 10"
definition LOGSIZE :: nat where "LOGSIZE = MAXOPBLOCKS * 3"
definition NBUF :: nat where "NBUF = MAXOPBLOCKS * 3"
definition MAXPATH :: nat where "MAXPATH = 128"
definition USERSTACK :: nat where "USERSTACK = 1"

definition PGSIZE :: uint64 where "PGSIZE = 4096"
definition KERNBASE :: uint64 where "KERNBASE = 0x80000000"
definition PHYSTOP :: uint64 where "PHYSTOP = KERNBASE + 128 * 1024 * 1024"
definition MAXVA :: uint64 where "MAXVA = push_bit (9 + 9 + 9 + 12 - 1) 1"
definition TRAMPOLINE :: uint64 where "TRAMPOLINE = MAXVA - PGSIZE"
definition TRAPFRAME :: uint64 where "TRAPFRAME = TRAMPOLINE - PGSIZE"
definition KSTACK :: "nat \<Rightarrow> uint64" where
  "KSTACK p = TRAMPOLINE - (of_nat p + 1) * 2 * PGSIZE"

definition PGROUNDUP :: "uint64 \<Rightarrow> uint64" where
  "PGROUNDUP sz = (sz + PGSIZE - 1) AND NOT (PGSIZE - 1)"

definition PGROUNDDOWN :: "uint64 \<Rightarrow> uint64" where
  "PGROUNDDOWN a = a AND NOT (PGSIZE - 1)"

definition UART0 :: uint64 where "UART0 = 0x10000000"
definition VIRTIO0 :: uint64 where "VIRTIO0 = 0x10001000"
definition PLIC :: uint64 where "PLIC = 0x0c000000"
definition MAKE_SATP :: "uint64 \<Rightarrow> uint64" where
  "MAKE_SATP pagetable = push_bit 60 8 OR drop_bit 12 pagetable"

definition PTE_V :: uint64 where "PTE_V = 1"
definition PTE_R :: uint64 where "PTE_R = 2"
definition PTE_W :: uint64 where "PTE_W = 4"
definition PTE_X :: uint64 where "PTE_X = 8"
definition PTE_U :: uint64 where "PTE_U = 16"

definition PA2PTE :: "uint64 \<Rightarrow> uint64" where
  "PA2PTE pa = push_bit 10 (drop_bit 12 pa)"

definition PTE2PA :: "uint64 \<Rightarrow> uint64" where
  "PTE2PA pte = push_bit 12 (drop_bit 10 pte)"

definition PTE_FLAGS :: "uint64 \<Rightarrow> uint64" where
  "PTE_FLAGS pte = pte AND 0x3FF"

definition PX :: "nat \<Rightarrow> uint64 \<Rightarrow> uint64" where
  "PX level va = drop_bit (12 + 9 * level) va AND 0x1FF"

section \<open>Locks and CPUs\<close>

record spinlock =
  locked :: bool
  lname :: string
  lcpu :: "nat option"

text \<open>The sleep locks: one in each buffer of the block cache and one in each in-memory inode.\<close>

datatype slid = SlBuf nat | SlInode nat

text \<open>Where a spin lock lives: the variable, table slot or page it is a field of.\<close>

datatype lockid =
    LkKmem | LkPid | LkWait | LkTicks | LkFtable | LkPr | LkBcache | LkLog | LkItable | LkCons
  | LkUart | LkVdisk
  | LkProc nat
  | LkPipe addr
  | LkPipeRt addr
  | LkSleep slid

record cpu =
  c_proc :: "nat option"
  noff :: int
  intena :: bool

text \<open>
  What \<^verbatim>\<open>spinlock.c\<close> works on: the executing hart (its \<^verbatim>\<open>tp\<close> register), the per-CPU structures,
  the hart's interrupt-enable bit (\<^verbatim>\<open>SSTATUS_SIE\<close>) and all locks.
\<close>

record lockst =
  hart :: nat
  cpus :: "nat \<Rightarrow> cpu"
  sie :: bool
  lks :: "lockid \<Rightarrow> spinlock"

section \<open>Processes, files, pipes, timers\<close>

datatype procstate = UNUSED | USED | SLEEPING | RUNNABLE | RUNNING | ZOMBIE

text \<open>Wait channels: the address a process sleeps on.\<close>

datatype chan =
    ChNull
  | ChTicks
  | ChProc nat
  | ChPipeRead addr
  | ChPipeWrite addr
  | ChPipeRtRead addr
  | ChSleep slid
  | ChLog
  | ChVFree
  | ChBuf nat
  | ChCons
  | ChUart

datatype reg = R_ra | R_sp | R_gp | R_tp | R_t nat | R_s nat | R_a nat

record trapframe =
  kernel_satp :: uint64
  kernel_sp :: uint64
  kernel_trap :: uint64
  epc :: uint64
  kernel_hartid :: uint64
  regs :: "reg \<Rightarrow> uint64"

record kcontext =
  ctx_ra :: uint64
  ctx_sp :: uint64
  ctx_s :: "nat \<Rightarrow> uint64"

record proc =
  p_period :: cint
  p_next_run :: cint
  p_is_periodic :: cint
  p_state :: procstate
  p_chan :: chan
  p_killed :: bool
  p_xstate :: cint
  p_pid :: cint
  p_cpu_mask :: cint
  p_timer :: addr
  p_parent :: "nat option"
  p_kstack :: uint64
  p_sz :: uint64
  p_pagetable :: addr
  p_trapframe :: addr
  p_context :: kcontext
  p_ofile :: "nat \<Rightarrow> nat option"
  p_cwd :: "nat option"
  p_name :: "uchar list"

datatype ftype = FD_NONE | FD_PIPE | FD_PIPE_RT | FD_INODE | FD_DEVICE

record kfile =
  f_type :: ftype
  f_ref :: int
  f_readable :: uchar
  f_writable :: uchar
  f_pipe :: addr
  f_ip :: "nat option"
  f_off :: uint
  f_major :: cshort

record pipe =
  pi_data :: "nat \<Rightarrow> uchar"
  pi_nread :: uint
  pi_nwrite :: uint
  pi_readopen :: bool
  pi_writeopen :: bool

record task_t =
  priority :: cint
  t_pid :: cint
  t_x :: cint
  t_y :: cint
  t_op :: uchar
  t_pad :: "uchar list" \<comment> \<open>the seven bytes of padding before \<open>result\<close>\<close>
  t_result :: addr
  t_error :: addr

record pq_node =
  task :: task_t
  nxt :: addr

record pipe_rt =
  pr_head :: addr
  pr_nwrite :: int
  pr_nread :: int
  pr_active :: bool

record pqueue =
  q_head :: addr
  q_lock :: "lockid option"

text \<open>The only callback the kernel registers is \<^verbatim>\<open>period_callback\<close>.\<close>

datatype callback = PeriodCallback

record xv6timer_t =
  tm_expiry :: cint
  tm_next_tick :: uint
  tm_proc :: "nat option"
  tm_callback :: "callback option"

section \<open>The file system in memory\<close>

text \<open>A disk block: its 1024 bytes.\<close>

type_synonym block = "nat \<Rightarrow> uchar"

record sleeplock =
  sl_locked :: bool
  sl_name :: string
  sl_pid :: cint

text \<open>A pointer to a buffer: null, the list head of the cache, or a cell of \<^verbatim>\<open>bcache.buf[]\<close>.\<close>

datatype bufid = BNull | BHead | Buf nat

record buf =
  b_valid :: bool
  b_disk :: bool
  b_dev :: uint
  b_blockno :: uint
  b_refcnt :: uint
  b_prev :: bufid
  b_next :: bufid
  b_data :: block

record klog =
  lg_start :: uint
  lg_size :: int
  lg_outstanding :: int
  lg_committing :: bool
  lg_dev :: uint
  lh_n :: int
  lh_block :: "nat \<Rightarrow> uint"

record superblock =
  sb_magic :: uint
  sb_size :: uint
  sb_nblocks :: uint
  sb_ninodes :: uint
  sb_nlog :: uint
  sb_logstart :: uint
  sb_inodestart :: uint
  sb_bmapstart :: uint

record inode =
  i_dev :: uint
  i_inum :: uint
  i_ref :: int
  i_valid :: bool
  i_type :: cshort
  i_major :: cshort
  i_minor :: cshort
  i_nlink :: cshort
  i_size :: uint
  i_addrs :: "nat \<Rightarrow> uint"

section \<open>Devices\<close>

text \<open>The entries the kernel puts into \<^verbatim>\<open>devsw[]\<close>.\<close>

datatype devfn = ConsoleFn

record devsw_t =
  d_read :: "devfn option"
  d_write :: "devfn option"

record console =
  co_buf :: "nat \<Rightarrow> uchar"
  co_r :: uint
  co_w :: uint
  co_e :: uint

text \<open>
  The UART: the driver's transmit buffer, and the device: the bytes that wait to be read, how many
  bytes it can take before it is busy, the bytes it has sent, and its other registers.
\<close>

record uart_t =
  u_tx_buf :: "nat \<Rightarrow> uchar"
  u_tx_w :: uint64
  u_tx_r :: uint64
  u_rx :: "uchar list"
  u_room :: nat
  u_out :: "uchar list"
  u_regs :: "nat \<Rightarrow> uchar"

text \<open>
  The virtio disk. The addresses in descriptors are those of a request header, of a buffer's data
  or of a status byte.
\<close>

datatype vaddr = VNone | VReq nat | VData bufid | VStatus nat

record virtq_desc =
  vq_addr :: vaddr
  vq_len :: uint
  vq_flags :: cshort
  vq_next :: cshort

record virtq_avail =
  va_idx :: cshort
  va_ring :: "nat \<Rightarrow> cshort"

record virtq_used =
  vu_idx :: cshort
  vu_ring :: "nat \<Rightarrow> uint"

record virtio_blk_req =
  rq_type :: uint
  rq_reserved :: uint
  rq_sector :: uint64

record vdisk_t =
  vd_desc :: addr
  vd_avail :: addr
  vd_used :: addr
  vd_free :: "nat \<Rightarrow> bool"
  vd_used_idx :: cshort
  vd_b :: "nat \<Rightarrow> bufid"
  vd_status :: "nat \<Rightarrow> uchar"
  vd_ops :: "nat \<Rightarrow> virtio_blk_req"

text \<open>Control and status registers of a hart (the interrupt-enable bit of \<^verbatim>\<open>sstatus\<close> is in \<open>lockst\<close>).\<close>

datatype csrname = Sstatus | Scause | Sepc | Stval | Stvec | Stimecmp | Time | Sie
  | Mstatus | Mepc | Medeleg | Mideleg | Pmpaddr0 | Pmpcfg0 | Mie | Menvcfg | Mcounteren | Mhartid

section \<open>Physical memory\<close>

text \<open>
  What a page of physical memory holds. \<open>PgFill c\<close> is a page all of whose bytes are \<open>c\<close> (after
  \<^verbatim>\<open>memset(p, c, PGSIZE)\<close>), \<open>PgRun r\<close> a free page: bytes 1, with the link \<open>r\<close> of the free list in
  its first eight.
\<close>

datatype page =
    PgFill uchar
  | PgRun addr
  | PgBytes "nat \<Rightarrow> uchar"
  | PgPtab "nat \<Rightarrow> uint64"
  | PgTrapframe trapframe
  | PgPipe pipe
  | PgPipeRt pipe_rt
  | PgNode pq_node
  | PgTimer xv6timer_t
  | PgDesc "nat \<Rightarrow> virtq_desc"
  | PgAvail virtq_avail
  | PgUsed virtq_used

section \<open>The kernel's global state\<close>

text \<open>Addresses the linker script and the assembler files define.\<close>

record symbols =
  sym_end :: addr
  sym_etext :: addr
  sym_trampoline :: addr
  sym_forkret :: addr
  sym_uservec :: addr
  sym_userret :: addr
  sym_kernelvec :: addr
  sym_usertrap :: addr
  sym_main :: addr

text \<open>What a call of the kernel's \<^verbatim>\<open>printf\<close> was given.\<close>

datatype parg = PInt cint | PLong uint64 | PStr "uchar list"

record kernel =
  lkst :: lockst
  syms :: symbols
  phys :: "addr \<Rightarrow> page"
  freelist :: addr
  kernel_pagetable :: addr
  satp :: uint64
  procs :: "nat \<Rightarrow> proc"
  nextpid :: cint
  initproc :: "nat option"
  ticks :: uint
  ftable :: "nat \<Rightarrow> kfile"
  shm_memory :: addr
  shm_refs :: int
  kout :: "(string \<times> parg list) list"
  slocks :: "slid \<Rightarrow> sleeplock"
  bufs :: "bufid \<Rightarrow> buf"
  klogst :: klog
  sblk :: superblock
  inodes :: "nat \<Rightarrow> inode"
  disk :: "nat \<Rightarrow> block"
  dwrites :: "(nat \<times> block) list"
  devsw :: "nat \<Rightarrow> devsw_t"
  cons :: console
  uart :: uart_t
  vdisk :: vdisk_t
  mmio :: "uint64 \<Rightarrow> uint"
  csr :: "csrname \<Rightarrow> uint64"
  irqs :: "uint list"
  started :: bool
  first_fork :: bool
  pr_locking :: bool
  panicked :: bool

type_synonym 'a kop = "(kernel, 'a) K"

abbreviation upd_proc :: "nat \<Rightarrow> (proc \<Rightarrow> proc) \<Rightarrow> kernel \<Rightarrow> kernel" where
  "upd_proc i f s \<equiv> s\<lparr>procs := (procs s)(i := f (procs s i))\<rparr>"

abbreviation upd_file :: "nat \<Rightarrow> (kfile \<Rightarrow> kfile) \<Rightarrow> kernel \<Rightarrow> kernel" where
  "upd_file i f s \<equiv> s\<lparr>ftable := (ftable s)(i := f (ftable s i))\<rparr>"

abbreviation set_page :: "addr \<Rightarrow> page \<Rightarrow> kernel \<Rightarrow> kernel" where
  "set_page a pg s \<equiv> s\<lparr>phys := (phys s)(a := pg)\<rparr>"

definition kprintf :: "string \<Rightarrow> parg list \<Rightarrow> unit kop" where
  "kprintf fmt args = modify (\<lambda>s. s\<lparr>kout := kout s @ [(fmt, args)]\<rparr>)"

lemma kprintf_run [simp]:
  "kprintf fmt args s e = Ok () (s\<lparr>kout := kout s @ [(fmt, args)]\<rparr>) e"
  by (simp add: kprintf_def)

section \<open>The state the kernel starts in\<close>

text \<open>
  Static variables without an initialiser are zero; \<^verbatim>\<open>nextpid\<close> starts at 1. The hart is number 0
  with interrupts off.
\<close>

definition zero_spinlock :: spinlock where
  "zero_spinlock = \<lparr>locked = False, lname = [], lcpu = None\<rparr>"

definition zero_cpu :: cpu where
  "zero_cpu = \<lparr>c_proc = None, noff = 0, intena = False\<rparr>"

definition zero_lockst :: lockst where
  "zero_lockst = \<lparr>hart = 0, cpus = (\<lambda>_. zero_cpu), sie = False, lks = (\<lambda>_. zero_spinlock)\<rparr>"

definition zero_kcontext :: kcontext where
  "zero_kcontext = \<lparr>ctx_ra = 0, ctx_sp = 0, ctx_s = (\<lambda>_. 0)\<rparr>"

definition zero_proc :: proc where
  "zero_proc = \<lparr>p_period = 0, p_next_run = 0, p_is_periodic = 0, p_state = UNUSED, p_chan = ChNull,
     p_killed = False, p_xstate = 0, p_pid = 0, p_cpu_mask = 0, p_timer = 0, p_parent = None,
     p_kstack = 0, p_sz = 0, p_pagetable = 0, p_trapframe = 0, p_context = zero_kcontext,
     p_ofile = (\<lambda>_. None), p_cwd = None, p_name = []\<rparr>"

definition zero_file :: kfile where
  "zero_file = \<lparr>f_type = FD_NONE, f_ref = 0, f_readable = 0, f_writable = 0, f_pipe = 0,
     f_ip = None, f_off = 0, f_major = 0\<rparr>"

definition zero_sleeplock :: sleeplock where
  "zero_sleeplock = \<lparr>sl_locked = False, sl_name = [], sl_pid = 0\<rparr>"

definition zero_buf :: buf where
  "zero_buf = \<lparr>b_valid = False, b_disk = False, b_dev = 0, b_blockno = 0, b_refcnt = 0, b_prev = BNull,
     b_next = BNull, b_data = (\<lambda>_. 0)\<rparr>"

definition zero_klog :: klog where
  "zero_klog = \<lparr>lg_start = 0, lg_size = 0, lg_outstanding = 0, lg_committing = False, lg_dev = 0,
     lh_n = 0, lh_block = (\<lambda>_. 0)\<rparr>"

definition zero_superblock :: superblock where
  "zero_superblock = \<lparr>sb_magic = 0, sb_size = 0, sb_nblocks = 0, sb_ninodes = 0, sb_nlog = 0,
     sb_logstart = 0, sb_inodestart = 0, sb_bmapstart = 0\<rparr>"

definition zero_inode :: inode where
  "zero_inode = \<lparr>i_dev = 0, i_inum = 0, i_ref = 0, i_valid = False, i_type = 0, i_major = 0,
     i_minor = 0, i_nlink = 0, i_size = 0, i_addrs = (\<lambda>_. 0)\<rparr>"

definition zero_console :: console where
  "zero_console = \<lparr>co_buf = (\<lambda>_. 0), co_r = 0, co_w = 0, co_e = 0\<rparr>"

definition zero_uart :: uart_t where
  "zero_uart = \<lparr>u_tx_buf = (\<lambda>_. 0), u_tx_w = 0, u_tx_r = 0, u_rx = [], u_room = 0, u_out = [],
     u_regs = (\<lambda>_. 0)\<rparr>"

definition zero_vdisk :: vdisk_t where
  "zero_vdisk = \<lparr>vd_desc = 0, vd_avail = 0, vd_used = 0, vd_free = (\<lambda>_. False), vd_used_idx = 0,
     vd_b = (\<lambda>_. BNull), vd_status = (\<lambda>_. 0),
     vd_ops = (\<lambda>_. \<lparr>rq_type = 0, rq_reserved = 0, rq_sector = 0\<rparr>)\<rparr>"

text \<open>The disk holds whatever it holds; the sample disk is blank.\<close>

definition boot_kernel :: "symbols \<Rightarrow> kernel" where
  "boot_kernel sy = \<lparr>lkst = zero_lockst, syms = sy, phys = (\<lambda>_. PgFill 0), freelist = 0,
     kernel_pagetable = 0, satp = 0, procs = (\<lambda>_. zero_proc), nextpid = 1, initproc = None, ticks = 0, ftable = (\<lambda>_. zero_file),
     shm_memory = 0, shm_refs = 0, kout = [], slocks = (\<lambda>_. zero_sleeplock), bufs = (\<lambda>_. zero_buf),
     klogst = zero_klog, sblk = zero_superblock, inodes = (\<lambda>_. zero_inode), disk = (\<lambda>_ _. 0),
     dwrites = [], devsw = (\<lambda>_. \<lparr>d_read = None, d_write = None\<rparr>), cons = zero_console,
     uart = zero_uart, vdisk = zero_vdisk, mmio = (\<lambda>_. 0), csr = (\<lambda>_. 0), irqs = [],
     started = False, first_fork = True, pr_locking = False, panicked = False\<rparr>"

lemmas zero_defs = zero_spinlock_def zero_cpu_def zero_lockst_def zero_kcontext_def zero_proc_def
  zero_file_def zero_sleeplock_def zero_buf_def zero_klog_def zero_superblock_def zero_inode_def
  zero_console_def zero_uart_def zero_vdisk_def boot_kernel_def

text \<open>Addresses such as a linker chooses.\<close>

definition sample_syms :: symbols where
  "sample_syms = \<lparr>sym_end = 0x80022000, sym_etext = 0x80008000, sym_trampoline = 0x80007000,
     sym_forkret = 0x80001A5C, sym_uservec = 0x80007000, sym_userret = 0x8000709A,
     sym_kernelvec = 0x80005B20, sym_usertrap = 0x80002210, sym_main = 0x80000E48\<rparr>"

end
