(* ===== verification/Spinlock.thy ===== *)
theory Spinlock
  imports KTypes
begin

text \<open>
  \<^verbatim>\<open>kernel/spinlock.c\<close>, with the interrupt-enable bit of \<^verbatim>\<open>riscv.h\<close> it works on, and \<^verbatim>\<open>cpuid\<close> and
  \<^verbatim>\<open>mycpu\<close> of \<^verbatim>\<open>proc.c\<close>.

  The operations are translated statement by statement. The second part says what they do when
  the lock is free and the interrupt bookkeeping is consistent (\<open>irq_ok\<close>): \<open>enter\<close> and \<open>leave\<close> are
  the net effects, \<open>leave\<close> undoes \<open>enter\<close>, and a critical section whose body leaves the locks
  alone has the effect of its body. The third part is a machine with any number of harts that
  run the same test-and-set and release instructions in any interleaving; the lock excludes.
\<close>

section \<open>The operations\<close>

definition cpuid :: "nat kop" where
  "cpuid = gets (\<lambda>s. hart (lkst s))"

text \<open>A pointer into \<^verbatim>\<open>cpus[]\<close> is the CPU's index.\<close>

definition mycpu :: "nat kop" where
  "mycpu = bind cpuid (\<lambda>id. ret id)"

definition intr_get :: "bool kop" where
  "intr_get = gets (\<lambda>s. sie (lkst s))"

definition intr_on :: "unit kop" where
  "intr_on = modify (\<lambda>s. s\<lparr>lkst := (lkst s)\<lparr>sie := True\<rparr>\<rparr>)"

definition intr_off :: "unit kop" where
  "intr_off = modify (\<lambda>s. s\<lparr>lkst := (lkst s)\<lparr>sie := False\<rparr>\<rparr>)"

definition cpu_at :: "nat \<Rightarrow> cpu kop" where
  "cpu_at c = gets (\<lambda>s. cpus (lkst s) c)"

definition upd_cpu :: "nat \<Rightarrow> (cpu \<Rightarrow> cpu) \<Rightarrow> unit kop" where
  "upd_cpu c f =
     modify (\<lambda>s. s\<lparr>lkst := (lkst s)\<lparr>cpus := (cpus (lkst s))(c := f (cpus (lkst s) c))\<rparr>\<rparr>)"

definition upd_lock :: "lockid \<Rightarrow> (spinlock \<Rightarrow> spinlock) \<Rightarrow> unit kop" where
  "upd_lock k f =
     modify (\<lambda>s. s\<lparr>lkst := (lkst s)\<lparr>lks := (lks (lkst s))(k := f (lks (lkst s) k))\<rparr>\<rparr>)"

definition push_off :: "unit kop" where
  "push_off =
     bind intr_get (\<lambda>old.
     seq intr_off (
     bind mycpu (\<lambda>c.
     bind (cpu_at c) (\<lambda>v.
     seq (whenK (noff v = 0) (upd_cpu c (\<lambda>v. v\<lparr>intena := old\<rparr>))) (
     upd_cpu c (\<lambda>v. v\<lparr>noff := noff v + 1\<rparr>))))))"

definition pop_off :: "unit kop" where
  "pop_off =
     bind mycpu (\<lambda>c.
     bind intr_get (\<lambda>on.
     seq (whenK on (panic ''pop_off - interruptible'')) (
     bind (cpu_at c) (\<lambda>v.
     seq (whenK (noff v < 1) (panic ''pop_off'')) (
     seq (upd_cpu c (\<lambda>v. v\<lparr>noff := noff v - 1\<rparr>)) (
     bind (cpu_at c) (\<lambda>w.
     whenK (noff w = 0 \<and> intena w) intr_on)))))))"

definition initlock :: "lockid \<Rightarrow> string \<Rightarrow> unit kop" where
  "initlock k nm = upd_lock k (\<lambda>l. l\<lparr>lname := nm, locked := False, lcpu := None\<rparr>)"

definition holding :: "lockid \<Rightarrow> bool kop" where
  "holding k =
     bind mycpu (\<lambda>c. gets (\<lambda>s. locked (lks (lkst s) k) \<and> lcpu (lks (lkst s) k) = Some c))"

text \<open>\<^verbatim>\<open>__sync_lock_test_and_set(&lk->locked, 1)\<close>: an atomic swap that returns the old value.\<close>

definition test_and_set :: "lockid \<Rightarrow> bool kop" where
  "test_and_set k =
     bind (gets (\<lambda>s. locked (lks (lkst s) k))) (\<lambda>old.
     seq (upd_lock k (\<lambda>l. l\<lparr>locked := True\<rparr>)) (
     ret old))"

definition acquire :: "lockid \<Rightarrow> unit kop" where
  "acquire k =
     seq push_off (
     bind (holding k) (\<lambda>h.
     seq (whenK h (panic ''acquire'')) (
     seq (loopK (\<lambda>_. bind (test_and_set k) (\<lambda>old.
            if old then seq give_way (ret (Inl ())) else ret (Inr ()))) ()) (
     bind mycpu (\<lambda>c.
     upd_lock k (\<lambda>l. l\<lparr>lcpu := Some c\<rparr>))))))"

definition release :: "lockid \<Rightarrow> unit kop" where
  "release k =
     bind (holding k) (\<lambda>h.
     seq (whenK (\<not> h) (panic ''release'')) (
     seq (upd_lock k (\<lambda>l. l\<lparr>lcpu := None\<rparr>)) (
     seq (upd_lock k (\<lambda>l. l\<lparr>locked := False\<rparr>)) (
     pop_off))))"

lemmas spinlock_prims = cpuid_def mycpu_def intr_get_def intr_on_def intr_off_def cpu_at_def
  upd_cpu_def upd_lock_def

section \<open>Net effects\<close>

text \<open>The lock is nobody's.\<close>

definition lk_free :: "lockid \<Rightarrow> lockst \<Rightarrow> bool" where
  "lk_free k l \<longleftrightarrow> \<not> locked (lks l k) \<and> lcpu (lks l k) = None"

text \<open>This hart holds the lock.\<close>

definition lk_held :: "lockid \<Rightarrow> lockst \<Rightarrow> bool" where
  "lk_held k l \<longleftrightarrow> locked (lks l k) \<and> lcpu (lks l k) = Some (hart l)"

text \<open>
  The nesting depth agrees with the interrupt bit: at depth zero the saved bit is the current
  one, above it interrupts are off. Every \<^verbatim>\<open>push_off\<close>/\<^verbatim>\<open>pop_off\<close> pair establishes it (\<^verbatim>\<open>syscall()\<close>
  begins with one), and every operation of this file keeps it.
\<close>

definition irq_ok :: "lockst \<Rightarrow> bool" where
  "irq_ok l \<longleftrightarrow> 0 \<le> noff (cpus l (hart l)) \<and>
     (if noff (cpus l (hart l)) = 0 then intena (cpus l (hart l)) = sie l else \<not> sie l)"

definition push_st :: "lockst \<Rightarrow> lockst" where
  "push_st l = l\<lparr>sie := False, cpus := (cpus l)(hart l :=
     (cpus l (hart l))\<lparr>intena := (if noff (cpus l (hart l)) = 0 then sie l else intena (cpus l (hart l))),
       noff := noff (cpus l (hart l)) + 1\<rparr>)\<rparr>"

definition pop_st :: "lockst \<Rightarrow> lockst" where
  "pop_st l =
     (let m = l\<lparr>cpus := (cpus l)(hart l := (cpus l (hart l))\<lparr>noff := noff (cpus l (hart l)) - 1\<rparr>)\<rparr>
      in if noff (cpus l (hart l)) = 1 \<and> intena (cpus l (hart l)) then m\<lparr>sie := True\<rparr> else m)"

definition enter :: "lockid \<Rightarrow> lockst \<Rightarrow> lockst" where
  "enter k l = (push_st l)\<lparr>lks := (lks l)(k := (lks l k)\<lparr>locked := True, lcpu := Some (hart l)\<rparr>)\<rparr>"

definition leave :: "lockid \<Rightarrow> lockst \<Rightarrow> lockst" where
  "leave k l = pop_st (l\<lparr>lks := (lks l)(k := (lks l k)\<lparr>lcpu := None, locked := False\<rparr>)\<rparr>)"

lemmas net_defs = push_st_def pop_st_def Let_def enter_def leave_def lk_free_def lk_held_def irq_ok_def

lemma push_off_run: "push_off s e = Ok () (s\<lparr>lkst := push_st (lkst s)\<rparr>) e"
  by (simp add: push_off_def spinlock_prims monad_defs push_st_def whenK_def)

lemma pop_off_run:
  assumes "\<not> sie (lkst s)" and "1 \<le> noff (cpus (lkst s) (hart (lkst s)))"
  shows "pop_off s e = Ok () (s\<lparr>lkst := pop_st (lkst s)\<rparr>) e"
  using assms by (auto simp: pop_off_def spinlock_prims monad_defs pop_st_def Let_def whenK_def)

lemma pop_off_panics:
  "sie (lkst s) \<Longrightarrow> pop_off s e = Stop (Panic ''pop_off - interruptible'')"
  "\<not> sie (lkst s) \<Longrightarrow> noff (cpus (lkst s) (hart (lkst s))) < 1 \<Longrightarrow>
     pop_off s e = Stop (Panic ''pop_off'')"
  by (simp_all add: pop_off_def spinlock_prims monad_defs whenK_def)

lemma holding_run: "holding k s e = Ok (lk_held k (lkst s)) s e"
  by (simp add: holding_def spinlock_prims monad_defs lk_held_def)

lemma lk_held_push [simp]: "lk_held k (push_st l) = lk_held k l"
  by (simp add: net_defs)

lemma lk_free_not_held: "lk_free k l \<Longrightarrow> \<not> lk_held k l"
  by (simp add: net_defs)

lemma test_and_set_run:
  "test_and_set k s e = Ok (locked (lks (lkst s) k))
     (s\<lparr>lkst := (lkst s)\<lparr>lks := (lks (lkst s))(k := (lks (lkst s) k)\<lparr>locked := True\<rparr>)\<rparr>\<rparr>) e"
  by (simp add: test_and_set_def spinlock_prims monad_defs)

lemma acquire_free:
  fixes s :: kernel
  assumes "lk_free k (lkst s)"
  shows "acquire k s e = Ok () (s\<lparr>lkst := enter k (lkst s)\<rparr>) e"
proof -
  let ?s = "s\<lparr>lkst := push_st (lkst s)\<rparr>"
  have loop: "loopK (\<lambda>_. bind (test_and_set k) (\<lambda>old.
        if old then seq give_way (ret (Inl ())) else ret (Inr ()))) () ?s e =
      Ok () (?s\<lparr>lkst := (lkst ?s)\<lparr>lks := (lks (lkst ?s))(k := (lks (lkst ?s) k)\<lparr>locked := True\<rparr>)\<rparr>\<rparr>) e"
    using assms by (intro loopK_done) (simp add: bind_def test_and_set_run net_defs)
  show ?thesis
    using assms loop
    by (simp add: acquire_def seq_def bind_def push_off_run holding_run lk_free_not_held
          spinlock_prims gets_def modify_def ret_def)
       (simp add: net_defs)
qed

lemma acquire_held_panics:
  "lk_held k (lkst s) \<Longrightarrow> acquire k s e = Stop (Panic ''acquire'')"
  by (simp add: acquire_def seq_def bind_def push_off_run holding_run)

lemma release_held:
  assumes "lk_held k (lkst s)" and "\<not> sie (lkst s)" and "1 \<le> noff (cpus (lkst s) (hart (lkst s)))"
  shows "release k s e = Ok () (s\<lparr>lkst := leave k (lkst s)\<rparr>) e"
  using assms
  by (simp add: release_def seq_def bind_def holding_run upd_lock_def modify_def pop_off_run leave_def)

lemma release_not_held_panics:
  "\<not> lk_held k (lkst s) \<Longrightarrow> release k s e = Stop (Panic ''release'')"
  by (simp add: release_def seq_def bind_def holding_run)

lemma irq_ok_enter [simp]: "irq_ok l \<Longrightarrow> irq_ok (enter k l)"
  by (simp add: net_defs)

lemma enter_sie [simp]: "\<not> sie (enter k l)" "hart (enter k l) = hart l"
  by (simp_all add: net_defs)

lemma enter_noff [simp]:
  "noff (cpus (enter k l) c) = (if c = hart l then noff (cpus l c) + 1 else noff (cpus l c))"
  by (simp add: net_defs)

lemma enter_c_proc [simp]: "c_proc (cpus (enter k l) c) = c_proc (cpus l c)"
  by (simp add: net_defs)

lemma lk_held_enter [simp]: "lk_held k (enter k l)"
  by (simp add: net_defs)

lemma lk_held_enter_other [simp]: "k \<noteq> j \<Longrightarrow> lk_held j (enter k l) = lk_held j l"
  by (simp add: net_defs)

lemma lk_free_enter_other [simp]: "k \<noteq> j \<Longrightarrow> lk_free j (enter k l) = lk_free j l"
  by (simp add: net_defs)

lemma not_free_enter [simp]: "\<not> lk_free k (enter k l)"
  by (simp add: net_defs)

lemma leave_enter [simp]:
  assumes "lk_free k l" and "irq_ok l"
  shows "leave k (enter k l) = l"
proof -
  have "(lks l)(k := (lks l k)\<lparr>lcpu := None, locked := False\<rparr>) = lks l"
    using assms(1) by (auto simp: lk_free_def fun_eq_iff intro!: spinlock.equality)
  moreover have "(cpus l)(hart l := (cpus l (hart l))\<lparr>intena := (if noff (cpus l (hart l)) = 0 then sie l
      else intena (cpus l (hart l)))\<rparr>) = cpus l"
    using assms(2) by (auto simp: irq_ok_def fun_eq_iff intro!: cpu.equality)
  ultimately show ?thesis
    using assms(2) by (auto simp: enter_def leave_def push_st_def pop_st_def Let_def irq_ok_def)
qed

lemma leave_enter_enter [simp]:
  assumes "k \<noteq> j" and "lk_free k l" and "irq_ok l"
  shows "leave k (enter j (enter k l)) = enter j l"
proof (rule lockst.equality)
  have "(lks l k)\<lparr>lcpu := None, locked := False\<rparr> = lks l k"
    using assms(2) by (auto simp: lk_free_def intro!: spinlock.equality)
  then show "lks (leave k (enter j (enter k l))) = lks (enter j l)"
    using assms(1) by (auto simp: net_defs fun_eq_iff)
qed (use assms in \<open>auto simp: net_defs fun_eq_iff\<close>)

text \<open>Releasing what was entered last.\<close>

lemma release_enter:
  assumes "irq_ok l" and "lkst s = enter k l"
  shows "release k s e = Ok () (s\<lparr>lkst := leave k (enter k l)\<rparr>) e"
  using assms release_held [of k s e] by (simp add: net_defs)

section \<open>The contract a client relies on\<close>

text \<open>
  A client of a lock knows four things: acquiring a free lock enters the section, releasing a
  held one leaves it, a lock just entered is held, and leaving undoes entering.
\<close>

locale mutex =
  fixes acq rel :: "'k \<Rightarrow> unit kop"
    and avail own :: "'k \<Rightarrow> lockst \<Rightarrow> bool"
    and ent lv :: "'k \<Rightarrow> lockst \<Rightarrow> lockst"
  assumes acq_avail: "avail k (lkst s) \<Longrightarrow> acq k s e = Ok () (s\<lparr>lkst := ent k (lkst s)\<rparr>) e"
    and rel_own: "own k (lkst s) \<Longrightarrow> rel k s e = Ok () (s\<lparr>lkst := lv k (lkst s)\<rparr>) e"
    and own_ent: "avail k l \<Longrightarrow> own k (ent k l)"
    and lv_ent: "avail k l \<Longrightarrow> lv k (ent k l) = l"
begin

text \<open>A critical section whose body does not touch the locks has its body's effect.\<close>

lemma critical_section:
  assumes "avail k (lkst s)"
    and "body (s\<lparr>lkst := ent k (lkst s)\<rparr>) e = Ok a t d"
    and "lkst t = ent k (lkst s)"
  shows "seq (acq k) (bind body (\<lambda>r. seq (rel k) (f r))) s e = f a (t\<lparr>lkst := lkst s\<rparr>) d"
  using assms by (simp add: seq_def bind_def acq_avail rel_own own_ent lv_ent)

lemma empty_section: "avail k (lkst s) \<Longrightarrow> seq (acq k) (rel k) s e = Ok () s e"
  by (simp add: seq_def acq_avail rel_own own_ent lv_ent)

end

definition lk_avail :: "lockid \<Rightarrow> lockst \<Rightarrow> bool" where
  "lk_avail k l \<longleftrightarrow> lk_free k l \<and> irq_ok l"

definition lk_own :: "lockid \<Rightarrow> lockst \<Rightarrow> bool" where
  "lk_own k l \<longleftrightarrow> lk_held k l \<and> \<not> sie l \<and> 1 \<le> noff (cpus l (hart l))"

interpretation spin: mutex acquire release lk_avail lk_own enter leave
proof
  fix k :: lockid and s :: kernel and e
  assume "lk_avail k (lkst s)"
  then show "acquire k s e = Ok () (s\<lparr>lkst := enter k (lkst s)\<rparr>) e"
    by (simp add: lk_avail_def acquire_free)
next
  fix k :: lockid and s :: kernel and e
  assume "lk_own k (lkst s)"
  then show "release k s e = Ok () (s\<lparr>lkst := leave k (lkst s)\<rparr>) e"
    by (simp add: lk_own_def release_held)
next
  fix k l
  assume "lk_avail k l"
  then show "lk_own k (enter k l)" and "leave k (enter k l) = l"
    by (auto simp: lk_avail_def lk_own_def irq_ok_def)
qed

declare spin.acq_avail [ksimps] spin.rel_own [ksimps] spin.own_ent [ksimps] spin.lv_ent [ksimps]

lemma lk_avail_enter [simp]: "k \<noteq> j \<Longrightarrow> lk_avail j (enter k l) = (lk_avail j l \<or> lk_free j l \<and> irq_ok (enter k l))"
  by (auto simp: lk_avail_def)

section \<open>Many harts, one lock\<close>

text \<open>
  Where a hart is in the code of one lock: outside, in the test-and-set loop of \<open>acquire\<close>, past
  the loop with \<open>lk->cpu\<close> not yet written, in the critical section, and in \<open>release\<close> with
  \<open>lk->cpu\<close> cleared and \<open>lk->locked\<close> still set. Each step is one memory access of one hart.
\<close>

datatype hart_pc = Outside | Spinning | Swapped | Critical | Releasing

record lock_sys =
  pcs :: "nat \<Rightarrow> hart_pc"
  the_lock :: spinlock

inductive hart_step :: "lock_sys \<Rightarrow> lock_sys \<Rightarrow> bool" where
  acquire_enter: "pcs s h = Outside \<Longrightarrow>
     \<not> (locked (the_lock s) \<and> lcpu (the_lock s) = Some h) \<Longrightarrow>
     hart_step s (s\<lparr>pcs := (pcs s)(h := Spinning)\<rparr>)"
| acquire_spin: "pcs s h = Spinning \<Longrightarrow> locked (the_lock s) \<Longrightarrow>
     hart_step s (s\<lparr>the_lock := (the_lock s)\<lparr>locked := True\<rparr>\<rparr>)"
| acquire_swap: "pcs s h = Spinning \<Longrightarrow> \<not> locked (the_lock s) \<Longrightarrow>
     hart_step s (s\<lparr>pcs := (pcs s)(h := Swapped), the_lock := (the_lock s)\<lparr>locked := True\<rparr>\<rparr>)"
| acquire_cpu: "pcs s h = Swapped \<Longrightarrow>
     hart_step s (s\<lparr>pcs := (pcs s)(h := Critical), the_lock := (the_lock s)\<lparr>lcpu := Some h\<rparr>\<rparr>)"
| release_cpu: "pcs s h = Critical \<Longrightarrow> locked (the_lock s) \<and> lcpu (the_lock s) = Some h \<Longrightarrow>
     hart_step s (s\<lparr>pcs := (pcs s)(h := Releasing), the_lock := (the_lock s)\<lparr>lcpu := None\<rparr>\<rparr>)"
| release_unlock: "pcs s h = Releasing \<Longrightarrow>
     hart_step s (s\<lparr>pcs := (pcs s)(h := Outside), the_lock := (the_lock s)\<lparr>locked := False\<rparr>\<rparr>)"

definition lock_sys_init :: "string \<Rightarrow> lock_sys" where
  "lock_sys_init nm =
     \<lparr>pcs = (\<lambda>_. Outside), the_lock = \<lparr>locked = False, lname = nm, lcpu = None\<rparr>\<rparr>"

inductive lock_reachable :: "lock_sys \<Rightarrow> bool" where
  init: "lock_reachable (lock_sys_init nm)"
| step: "lock_reachable s \<Longrightarrow> hart_step s t \<Longrightarrow> lock_reachable t"

definition owns :: "hart_pc \<Rightarrow> bool" where
  "owns pc \<longleftrightarrow> pc = Swapped \<or> pc = Critical \<or> pc = Releasing"

definition lock_sys_inv :: "lock_sys \<Rightarrow> bool" where
  "lock_sys_inv s \<longleftrightarrow>
     (\<forall>h g. owns (pcs s h) \<longrightarrow> owns (pcs s g) \<longrightarrow> h = g) \<and>
     (locked (the_lock s) \<longleftrightarrow> (\<exists>h. owns (pcs s h))) \<and>
     (\<forall>h. lcpu (the_lock s) = Some h \<longleftrightarrow> pcs s h = Critical)"

lemma owns_simps [simp]:
  "\<not> owns Outside" "\<not> owns Spinning" "owns Swapped" "owns Critical" "owns Releasing"
  by (simp_all add: owns_def)

lemma hart_step_inv:
  assumes "hart_step s t" and "lock_sys_inv s"
  shows "lock_sys_inv t"
  using assms
proof (induction rule: hart_step.induct)
  case (acquire_enter s h)
  then show ?case by (auto simp: lock_sys_inv_def) (metis hart_pc.distinct(5) owns_simps(1))+
next
  case (acquire_spin s h)
  then show ?case by (auto simp: lock_sys_inv_def)
next
  case (acquire_swap s h)
  then show ?case by (auto simp: lock_sys_inv_def)
next
  case (acquire_cpu s h)
  then show ?case by (auto simp: lock_sys_inv_def) (metis owns_simps)+
next
  case (release_cpu s h)
  then show ?case by (auto simp: lock_sys_inv_def)
next
  case (release_unlock s h)
  then show ?case by (auto simp: lock_sys_inv_def)
qed

lemma lock_reachable_inv: "lock_reachable s \<Longrightarrow> lock_sys_inv s"
proof (induction rule: lock_reachable.induct)
  case (init nm)
  show ?case by (simp add: lock_sys_inv_def lock_sys_init_def)
next
  case (step s t)
  then show ?case by (blast intro: hart_step_inv)
qed

lemma boot_lk_avail: "lk_avail k (lkst (boot_kernel sy))"
  by (simp add: lk_avail_def net_defs zero_defs)

section \<open>Properties\<close>

text \<open>
  C1. A spin lock excludes: in every state that any number of harts can reach by running
  \<^verbatim>\<open>acquire\<close> and \<^verbatim>\<open>release\<close> on one lock, in any interleaving of their memory accesses, at most one
  hart is between its successful swap in \<^verbatim>\<open>acquire\<close> and its store of 0 in \<^verbatim>\<open>release\<close>, and the lock's
  \<^verbatim>\<open>locked\<close> and \<^verbatim>\<open>cpu\<close> fields say which one is in the critical section.
\<close>

theorem spinlock_excludes:
  assumes "lock_reachable s"
  shows "(owns (pcs s h) \<longrightarrow> owns (pcs s g) \<longrightarrow> h = g) \<and>
    (pcs s h = Critical \<longrightarrow> locked (the_lock s) \<and> lcpu (the_lock s) = Some h)"
  using lock_reachable_inv [OF assms] unfolding lock_sys_inv_def by (metis owns_simps(4))

definition one_critical :: lock_sys where
  "one_critical = \<lparr>pcs = (\<lambda>_. Outside)(3 := Critical, 5 := Spinning),
     the_lock = \<lparr>locked = True, lname = ''kmem'', lcpu = Some 3\<rparr>\<rparr>"

lemma one_critical_reachable: "lock_reachable one_critical"
proof -
  let ?s0 = "lock_sys_init ''kmem''"
  let ?s1 = "?s0\<lparr>pcs := (pcs ?s0)(3 := Spinning)\<rparr>"
  let ?s2 = "?s1\<lparr>pcs := (pcs ?s1)(5 := Spinning)\<rparr>"
  let ?s3 = "?s2\<lparr>pcs := (pcs ?s2)(3 := Swapped), the_lock := (the_lock ?s2)\<lparr>locked := True\<rparr>\<rparr>"
  let ?s4 = "?s3\<lparr>pcs := (pcs ?s3)(3 := Critical), the_lock := (the_lock ?s3)\<lparr>lcpu := Some 3\<rparr>\<rparr>"
  have "lock_reachable ?s1"
    by (rule lock_reachable.step [OF lock_reachable.init], rule acquire_enter)
       (simp_all add: lock_sys_init_def)
  then have "lock_reachable ?s2"
    by (rule lock_reachable.step, intro acquire_enter) (simp_all add: lock_sys_init_def)
  then have "lock_reachable ?s3"
    by (rule lock_reachable.step, intro acquire_swap) (simp_all add: lock_sys_init_def)
  then have "lock_reachable ?s4"
    by (rule lock_reachable.step, intro acquire_cpu) (simp_all add: lock_sys_init_def)
  moreover have "?s4 = one_critical"
    by (rule lock_sys.equality) (auto simp: one_critical_def lock_sys_init_def)
  ultimately show ?thesis by simp
qed

theorem spinlock_excludes_witness:
  "lock_reachable one_critical \<and> pcs one_critical 3 = Critical \<and>
   lcpu (the_lock one_critical) = Some 3 \<and> \<not> owns (pcs one_critical 5)"
  using spinlock_excludes [OF one_critical_reachable, of 3 5] one_critical_reachable
  by (simp add: one_critical_def)

text \<open>
  C2. \<^verbatim>\<open>release\<close> undoes \<^verbatim>\<open>acquire\<close>: on a hart whose interrupt bookkeeping is consistent, acquiring
  a free lock and releasing it again gives exactly the state before, interrupt-enable bit,
  nesting depth and every other lock included; while it is held, interrupts are off and a second
  \<^verbatim>\<open>acquire\<close> panics.
\<close>

theorem acquire_release_restores:
  assumes "lk_avail k (lkst s)"
  shows "seq (acquire k) (release k) s e = Ok () s e \<and>
    (\<exists>t. acquire k s e = Ok () t e \<and> \<not> sie (lkst t) \<and> lk_held k (lkst t) \<and>
           acquire k t e = Stop (Panic ''acquire''))"
proof
  show "seq (acquire k) (release k) s e = Ok () s e"
    by (rule spin.empty_section [OF assms])
  show "\<exists>t. acquire k s e = Ok () t e \<and> \<not> sie (lkst t) \<and> lk_held k (lkst t) \<and>
           acquire k t e = Stop (Panic ''acquire'')"
    using spin.acq_avail [OF assms, of e] by (auto intro!: acquire_held_panics)
qed

theorem acquire_release_restores_witness:
  "seq (acquire LkKmem) (release LkKmem) (boot_kernel sample_syms) [] =
     Ok () (boot_kernel sample_syms) []"
  by (rule acquire_release_restores [OF boot_lk_avail, THEN conjunct1])

end
