(* ===== verification/PageArith.thy ===== *)
theory PageArith
  imports KTypes
begin

text \<open>
  Arithmetic of pages, page-table entries and page-table indices (the macros of \<^verbatim>\<open>riscv.h\<close>):
  rounding, alignment, the split of a virtual address into its three indices and its offset,
  and the packing of a physical address and flags into an entry.
\<close>

lemma and_not_mask_word: "x AND NOT (mask n) = push_bit n (drop_bit n (x :: 'a::len word))"
  by (rule bit_eqI) (auto simp: bit_simps)

lemma unat_push_drop: "unat (push_bit n (drop_bit n (x :: 'a::len word))) = unat x div 2 ^ n * 2 ^ n"
proof -
  have "unat (push_bit n (drop_bit n x)) = take_bit LENGTH('a) (unat x div 2 ^ n * 2 ^ n)"
    by (simp only: unsigned_push_bit_eq unat_drop_bit_eq)
       (simp only: push_bit_eq_mult drop_bit_eq_div)
  also have "\<dots> = unat x div 2 ^ n * 2 ^ n"
    by (rule take_bit_nat_eq_self) (meson div_times_less_eq_dividend le_less_trans unsigned_less)
  finally show ?thesis .
qed

lemma PGSIZE_mask: "PGSIZE - 1 = mask 12"
  by (simp add: PGSIZE_def mask_eq_exp_minus_1)

lemma unat_PGSIZE [simp]: "unat PGSIZE = 4096"
  by (simp add: PGSIZE_def)

lemma unat_PHYSTOP: "unat PHYSTOP = 0x88000000"
  by (simp add: PHYSTOP_def KERNBASE_def)

lemma unat_MAXVA: "unat MAXVA = 2 ^ 38"
  by (simp add: MAXVA_def)

lemma unat_PGROUNDDOWN: "unat (PGROUNDDOWN a) = unat a div 4096 * 4096"
  unfolding PGROUNDDOWN_def PGSIZE_mask and_not_mask_word unat_push_drop by simp

lemma unat_PGROUNDUP:
  assumes "unat a + 4095 < 2 ^ 64"
  shows "unat (PGROUNDUP a) = (unat a + 4095) div 4096 * 4096"
proof -
  have "PGROUNDUP a = (a + 4095) AND NOT (mask 12)"
    by (simp add: PGROUNDUP_def PGSIZE_def mask_eq_exp_minus_1 add.commute)
  moreover have "unat (a + 4095) = unat a + 4095"
    using assms by (simp add: unat_word_ariths)
  ultimately show ?thesis
    unfolding and_not_mask_word by (simp only: unat_push_drop) simp
qed

lemma page_aligned_iff: "a mod PGSIZE = 0 \<longleftrightarrow> unat a mod 4096 = 0"
proof -
  have "a mod PGSIZE = 0 \<longleftrightarrow> unat (a mod PGSIZE) = 0"
    by (simp add: unat_eq_zero)
  then show ?thesis by (simp add: unat_mod_distrib)
qed

lemma PGROUNDDOWN_aligned [simp]: "PGROUNDDOWN a mod PGSIZE = 0"
  by (simp add: page_aligned_iff unat_PGROUNDDOWN)

lemma PGROUNDDOWN_of_aligned: "a mod PGSIZE = 0 \<Longrightarrow> PGROUNDDOWN a = a"
  by (rule word_unat_eq_iff [THEN iffD2])
     (auto simp: unat_PGROUNDDOWN page_aligned_iff mod_eq_0_iff_dvd)

lemma PGROUNDUP_aligned: "unat a + 4095 < 2 ^ 64 \<Longrightarrow> PGROUNDUP a mod PGSIZE = 0"
  by (simp add: page_aligned_iff unat_PGROUNDUP)

lemma PGROUNDUP_ge: "unat a + 4095 < 2 ^ 64 \<Longrightarrow> a \<le> PGROUNDUP a"
  by (simp add: word_le_nat_alt unat_PGROUNDUP)

lemma unat_add_PGSIZE: "unat a + 4096 < 2 ^ 64 \<Longrightarrow> unat (a + PGSIZE) = unat a + 4096"
  by (simp add: unat_word_ariths)

section \<open>Page-table entries\<close>

lemma PTE2PA_PA2PTE:
  assumes "pa mod PGSIZE = 0" and "unat pa < 2 ^ 56" and "flags AND NOT (mask 10) = 0"
  shows "PTE2PA (PA2PTE pa OR flags) = pa"
proof (rule bit_eqI)
  fix n assume "possible_bit TYPE(64 word) n"
  then have "n < 64" by simp
  have low: "\<not> bit pa i" if "i < 12" for i
  proof -
    have "pa AND mask 12 = 0"
      using assms(1) word_mod_2p_is_mask [of 12 pa] by (simp add: PGSIZE_def)
    then have "\<not> bit (pa AND mask 12) i" by simp
    with that show ?thesis by (simp add: bit_simps)
  qed
  have "take_bit 56 pa = pa"
    using assms(2) by (intro word_unat_eq_iff [THEN iffD2])
      (simp add: unsigned_take_bit_eq take_bit_nat_eq_self)
  then have high: "\<not> bit pa i" if "56 \<le> i" for i
    using that by (metis bit_take_bit_iff linorder_not_less)
  have fl: "\<not> bit flags i" if "10 \<le> i" "i < 64" for i
  proof -
    have "\<not> bit (flags AND NOT (mask 10)) i" using assms(3) by simp
    with that show ?thesis by (simp add: bit_simps)
  qed
  show "bit (PTE2PA (PA2PTE pa OR flags)) n = bit pa n"
  proof (cases "n < 12")
    case True
    with low [of n] show ?thesis by (simp add: PTE2PA_def bit_simps)
  next
    case False
    then obtain m where m: "n = 12 + m" using le_Suc_ex [of 12 n] by auto
    with \<open>n < 64\<close> high [of n] fl [of "10 + m"] show ?thesis
      by (auto simp: PTE2PA_def PA2PTE_def bit_simps)
  qed
qed

end
