(* ===== verification/Kalloc.thy ===== *)
theory Kalloc
  imports Spinlock PageArith
begin

text \<open>
  \<^verbatim>\<open>kernel/kalloc.c\<close>: the allocator of 4096-byte pages. The free pages are chained through
  their own first word; \<open>free_pages s xs\<close> says that the chain from \<^verbatim>\<open>kmem.freelist\<close> runs through
  exactly the pages \<open>xs\<close>, which are distinct, aligned and inside the allocatable range.
  The allocator is a stack of pages: \<^verbatim>\<open>kalloc\<close> pops, \<^verbatim>\<open>kfree\<close> pushes, \<^verbatim>\<open>freerange\<close> pushes a
  range. The locale \<open>page_allocator\<close> is what the other components know about it.
\<close>

section \<open>The operations\<close>

text \<open>\<^verbatim>\<open>r->next\<close> of a page used as a \<^verbatim>\<open>struct run\<close>.\<close>

definition as_run :: "page \<Rightarrow> addr option" where
  "as_run pg = (case pg of PgRun n \<Rightarrow> Some n | _ \<Rightarrow> None)"

text \<open>\<^verbatim>\<open>memset(pa, c, PGSIZE)\<close> on a page.\<close>

definition memset_page :: "addr \<Rightarrow> uchar \<Rightarrow> unit kop" where
  "memset_page pa c = modify (\<lambda>s. set_page pa (PgFill c) s)"

definition kfree :: "addr \<Rightarrow> unit kop" where
  "kfree pa =
     bind (gets (\<lambda>s. sym_end (syms s))) (\<lambda>kend.
     seq (whenK (pa mod PGSIZE \<noteq> 0 \<or> pa < kend \<or> pa \<ge> PHYSTOP) (panic ''kfree'')) (
     seq (memset_page pa 1) (
     seq (acquire LkKmem) (
     seq (modify (\<lambda>s. set_page pa (PgRun (freelist s)) s)) (
     seq (modify (\<lambda>s. s\<lparr>freelist := pa\<rparr>)) (
     release LkKmem))))))"

definition kalloc :: "addr kop" where
  "kalloc =
     seq (acquire LkKmem) (
     bind (gets freelist) (\<lambda>r.
     seq (whenK (r \<noteq> 0) (
       bind (gets (\<lambda>s. phys s r)) (\<lambda>pg.
       bind (need (as_run pg)) (\<lambda>n.
       modify (\<lambda>s. s\<lparr>freelist := n\<rparr>))))) (
     seq (release LkKmem) (
     seq (whenK (r \<noteq> 0) (memset_page r 5)) (
     ret r)))))"

definition freerange :: "addr \<Rightarrow> addr \<Rightarrow> unit kop" where
  "freerange pa_start pa_end =
     loopK (\<lambda>p. if p + PGSIZE \<le> pa_end then seq (kfree p) (ret (Inl (p + PGSIZE))) else ret (Inr ()))
       (PGROUNDUP pa_start)"

definition kinit :: "unit kop" where
  "kinit =
     seq (initlock LkKmem ''kmem'') (
     bind (gets (\<lambda>s. sym_end (syms s))) (\<lambda>kend.
     freerange kend PHYSTOP))"

section \<open>The free list\<close>

primrec chain :: "(addr \<Rightarrow> page) \<Rightarrow> addr \<Rightarrow> addr list \<Rightarrow> bool" where
  "chain m a [] \<longleftrightarrow> a = 0"
| "chain m a (x # xs) \<longleftrightarrow> a = x \<and> x \<noteq> 0 \<and> (\<exists>n. m x = PgRun n \<and> chain m n xs)"

definition allocatable :: "kernel \<Rightarrow> addr \<Rightarrow> bool" where
  "allocatable s pa \<longleftrightarrow> pa \<noteq> 0 \<and> pa mod PGSIZE = 0 \<and> sym_end (syms s) \<le> pa \<and> pa < PHYSTOP"

definition free_pages :: "kernel \<Rightarrow> addr list \<Rightarrow> bool" where
  "free_pages s xs \<longleftrightarrow>
     chain (phys s) (freelist s) xs \<and> distinct xs \<and> (\<forall>x \<in> set xs. allocatable s x)"

lemma chain_upd [simp]: "a \<notin> set xs \<Longrightarrow> chain (m(a := pg)) x xs = chain m x xs"
  by (induction xs arbitrary: x) auto

lemma chain_unique: "chain m a xs \<Longrightarrow> chain m a ys \<Longrightarrow> xs = ys"
proof (induction xs arbitrary: a ys)
  case Nil
  then show ?case by (cases ys) auto
next
  case (Cons x xs)
  then show ?case by (cases ys) auto
qed

lemma free_pages_unique: "free_pages s xs \<Longrightarrow> free_pages s ys \<Longrightarrow> xs = ys"
  by (auto simp: free_pages_def intro: chain_unique)

lemma free_pages_Nil_iff: "free_pages s xs \<Longrightarrow> (freelist s = 0) = (xs = [])"
  by (cases xs) (auto simp: free_pages_def)

lemma allocatable_cong: "syms t = syms s \<Longrightarrow> allocatable t = allocatable s"
  by (simp add: allocatable_def fun_eq_iff)

text \<open>Changing a page that is not free, or anything but the pages, leaves the free list alone.\<close>

lemma free_pages_cong:
  assumes "free_pages s xs" and "syms t = syms s" and "freelist t = freelist s"
    and "\<And>x. x \<in> set xs \<Longrightarrow> phys t x = phys s x"
  shows "free_pages t xs"
proof -
  have "chain (phys t) a ys = chain (phys s) a ys" if "set ys \<subseteq> set xs" for a ys
    using that assms(4) by (induction ys arbitrary: a) auto
  with assms show ?thesis
    unfolding free_pages_def by (simp add: allocatable_cong [OF assms(2)])
qed

lemma free_pages_set_page:
  "free_pages s xs \<Longrightarrow> a \<notin> set xs \<Longrightarrow> free_pages (set_page a pg s) xs"
  by (erule free_pages_cong) auto

section \<open>What the operations do\<close>

text \<open>The effects of \<^verbatim>\<open>kalloc\<close> and \<^verbatim>\<open>kfree\<close> as functions of the state.\<close>

definition kalloc_st :: "kernel \<Rightarrow> kernel" where
  "kalloc_st s = (case as_run (phys s (freelist s)) of
       None \<Rightarrow> s
     | Some n \<Rightarrow> if freelist s = 0 then s
                else s\<lparr>freelist := n, phys := (phys s)(freelist s := PgFill 5)\<rparr>)"

definition kfree_st :: "addr \<Rightarrow> kernel \<Rightarrow> kernel" where
  "kfree_st pa s = s\<lparr>phys := (phys s)(pa := PgRun (freelist s)), freelist := pa\<rparr>"

lemma kalloc_run:
  assumes "free_pages s xs" and "lk_avail LkKmem (lkst s)"
  shows "kalloc s e = Ok (freelist s) (kalloc_st s) e"
proof (cases xs)
  case Nil
  with assms have "freelist s = 0" by (simp add: free_pages_def)
  with assms show ?thesis
    by (simp add: kalloc_def seq_def bind_def ksimps kalloc_st_def memset_page_def split: option.split)
next
  case (Cons a as)
  with assms(1) obtain n where "freelist s = a" "a \<noteq> 0" "phys s a = PgRun n"
    by (auto simp: free_pages_def)
  with assms show ?thesis
    by (simp add: kalloc_def seq_def bind_def ksimps kalloc_st_def memset_page_def as_run_def)
qed

lemma kalloc_st_empty: "free_pages s [] \<Longrightarrow> freelist s = 0 \<and> kalloc_st s = s"
  by (simp add: free_pages_def kalloc_st_def split: option.split)

lemma kalloc_st_cons:
  assumes "free_pages s (a # as)"
  shows "freelist s = a" and "allocatable s a" and "free_pages (kalloc_st s) as"
    and "phys (kalloc_st s) = (phys s)(a := PgFill 5)" and "syms (kalloc_st s) = syms s"
    and "a \<notin> set as"
proof -
  from assms obtain n where n: "freelist s = a" "a \<noteq> 0" "phys s a = PgRun n"
      "chain (phys s) n as" "a \<notin> set as" "distinct as"
    by (auto simp: free_pages_def)
  then have st: "kalloc_st s = s\<lparr>freelist := n, phys := (phys s)(a := PgFill 5)\<rparr>"
    by (simp add: kalloc_st_def as_run_def)
  show "freelist s = a" "a \<notin> set as" using n by simp_all
  show "allocatable s a" using assms by (simp add: free_pages_def)
  show "free_pages (kalloc_st s) as"
    using assms n by (auto simp: st free_pages_def allocatable_def)
  show "phys (kalloc_st s) = (phys s)(a := PgFill 5)" and "syms (kalloc_st s) = syms s"
    by (simp_all add: st)
qed

lemma kalloc_st_frame [simp]:
  "lkst (kalloc_st s) = lkst s" "procs (kalloc_st s) = procs s" "ftable (kalloc_st s) = ftable s"
  "ticks (kalloc_st s) = ticks s" "kout (kalloc_st s) = kout s" "syms (kalloc_st s) = syms s"
  "shm_memory (kalloc_st s) = shm_memory s" "shm_refs (kalloc_st s) = shm_refs s"
  "nextpid (kalloc_st s) = nextpid s" "initproc (kalloc_st s) = initproc s"
  "kernel_pagetable (kalloc_st s) = kernel_pagetable s" "satp (kalloc_st s) = satp s"
  "slocks (kalloc_st s) = slocks s" "bufs (kalloc_st s) = bufs s"
  "klogst (kalloc_st s) = klogst s" "sblk (kalloc_st s) = sblk s"
  "inodes (kalloc_st s) = inodes s" "disk (kalloc_st s) = disk s"
  "dwrites (kalloc_st s) = dwrites s" "devsw (kalloc_st s) = devsw s"
  "cons (kalloc_st s) = cons s" "uart (kalloc_st s) = uart s" "vdisk (kalloc_st s) = vdisk s"
  "mmio (kalloc_st s) = mmio s" "csr (kalloc_st s) = csr s" "irqs (kalloc_st s) = irqs s"
  "started (kalloc_st s) = started s" "first_fork (kalloc_st s) = first_fork s"
  "pr_locking (kalloc_st s) = pr_locking s" "panicked (kalloc_st s) = panicked s"
  by (simp_all add: kalloc_st_def split: option.split)

lemma kalloc_st_only: "kalloc_st s = s\<lparr>freelist := freelist (kalloc_st s), phys := phys (kalloc_st s)\<rparr>"
  by (simp add: kalloc_st_def split: option.split)

lemma kfree_st_frame [simp]:
  "lkst (kfree_st a s) = lkst s" "procs (kfree_st a s) = procs s" "ftable (kfree_st a s) = ftable s"
  "ticks (kfree_st a s) = ticks s" "kout (kfree_st a s) = kout s" "syms (kfree_st a s) = syms s"
  "shm_memory (kfree_st a s) = shm_memory s" "shm_refs (kfree_st a s) = shm_refs s"
  "nextpid (kfree_st a s) = nextpid s" "initproc (kfree_st a s) = initproc s"
  "kernel_pagetable (kfree_st a s) = kernel_pagetable s" "satp (kfree_st a s) = satp s"
  "slocks (kfree_st a s) = slocks s" "bufs (kfree_st a s) = bufs s"
  "klogst (kfree_st a s) = klogst s" "sblk (kfree_st a s) = sblk s"
  "inodes (kfree_st a s) = inodes s" "disk (kfree_st a s) = disk s"
  "dwrites (kfree_st a s) = dwrites s" "devsw (kfree_st a s) = devsw s"
  "cons (kfree_st a s) = cons s" "uart (kfree_st a s) = uart s" "vdisk (kfree_st a s) = vdisk s"
  "mmio (kfree_st a s) = mmio s" "csr (kfree_st a s) = csr s" "irqs (kfree_st a s) = irqs s"
  "started (kfree_st a s) = started s" "first_fork (kfree_st a s) = first_fork s"
  "pr_locking (kfree_st a s) = pr_locking s" "panicked (kfree_st a s) = panicked s"
  by (simp_all add: kfree_st_def)

lemma allocatable_st [simp]:
  "allocatable (kalloc_st s) = allocatable s" "allocatable (kfree_st a s) = allocatable s"
  by (rule allocatable_cong, simp)+

lemma kfree_run:
  assumes "allocatable s pa" and "lk_avail LkKmem (lkst s)"
  shows "kfree pa s e = Ok () (kfree_st pa s) e"
proof -
  have "\<not> (pa mod PGSIZE \<noteq> 0 \<or> pa < sym_end (syms s) \<or> PHYSTOP \<le> pa)"
    using assms(1) by (simp add: allocatable_def linorder_not_less linorder_not_le)
  then show ?thesis
    using assms(2)
    by (simp add: kfree_def seq_def bind_def ksimps memset_page_def kfree_st_def)
qed

lemma kfree_panics:
  assumes "pa mod PGSIZE \<noteq> 0 \<or> pa < sym_end (syms s) \<or> PHYSTOP \<le> pa"
  shows "kfree pa s e = Stop (Panic ''kfree'')"
  using assms by (auto simp: kfree_def seq_def bind_def)

lemma kfree_st_pages:
  assumes "free_pages s xs" and "allocatable s pa" and "pa \<notin> set xs"
  shows "free_pages (kfree_st pa s) (pa # xs)"
  using assms by (auto simp: free_pages_def kfree_st_def allocatable_def)

text \<open>Allocating what was just freed gives the same page and the same free list back.\<close>

lemma kalloc_kfree_st:
  assumes "pa \<noteq> 0"
  shows "freelist (kfree_st pa s) = pa"
    and "kalloc_st (kfree_st pa s) = s\<lparr>phys := (phys s)(pa := PgFill 5)\<rparr>"
  using assms by (simp_all add: kfree_st_def kalloc_st_def as_run_def)

section \<open>The contract\<close>

locale page_allocator =
  fixes alloc :: "addr kop" and dealloc :: "addr \<Rightarrow> unit kop"
    and pool :: "kernel \<Rightarrow> addr list \<Rightarrow> bool"
    and usable :: "kernel \<Rightarrow> addr \<Rightarrow> bool"
    and ready :: "kernel \<Rightarrow> bool"
  assumes alloc_none: "pool s [] \<Longrightarrow> ready s \<Longrightarrow> alloc s e = Ok 0 s e"
    and alloc_some: "pool s (a # as) \<Longrightarrow> ready s \<Longrightarrow>
      \<exists>t. alloc s e = Ok a t e \<and> pool t as \<and> ready t \<and> usable t = usable s"
    and dealloc_ok: "pool s as \<Longrightarrow> ready s \<Longrightarrow> usable s a \<Longrightarrow> a \<notin> set as \<Longrightarrow>
      \<exists>t. dealloc a s e = Ok () t e \<and> pool t (a # as) \<and> ready t \<and> usable t = usable s"
    and pool_usable: "pool s as \<Longrightarrow> a \<in> set as \<Longrightarrow> usable s a \<and> a \<noteq> 0"
    and pool_distinct: "pool s as \<Longrightarrow> distinct as"
begin

primrec alloc_n :: "nat \<Rightarrow> (addr list) kop" where
  "alloc_n 0 = ret []"
| "alloc_n (Suc n) = bind alloc (\<lambda>a. bind (alloc_n n) (\<lambda>as. ret (a # as)))"

text \<open>Allocating as many pages as there are gives each of them once.\<close>

lemma alloc_n_run:
  assumes "pool s (as @ bs)" and "ready s"
  shows "\<exists>t. alloc_n (length as) s e = Ok as t e \<and> pool t bs \<and> ready t \<and> usable t = usable s"
  using assms
proof (induction as arbitrary: s)
  case Nil
  then show ?case by simp
next
  case (Cons a as)
  then obtain t where t: "alloc s e = Ok a t e" "pool t (as @ bs)" "ready t" "usable t = usable s"
    using alloc_some [of s a "as @ bs" e] by auto
  with Cons.IH [of t] obtain u where
    "alloc_n (length as) t e = Ok as u e" "pool u bs" "ready u" "usable u = usable t" by blast
  with t show ?case by (simp add: bind_def)
qed

text \<open>A page freed and allocated again: the pool is what it was.\<close>

lemma dealloc_alloc:
  assumes "pool s as" and "ready s" and "usable s a" and "a \<notin> set as"
  shows "\<exists>t. seq (dealloc a) alloc s e = Ok a t e \<and> pool t as \<and> ready t"
proof -
  obtain u where "dealloc a s e = Ok () u e" "pool u (a # as)" "ready u"
    using dealloc_ok [OF assms] by blast
  then show ?thesis using alloc_some [of u a as e] by (auto simp: seq_def)
qed

end

definition kmem_ready :: "kernel \<Rightarrow> bool" where
  "kmem_ready s \<longleftrightarrow> lk_avail LkKmem (lkst s)"

interpretation kmem: page_allocator kalloc kfree free_pages allocatable kmem_ready
proof
  fix s e
  assume "free_pages s []" and "kmem_ready s"
  then show "kalloc s e = Ok 0 s e"
    using kalloc_st_empty [of s] by (simp add: kalloc_run kmem_ready_def)
next
  fix s a as e
  assume "free_pages s (a # as)" and "kmem_ready s"
  then show "\<exists>t. kalloc s e = Ok a t e \<and> free_pages t as \<and> kmem_ready t \<and>
      allocatable t = allocatable s"
    using kalloc_st_cons [of s a as]
    by (auto simp: kalloc_run kmem_ready_def)
next
  fix s as a e
  assume "free_pages s as" and "kmem_ready s" and "allocatable s a" and "a \<notin> set as"
  then show "\<exists>t. kfree a s e = Ok () t e \<and> free_pages t (a # as) \<and> kmem_ready t \<and>
      allocatable t = allocatable s"
    by (auto simp: kfree_run kmem_ready_def kfree_st_pages)
qed (auto simp: free_pages_def allocatable_def)

section \<open>Filling the free list at boot\<close>

definition page_range :: "addr \<Rightarrow> nat \<Rightarrow> addr list" where
  "page_range p n = map (\<lambda>i. p + of_nat i * PGSIZE) [0..<n]"

lemma page_range_simps [simp]:
  "page_range p 0 = []"
  "page_range p (Suc n) = p # page_range (p + PGSIZE) n"
  by (simp_all add: page_range_def map_upt_Suc algebra_simps del: upt_Suc)

lemma length_page_range [simp]: "length (page_range p n) = n"
  by (simp add: page_range_def)

lemma page_range_bounds:
  assumes "x \<in> set (page_range p n)" and "unat p + n * 4096 < 2 ^ 64"
  shows "unat p \<le> unat x \<and> unat x < unat p + n * 4096 \<and> unat x mod 4096 = unat p mod 4096"
proof -
  from assms(1) obtain i where i: "i < n" "x = p + of_nat i * PGSIZE"
    by (auto simp: page_range_def)
  from i(1) have "i * 4096 + 4096 \<le> n * 4096" by simp
  with assms(2) have "unat p + i * 4096 < 2 ^ 64" by linarith
  then have "unat x = unat p + i * 4096"
    by (simp add: i(2) unat_word_ariths unat_of_nat)
  with i(1) show ?thesis by simp
qed

text \<open>How many whole pages lie between an aligned address and an end.\<close>

definition pages_between :: "addr \<Rightarrow> addr \<Rightarrow> nat" where
  "pages_between p q = (unat q - unat p) div 4096"

lemma freerange_loop:
  fixes s :: kernel
  assumes "free_pages s xs" and "lk_avail LkKmem (lkst s)"
    and "p mod PGSIZE = 0" and "p \<noteq> 0" and "sym_end (syms s) \<le> p"
    and "q \<le> PHYSTOP" and "unat p \<le> 2 ^ 63" and "\<And>x. x \<in> set xs \<Longrightarrow> x < p"
  shows "\<exists>t. loopK (\<lambda>p. if p + PGSIZE \<le> q then seq (kfree p) (ret (Inl (p + PGSIZE))) else ret (Inr ()))
            p s e = Ok () t e \<and>
          free_pages t (rev (page_range p (pages_between p q)) @ xs) \<and>
          lkst t = lkst s \<and> syms t = syms s"
  using assms
proof (induction "pages_between p q" arbitrary: p s xs)
  case 0
  have "unat (p + PGSIZE) = unat p + 4096"
    using 0 by (intro unat_add_PGSIZE) simp
  with 0 have "\<not> p + PGSIZE \<le> q"
    by (auto simp: pages_between_def word_le_nat_alt)
  with 0 show ?case
    by (auto intro!: exI [of _ s] loopK_done)
next
  case (Suc n)
  have up: "unat (p + PGSIZE) = unat p + 4096"
    using Suc.prems by (intro unat_add_PGSIZE) simp
  have le: "unat p + 4096 \<le> unat q" and n: "pages_between (p + PGSIZE) q = n"
    using Suc.hyps(2) up by (auto simp: pages_between_def)
  have ok: "allocatable s p"
    using Suc.prems le by (auto simp: allocatable_def word_le_nat_alt word_less_nat_alt)
  moreover have "p \<notin> set xs" using Suc.prems(8) by blast
  ultimately have fp: "free_pages (kfree_st p s) (p # xs)"
    using Suc.prems(1) by (intro kfree_st_pages)
  have "\<exists>t. loopK (\<lambda>p. if p + PGSIZE \<le> q then seq (kfree p) (ret (Inl (p + PGSIZE))) else ret (Inr ()))
            (p + PGSIZE) (kfree_st p s) e = Ok () t e \<and>
          free_pages t (rev (page_range (p + PGSIZE) (pages_between (p + PGSIZE) q)) @ p # xs) \<and>
          lkst t = lkst (kfree_st p s) \<and> syms t = syms (kfree_st p s)"
  proof (rule Suc.hyps(1))
    show "n = pages_between (p + PGSIZE) q" using n by simp
    show "(p + PGSIZE) mod PGSIZE = 0"
      using Suc.prems(3) up by (simp add: page_aligned_iff)
    show "p + PGSIZE \<noteq> 0" using up by (metis add_is_0 unat_0 zero_neq_numeral)
    show "sym_end (syms (kfree_st p s)) \<le> p + PGSIZE"
      using Suc.prems(5) up by (simp add: word_le_nat_alt)
    show "unat (p + PGSIZE) \<le> 2 ^ 63"
      using up le Suc.prems(6) unat_PHYSTOP by (simp add: word_le_nat_alt)
    show "x < p + PGSIZE" if "x \<in> set (p # xs)" for x
      using that Suc.prems(8) [of x] up by (auto simp: word_less_nat_alt)
  qed (use fp Suc.prems in auto)
  moreover have "loopK (\<lambda>p. if p + PGSIZE \<le> q then seq (kfree p) (ret (Inl (p + PGSIZE))) else ret (Inr ()))
      p s e = loopK (\<lambda>p. if p + PGSIZE \<le> q then seq (kfree p) (ret (Inl (p + PGSIZE))) else ret (Inr ()))
      (p + PGSIZE) (kfree_st p s) e"
    using le up ok Suc.prems(2) by (intro loopK_step) (simp add: seq_def kfree_run word_le_nat_alt)
  ultimately show ?case
    using Suc.hyps(2) n by (metis (no_types, lifting) append_Cons append_Nil append_assoc
        kfree_st_frame(1,6) page_range_simps(2) rev.simps(2))
qed

lemma freerange_run:
  fixes s :: kernel
  assumes "free_pages s []" and "lk_avail LkKmem (lkst s)"
    and "a \<noteq> 0" and "sym_end (syms s) \<le> a" and "q \<le> PHYSTOP" and "a \<le> PHYSTOP"
  shows "\<exists>t. freerange a q s e = Ok () t e \<and>
          free_pages t (rev (page_range (PGROUNDUP a) (pages_between (PGROUNDUP a) q))) \<and>
          lkst t = lkst s \<and> syms t = syms s"
proof -
  have small: "unat a + 4095 < 2 ^ 64"
    using assms(6) unat_PHYSTOP by (simp add: word_le_nat_alt)
  have ge: "a \<le> PGROUNDUP a" by (rule PGROUNDUP_ge [OF small])
  have "unat (PGROUNDUP a) \<le> 2 ^ 63"
    using assms(6) unat_PHYSTOP by (simp add: unat_PGROUNDUP [OF small] word_le_nat_alt)
  moreover have "PGROUNDUP a \<noteq> 0" using ge assms(3) by auto
  moreover have "sym_end (syms s) \<le> PGROUNDUP a" using ge assms(4) by (rule order_trans [rotated])
  ultimately show ?thesis
    using freerange_loop [of s "[]" "PGROUNDUP a" q e] assms(1,2,5) PGROUNDUP_aligned [OF small]
    by (simp add: freerange_def)
qed

lemma page_range_complete:
  assumes "p mod PGSIZE = 0" and "q mod PGSIZE = 0" and "x mod PGSIZE = 0" and "p \<le> x" and "x < q"
  shows "x \<in> set (page_range p (pages_between p q))"
proof -
  have dvd: "4096 dvd unat p" "4096 dvd unat q" "4096 dvd unat x"
    using assms(1-3) by (auto simp: page_aligned_iff)
  have px: "unat p \<le> unat x" and xq: "unat x < unat q"
    using assms(4,5) by (simp_all add: word_le_nat_alt word_less_nat_alt)
  obtain k where k: "unat x - unat p = 4096 * k" using dvd dvd_diff_nat by blast
  obtain m where m: "unat q - unat p = 4096 * m" using dvd dvd_diff_nat by blast
  have "k < pages_between p q"
    using k m px xq by (simp add: pages_between_def)
  moreover have "x = p + of_nat k * PGSIZE"
  proof (rule word_unat_eq_iff [THEN iffD2])
    have eq: "unat x = unat p + k * 4096" using k px by simp
    moreover have "unat x < 2 ^ 64" using unsigned_less [of x] by simp
    ultimately have "unat p + k * 4096 < 2 ^ 64" by linarith
    then have "unat (p + of_nat k * PGSIZE) = unat p + k * 4096"
      by (simp add: unat_word_ariths unat_of_nat)
    with eq show "unat x = unat (p + of_nat k * PGSIZE)" by simp
  qed
  ultimately show ?thesis by (auto simp: page_range_def)
qed

lemma round_up_least: "m \<le> n \<Longrightarrow> n mod 4096 = 0 \<Longrightarrow> (m + 4095) div 4096 * 4096 \<le> (n :: nat)"
proof -
  assume "m \<le> n" and "n mod 4096 = 0"
  then have "(m + 4095) div 4096 \<le> (n + 4095) div 4096" by (intro div_le_mono) simp
  with \<open>n mod 4096 = 0\<close> show ?thesis by (auto simp: mod_eq_0_iff_dvd)
qed

text \<open>The pages between the end of the kernel and the end of memory are the allocatable ones.\<close>

lemma boot_pages_allocatable:
  assumes "sym_end (syms s) \<noteq> 0" and "sym_end (syms s) \<le> PHYSTOP"
  shows "a \<in> set (page_range (PGROUNDUP (sym_end (syms s)))
             (pages_between (PGROUNDUP (sym_end (syms s))) PHYSTOP)) \<longleftrightarrow> allocatable s a"
    (is "a \<in> set (page_range ?p ?n) \<longleftrightarrow> _")
proof
  have small: "unat (sym_end (syms s)) + 4095 < 2 ^ 64"
    using assms(2) unat_PHYSTOP by (simp add: word_le_nat_alt)
  have al: "?p mod PGSIZE = 0" by (rule PGROUNDUP_aligned [OF small])
  have ge: "sym_end (syms s) \<le> ?p" by (rule PGROUNDUP_ge [OF small])
  have le: "unat ?p \<le> unat PHYSTOP"
    using assms(2) by (simp add: unat_PGROUNDUP [OF small] unat_PHYSTOP word_le_nat_alt)
  { assume mem: "a \<in> set (page_range ?p ?n)"
    have "unat ?p + ?n * 4096 \<le> unat PHYSTOP" using le by (simp add: pages_between_def)
    with page_range_bounds [OF mem] unat_PHYSTOP
    have b: "unat ?p \<le> unat a" "unat a < unat PHYSTOP" "unat a mod 4096 = unat ?p mod 4096"
      by auto
    with al have "a mod PGSIZE = 0" by (simp add: page_aligned_iff)
    moreover have "sym_end (syms s) \<le> a"
      using ge b(1) by (simp add: word_le_nat_alt)
    moreover from this have "a \<noteq> 0" using assms(1) by auto
    ultimately show "allocatable s a"
      using b(2) by (simp add: allocatable_def word_less_nat_alt) }
  assume a: "allocatable s a"
  have "unat (sym_end (syms s)) \<le> unat a" and "unat a mod 4096 = 0"
    using a by (auto simp: allocatable_def page_aligned_iff word_le_nat_alt)
  then have "?p \<le> a"
    using round_up_least by (simp add: word_le_nat_alt unat_PGROUNDUP [OF small])
  moreover have "PHYSTOP mod PGSIZE = 0" by (simp add: page_aligned_iff unat_PHYSTOP)
  ultimately show "a \<in> set (page_range ?p ?n)"
    using a al by (intro page_range_complete) (auto simp: allocatable_def)
qed

section \<open>Properties\<close>

text \<open>
  C3. After \<^verbatim>\<open>kinit()\<close> the free list holds exactly the aligned pages between the end of the kernel
  image and \<^verbatim>\<open>PHYSTOP\<close>, each once; the loop of \<^verbatim>\<open>freerange\<close> ends and no call of \<^verbatim>\<open>kfree\<close> panics.
\<close>

theorem kinit_frees_every_page:
  fixes s :: kernel
  assumes "freelist s = 0" and "irq_ok (lkst s)"
    and "sym_end (syms s) \<noteq> 0" and "sym_end (syms s) \<le> PHYSTOP"
  shows "\<exists>t xs. kinit s e = Ok () t e \<and> free_pages t xs \<and> (\<forall>a. a \<in> set xs \<longleftrightarrow> allocatable s a) \<and>
    lk_avail LkKmem (lkst t)"
proof -
  let ?m = "(lks (lkst s))(LkKmem := (lks (lkst s) LkKmem)\<lparr>lname := ''kmem'', locked := False, lcpu := None\<rparr>)"
  let ?u = "s\<lparr>lkst := (lkst s)\<lparr>lks := ?m\<rparr>\<rparr>"
  have init: "kinit s e = freerange (sym_end (syms s)) PHYSTOP ?u e"
    by (simp add: kinit_def seq_def bind_def initlock_def upd_lock_def)
  have u: "free_pages ?u []" "lk_avail LkKmem (lkst ?u)"
    using assms(1,2) by (simp_all add: free_pages_def lk_avail_def net_defs)
  obtain t where t: "freerange (sym_end (syms s)) PHYSTOP ?u e = Ok () t e"
    "free_pages t (rev (page_range (PGROUNDUP (sym_end (syms s)))
        (pages_between (PGROUNDUP (sym_end (syms s))) PHYSTOP)))" "lkst t = lkst ?u"
    using freerange_run [OF u assms(3), of PHYSTOP e] assms(4) by auto
  with init u boot_pages_allocatable [OF assms(3,4)] show ?thesis
    by (metis set_rev)
qed

theorem kinit_frees_every_page_witness:
  "\<exists>t xs. kinit (boot_kernel sample_syms) [] = Ok () t [] \<and> free_pages t xs \<and>
     0x80022000 \<in> set xs \<and> 0x87FFF000 \<in> set xs \<and> 0x80021000 \<notin> set xs"
proof -
  have ex: "\<exists>t xs. kinit (boot_kernel sample_syms) [] = Ok () t [] \<and> free_pages t xs \<and>
      (\<forall>a. a \<in> set xs \<longleftrightarrow> allocatable (boot_kernel sample_syms) a) \<and> lk_avail LkKmem (lkst t)"
    by (rule kinit_frees_every_page)
       (simp_all add: zero_defs sample_syms_def irq_ok_def PHYSTOP_def KERNBASE_def)
  have "allocatable (boot_kernel sample_syms) 0x80022000" "allocatable (boot_kernel sample_syms) 0x87FFF000"
    "\<not> allocatable (boot_kernel sample_syms) 0x80021000"
    by (simp_all add: allocatable_def zero_defs sample_syms_def PHYSTOP_def KERNBASE_def PGSIZE_def)
  with ex show ?thesis by blast
qed

text \<open>
  C4. \<^verbatim>\<open>kalloc()\<close> hands out the first free page, filled with junk, and it is no longer free; only
  when no page is free does it return the null pointer, changing nothing.
\<close>

theorem kalloc_hands_out:
  fixes s :: kernel
  assumes "free_pages s xs" and "lk_avail LkKmem (lkst s)"
  shows "case xs of
      [] \<Rightarrow> kalloc s e = Ok 0 s e
    | a # as \<Rightarrow> \<exists>t. kalloc s e = Ok a t e \<and> a \<noteq> 0 \<and> a mod PGSIZE = 0 \<and> phys t a = PgFill 5 \<and>
        free_pages t as \<and> a \<notin> set as \<and> (\<forall>b. b \<noteq> a \<longrightarrow> phys t b = phys s b)"
proof (cases xs)
  case Nil
  with assms kalloc_st_empty [of s] show ?thesis by (simp add: kalloc_run)
next
  case (Cons a as)
  with assms have "free_pages s (a # as)" by simp
  note k = kalloc_st_cons [OF this]
  from k(2) have "a \<noteq> 0" "a mod PGSIZE = 0" by (simp_all add: allocatable_def)
  with k Cons show ?thesis
    by (auto simp: kalloc_run [OF assms])
qed

definition two_free :: kernel where
  "two_free = (boot_kernel sample_syms)\<lparr>freelist := 0x80023000,
     phys := (\<lambda>_. PgFill 0)(0x80023000 := PgRun 0x80022000, 0x80022000 := PgRun 0)\<rparr>"

lemma two_free_pages: "free_pages two_free [0x80023000, 0x80022000]"
  by (simp add: free_pages_def two_free_def allocatable_def boot_kernel_def sample_syms_def
        PHYSTOP_def KERNBASE_def PGSIZE_def)

lemma two_free_avail [simp]: "lk_avail k (lkst two_free)"
  using boot_lk_avail [of k sample_syms] by (simp add: two_free_def)

theorem kalloc_hands_out_witness:
  "\<exists>t. kalloc two_free [] = Ok 0x80023000 t [] \<and> free_pages t [0x80022000]"
  using kalloc_hands_out [OF two_free_pages two_free_avail, of "[]"] by auto

text \<open>
  C5. Freeing a page that is in use and allocating again gives that page back and leaves the free
  list as it was: nothing but the page's contents changes. A pointer that is not a page of the
  allocatable range makes \<^verbatim>\<open>kfree\<close> panic.
\<close>

theorem kfree_kalloc_roundtrip:
  fixes s :: kernel
  assumes "free_pages s xs" and "lk_avail LkKmem (lkst s)" and "a \<noteq> 0" and "a \<notin> set xs"
  shows "seq (kfree a) kalloc s e =
    (if allocatable s a then Ok a (s\<lparr>phys := (phys s)(a := PgFill 5)\<rparr>) e else Stop (Panic ''kfree''))"
proof (cases "allocatable s a")
  case True
  then have "free_pages (kfree_st a s) (a # xs)"
    using assms by (intro kfree_st_pages)
  with True assms kalloc_kfree_st [OF assms(3), of s] show ?thesis
    by (simp add: seq_def kfree_run kalloc_run)
next
  case False
  with assms(3) have "a mod PGSIZE \<noteq> 0 \<or> a < sym_end (syms s) \<or> PHYSTOP \<le> a"
    by (auto simp: allocatable_def linorder_not_le linorder_not_less)
  then have "kfree a s e = Stop (Panic ''kfree'')" by (rule kfree_panics)
  with False show ?thesis by (simp add: seq_def)
qed

theorem kfree_kalloc_roundtrip_witness:
  "seq (kfree 0x80024000) kalloc two_free [] =
     Ok 0x80024000 (two_free\<lparr>phys := (phys two_free)(0x80024000 := PgFill 5)\<rparr>) []"
proof -
  have "allocatable two_free 0x80024000"
    by (simp add: allocatable_def two_free_def boot_kernel_def sample_syms_def
          PHYSTOP_def KERNBASE_def PGSIZE_def)
  then show ?thesis
    using kfree_kalloc_roundtrip [OF two_free_pages two_free_avail, of "0x80024000" "[]"] by simp
qed

end
