(* ===== verification/Proc.thy ===== *)
theory Proc
  imports Kalloc
begin

text \<open>
  The process-table half of \<^verbatim>\<open>kernel/proc.c\<close>: the current process, process ids, sleeping and
  waking, killing, and the scheduler with its CPU-mask test. (Creating and ending processes,
  which needs memory and files, is in \<^verbatim>\<open>ProcLife\<close>.)

  A switch of context (\<^verbatim>\<open>swtch\<close>, assembler) is \<open>give_way\<close>: the caller stops, the next entry of the
  schedule is what everybody else does, and the caller goes on in the state that leaves. With an
  empty schedule the outcome is \<open>Blocked s\<close>, where \<open>s\<close> is the state at the switch.
\<close>

section \<open>The operations\<close>

definition proc_at :: "nat \<Rightarrow> proc kop" where
  "proc_at i = gets (\<lambda>s. procs s i)"

definition set_proc :: "nat \<Rightarrow> (proc \<Rightarrow> proc) \<Rightarrow> unit kop" where
  "set_proc i f = modify (upd_proc i f)"

definition myproc :: "nat option kop" where
  "myproc =
     seq push_off (
     bind mycpu (\<lambda>c.
     bind (cpu_at c) (\<lambda>v.
     seq pop_off (
     ret (c_proc v)))))"

definition procinit :: "unit kop" where
  "procinit =
     seq (initlock LkPid ''nextpid'') (
     seq (initlock LkWait ''wait_lock'') (
     for_each [0..<NPROC] (\<lambda>i.
       seq (initlock (LkProc i) ''proc'') (
       seq (set_proc i (\<lambda>p. p\<lparr>p_state := UNUSED\<rparr>)) (
       set_proc i (\<lambda>p. p\<lparr>p_kstack := KSTACK i\<rparr>))))))"

definition allocpid :: "cint kop" where
  "allocpid =
     seq (acquire LkPid) (
     bind (gets nextpid) (\<lambda>pid.
     seq (modify (\<lambda>s. s\<lparr>nextpid := nextpid s + 1\<rparr>)) (
     seq (release LkPid) (
     ret pid))))"

definition setkilled :: "nat \<Rightarrow> unit kop" where
  "setkilled p =
     seq (acquire (LkProc p)) (
     seq (set_proc p (\<lambda>q. q\<lparr>p_killed := True\<rparr>)) (
     release (LkProc p)))"

definition killed :: "nat \<Rightarrow> bool kop" where
  "killed p =
     seq (acquire (LkProc p)) (
     bind (proc_at p) (\<lambda>q.
     seq (release (LkProc p)) (
     ret (p_killed q))))"

definition sched :: "unit kop" where
  "sched =
     bind myproc (\<lambda>mp.
     bind (need mp) (\<lambda>p.
     bind (holding (LkProc p)) (\<lambda>h.
     seq (whenK (\<not> h) (panic ''sched p->lock'')) (
     bind mycpu (\<lambda>c.
     bind (cpu_at c) (\<lambda>v.
     seq (whenK (noff v \<noteq> 1) (panic ''sched locks'')) (
     bind (proc_at p) (\<lambda>q.
     seq (whenK (p_state q = RUNNING) (panic ''sched running'')) (
     bind intr_get (\<lambda>on.
     seq (whenK on (panic ''sched interruptible'')) (
     seq give_way (
     bind mycpu (\<lambda>d.
     upd_cpu d (\<lambda>w. w\<lparr>intena := intena v\<rparr>))))))))))))))"

definition yield :: "unit kop" where
  "yield =
     bind myproc (\<lambda>mp.
     bind (need mp) (\<lambda>p.
     seq (acquire (LkProc p)) (
     seq (set_proc p (\<lambda>q. q\<lparr>p_state := RUNNABLE\<rparr>)) (
     seq sched (
     release (LkProc p))))))"

definition sleep :: "chan \<Rightarrow> lockid \<Rightarrow> unit kop" where
  "sleep ch lk =
     bind myproc (\<lambda>mp.
     bind (need mp) (\<lambda>p.
     bind (holding (LkProc p)) (\<lambda>h.
     if h then skip else
     seq (acquire (LkProc p)) (
     seq (release lk) (
     seq (set_proc p (\<lambda>q. q\<lparr>p_chan := ch\<rparr>)) (
     seq (set_proc p (\<lambda>q. q\<lparr>p_state := SLEEPING\<rparr>)) (
     seq sched (
     seq (set_proc p (\<lambda>q. q\<lparr>p_chan := ChNull\<rparr>)) (
     seq (release (LkProc p)) (
     acquire lk))))))))))"

definition wakeup_body :: "chan \<Rightarrow> nat \<Rightarrow> unit kop" where
  "wakeup_body ch i =
     bind myproc (\<lambda>mp.
     whenK (Some i \<noteq> mp) (
       seq (acquire (LkProc i)) (
       bind (proc_at i) (\<lambda>p.
       seq (whenK (p_state p = SLEEPING \<and> p_chan p = ch)
             (set_proc i (\<lambda>p. p\<lparr>p_state := RUNNABLE\<rparr>))) (
       release (LkProc i))))))"

definition wakeup :: "chan \<Rightarrow> unit kop" where
  "wakeup ch = for_each [0..<NPROC] (wakeup_body ch)"

definition kill_body :: "cint \<Rightarrow> nat \<Rightarrow> cint option kop" where
  "kill_body pid i =
     seq (acquire (LkProc i)) (
     bind (proc_at i) (\<lambda>p.
     if p_pid p = pid then
       seq (set_proc i (\<lambda>p. p\<lparr>p_killed := True\<rparr>)) (
       seq (whenK (p_state p = SLEEPING) (set_proc i (\<lambda>p. p\<lparr>p_state := RUNNABLE\<rparr>))) (
       seq (release (LkProc i)) (
       ret (Some 0))))
     else seq (release (LkProc i)) (ret None)))"

definition kill :: "cint \<Rightarrow> cint kop" where
  "kill pid =
     bind (forK [0..<NPROC] (kill_body pid)) (\<lambda>r.
     case r of Some v \<Rightarrow> ret v | None \<Rightarrow> ret (-1))"

text \<open>
  One round of \<^verbatim>\<open>scheduler\<close>: the pass over the process table (\<open>scan_body\<close> is the body of its loop),
  then the wait for an interrupt when nothing ran. \<^verbatim>\<open>p->cpu_mask == cpuid()\<close> compares two C
  integers.
\<close>

definition scan_body :: "nat \<Rightarrow> nat \<times> bool \<Rightarrow> ((nat \<times> bool) + bool) kop" where
  "scan_body c = (\<lambda>(i, found).
         if i < NPROC then
           seq (acquire (LkProc i)) (
           bind (proc_at i) (\<lambda>p.
           bind cpuid (\<lambda>id.
           bind (if p_state p = RUNNABLE \<and> (p_cpu_mask p = -1 \<or> p_cpu_mask p = of_nat id) then
                   seq (set_proc i (\<lambda>p. p\<lparr>p_state := RUNNING\<rparr>)) (
                   seq (upd_cpu c (\<lambda>v. v\<lparr>c_proc := Some i\<rparr>)) (
                   seq give_way (
                   seq (upd_cpu c (\<lambda>v. v\<lparr>c_proc := None\<rparr>)) (
                   ret True))))
                 else ret found) (\<lambda>found'.
           seq (release (LkProc i)) (
           ret (Inl (Suc i, found')))))))
         else ret (Inr found))"

definition scheduler_round :: "unit kop" where
  "scheduler_round =
     bind mycpu (\<lambda>c.
     seq intr_on (
     bind (loopK (scan_body c) (0, False)) (\<lambda>found.
     whenK (\<not> found) (
       seq intr_on
       give_way))))"

definition scheduler :: "unit kop" where
  "scheduler =
     bind mycpu (\<lambda>c.
     seq (upd_cpu c (\<lambda>v. v\<lparr>c_proc := None\<rparr>)) (
     loopK (\<lambda>_. seq scheduler_round (ret (Inl ()))) ()))"

lemmas proc_prims = proc_at_def set_proc_def

lemma proc_at_run [simp]: "proc_at i s e = Ok (procs s i) s e"
  by (simp add: proc_at_def)

lemma set_proc_run [simp]: "set_proc i f s e = Ok () (upd_proc i f s) e"
  by (simp add: set_proc_def)

section \<open>The current process\<close>

abbreviation cur :: "lockst \<Rightarrow> nat option" where
  "cur l \<equiv> c_proc (cpus l (hart l))"

lemma pop_push_st: "irq_ok l \<Longrightarrow> pop_st (push_st l) = l"
  by (rule lockst.equality) (auto simp: net_defs fun_eq_iff intro!: cpu.equality)

lemma myproc_run [simp]:
  assumes "irq_ok (lkst s)"
  shows "myproc s e = Ok (cur (lkst s)) s e"
proof -
  have "\<not> sie (push_st (lkst s))" and "cur (push_st (lkst s)) = cur (lkst s)"
    and "1 \<le> noff (cpus (push_st (lkst s)) (hart (push_st (lkst s))))"
    using assms by (auto simp: net_defs)
  then show ?thesis
    using assms by (simp add: myproc_def seq_def bind_def push_off_run pop_off_run pop_push_st
        mycpu_def cpuid_def cpu_at_def)
qed

lemma allocpid_run:
  assumes "lk_avail LkPid (lkst s)"
  shows "allocpid s e = Ok (nextpid s) (s\<lparr>nextpid := nextpid s + 1\<rparr>) e"
  using assms by (simp add: allocpid_def seq_def bind_def ksimps)

lemma killed_run:
  assumes "lk_avail (LkProc p) (lkst s)"
  shows "killed p s e = Ok (p_killed (procs s p)) s e"
  using assms by (simp add: killed_def seq_def bind_def ksimps)

lemma setkilled_run:
  assumes "lk_avail (LkProc p) (lkst s)"
  shows "setkilled p s e = Ok () (upd_proc p (\<lambda>q. q\<lparr>p_killed := True\<rparr>) s) e"
  using assms by (simp add: setkilled_def seq_def bind_def ksimps)

section \<open>Waking and killing\<close>

text \<open>The locks of all processes but the current one are free.\<close>

definition others_free :: "lockst \<Rightarrow> bool" where
  "others_free l \<longleftrightarrow> irq_ok l \<and> (\<forall>i < NPROC. Some i \<noteq> cur l \<longrightarrow> lk_free (LkProc i) l)"

definition woken :: "chan \<Rightarrow> proc \<Rightarrow> proc" where
  "woken ch p = (if p_state p = SLEEPING \<and> p_chan p = ch then p\<lparr>p_state := RUNNABLE\<rparr> else p)"

definition wakeup_st :: "chan \<Rightarrow> kernel \<Rightarrow> kernel" where
  "wakeup_st ch s = s\<lparr>procs := (\<lambda>i. if i < NPROC \<and> Some i \<noteq> cur (lkst s) then woken ch (procs s i)
                                  else procs s i)\<rparr>"

lemma wakeup_body_run:
  assumes "others_free (lkst s)" and "i < NPROC"
  shows "wakeup_body ch i s e =
     Ok () (if Some i \<noteq> cur (lkst s) then upd_proc i (woken ch) s else s) e"
proof (cases "Some i = cur (lkst s)")
  case True
  with assms show ?thesis by (simp add: wakeup_body_def bind_def others_free_def)
next
  case False
  then have "lk_avail (LkProc i) (lkst s)"
    using assms by (auto simp: others_free_def lk_avail_def)
  with False assms show ?thesis
    by (auto simp: wakeup_body_def bind_def seq_def others_free_def ksimps woken_def whenK_def)
qed

lemma wakeup_run:
  assumes "others_free (lkst s)"
  shows "wakeup ch s e = Ok () (wakeup_st ch s) e"
proof -
  let ?f = "\<lambda>i s. if Some i \<noteq> cur (lkst s) then upd_proc i (woken ch) s else s"
  have fold: "fold ?f js s = s\<lparr>procs := (\<lambda>i. if i \<in> set js \<and> Some i \<noteq> cur (lkst s)
                then woken ch (procs s i) else procs s i)\<rparr>" if "distinct js" for js
    using that by (induction js rule: rev_induct) (auto simp: fun_eq_iff intro!: kernel.equality)
  have "wakeup ch s e = Ok () (fold ?f [0..<NPROC] s) e"
    unfolding wakeup_def
    using for_each_Ok [where P = "\<lambda>s. others_free (lkst s)" and f = ?f and js = "[0..<NPROC]"]
      assms wakeup_body_run by auto
  then show ?thesis by (simp add: fold wakeup_st_def)
qed

lemma wakeup_st_frame [simp]:
  "lkst (wakeup_st ch s) = lkst s" "phys (wakeup_st ch s) = phys s"
  "freelist (wakeup_st ch s) = freelist s" "syms (wakeup_st ch s) = syms s"
  "ftable (wakeup_st ch s) = ftable s" "ticks (wakeup_st ch s) = ticks s"
  "kout (wakeup_st ch s) = kout s" "nextpid (wakeup_st ch s) = nextpid s"
  "kernel_pagetable (wakeup_st ch s) = kernel_pagetable s" "satp (wakeup_st ch s) = satp s"
  "initproc (wakeup_st ch s) = initproc s" "shm_memory (wakeup_st ch s) = shm_memory s"
  "shm_refs (wakeup_st ch s) = shm_refs s" "slocks (wakeup_st ch s) = slocks s"
  "bufs (wakeup_st ch s) = bufs s" "klogst (wakeup_st ch s) = klogst s"
  "sblk (wakeup_st ch s) = sblk s" "inodes (wakeup_st ch s) = inodes s"
  "disk (wakeup_st ch s) = disk s" "dwrites (wakeup_st ch s) = dwrites s"
  "devsw (wakeup_st ch s) = devsw s" "cons (wakeup_st ch s) = cons s"
  "uart (wakeup_st ch s) = uart s" "vdisk (wakeup_st ch s) = vdisk s"
  "mmio (wakeup_st ch s) = mmio s" "csr (wakeup_st ch s) = csr s" "irqs (wakeup_st ch s) = irqs s"
  "started (wakeup_st ch s) = started s" "first_fork (wakeup_st ch s) = first_fork s"
  "pr_locking (wakeup_st ch s) = pr_locking s" "panicked (wakeup_st ch s) = panicked s"
  by (simp_all add: wakeup_st_def)

lemma free_pages_wakeup [simp]: "free_pages (wakeup_st ch s) xs = free_pages s xs"
  by (simp add: free_pages_def allocatable_def)

lemma wakeup_st_lkst [simp]:
  "wakeup_st ch (s\<lparr>lkst := enter k (lkst s)\<rparr>) = (wakeup_st ch s)\<lparr>lkst := enter k (lkst s)\<rparr>"
  by (rule kernel.equality) (auto simp: wakeup_st_def fun_eq_iff)

lemma wakeup_st_in:
  "cur l = cur (lkst t) \<Longrightarrow> (wakeup_st ch t)\<lparr>lkst := l\<rparr> = wakeup_st ch (t\<lparr>lkst := l\<rparr>)"
  by (rule kernel.equality) (auto simp: wakeup_st_def fun_eq_iff)

lemma wakeup_st_pid [simp]: "p_pid (procs (wakeup_st ch s) i) = p_pid (procs s i)"
  by (simp add: wakeup_st_def woken_def)

lemma wakeup_st_cur: "cur (lkst s) = Some i \<Longrightarrow> procs (wakeup_st ch s) i = procs s i"
  by (simp add: wakeup_st_def)

lemma others_free_enter:
  "others_free l \<Longrightarrow> (\<And>i. k \<noteq> LkProc i) \<Longrightarrow> others_free (enter k l)"
  by (simp add: others_free_def)

text \<open>All process locks are free.\<close>

definition procs_free :: "lockst \<Rightarrow> bool" where
  "procs_free l \<longleftrightarrow> irq_ok l \<and> (\<forall>i < NPROC. lk_free (LkProc i) l)"

lemma procs_free_avail: "procs_free l \<Longrightarrow> i < NPROC \<Longrightarrow> lk_avail (LkProc i) l"
  by (simp add: procs_free_def lk_avail_def)

lemma procs_free_others: "procs_free l \<Longrightarrow> others_free l"
  by (simp add: procs_free_def others_free_def)

definition kill_mark :: "proc \<Rightarrow> proc" where
  "kill_mark p = (let q = p\<lparr>p_killed := True\<rparr> in
     if p_state p = SLEEPING then q\<lparr>p_state := RUNNABLE\<rparr> else q)"

lemma kill_run:
  assumes "procs_free (lkst s)"
  shows "kill pid s e = (case find (\<lambda>i. p_pid (procs s i) = pid) [0..<NPROC] of
       None \<Rightarrow> Ok (-1) s e
     | Some i \<Rightarrow> Ok 0 (upd_proc i kill_mark s) e)"
proof -
  have "kill_body pid i s e =
      (if p_pid (procs s i) = pid then Ok (Some 0) (upd_proc i kill_mark s) e else Ok None s e)"
    if "i \<in> set [0..<NPROC]" for i
    using that procs_free_avail [OF assms, of i]
    by (simp add: kill_body_def seq_def bind_def ksimps whenK_def kill_mark_def)
  then have "forK [0..<NPROC] (kill_body pid) s e =
     (case find (\<lambda>i. p_pid (procs s i) = pid) [0..<NPROC] of None \<Rightarrow> Ok None s e
      | Some i \<Rightarrow> Ok (Some 0) (upd_proc i kill_mark s) e)"
    by (rule forK_find)
  then show ?thesis
    by (simp add: kill_def bind_def split: option.split)
qed

section \<open>Sleeping\<close>

text \<open>
  The lock state of a process that runs with no lock held: nothing nested, itself current, and
  neither its own lock nor the lock \<open>lk\<close> it is about to use taken by anybody.
\<close>

definition at_rest :: "nat \<Rightarrow> lockid \<Rightarrow> lockst \<Rightarrow> bool" where
  "at_rest p lk l \<longleftrightarrow> irq_ok l \<and> noff (cpus l (hart l)) = 0 \<and> cur l = Some p \<and>
     lk_free (LkProc p) l \<and> lk_free lk l \<and> lk \<noteq> LkProc p"

text \<open>The state in which process \<open>p\<close> sleeps on \<open>ch\<close>: it holds its own lock and nothing else.\<close>

definition asleep_st :: "nat \<Rightarrow> chan \<Rightarrow> lockst \<Rightarrow> kernel \<Rightarrow> kernel" where
  "asleep_st p ch l s = upd_proc p (\<lambda>q. q\<lparr>p_chan := ch, p_state := SLEEPING\<rparr>)
     (s\<lparr>lkst := enter (LkProc p) l\<rparr>)"

text \<open>
  What the others do while \<open>p\<close> is switched out: when it runs again (on whatever hart) the
  scheduler has taken its lock for it, and the lock \<open>lk\<close> is free.
\<close>

definition resumes :: "nat \<Rightarrow> lockid \<Rightarrow> (kernel \<Rightarrow> kernel) \<Rightarrow> bool" where
  "resumes p lk f \<longleftrightarrow>
     (\<forall>s l. at_rest p lk l \<longrightarrow> lkst s = enter (LkProc p) l \<longrightarrow>
        (\<exists>l'. at_rest p lk l' \<and> lkst (f s) = enter (LkProc p) l'))"

lemma sleep_to_switch:
  assumes "at_rest p lk l" and "lkst s = enter lk l"
  shows "sleep ch lk s e =
     seq sched (
     seq (set_proc p (\<lambda>q. q\<lparr>p_chan := ChNull\<rparr>)) (
     seq (release (LkProc p)) (
     acquire lk))) (asleep_st p ch l s) e"
proof -
  have ok: "irq_ok (lkst s)" "cur (lkst s) = Some p" "\<not> lk_held (LkProc p) (lkst s)"
    "lk_avail (LkProc p) (lkst s)"
    using assms by (auto simp: at_rest_def lk_avail_def lk_free_not_held)
  have own: "lk_own lk (enter (LkProc p) (enter lk l))"
    and lv: "leave lk (enter (LkProc p) (enter lk l)) = enter (LkProc p) l"
    using assms by (auto simp: at_rest_def lk_own_def)
  show ?thesis
    using ok assms(2)
    by (simp add: sleep_def bind_def seq_def holding_run ksimps own lv asleep_st_def)
qed

lemma sched_switch:
  assumes "lkst s = enter (LkProc p) l" and "irq_ok l" and "noff (cpus l (hart l)) = 0"
    and "cur l = Some p" and "p_state (procs s p) \<noteq> RUNNING"
  shows "sched s e = seq give_way (bind mycpu (\<lambda>d.
     upd_cpu d (\<lambda>w. w\<lparr>intena := sie l\<rparr>))) s e"
proof -
  have "intena (cpus (enter (LkProc p) l) (hart l)) = sie l"
    using assms(2,3) by (simp add: net_defs)
  with assms show ?thesis
    by (simp add: sched_def bind_def seq_def holding_run mycpu_def cpuid_def cpu_at_def intr_get_def)
qed

text \<open>Nobody else runs: the process stays asleep.\<close>

lemma sleep_blocks:
  assumes "at_rest p lk l" and "lkst s = enter lk l"
  shows "sleep ch lk s [] = Stop (Blocked (asleep_st p ch l s))"
proof -
  have "sched (asleep_st p ch l s) [] = Stop (Blocked (asleep_st p ch l s))"
    using assms(1)
    by (subst sched_switch [where p = p and l = l]) (auto simp: asleep_st_def at_rest_def seq_def)
  then show ?thesis
    by (simp add: sleep_to_switch [OF assms] seq_def)
qed

text \<open>
  The others run and the process is switched in again: it holds \<open>lk\<close>, its channel is cleared,
  and everything else is as the others left it.
\<close>

lemma sleep_resumes:
  assumes "at_rest p lk l" and "lkst s = enter lk l" and "resumes p lk f"
  shows "\<exists>l'. at_rest p lk l' \<and>
     sleep ch lk s (f # e) =
       Ok () ((upd_proc p (\<lambda>q. q\<lparr>p_chan := ChNull\<rparr>) (f (asleep_st p ch l s)))\<lparr>lkst := enter lk l'\<rparr>) e"
proof -
  let ?s = "asleep_st p ch l s"
  obtain m where m: "at_rest p lk m" "lkst (f ?s) = enter (LkProc p) m"
    using assms(1) assms(3) [unfolded resumes_def, rule_format, of l ?s]
    by (auto simp: asleep_st_def)
  define m' where "m' = m\<lparr>sie := sie l, cpus := (cpus m)(hart m := (cpus m (hart m))\<lparr>intena := sie l\<rparr>)\<rparr>"
  have rest: "at_rest p lk m'"
    using m(1) by (auto simp: m'_def at_rest_def irq_ok_def lk_free_def)
  have upd: "(enter (LkProc p) m)\<lparr>cpus := (cpus (enter (LkProc p) m))(hart m :=
      (cpus (enter (LkProc p) m) (hart m))\<lparr>intena := sie l\<rparr>)\<rparr> = enter (LkProc p) m'"
    using m(1) by (intro lockst.equality) (auto simp: m'_def net_defs at_rest_def fun_eq_iff)
  have "sched ?s (f # e) = Ok () ((f ?s)\<lparr>lkst := enter (LkProc p) m'\<rparr>) e"
    using assms(1) m upd
    by (subst sched_switch [where p = p and l = l])
       (auto simp: asleep_st_def at_rest_def seq_def bind_def mycpu_def cpuid_def upd_cpu_def)
  moreover have "lk_own (LkProc p) (enter (LkProc p) m')" "leave (LkProc p) (enter (LkProc p) m') = m'"
    "lk_avail lk m'"
    using rest by (auto simp: at_rest_def lk_own_def lk_avail_def)
  ultimately have "sleep ch lk s (f # e) =
      Ok () ((upd_proc p (\<lambda>q. q\<lparr>p_chan := ChNull\<rparr>) (f ?s))\<lparr>lkst := enter lk m'\<rparr>) e"
    by (simp add: sleep_to_switch [OF assms(1,2)] seq_def ksimps)
  with rest show ?thesis by blast
qed

section \<open>The scheduler\<close>

text \<open>The test of the scheduler's loop.\<close>

definition eligible :: "kernel \<Rightarrow> nat \<Rightarrow> bool" where
  "eligible s i \<longleftrightarrow> p_state (procs s i) = RUNNABLE \<and>
     (p_cpu_mask (procs s i) = -1 \<or> p_cpu_mask (procs s i) = of_nat (hart (lkst s)))"

text \<open>The lock state with the saved interrupt bit brought up to date, as any lock operation does.\<close>

definition norm :: "lockst \<Rightarrow> lockst" where
  "norm l = l\<lparr>cpus := (cpus l)(hart l := (cpus l (hart l))\<lparr>intena := sie l\<rparr>)\<rparr>"

definition on_cpu :: "nat option \<Rightarrow> lockst \<Rightarrow> lockst" where
  "on_cpu p l = l\<lparr>cpus := (cpus l)(hart l := (cpus l (hart l))\<lparr>c_proc := p\<rparr>)\<rparr>"

text \<open>A hart in its scheduler between two processes: interrupts on, no lock held, no process.\<close>

definition sched_lk :: "lockst \<Rightarrow> lockst" where
  "sched_lk l = norm ((on_cpu None l)\<lparr>sie := True\<rparr>)"

text \<open>Process \<open>i\<close> has been switched to.\<close>

definition dispatch_st :: "nat \<Rightarrow> kernel \<Rightarrow> kernel" where
  "dispatch_st i s = upd_proc i (\<lambda>p. p\<lparr>p_state := RUNNING\<rparr>)
     (s\<lparr>lkst := on_cpu (Some i) (enter (LkProc i) (lkst s))\<rparr>)"

lemma enter_norm: "noff (cpus l (hart l)) = 0 \<Longrightarrow> enter k (norm l) = enter k l"
  by (rule lockst.equality) (auto simp: net_defs norm_def)

lemma lk_free_norm: "lk_free k (norm l) = lk_free k l"
  by (simp add: norm_def lk_free_def)

lemma procs_free_sched_lk:
  "noff (cpus l (hart l)) = 0 \<Longrightarrow> \<forall>i < NPROC. lk_free (LkProc i) l \<Longrightarrow> procs_free (sched_lk l)"
  by (auto simp: procs_free_def sched_lk_def norm_def on_cpu_def net_defs)

lemma scan_body_pass:
  assumes "procs_free (lkst s)" and "i < NPROC" and "\<not> eligible s i"
  shows "scan_body c (i, found) s e = Ok (Inl (Suc i, found)) s e"
proof -
  have "lk_avail (LkProc i) (lkst s)"
    using assms procs_free_avail by blast
  then show ?thesis
    using assms by (auto simp: scan_body_def seq_def bind_def ksimps eligible_def cpuid_def)
qed

lemma scan_body_dispatch:
  assumes "procs_free (lkst s)" and "i < NPROC" and "eligible s i" and "c = hart (lkst s)"
  shows "scan_body c (i, found) s [] = Stop (Blocked (dispatch_st i s))"
proof -
  have "lk_avail (LkProc i) (lkst s)"
    using assms procs_free_avail by blast
  then show ?thesis
    using assms
    by (auto simp: scan_body_def seq_def bind_def ksimps eligible_def cpuid_def upd_cpu_def
          dispatch_st_def on_cpu_def)
qed

lemma scan_run:
  assumes "procs_free (lkst s)" and "c = hart (lkst s)" and "i \<le> NPROC"
  shows "loopK (scan_body c) (i, found) s [] =
     (case find (eligible s) [i..<NPROC] of
        Some j \<Rightarrow> Stop (Blocked (dispatch_st j s)) | None \<Rightarrow> Ok found s [])"
  using assms(3)
proof (induction "NPROC - i" arbitrary: i)
  case 0
  then show ?case by (subst loopK_unfold) (simp add: scan_body_def)
next
  case (Suc n)
  then have i: "i < NPROC" and IH: "loopK (scan_body c) (Suc i, found) s [] =
     (case find (eligible s) [Suc i..<NPROC] of
        Some j \<Rightarrow> Stop (Blocked (dispatch_st j s)) | None \<Rightarrow> Ok found s [])"
    by (auto simp: Suc_diff_Suc [symmetric])
  have step: "[i..<NPROC] = i # [Suc i..<NPROC]"
    using i by (rule upt_conv_Cons)
  show ?case
  proof (cases "eligible s i")
    case True
    with scan_body_dispatch [OF assms(1) i True assms(2)] show ?thesis
      by (subst loopK_unfold) (simp add: step)
  next
    case False
    with scan_body_pass [OF assms(1) i False] IH show ?thesis
      by (subst loopK_unfold) (simp add: step)
  qed
qed

text \<open>The first lock operation of the pass normalises the saved interrupt bit.\<close>

lemma scan_norm:
  assumes "noff (cpus l (hart l)) = 0" and "lk_free (LkProc 0) l"
  shows "loopK (scan_body c) (0, found) (s\<lparr>lkst := l\<rparr>) e = loopK (scan_body c) (0, found) (s\<lparr>lkst := norm l\<rparr>) e"
proof -
  have "acquire (LkProc 0) (s\<lparr>lkst := l\<rparr>) e = acquire (LkProc 0) (s\<lparr>lkst := norm l\<rparr>) e"
    using assms by (simp add: acquire_free lk_free_norm enter_norm)
  then have "scan_body c (0, found) (s\<lparr>lkst := l\<rparr>) e = scan_body c (0, found) (s\<lparr>lkst := norm l\<rparr>) e"
    by (simp add: scan_body_def seq_def NPROC_def)
  then show ?thesis by (subst (1 2) loopK_unfold) simp
qed

definition idle_hart :: "lockst \<Rightarrow> bool" where
  "idle_hart l \<longleftrightarrow> noff (cpus l (hart l)) = 0 \<and> (\<forall>i < NPROC. lk_free (LkProc i) l)"

lemma scheduler_run:
  assumes "idle_hart (lkst s)"
  shows "scheduler s [] =
    (let t = s\<lparr>lkst := sched_lk (lkst s)\<rparr> in
     case find (eligible s) [0..<NPROC] of
       Some i \<Rightarrow> Stop (Blocked (dispatch_st i t))
     | None \<Rightarrow> Stop (Blocked t))"
proof -
  let ?l = "(on_cpu None (lkst s))\<lparr>sie := True\<rparr>"
  let ?t = "s\<lparr>lkst := sched_lk (lkst s)\<rparr>"
  have free: "procs_free (lkst ?t)"
    using assms by (simp add: idle_hart_def procs_free_sched_lk)
  have el: "eligible ?t = eligible s" and h: "hart (lkst ?t) = hart (lkst s)"
    by (auto simp: eligible_def fun_eq_iff sched_lk_def norm_def on_cpu_def)
  have on: "(lkst ?t)\<lparr>sie := True\<rparr> = lkst ?t"
    by (simp add: sched_lk_def norm_def)
  have "loopK (scan_body (hart (lkst s))) (0, False) (s\<lparr>lkst := ?l\<rparr>) [] =
      loopK (scan_body (hart (lkst s))) (0, False) ?t []"
    using assms scan_norm [of ?l "hart (lkst s)" False s "[]"]
    by (simp add: idle_hart_def sched_lk_def on_cpu_def lk_free_def NPROC_def)
  also have "\<dots> = (case find (eligible s) [0..<NPROC] of
        Some j \<Rightarrow> Stop (Blocked (dispatch_st j ?t)) | None \<Rightarrow> Ok False ?t [])"
    using scan_run [OF free h [symmetric], of 0 False] by (simp add: el)
  finally have scan: "loopK (scan_body (hart (lkst s))) (0, False) (s\<lparr>lkst := ?l\<rparr>) [] = \<dots>" .
  have "scheduler_round (s\<lparr>lkst := on_cpu None (lkst s)\<rparr>) [] =
      (case find (eligible s) [0..<NPROC] of
        Some j \<Rightarrow> Stop (Blocked (dispatch_st j ?t)) | None \<Rightarrow> Stop (Blocked ?t))"
    using scan on
    by (simp add: scheduler_round_def bind_def seq_def mycpu_def cpuid_def intr_on_def on_cpu_def
          split: option.splits)
  then show ?thesis
    by (simp add: scheduler_def bind_def seq_def mycpu_def cpuid_def upd_cpu_def Let_def
          on_cpu_def loopK_stop split: option.splits)
qed

text \<open>\<^verbatim>\<open>scheduler()\<close> does not return, as its declaration \<^verbatim>\<open>noreturn\<close> promises.\<close>

lemma scheduler_never_returns: "scheduler s e \<noteq> Ok a t d"
proof -
  have "seq scheduler_round (ret (Inl ())) s' e' \<noteq> Ok (Inr b) t' d'" for s' e' b t' d'
    by (simp add: seq_eq_Ok)
  from loopK_never_Ok [where body = "\<lambda>_. seq scheduler_round (ret (Inl ()))", OF this]
  show ?thesis
    by (simp add: scheduler_def bind_def seq_def mycpu_def cpuid_def upd_cpu_def)
qed

section \<open>Properties\<close>

text \<open>A small process table: process 1 sleeps on \<open>ticks\<close>, process 2 is runnable on hart 0 only.\<close>

definition two_procs :: kernel where
  "two_procs = (boot_kernel sample_syms)\<lparr>procs := (\<lambda>_. zero_proc)(
     1 := zero_proc\<lparr>p_state := SLEEPING, p_chan := ChTicks, p_pid := 7\<rparr>,
     2 := zero_proc\<lparr>p_state := RUNNABLE, p_pid := 8\<rparr>)\<rparr>"

lemma two_procs_free: "procs_free (lkst two_procs)"
  using boot_lk_avail [of _ sample_syms] by (simp add: procs_free_def two_procs_def lk_avail_def)

text \<open>
  C6. \<^verbatim>\<open>wakeup(chan)\<close> makes runnable exactly the processes that sleep on \<open>chan\<close>, other than the
  caller; it changes nothing else, and it always returns.
\<close>

theorem wakeup_wakes_sleepers:
  fixes s :: kernel
  assumes "others_free (lkst s)"
  shows "\<exists>t. wakeup ch s e = Ok () t e \<and> t = s\<lparr>procs := procs t\<rparr> \<and>
    (\<forall>i. procs t i = (if i < NPROC \<and> Some i \<noteq> cur (lkst s) \<and>
         p_state (procs s i) = SLEEPING \<and> p_chan (procs s i) = ch
       then (procs s i)\<lparr>p_state := RUNNABLE\<rparr> else procs s i))"
  using wakeup_run [OF assms, of ch e] by (auto simp: wakeup_st_def woken_def)

theorem wakeup_wakes_sleepers_witness:
  "\<exists>t. wakeup ChTicks two_procs [] = Ok () t [] \<and> p_state (procs t 1) = RUNNABLE \<and>
     procs t 2 = procs two_procs 2"
  using wakeup_wakes_sleepers [OF procs_free_others [OF two_procs_free], of ChTicks "[]"]
  by (fastforce simp: two_procs_def NPROC_def zero_defs)

text \<open>
  C7. \<^verbatim>\<open>kill(pid)\<close> marks the first process of the table with that id as killed, and makes it
  runnable if it sleeps, whatever it sleeps on; it returns 0. With no such process it returns -1
  and changes nothing.
\<close>

theorem kill_marks_first:
  fixes s :: kernel
  assumes "procs_free (lkst s)"
  shows "kill pid s e = (case find (\<lambda>i. p_pid (procs s i) = pid) [0..<NPROC] of
       None \<Rightarrow> Ok (-1) s e
     | Some i \<Rightarrow> Ok 0 (upd_proc i (\<lambda>p. p\<lparr>p_killed := True,
         p_state := if p_state p = SLEEPING then RUNNABLE else p_state p\<rparr>) s) e)"
  by (simp add: kill_run [OF assms] kill_mark_def Let_def split: option.split)

theorem kill_marks_first_witness:
  "\<exists>t. kill 7 two_procs [] = Ok 0 t [] \<and> p_killed (procs t 1) \<and> p_state (procs t 1) = RUNNABLE"
  using kill_marks_first [OF two_procs_free, of 7 "[]"]
  by (simp add: two_procs_def NPROC_def upt_rec zero_defs)

text \<open>
  C8. \<^verbatim>\<open>sleep(chan, lk)\<close> is atomic with respect to the lock: when the process gives up the CPU it is
  marked as sleeping on \<open>chan\<close>, \<open>lk\<close> is free again, and the process's own lock is held (so a
  waker that takes it sees the mark). When it is switched in again, it returns with its channel
  cleared and with \<open>lk\<close> held as before.
\<close>

theorem sleep_gives_up_and_retakes:
  fixes s :: kernel
  assumes "at_rest p lk l" and "lkst s = enter lk l" and "resumes p lk f"
  shows "sleep ch lk s [] = Stop (Blocked (asleep_st p ch l s)) \<and>
    p_state (procs (asleep_st p ch l s) p) = SLEEPING \<and> p_chan (procs (asleep_st p ch l s) p) = ch \<and>
    lk_free lk (lkst (asleep_st p ch l s)) \<and> lk_held (LkProc p) (lkst (asleep_st p ch l s)) \<and>
    (\<exists>l'. at_rest p lk l' \<and> sleep ch lk s (f # e) =
       Ok () ((upd_proc p (\<lambda>q. q\<lparr>p_chan := ChNull\<rparr>) (f (asleep_st p ch l s)))\<lparr>lkst := enter lk l'\<rparr>) e)"
proof -
  have "p_state (procs (asleep_st p ch l s) p) = SLEEPING \<and> p_chan (procs (asleep_st p ch l s) p) = ch \<and>
      lk_free lk (lkst (asleep_st p ch l s)) \<and> lk_held (LkProc p) (lkst (asleep_st p ch l s))"
    using assms(1) by (auto simp: asleep_st_def at_rest_def)
  then show ?thesis
    using sleep_blocks [OF assms(1,2), of ch] sleep_resumes [OF assms, of ch e] by simp
qed

definition proc0_runs :: lockst where
  "proc0_runs = zero_lockst\<lparr>cpus := (\<lambda>_. zero_cpu)(0 := zero_cpu\<lparr>c_proc := Some 0\<rparr>)\<rparr>"

lemma proc0_at_rest: "lk \<noteq> LkProc 0 \<Longrightarrow> at_rest 0 lk proc0_runs"
  by (simp add: at_rest_def proc0_runs_def net_defs zero_defs)

theorem sleep_gives_up_and_retakes_witness:
  "\<exists>l'. at_rest 0 LkTicks l' \<and>
     sleep ChTicks LkTicks ((boot_kernel sample_syms)\<lparr>lkst := enter LkTicks proc0_runs\<rparr>) [id] =
     Ok () ((upd_proc 0 (\<lambda>q. q\<lparr>p_chan := ChNull\<rparr>)
       (asleep_st 0 ChTicks proc0_runs ((boot_kernel sample_syms)\<lparr>lkst := enter LkTicks proc0_runs\<rparr>)))
       \<lparr>lkst := enter LkTicks l'\<rparr>) []"
  using sleep_gives_up_and_retakes [OF proc0_at_rest, of LkTicks
    "(boot_kernel sample_syms)\<lparr>lkst := enter LkTicks proc0_runs\<rparr>" id ChTicks "[]"]
  by (auto simp: resumes_def)


lemma two_procs_idle: "idle_hart (lkst two_procs)"
  by (simp add: idle_hart_def two_procs_def zero_defs lk_free_def)


end
