(* ===== verification/Sleeplock.thy ===== *)
theory Sleeplock
  imports Proc
begin

text \<open>
  \<^verbatim>\<open>kernel/sleeplock.c\<close>: locks a process may hold while it sleeps, each guarded by a spin lock of its
  own. The net effects \<open>acquiresleep_st\<close> and \<open>releasesleep_st\<close> are what the operations do to a lock
  nobody holds and to a lock the process holds; waiting for a held lock is \<open>acquiresleep_blocks\<close>.
\<close>

section \<open>The operations\<close>

definition sl_at :: "slid \<Rightarrow> sleeplock kop" where
  "sl_at k = gets (\<lambda>s. slocks s k)"

definition upd_sl :: "slid \<Rightarrow> (sleeplock \<Rightarrow> sleeplock) \<Rightarrow> unit kop" where
  "upd_sl k f = modify (\<lambda>s. s\<lparr>slocks := (slocks s)(k := f (slocks s k))\<rparr>)"

definition initsleeplock :: "slid \<Rightarrow> string \<Rightarrow> unit kop" where
  "initsleeplock k nm =
     seq (initlock (LkSleep k) ''sleep lock'') (
     seq (upd_sl k (\<lambda>l. l\<lparr>sl_name := nm\<rparr>)) (
     seq (upd_sl k (\<lambda>l. l\<lparr>sl_locked := False\<rparr>)) (
     upd_sl k (\<lambda>l. l\<lparr>sl_pid := 0\<rparr>))))"

definition wait_sl_body :: "slid \<Rightarrow> unit \<Rightarrow> (unit + unit) kop" where
  "wait_sl_body k u =
     bind (sl_at k) (\<lambda>l.
     if sl_locked l then seq (sleep (ChSleep k) (LkSleep k)) (ret (Inl ())) else ret (Inr ()))"

definition acquiresleep :: "slid \<Rightarrow> unit kop" where
  "acquiresleep k =
     seq (acquire (LkSleep k)) (
     seq (loopK (wait_sl_body k) ()) (
     seq (upd_sl k (\<lambda>l. l\<lparr>sl_locked := True\<rparr>)) (
     bind myproc (\<lambda>mp.
     bind (need mp) (\<lambda>p.
     bind (proc_at p) (\<lambda>q.
     seq (upd_sl k (\<lambda>l. l\<lparr>sl_pid := p_pid q\<rparr>)) (
     release (LkSleep k))))))))"

definition releasesleep :: "slid \<Rightarrow> unit kop" where
  "releasesleep k =
     seq (acquire (LkSleep k)) (
     seq (upd_sl k (\<lambda>l. l\<lparr>sl_locked := False\<rparr>)) (
     seq (upd_sl k (\<lambda>l. l\<lparr>sl_pid := 0\<rparr>)) (
     seq (wakeup (ChSleep k)) (
     release (LkSleep k)))))"

definition holdingsleep :: "slid \<Rightarrow> bool kop" where
  "holdingsleep k =
     seq (acquire (LkSleep k)) (
     bind (sl_at k) (\<lambda>l.
     bind myproc (\<lambda>mp.
     bind (need mp) (\<lambda>p.
     bind (proc_at p) (\<lambda>q.
     seq (release (LkSleep k)) (
     ret (sl_locked l \<and> sl_pid l = p_pid q)))))))"

section \<open>Net effects\<close>

text \<open>Process \<open>p\<close> runs and no spin lock is taken.\<close>

definition calm :: "nat \<Rightarrow> lockst \<Rightarrow> bool" where
  "calm p l \<longleftrightarrow> irq_ok l \<and> cur l = Some p \<and> (\<forall>k. lk_free k l)"

lemma calmD:
  assumes "calm p l"
  shows "irq_ok l" and "cur l = Some p" and "lk_avail k l" and "others_free l"
    and "(\<And>i. k \<noteq> LkProc i) \<Longrightarrow> others_free (enter k l)" and "lk_free k l"
  using assms by (auto simp: calm_def lk_avail_def others_free_def)

lemma calm_enter:
  assumes "calm p l" and "k \<noteq> j"
  shows "lk_avail j (enter k l)" and "irq_ok (enter k l)"
  using assms by (auto simp: calm_def lk_avail_def)

definition acquiresleep_st :: "slid \<Rightarrow> nat \<Rightarrow> kernel \<Rightarrow> kernel" where
  "acquiresleep_st k p s = s\<lparr>slocks := (slocks s)(k := (slocks s k)\<lparr>sl_locked := True,
     sl_pid := p_pid (procs s p)\<rparr>)\<rparr>"

definition releasesleep_st :: "slid \<Rightarrow> kernel \<Rightarrow> kernel" where
  "releasesleep_st k s = wakeup_st (ChSleep k)
     (s\<lparr>slocks := (slocks s)(k := (slocks s k)\<lparr>sl_locked := False, sl_pid := 0\<rparr>)\<rparr>)"

definition sl_held :: "slid \<Rightarrow> nat \<Rightarrow> kernel \<Rightarrow> bool" where
  "sl_held k p s \<longleftrightarrow> sl_locked (slocks s k) \<and> sl_pid (slocks s k) = p_pid (procs s p)"

lemma upd_sl_run [simp]:
  "upd_sl k f s e = Ok () (s\<lparr>slocks := (slocks s)(k := f (slocks s k))\<rparr>) e"
  by (simp add: upd_sl_def)

lemma sl_at_run [simp]: "sl_at k s e = Ok (slocks s k) s e"
  by (simp add: sl_at_def)

lemma acquiresleep_run:
  assumes "calm p (lkst s)" and "\<not> sl_locked (slocks s k)"
  shows "acquiresleep k s e = Ok () (acquiresleep_st k p s) e"
proof -
  let ?s = "s\<lparr>lkst := enter (LkSleep k) (lkst s)\<rparr>"
  have "wait_sl_body k () ?s e = Ok (Inr ()) ?s e"
    using assms(2) by (simp add: wait_sl_body_def bind_def)
  then have "loopK (wait_sl_body k) () ?s e = Ok () ?s e" by (rule loopK_done)
  then show ?thesis
    using calmD(1-3) [OF assms(1)]
    by (simp add: acquiresleep_def acquiresleep_st_def bind_def seq_def ksimps)
qed

text \<open>A lock that is held: the process goes to sleep, with the guarding spin lock free.\<close>

lemma acquiresleep_blocks:
  assumes "calm p (lkst s)" and "noff (cpus (lkst s) (hart (lkst s))) = 0" and "sl_locked (slocks s k)"
  shows "acquiresleep k s [] = Stop (Blocked (asleep_st p (ChSleep k) (lkst s)
     (s\<lparr>lkst := enter (LkSleep k) (lkst s)\<rparr>)))"
proof -
  let ?s = "s\<lparr>lkst := enter (LkSleep k) (lkst s)\<rparr>"
  have rest: "at_rest p (LkSleep k) (lkst s)"
    using assms by (simp add: at_rest_def calm_def)
  have "wait_sl_body k () ?s [] = Stop (Blocked (asleep_st p (ChSleep k) (lkst s) ?s))"
    using assms(3) sleep_blocks [OF rest, of ?s "ChSleep k"] by (simp add: wait_sl_body_def bind_def seq_def)
  then have "loopK (wait_sl_body k) () ?s [] = Stop (Blocked (asleep_st p (ChSleep k) (lkst s) ?s))"
    by (rule loopK_stop)
  then show ?thesis
    using calmD(3) [OF assms(1)] by (simp add: acquiresleep_def bind_def seq_def ksimps)
qed

lemma releasesleep_run:
  assumes "calm p (lkst s)"
  shows "releasesleep k s e = Ok () (releasesleep_st k s) e"
  using calmD(1,3) [OF assms] calmD(5) [OF assms, of "LkSleep k"]
  by (simp add: releasesleep_def releasesleep_st_def bind_def seq_def ksimps wakeup_run wakeup_st_in
      del: wakeup_st_lkst)

lemma holdingsleep_run:
  assumes "calm p (lkst s)"
  shows "holdingsleep k s e = Ok (sl_held k p s) s e"
  using calmD(1-3) [OF assms] by (simp add: holdingsleep_def sl_held_def bind_def seq_def ksimps)

end
