(* ===== verification/Bio.thy ===== *)
theory Bio
  imports Sleeplock
begin

text \<open>
  \<^verbatim>\<open>kernel/bio.c\<close>: the cache of disk blocks, a doubly linked list of buffers from the most to the least
  recently used.

  The transfer of a block is \<open>disk_rw\<close>: the effect that \<^verbatim>\<open>virtio_disk_rw\<close> has once the device has
  answered (the driver itself and the proof that it has this effect are in \<^verbatim>\<open>Virtio\<close>). Every write
  is also noted in \<open>dwrites\<close>, so that theorems can speak about the order in which blocks reach the
  disk, and about what the disk holds after a crash between two of them.
\<close>

section \<open>The operations\<close>

definition buf_at :: "bufid \<Rightarrow> buf kop" where
  "buf_at b = (if b = BNull then fault else gets (\<lambda>s. bufs s b))"

definition upd_buf :: "bufid \<Rightarrow> (buf \<Rightarrow> buf) \<Rightarrow> unit kop" where
  "upd_buf b f =
     (if b = BNull then fault else modify (\<lambda>s. s\<lparr>bufs := (bufs s)(b := f (bufs s b))\<rparr>))"

text \<open>The sleep lock inside a buffer; the list head is never locked.\<close>

definition buf_lock :: "bufid \<Rightarrow> slid option" where
  "buf_lock b = (case b of Buf i \<Rightarrow> Some (SlBuf i) | _ \<Rightarrow> None)"

definition with_lock :: "bufid \<Rightarrow> (slid \<Rightarrow> 'a kop) \<Rightarrow> 'a kop" where
  "with_lock b f = bind (need (buf_lock b)) f"

definition disk_rw :: "bufid \<Rightarrow> bool \<Rightarrow> unit kop" where
  "disk_rw b wr =
     bind (buf_at b) (\<lambda>v.
     if wr then
       modify (\<lambda>s. s\<lparr>disk := (disk s)(unat (b_blockno v) := b_data v),
         dwrites := dwrites s @ [(unat (b_blockno v), b_data v)]\<rparr>)
     else
       bind (gets (\<lambda>s. disk s (unat (b_blockno v)))) (\<lambda>d.
       upd_buf b (\<lambda>v. v\<lparr>b_data := d\<rparr>)))"

definition binit_body :: "nat \<Rightarrow> unit kop" where
  "binit_body i =
     bind (buf_at BHead) (\<lambda>h.
     seq (upd_buf (Buf i) (\<lambda>b. b\<lparr>b_next := b_next h\<rparr>)) (
     seq (upd_buf (Buf i) (\<lambda>b. b\<lparr>b_prev := BHead\<rparr>)) (
     seq (initsleeplock (SlBuf i) ''buffer'') (
     bind (buf_at BHead) (\<lambda>h.
     seq (upd_buf (b_next h) (\<lambda>b. b\<lparr>b_prev := Buf i\<rparr>)) (
     upd_buf BHead (\<lambda>b. b\<lparr>b_next := Buf i\<rparr>)))))))"

definition binit :: "unit kop" where
  "binit =
     seq (initlock LkBcache ''bcache'') (
     seq (upd_buf BHead (\<lambda>b. b\<lparr>b_prev := BHead\<rparr>)) (
     seq (upd_buf BHead (\<lambda>b. b\<lparr>b_next := BHead\<rparr>)) (
     for_each [0..<NBUF] binit_body)))"

text \<open>The two searches of \<^verbatim>\<open>bget\<close>: forward for the block, backward for a buffer nobody uses.\<close>

definition bget_hit :: "uint \<Rightarrow> uint \<Rightarrow> bufid \<Rightarrow> (bufid + bufid option) kop" where
  "bget_hit dev blockno b =
     (if b = BHead then ret (Inr None) else
      bind (buf_at b) (\<lambda>v.
      if b_dev v = dev \<and> b_blockno v = blockno then
        seq (upd_buf b (\<lambda>v. v\<lparr>b_refcnt := b_refcnt v + 1\<rparr>)) (
        seq (release LkBcache) (
        seq (with_lock b acquiresleep) (
        ret (Inr (Some b)))))
      else ret (Inl (b_next v))))"

definition bget_recycle :: "uint \<Rightarrow> uint \<Rightarrow> bufid \<Rightarrow> (bufid + bufid option) kop" where
  "bget_recycle dev blockno b =
     (if b = BHead then ret (Inr None) else
      bind (buf_at b) (\<lambda>v.
      if b_refcnt v = 0 then
        seq (upd_buf b (\<lambda>v. v\<lparr>b_dev := dev, b_blockno := blockno, b_valid := False, b_refcnt := 1\<rparr>)) (
        seq (release LkBcache) (
        seq (with_lock b acquiresleep) (
        ret (Inr (Some b)))))
      else ret (Inl (b_prev v))))"

definition bget :: "uint \<Rightarrow> uint \<Rightarrow> bufid kop" where
  "bget dev blockno =
     seq (acquire LkBcache) (
     bind (buf_at BHead) (\<lambda>h.
     bind (loopK (bget_hit dev blockno) (b_next h)) (\<lambda>r.
     case r of Some b \<Rightarrow> ret b
     | None \<Rightarrow>
         bind (buf_at BHead) (\<lambda>h.
         bind (loopK (bget_recycle dev blockno) (b_prev h)) (\<lambda>r.
         case r of Some b \<Rightarrow> ret b
         | None \<Rightarrow> panic ''bget: no buffers'')))))"

definition bread :: "uint \<Rightarrow> uint \<Rightarrow> bufid kop" where
  "bread dev blockno =
     bind (bget dev blockno) (\<lambda>b.
     bind (buf_at b) (\<lambda>v.
     seq (whenK (\<not> b_valid v) (
       seq (disk_rw b False) (
       upd_buf b (\<lambda>v. v\<lparr>b_valid := True\<rparr>)))) (
     ret b)))"

definition bwrite :: "bufid \<Rightarrow> unit kop" where
  "bwrite b =
     bind (with_lock b holdingsleep) (\<lambda>h.
     seq (whenK (\<not> h) (panic ''bwrite'')) (
     disk_rw b True))"

definition brelse :: "bufid \<Rightarrow> unit kop" where
  "brelse b =
     bind (with_lock b holdingsleep) (\<lambda>h.
     seq (whenK (\<not> h) (panic ''brelse'')) (
     seq (with_lock b releasesleep) (
     seq (acquire LkBcache) (
     seq (upd_buf b (\<lambda>v. v\<lparr>b_refcnt := b_refcnt v - 1\<rparr>)) (
     bind (buf_at b) (\<lambda>v.
     seq (whenK (b_refcnt v = 0) (
       seq (upd_buf (b_next v) (\<lambda>w. w\<lparr>b_prev := b_prev v\<rparr>)) (
       bind (buf_at b) (\<lambda>v.
       seq (upd_buf (b_prev v) (\<lambda>w. w\<lparr>b_next := b_next v\<rparr>)) (
       bind (buf_at BHead) (\<lambda>h.
       seq (upd_buf b (\<lambda>w. w\<lparr>b_next := b_next h\<rparr>)) (
       seq (upd_buf b (\<lambda>w. w\<lparr>b_prev := BHead\<rparr>)) (
       bind (buf_at BHead) (\<lambda>h.
       seq (upd_buf (b_next h) (\<lambda>w. w\<lparr>b_prev := b\<rparr>)) (
       upd_buf BHead (\<lambda>w. w\<lparr>b_next := b\<rparr>))))))))))) (
     release LkBcache)))))))"

definition bpin :: "bufid \<Rightarrow> unit kop" where
  "bpin b =
     seq (acquire LkBcache) (
     seq (upd_buf b (\<lambda>v. v\<lparr>b_refcnt := b_refcnt v + 1\<rparr>)) (
     release LkBcache))"

definition bunpin :: "bufid \<Rightarrow> unit kop" where
  "bunpin b =
     seq (acquire LkBcache) (
     seq (upd_buf b (\<lambda>v. v\<lparr>b_refcnt := b_refcnt v - 1\<rparr>)) (
     release LkBcache))"

end
