(* ===== verification/Vm.thy ===== *)
theory Vm
  imports Proc
begin

text \<open>
  \<^verbatim>\<open>kernel/vm.c\<close>: three-level Sv39 page tables, user memory, and copying between user and kernel
  memory; with \<^verbatim>\<open>proc_mapstacks\<close> of \<^verbatim>\<open>proc.c\<close>.

  A \<^verbatim>\<open>pte_t *\<close> is the address of a page-table page with an index below 512. A page that
  \<^verbatim>\<open>memset\<close> has filled can be read both as an array of entries and as bytes, any other page only
  as what was stored there.
\<close>

section \<open>Pages as page tables and as bytes\<close>

type_synonym pte_ref = "addr \<times> nat"

definition fill64 :: "uchar \<Rightarrow> uint64" where
  "fill64 c = 0x0101010101010101 * ucast c"

definition as_ptab :: "page \<Rightarrow> (nat \<Rightarrow> uint64) option" where
  "as_ptab pg = (case pg of PgPtab t \<Rightarrow> Some t | PgFill c \<Rightarrow> Some (\<lambda>_. fill64 c) | _ \<Rightarrow> None)"

definition as_bytes :: "page \<Rightarrow> (nat \<Rightarrow> uchar) option" where
  "as_bytes pg = (case pg of PgBytes f \<Rightarrow> Some f | PgFill c \<Rightarrow> Some (\<lambda>_. c) | _ \<Rightarrow> None)"

text \<open>The table at an address; there is none at the null pointer.\<close>

definition ptab_at :: "(addr \<Rightarrow> page) \<Rightarrow> addr \<Rightarrow> (nat \<Rightarrow> uint64) option" where
  "ptab_at m a = (if a = 0 then None else as_ptab (m a))"

definition bytes_at :: "(addr \<Rightarrow> page) \<Rightarrow> addr \<Rightarrow> (nat \<Rightarrow> uchar) option" where
  "bytes_at m a = (if a = 0 then None else as_bytes (m a))"

definition load_pte :: "pte_ref \<Rightarrow> uint64 kop" where
  "load_pte r =
     bind (gets (\<lambda>s. ptab_at (phys s) (fst r))) (\<lambda>mt.
     bind (need mt) (\<lambda>t.
     ret (t (snd r))))"

definition store_pte :: "pte_ref \<Rightarrow> uint64 \<Rightarrow> unit kop" where
  "store_pte r v =
     bind (gets (\<lambda>s. ptab_at (phys s) (fst r))) (\<lambda>mt.
     bind (need mt) (\<lambda>t.
     modify (\<lambda>s. set_page (fst r) (PgPtab (t(snd r := v))) s)))"

text \<open>\<^verbatim>\<open>memmove\<close> to and from byte \<open>off\<close> of the page at \<open>pa\<close>.\<close>

definition put_bytes :: "nat \<Rightarrow> uchar list \<Rightarrow> (nat \<Rightarrow> uchar) \<Rightarrow> nat \<Rightarrow> uchar" where
  "put_bytes off bs f = (\<lambda>i. if off \<le> i \<and> i < off + length bs then bs ! (i - off) else f i)"

definition write_page :: "addr \<Rightarrow> nat \<Rightarrow> uchar list \<Rightarrow> unit kop" where
  "write_page pa off bs =
     bind (gets (\<lambda>s. bytes_at (phys s) pa)) (\<lambda>mb.
     bind (need mb) (\<lambda>f.
     modify (\<lambda>s. set_page pa (PgBytes (put_bytes off bs f)) s)))"

definition read_page :: "addr \<Rightarrow> nat \<Rightarrow> nat \<Rightarrow> uchar list kop" where
  "read_page pa off n =
     bind (gets (\<lambda>s. bytes_at (phys s) pa)) (\<lambda>mb.
     bind (need mb) (\<lambda>f.
     ret (map (\<lambda>i. f (off + i)) [0..<n])))"

text \<open>\<^verbatim>\<open>memset(p, 0, PGSIZE)\<close> where \<open>p\<close> has not been compared with the null pointer.\<close>

definition clear_page :: "addr \<Rightarrow> unit kop" where
  "clear_page a = (if a = 0 then fault else memset_page a 0)"

section \<open>Page tables\<close>

text \<open>
  \<^verbatim>\<open>walk\<close>: the \<^verbatim>\<open>for\<close> loop over the levels 2 and 1 is the recursion of \<open>walk_from\<close>.
\<close>

primrec walk_from :: "nat \<Rightarrow> addr \<Rightarrow> uint64 \<Rightarrow> bool \<Rightarrow> pte_ref option kop" where
  "walk_from 0 pagetable va alloc = ret (Some (pagetable, unat (PX 0 va)))"
| "walk_from (Suc l) pagetable va alloc =
     bind (load_pte (pagetable, unat (PX (Suc l) va))) (\<lambda>pte.
     if pte AND PTE_V \<noteq> 0 then walk_from l (PTE2PA pte) va alloc
     else if \<not> alloc then ret None
     else
       bind kalloc (\<lambda>m.
       if m = 0 then ret None
       else
         seq (memset_page m 0) (
         seq (store_pte (pagetable, unat (PX (Suc l) va)) (PA2PTE m OR PTE_V)) (
         walk_from l m va alloc))))"

definition walk :: "addr \<Rightarrow> uint64 \<Rightarrow> bool \<Rightarrow> pte_ref option kop" where
  "walk pagetable va alloc =
     seq (whenK (va \<ge> MAXVA) (panic ''walk'')) (
     walk_from 2 pagetable va alloc)"

definition walkaddr :: "addr \<Rightarrow> uint64 \<Rightarrow> addr kop" where
  "walkaddr pagetable va =
     (if va \<ge> MAXVA then ret 0 else
      bind (walk pagetable va False) (\<lambda>r.
      case r of None \<Rightarrow> ret 0
      | Some p \<Rightarrow>
        bind (load_pte p) (\<lambda>pte.
        if pte AND PTE_V = 0 then ret 0
        else if pte AND PTE_U = 0 then ret 0
        else ret (PTE2PA pte))))"

definition mappages_body :: "addr \<Rightarrow> uint64 \<Rightarrow> uint64 \<Rightarrow> uint64 \<times> uint64 \<Rightarrow> ((uint64 \<times> uint64) + cint) kop" where
  "mappages_body pagetable lst perm = (\<lambda>(a, pa).
     bind (walk pagetable a True) (\<lambda>r.
     case r of None \<Rightarrow> ret (Inr (-1))
     | Some p \<Rightarrow>
       bind (load_pte p) (\<lambda>pte.
       seq (whenK (pte AND PTE_V \<noteq> 0) (panic ''mappages: remap'')) (
       seq (store_pte p (PA2PTE pa OR perm OR PTE_V)) (
       if a = lst then ret (Inr 0) else ret (Inl (a + PGSIZE, pa + PGSIZE)))))))"

definition mappages :: "addr \<Rightarrow> uint64 \<Rightarrow> uint64 \<Rightarrow> uint64 \<Rightarrow> uint64 \<Rightarrow> cint kop" where
  "mappages pagetable va sz pa perm =
     seq (whenK (va mod PGSIZE \<noteq> 0) (panic ''mappages: va not aligned'')) (
     seq (whenK (sz mod PGSIZE \<noteq> 0) (panic ''mappages: size not aligned'')) (
     seq (whenK (sz = 0) (panic ''mappages: size'')) (
     loopK (mappages_body pagetable (va + sz - PGSIZE) perm) (va, pa))))"

definition kvmmap :: "addr \<Rightarrow> uint64 \<Rightarrow> uint64 \<Rightarrow> uint64 \<Rightarrow> uint64 \<Rightarrow> unit kop" where
  "kvmmap kpgtbl va pa sz perm =
     bind (mappages kpgtbl va sz pa perm) (\<lambda>r.
     whenK (r \<noteq> 0) (panic ''kvmmap''))"

definition proc_mapstacks :: "addr \<Rightarrow> unit kop" where
  "proc_mapstacks kpgtbl =
     for_each [0..<NPROC] (\<lambda>i.
       bind kalloc (\<lambda>pa.
       seq (whenK (pa = 0) (panic ''kalloc'')) (
       kvmmap kpgtbl (KSTACK i) pa PGSIZE (PTE_R OR PTE_W))))"

definition kvmmake :: "addr kop" where
  "kvmmake =
     bind kalloc (\<lambda>kpgtbl.
     seq (clear_page kpgtbl) (
     seq (kvmmap kpgtbl UART0 UART0 PGSIZE (PTE_R OR PTE_W)) (
     seq (kvmmap kpgtbl VIRTIO0 VIRTIO0 PGSIZE (PTE_R OR PTE_W)) (
     seq (kvmmap kpgtbl PLIC PLIC 0x4000000 (PTE_R OR PTE_W)) (
     bind (gets syms) (\<lambda>sy.
     seq (kvmmap kpgtbl KERNBASE KERNBASE (sym_etext sy - KERNBASE) (PTE_R OR PTE_X)) (
     seq (kvmmap kpgtbl (sym_etext sy) (sym_etext sy) (PHYSTOP - sym_etext sy) (PTE_R OR PTE_W)) (
     seq (kvmmap kpgtbl TRAMPOLINE (sym_trampoline sy) PGSIZE (PTE_R OR PTE_X)) (
     seq (proc_mapstacks kpgtbl) (
     ret kpgtbl))))))))))"

definition kvminit :: "unit kop" where
  "kvminit = bind kvmmake (\<lambda>pt. modify (\<lambda>s. s\<lparr>kernel_pagetable := pt\<rparr>))"

definition kvminithart :: "unit kop" where
  "kvminithart = modify (\<lambda>s. s\<lparr>satp := MAKE_SATP (kernel_pagetable s)\<rparr>)"

section \<open>User memory\<close>

definition uvmunmap_body :: "addr \<Rightarrow> uint64 \<Rightarrow> bool \<Rightarrow> uint64 \<Rightarrow> (uint64 + unit) kop" where
  "uvmunmap_body pagetable stop do_free a =
     (if a < stop then
        bind (walk pagetable a False) (\<lambda>r.
        case r of None \<Rightarrow> panic ''uvmunmap: walk''
        | Some p \<Rightarrow>
          bind (load_pte p) (\<lambda>pte.
          seq (whenK (pte AND PTE_V = 0) (panic ''uvmunmap: not mapped'')) (
          seq (whenK (PTE_FLAGS pte = PTE_V) (panic ''uvmunmap: not a leaf'')) (
          seq (whenK do_free (kfree (PTE2PA pte))) (
          seq (store_pte p 0) (
          ret (Inl (a + PGSIZE))))))))
      else ret (Inr ()))"

definition uvmunmap :: "addr \<Rightarrow> uint64 \<Rightarrow> uint64 \<Rightarrow> bool \<Rightarrow> unit kop" where
  "uvmunmap pagetable va npages do_free =
     seq (whenK (va mod PGSIZE \<noteq> 0) (panic ''uvmunmap: not aligned'')) (
     loopK (uvmunmap_body pagetable (va + npages * PGSIZE) do_free) va)"

definition uvmcreate :: "addr kop" where
  "uvmcreate =
     bind kalloc (\<lambda>pagetable.
     if pagetable = 0 then ret 0
     else seq (memset_page pagetable 0) (ret pagetable))"

definition uvmfirst :: "addr \<Rightarrow> uchar list \<Rightarrow> unit kop" where
  "uvmfirst pagetable src =
     seq (whenK (length src \<ge> 4096) (panic ''uvmfirst: more than a page'')) (
     bind kalloc (\<lambda>mem.
     seq (clear_page mem) (
     seq (mappages pagetable 0 PGSIZE mem (PTE_W OR PTE_R OR PTE_X OR PTE_U)) (
     write_page mem 0 src))))"

definition uvmdealloc :: "addr \<Rightarrow> uint64 \<Rightarrow> uint64 \<Rightarrow> uint64 kop" where
  "uvmdealloc pagetable oldsz newsz =
     (if newsz \<ge> oldsz then ret oldsz else
      seq (whenK (PGROUNDUP newsz < PGROUNDUP oldsz)
        (let npages = (ucast ((PGROUNDUP oldsz - PGROUNDUP newsz) div PGSIZE) :: cint)
         in uvmunmap pagetable (PGROUNDUP newsz) (scast npages) True)) (
      ret newsz))"

definition uvmalloc_body :: "addr \<Rightarrow> uint64 \<Rightarrow> uint64 \<Rightarrow> uint64 \<Rightarrow> uint64 \<Rightarrow> (uint64 + uint64) kop" where
  "uvmalloc_body pagetable oldsz newsz xperm a =
     (if a < newsz then
        bind kalloc (\<lambda>mem.
        if mem = 0 then
          seq (uvmdealloc pagetable a oldsz) (ret (Inr 0))
        else
          seq (memset_page mem 0) (
          bind (mappages pagetable a PGSIZE mem (PTE_R OR PTE_U OR xperm)) (\<lambda>r.
          if r \<noteq> 0 then
            seq (kfree mem) (
            seq (uvmdealloc pagetable a oldsz) (
            ret (Inr 0)))
          else ret (Inl (a + PGSIZE)))))
      else ret (Inr newsz))"

definition uvmalloc :: "addr \<Rightarrow> uint64 \<Rightarrow> uint64 \<Rightarrow> uint64 \<Rightarrow> uint64 kop" where
  "uvmalloc pagetable oldsz newsz xperm =
     (if newsz < oldsz then ret oldsz
      else loopK (uvmalloc_body pagetable (PGROUNDUP oldsz) newsz xperm) (PGROUNDUP oldsz))"

text \<open>
  \<^verbatim>\<open>freewalk\<close> calls itself on every valid entry that is not a leaf. Its first argument bounds the
  depth of the recursion; a table deeper than that (a cycle: proper tables have depth 3) is
  \<open>Diverges\<close>, where the C code overruns its stack.
\<close>

primrec freewalk_depth :: "nat \<Rightarrow> addr \<Rightarrow> unit kop" where
  "freewalk_depth 0 pagetable = halt Diverges"
| "freewalk_depth (Suc n) pagetable =
     seq (for_each [0..<512] (\<lambda>i.
       bind (load_pte (pagetable, i)) (\<lambda>pte.
       if pte AND PTE_V \<noteq> 0 \<and> pte AND (PTE_R OR PTE_W OR PTE_X) = 0 then
         seq (freewalk_depth n (PTE2PA pte)) (
         store_pte (pagetable, i) 0)
       else whenK (pte AND PTE_V \<noteq> 0) (panic ''freewalk: leaf'')))) (
     kfree pagetable)"

definition freewalk :: "addr \<Rightarrow> unit kop" where
  "freewalk pagetable = freewalk_depth 64 pagetable"

definition uvmfree :: "addr \<Rightarrow> uint64 \<Rightarrow> unit kop" where
  "uvmfree pagetable sz =
     seq (whenK (sz > 0) (uvmunmap pagetable 0 (PGROUNDUP sz div PGSIZE) True)) (
     freewalk pagetable)"

definition uvmcopy_body :: "addr \<Rightarrow> addr \<Rightarrow> uint64 \<Rightarrow> uint64 \<Rightarrow> (uint64 + cint) kop" where
  "uvmcopy_body old new sz i =
     (if i < sz then
        bind (walk old i False) (\<lambda>r.
        case r of None \<Rightarrow> panic ''uvmcopy: pte should exist''
        | Some p \<Rightarrow>
          bind (load_pte p) (\<lambda>pte.
          seq (whenK (pte AND PTE_V = 0) (panic ''uvmcopy: page not present'')) (
          bind kalloc (\<lambda>mem.
          if mem = 0 then
            seq (uvmunmap new 0 (i div PGSIZE) True) (ret (Inr (-1)))
          else
            bind (read_page (PTE2PA pte) 0 4096) (\<lambda>bs.
            seq (write_page mem 0 bs) (
            bind (mappages new i PGSIZE mem (PTE_FLAGS pte)) (\<lambda>q.
            if q \<noteq> 0 then
              seq (kfree mem) (
              seq (uvmunmap new 0 (i div PGSIZE) True) (
              ret (Inr (-1))))
            else ret (Inl (i + PGSIZE)))))))))
      else ret (Inr 0))"

definition uvmcopy :: "addr \<Rightarrow> addr \<Rightarrow> uint64 \<Rightarrow> cint kop" where
  "uvmcopy old new sz = loopK (uvmcopy_body old new sz) 0"

definition uvmclear :: "addr \<Rightarrow> uint64 \<Rightarrow> unit kop" where
  "uvmclear pagetable va =
     bind (walk pagetable va False) (\<lambda>r.
     case r of None \<Rightarrow> panic ''uvmclear''
     | Some p \<Rightarrow>
       bind (load_pte p) (\<lambda>pte.
       store_pte p (pte AND NOT PTE_U)))"

section \<open>Copying between user and kernel memory\<close>

text \<open>
  The kernel-side buffer is a list of bytes: \<open>src\<close> of \<^verbatim>\<open>copyout\<close> with \<open>len\<close> its length, and the
  bytes written to \<open>dst\<close> so far as the second result of \<^verbatim>\<open>copyin\<close> and \<^verbatim>\<open>copyinstr\<close>.
\<close>

definition copyout_body :: "addr \<Rightarrow> uint64 \<times> uchar list \<Rightarrow> ((uint64 \<times> uchar list) + cint) kop" where
  "copyout_body pagetable = (\<lambda>(dstva, src).
     if length src > 0 then
       let va0 = PGROUNDDOWN dstva in
       if va0 \<ge> MAXVA then ret (Inr (-1)) else
       bind (walk pagetable va0 False) (\<lambda>r.
       case r of None \<Rightarrow> ret (Inr (-1))
       | Some p \<Rightarrow>
         bind (load_pte p) (\<lambda>pte.
         if pte AND PTE_V = 0 \<or> pte AND PTE_U = 0 \<or> pte AND PTE_W = 0 then ret (Inr (-1)) else
         let pa0 = PTE2PA pte;
             n = min (unat (PGSIZE - (dstva - va0))) (length src)
         in seq (write_page pa0 (unat (dstva - va0)) (take n src)) (
            ret (Inl (va0 + PGSIZE, drop n src)))))
     else ret (Inr 0))"

definition copyout :: "addr \<Rightarrow> uint64 \<Rightarrow> uchar list \<Rightarrow> cint kop" where
  "copyout pagetable dstva src = loopK (copyout_body pagetable) (dstva, src)"

definition copyin_body :: "addr \<Rightarrow> uint64 \<times> uint64 \<times> uchar list \<Rightarrow>
    ((uint64 \<times> uint64 \<times> uchar list) + (cint \<times> uchar list)) kop" where
  "copyin_body pagetable = (\<lambda>(srcva, len, dst).
     if len > 0 then
       let va0 = PGROUNDDOWN srcva in
       bind (walkaddr pagetable va0) (\<lambda>pa0.
       if pa0 = 0 then ret (Inr (-1, dst)) else
       let n0 = PGSIZE - (srcva - va0);
           n = (if n0 > len then len else n0)
       in bind (read_page pa0 (unat (srcva - va0)) (unat n)) (\<lambda>bs.
          ret (Inl (va0 + PGSIZE, len - n, dst @ bs))))
     else ret (Inr (0, dst)))"

definition copyin :: "addr \<Rightarrow> uint64 \<Rightarrow> uint64 \<Rightarrow> (cint \<times> uchar list) kop" where
  "copyin pagetable srcva len = loopK (copyin_body pagetable) (srcva, len, [])"

text \<open>
  The inner loop of \<^verbatim>\<open>copyinstr\<close> on the bytes of one page: what it appends to \<open>dst\<close>, whether it
  met the null byte, and how many bytes it took off \<open>max\<close>.
\<close>

fun str_chunk :: "uchar list \<Rightarrow> uchar list \<times> bool \<times> nat" where
  "str_chunk [] = ([], False, 0)"
| "str_chunk (c # cs) = (if c = 0 then ([0], True, 0)
     else let (ds, g, k) = str_chunk cs in (c # ds, g, Suc k))"

definition copyinstr_body :: "addr \<Rightarrow> uint64 \<times> uint64 \<times> uchar list \<times> bool \<Rightarrow>
    ((uint64 \<times> uint64 \<times> uchar list \<times> bool) + (cint \<times> uchar list)) kop" where
  "copyinstr_body pagetable = (\<lambda>(srcva, mx, dst, got_null).
     if \<not> got_null \<and> mx > 0 then
       let va0 = PGROUNDDOWN srcva in
       bind (walkaddr pagetable va0) (\<lambda>pa0.
       if pa0 = 0 then ret (Inr (-1, dst)) else
       let n0 = PGSIZE - (srcva - va0);
           n = (if n0 > mx then mx else n0)
       in bind (read_page pa0 (unat (srcva - va0)) (unat n)) (\<lambda>bs.
          let (ds, g, k) = str_chunk bs
          in ret (Inl (va0 + PGSIZE, mx - of_nat k, dst @ ds, g))))
     else ret (Inr (if got_null then 0 else -1, dst)))"

definition copyinstr :: "addr \<Rightarrow> uint64 \<Rightarrow> uint64 \<Rightarrow> (cint \<times> uchar list) kop" where
  "copyinstr pagetable srcva mx = loopK (copyinstr_body pagetable) (srcva, mx, [], False)"

end
