(* ===== verification/Bytes.thy ===== *)
theory Bytes
  imports Prelude
begin

text \<open>
  The bytes of machine integers, least significant first, as the RISC-V compiler lays them out
  in structures that are copied byte by byte: \<open>le_bytes k w\<close> are the first \<open>k\<close> bytes of \<open>w\<close> and
  \<open>le_word bs\<close> is the integer with the bytes \<open>bs\<close>.
\<close>

definition le_bytes :: "nat \<Rightarrow> 'a::len word \<Rightarrow> 8 word list" where
  "le_bytes k w = map (\<lambda>i. ucast (drop_bit (8 * i) w)) [0..<k]"

primrec le_word :: "8 word list \<Rightarrow> 'a::len word" where
  "le_word [] = 0"
| "le_word (b # bs) = ucast b OR push_bit 8 (le_word bs)"

lemma length_le_bytes [simp]: "length (le_bytes k w) = k"
  by (simp add: le_bytes_def)

lemma bit_le_word:
  assumes "n < LENGTH('a::len)"
  shows "bit (le_word bs :: 'a word) n \<longleftrightarrow> n div 8 < length bs \<and> bit (bs ! (n div 8)) (n mod 8)"
  using assms
proof (induction bs arbitrary: n)
  case Nil
  then show ?case by simp
next
  case (Cons b bs)
  show ?case
  proof (cases "n < 8")
    case True
    with Cons.prems show ?thesis by (simp add: bit_simps)
  next
    case False
    then obtain m where m: "n = 8 + m" using le_Suc_ex [of 8 n] by auto
    then have d: "n div 8 = Suc (m div 8)" "n mod 8 = m mod 8" by simp_all
    have "bit b n = False" using False bit_imp_le_length [of b n] by auto
    with Cons.IH [of m] Cons.prems m d show ?thesis by (simp add: bit_simps)
  qed
qed

lemma bit_le_bytes:
  assumes "i < k" and "j < 8"
  shows "bit (le_bytes k (w :: 'a::len word) ! i) j \<longleftrightarrow> bit w (8 * i + j)"
  using assms by (simp add: le_bytes_def bit_simps add.commute)

text \<open>Encoding and decoding are inverse to each other.\<close>

lemma le_word_bytes:
  assumes "8 * k = LENGTH('a::len)"
  shows "le_word (le_bytes k w) = (w :: 'a word)"
proof (rule bit_word_eqI)
  fix n assume "n < LENGTH('a)"
  then have "n div 8 < k" using assms by simp
  with \<open>n < LENGTH('a)\<close> show "bit (le_word (le_bytes k w) :: 'a word) n = bit w n"
    by (simp add: bit_le_word bit_le_bytes mult.commute)
qed

lemma le_bytes_word:
  assumes "8 * length bs \<le> LENGTH('a::len)"
  shows "le_bytes (length bs) (le_word bs :: 'a word) = bs"
proof (rule nth_equalityI)
  fix i assume "i < length (le_bytes (length bs) (le_word bs :: 'a word))"
  then have i: "i < length bs" by simp
  show "le_bytes (length bs) (le_word bs :: 'a word) ! i = bs ! i"
  proof (rule bit_word_eqI)
    fix j assume "j < LENGTH(8)"
    then have j: "j < 8" by simp
    then have "8 * i + j < LENGTH('a)" using i assms by linarith
    with i j show "bit (le_bytes (length bs) (le_word bs :: 'a word) ! i) j = bit (bs ! i) j"
      by (simp add: bit_le_bytes bit_le_word)
  qed
qed simp

lemma le_word32_bytes [simp]: "le_word (le_bytes 4 w) = (w :: 32 word)"
  by (rule le_word_bytes) simp

lemma le_word64_bytes [simp]: "le_word (le_bytes 8 w) = (w :: 64 word)"
  by (rule le_word_bytes) simp

lemma le_word16_bytes [simp]: "le_word (le_bytes 2 w) = (w :: 16 word)"
  by (rule le_word_bytes) simp

end
