(* ===== verification/Log.thy ===== *)
theory Log
  imports Bio Vm Bytes
begin

text \<open>
  \<^verbatim>\<open>kernel/log.c\<close>: the write-ahead log that makes the updates of one transaction reach the disk all or
  none. The header block holds the count (32 bits) and then the block numbers.
\<close>

section \<open>Words in a block\<close>

definition get16 :: "block \<Rightarrow> nat \<Rightarrow> cshort" where
  "get16 d off = le_word (map d [off..<off + 2])"

definition get32 :: "block \<Rightarrow> nat \<Rightarrow> uint" where
  "get32 d off = le_word (map d [off..<off + 4])"

definition get64 :: "block \<Rightarrow> nat \<Rightarrow> uint64" where
  "get64 d off = le_word (map d [off..<off + 8])"

definition put16 :: "nat \<Rightarrow> cshort \<Rightarrow> block \<Rightarrow> block" where
  "put16 off w d = put_bytes off (le_bytes 2 w) d"

definition put32 :: "nat \<Rightarrow> uint \<Rightarrow> block \<Rightarrow> block" where
  "put32 off w d = put_bytes off (le_bytes 4 w) d"

section \<open>The operations\<close>

definition upd_log :: "(klog \<Rightarrow> klog) \<Rightarrow> unit kop" where
  "upd_log f = modify (\<lambda>s. s\<lparr>klogst := f (klogst s)\<rparr>)"

definition set_data :: "bufid \<Rightarrow> (block \<Rightarrow> block) \<Rightarrow> unit kop" where
  "set_data b f = upd_buf b (\<lambda>v. v\<lparr>b_data := f (b_data v)\<rparr>)"

text \<open>One round of \<^verbatim>\<open>install_trans\<close> and of \<^verbatim>\<open>write_log\<close>.\<close>

definition install_body :: "bool \<Rightarrow> nat \<Rightarrow> unit kop" where
  "install_body recovering tail =
     bind (gets klogst) (\<lambda>lg.
     bind (bread (lg_dev lg) (lg_start lg + of_nat tail + 1)) (\<lambda>lbuf.
     bind (gets klogst) (\<lambda>lg.
     bind (bread (lg_dev lg) (lh_block lg tail)) (\<lambda>dbuf.
     bind (buf_at lbuf) (\<lambda>v.
     seq (set_data dbuf (\<lambda>_. b_data v)) (
     seq (bwrite dbuf) (
     seq (whenK (\<not> recovering) (bunpin dbuf)) (
     seq (brelse lbuf) (
     brelse dbuf)))))))))"

definition install_trans :: "bool \<Rightarrow> unit kop" where
  "install_trans recovering =
     bind (gets (\<lambda>s. lh_n (klogst s))) (\<lambda>n.
     for_each [0..<nat n] (install_body recovering))"

text \<open>
  A header whose count exceeds \<^verbatim>\<open>LOGSIZE\<close> would be read past the end of the array \<^verbatim>\<open>block[]\<close>.
\<close>

definition read_head :: "unit kop" where
  "read_head =
     bind (gets klogst) (\<lambda>lg.
     bind (bread (lg_dev lg) (lg_start lg)) (\<lambda>b.
     bind (buf_at b) (\<lambda>v.
     seq (upd_log (\<lambda>l. l\<lparr>lh_n := sint (get32 (b_data v) 0)\<rparr>)) (
     bind (gets (\<lambda>s. lh_n (klogst s))) (\<lambda>n.
     seq (for_each [0..<nat n] (\<lambda>i.
            if i \<ge> LOGSIZE then fault else
            upd_log (\<lambda>l. l\<lparr>lh_block := (lh_block l)(i := get32 (b_data v) (4 + 4 * i))\<rparr>))) (
     brelse b))))))"

definition write_head :: "unit kop" where
  "write_head =
     bind (gets klogst) (\<lambda>lg.
     bind (bread (lg_dev lg) (lg_start lg)) (\<lambda>b.
     bind (gets klogst) (\<lambda>lg.
     seq (set_data b (put32 0 (of_int (lh_n lg)))) (
     seq (for_each [0..<nat (lh_n lg)] (\<lambda>i.
            set_data b (put32 (4 + 4 * i) (lh_block lg i)))) (
     seq (bwrite b) (
     brelse b))))))"

definition recover_from_log :: "unit kop" where
  "recover_from_log =
     seq read_head (
     seq (install_trans True) (
     seq (upd_log (\<lambda>l. l\<lparr>lh_n := 0\<rparr>)) (
     write_head)))"

text \<open>The size of \<^verbatim>\<open>struct logheader\<close> is \<^verbatim>\<open>4 + 4*LOGSIZE\<close>.\<close>

definition initlog :: "uint \<Rightarrow> superblock \<Rightarrow> unit kop" where
  "initlog dev sb =
     seq (whenK (4 + 4 * LOGSIZE \<ge> 1024) (panic ''initlog: too big logheader'')) (
     seq (initlock LkLog ''log'') (
     seq (upd_log (\<lambda>l. l\<lparr>lg_start := sb_logstart sb\<rparr>)) (
     seq (upd_log (\<lambda>l. l\<lparr>lg_size := sint (sb_nlog sb)\<rparr>)) (
     seq (upd_log (\<lambda>l. l\<lparr>lg_dev := dev\<rparr>)) (
     recover_from_log)))))"

definition begin_op_body :: "unit \<Rightarrow> (unit + unit) kop" where
  "begin_op_body u =
     bind (gets klogst) (\<lambda>lg.
     if lg_committing lg then
       seq (sleep ChLog LkLog) (ret (Inl ()))
     else if lh_n lg + (lg_outstanding lg + 1) * int MAXOPBLOCKS > int LOGSIZE then
       seq (sleep ChLog LkLog) (ret (Inl ()))
     else
       seq (upd_log (\<lambda>l. l\<lparr>lg_outstanding := lg_outstanding l + 1\<rparr>)) (
       seq (release LkLog) (
       ret (Inr ()))))"

definition begin_op :: "unit kop" where
  "begin_op = seq (acquire LkLog) (loopK begin_op_body ())"

definition write_log_body :: "nat \<Rightarrow> unit kop" where
  "write_log_body tail =
     bind (gets klogst) (\<lambda>lg.
     bind (bread (lg_dev lg) (lg_start lg + of_nat tail + 1)) (\<lambda>dst.
     bind (gets klogst) (\<lambda>lg.
     bind (bread (lg_dev lg) (lh_block lg tail)) (\<lambda>src.
     bind (buf_at src) (\<lambda>v.
     seq (set_data dst (\<lambda>_. b_data v)) (
     seq (bwrite dst) (
     seq (brelse src) (
     brelse dst))))))))"

definition write_log :: "unit kop" where
  "write_log =
     bind (gets (\<lambda>s. lh_n (klogst s))) (\<lambda>n.
     for_each [0..<nat n] write_log_body)"

definition commit :: "unit kop" where
  "commit =
     bind (gets (\<lambda>s. lh_n (klogst s))) (\<lambda>n.
     whenK (n > 0) (
       seq write_log (
       seq write_head (
       seq (install_trans False) (
       seq (upd_log (\<lambda>l. l\<lparr>lh_n := 0\<rparr>)) (
       write_head))))))"

definition end_op :: "unit kop" where
  "end_op =
     seq (acquire LkLog) (
     seq (upd_log (\<lambda>l. l\<lparr>lg_outstanding := lg_outstanding l - 1\<rparr>)) (
     bind (gets klogst) (\<lambda>lg.
     seq (whenK (lg_committing lg) (panic ''log.committing'')) (
     bind (if lg_outstanding lg = 0 then
             seq (upd_log (\<lambda>l. l\<lparr>lg_committing := True\<rparr>)) (ret True)
           else seq (wakeup ChLog) (ret False)) (\<lambda>do_commit.
     seq (release LkLog) (
     whenK do_commit (
       seq commit (
       seq (acquire LkLog) (
       seq (upd_log (\<lambda>l. l\<lparr>lg_committing := False\<rparr>)) (
       seq (wakeup ChLog) (
       release LkLog)))))))))))"

text \<open>The first index of the header whose entry is the block, or the count.\<close>

definition log_slot :: "klog \<Rightarrow> uint \<Rightarrow> nat" where
  "log_slot lg b = (case find (\<lambda>i. lh_block lg i = b) [0..<nat (lh_n lg)] of
     Some i \<Rightarrow> i | None \<Rightarrow> nat (lh_n lg))"

definition log_write :: "bufid \<Rightarrow> unit kop" where
  "log_write b =
     seq (acquire LkLog) (
     bind (gets klogst) (\<lambda>lg.
     seq (whenK (lh_n lg \<ge> int LOGSIZE \<or> lh_n lg \<ge> lg_size lg - 1) (panic ''too big a transaction'')) (
     seq (whenK (lg_outstanding lg < 1) (panic ''log_write outside of trans'')) (
     bind (buf_at b) (\<lambda>v.
     let i = log_slot lg (b_blockno v) in
     seq (upd_log (\<lambda>l. l\<lparr>lh_block := (lh_block l)(i := b_blockno v)\<rparr>)) (
     seq (whenK (int i = lh_n lg) (
       seq (bpin b) (
       upd_log (\<lambda>l. l\<lparr>lh_n := lh_n l + 1\<rparr>)))) (
     release LkLog)))))))"

end
