(* ===== verification/Strings.thy ===== *)
theory Strings
  imports KTypes
begin

text \<open>
  \<^verbatim>\<open>kernel/string.c\<close>. \<^verbatim>\<open>memset\<close>, \<^verbatim>\<open>memcmp\<close> and \<^verbatim>\<open>memmove\<close> work on a byte memory; the string functions
  on the bytes from a pointer on, where going past the end of the list reads the terminating 0.
\<close>

section \<open>Memory\<close>

type_synonym bytemem = "nat \<Rightarrow> uchar"

function memset_from :: "nat \<Rightarrow> nat \<Rightarrow> nat \<Rightarrow> uchar \<Rightarrow> bytemem \<Rightarrow> bytemem" where
  "memset_from dst i n c m = (if i < n then memset_from dst (i + 1) n c (m(dst + i := c)) else m)"
  by pat_completeness auto
termination by (relation "measure (\<lambda>(dst, i, n, c, m). n - i)") auto

definition memset :: "nat \<Rightarrow> uchar \<Rightarrow> nat \<Rightarrow> bytemem \<Rightarrow> bytemem" where
  "memset dst c n m = memset_from dst 0 n c m"

fun memcmp :: "nat \<Rightarrow> nat \<Rightarrow> nat \<Rightarrow> bytemem \<Rightarrow> int" where
  "memcmp s1 s2 0 m = 0"
| "memcmp s1 s2 (Suc n) m =
     (if m s1 \<noteq> m s2 then uint (m s1) - uint (m s2) else memcmp (s1 + 1) (s2 + 1) n m)"

text \<open>The two loops of \<^verbatim>\<open>memmove\<close>: from the end downwards and from the start upwards.\<close>

fun move_down :: "nat \<Rightarrow> nat \<Rightarrow> nat \<Rightarrow> bytemem \<Rightarrow> bytemem" where
  "move_down d s 0 m = m"
| "move_down d s (Suc n) m = move_down (d - 1) (s - 1) n (m(d - 1 := m (s - 1)))"

fun move_up :: "nat \<Rightarrow> nat \<Rightarrow> nat \<Rightarrow> bytemem \<Rightarrow> bytemem" where
  "move_up d s 0 m = m"
| "move_up d s (Suc n) m = move_up (d + 1) (s + 1) n (m(d := m s))"

definition memmove :: "nat \<Rightarrow> nat \<Rightarrow> nat \<Rightarrow> bytemem \<Rightarrow> bytemem" where
  "memmove dst src n m =
     (if n = 0 then m
      else if src < dst \<and> src + n > dst then move_down (dst + n) (src + n) n m
      else move_up dst src n m)"

definition memcpy :: "nat \<Rightarrow> nat \<Rightarrow> nat \<Rightarrow> bytemem \<Rightarrow> bytemem" where
  "memcpy dst src n m = memmove dst src n m"

section \<open>Strings\<close>

definition at0 :: "uchar list \<Rightarrow> uchar" where
  "at0 p = (case p of [] \<Rightarrow> 0 | c # _ \<Rightarrow> c)"

lemma at0_simps [simp]: "at0 [] = 0" "at0 (c # p) = c"
  by (simp_all add: at0_def)

fun strncmp :: "uchar list \<Rightarrow> uchar list \<Rightarrow> nat \<Rightarrow> int" where
  "strncmp p q 0 = 0"
| "strncmp p q (Suc n) =
     (if at0 p \<noteq> 0 \<and> at0 p = at0 q then strncmp (tl p) (tl q) n else uint (at0 p) - uint (at0 q))"

text \<open>The \<open>n\<close> bytes \<^verbatim>\<open>strncpy\<close> writes: the string, then zeros.\<close>

fun strncpy :: "uchar list \<Rightarrow> nat \<Rightarrow> uchar list" where
  "strncpy t 0 = []"
| "strncpy t (Suc n) = (if at0 t \<noteq> 0 then at0 t # strncpy (tl t) n else replicate (Suc n) 0)"

text \<open>The bytes \<^verbatim>\<open>safestrcpy\<close> writes into a buffer of size \<open>n\<close>, the terminating 0 left out.\<close>

fun safestrcpy :: "uchar list \<Rightarrow> nat \<Rightarrow> uchar list" where
  "safestrcpy t 0 = []"
| "safestrcpy t (Suc n) = (if n > 0 \<and> at0 t \<noteq> 0 then at0 t # safestrcpy (tl t) n else [])"

function strlen :: "uchar list \<Rightarrow> nat" where
  "strlen s = (if at0 s \<noteq> 0 then strlen (tl s) + 1 else 0)"
  by pat_completeness auto
termination
proof (relation "measure length")
  fix s :: "uchar list" assume "at0 s \<noteq> 0"
  then show "(tl s, s) \<in> measure length" by (cases s) auto
qed simp

declare strlen.simps [simp del] memset_from.simps [simp del]

section \<open>What they compute\<close>

lemma memset_from_eq:
  "memset_from dst i n c m = (\<lambda>a. if dst + i \<le> a \<and> a < dst + n then c else m a)"
proof (induction dst i n c m rule: memset_from.induct)
  case (1 dst i n c m)
  show ?case
  proof (cases "i < n")
    case True
    have "memset_from dst i n c m = memset_from dst (i + 1) n c (m(dst + i := c))"
      by (subst memset_from.simps) (simp only: True if_True)
    also have "\<dots> = (\<lambda>a. if dst + (i + 1) \<le> a \<and> a < dst + n then c else (m(dst + i := c)) a)"
      by (rule 1 [OF True])
    finally show ?thesis using True by (auto simp: fun_eq_iff)
  next
    case False
    then show ?thesis by (subst memset_from.simps) (auto simp: fun_eq_iff)
  qed
qed

lemma move_down_eq:
  "s \<le> d \<Longrightarrow> move_down (d + n) (s + n) n m = (\<lambda>a. if d \<le> a \<and> a < d + n then m (s + (a - d)) else m a)"
proof (induction n arbitrary: m)
  case (Suc n)
  then show ?case by (auto simp: fun_eq_iff less_Suc_eq_le)
qed (auto simp: fun_eq_iff)

lemma move_up_eq:
  "d \<le> s \<or> s + n \<le> d \<Longrightarrow>
   move_up d s n m = (\<lambda>a. if d \<le> a \<and> a < d + n then m (s + (a - d)) else m a)"
proof (induction n arbitrary: d s m)
  case (Suc n)
  then have "d + 1 \<le> s + 1 \<or> s + 1 + n \<le> d + 1" by auto
  note IH = Suc.IH [OF this, of "m(d := m s)"]
  have "move_up d s (Suc n) m = (\<lambda>a. if d + 1 \<le> a \<and> a < d + 1 + n then (m(d := m s)) (s + 1 + (a - (d + 1)))
      else (m(d := m s)) a)"
    unfolding move_up.simps by (rule IH)
  also have "\<dots> = (\<lambda>a. if d \<le> a \<and> a < d + Suc n then m (s + (a - d)) else m a)"
  proof
    fix a
    consider "a < d" | "a = d" | "d < a" by linarith
    then show "(if d + 1 \<le> a \<and> a < d + 1 + n then (m(d := m s)) (s + 1 + (a - (d + 1)))
        else (m(d := m s)) a) = (if d \<le> a \<and> a < d + Suc n then m (s + (a - d)) else m a)"
      using Suc.prems by cases (auto simp: Suc_diff_Suc)
  qed
  finally show ?case .
qed (auto simp: fun_eq_iff)

lemma memmove_eq:
  "memmove dst src n m = (\<lambda>a. if dst \<le> a \<and> a < dst + n then m (src + (a - dst)) else m a)"
proof (cases "n = 0")
  case True
  then show ?thesis by (auto simp: memmove_def fun_eq_iff)
qed (auto simp: memmove_def move_down_eq move_up_eq)

lemma strlen_eq: "strlen s = length (takeWhile (\<lambda>c. c \<noteq> 0) s)"
proof (induction s)
  case Nil
  then show ?case by (subst strlen.simps) (simp add: at0_def)
next
  case (Cons a s)
  then show ?case by (subst strlen.simps) (simp add: at0_def)
qed

lemma length_strncpy [simp]: "length (strncpy t n) = n"
  by (induction t n rule: strncpy.induct) auto

lemma strncpy_eq: "strncpy t n = take n (takeWhile (\<lambda>c. c \<noteq> 0) t @ replicate n 0)"
proof (induction t n rule: strncpy.induct)
  case (2 t n)
  then show ?case by (cases t) (auto simp: at0_def replicate_append_same [symmetric])
qed auto

lemma safestrcpy_eq: "safestrcpy t n = take (n - 1) (takeWhile (\<lambda>c. c \<noteq> 0) t)"
proof (induction t n rule: safestrcpy.induct)
  case (2 t n)
  then show ?case by (cases t; cases n) (auto simp: at0_def)
qed auto

text \<open>The first \<open>n\<close> bytes of the two strings, up to their ends, agree exactly when the result is 0.\<close>

lemma strncmp_zero:
  "strncmp p q n = 0 \<longleftrightarrow>
     take n (takeWhile (\<lambda>c. c \<noteq> 0) p) = take n (takeWhile (\<lambda>c. c \<noteq> 0) q)"
proof (induction p q n rule: strncmp.induct)
  case (2 p q n)
  have "uint (at0 p) - uint (at0 q) = 0 \<longleftrightarrow> at0 p = at0 q" by (simp add: word_uint_eq_iff)
  with 2 show ?case by (cases p; cases q) (auto simp: at0_def)
qed auto

end
