(* ===== verification/Fs.thy ===== *)
theory Fs
  imports Log Strings
begin

text \<open>
  \<^verbatim>\<open>kernel/fs.c\<close>, with \<^verbatim>\<open>either_copyout\<close> and \<^verbatim>\<open>either_copyin\<close> of \<^verbatim>\<open>proc.c\<close>: blocks, inodes, file contents,
  directories and path names.

  A pointer to an in-memory inode is its index in \<^verbatim>\<open>itable.inode[]\<close>. Where the code copies to or from
  a kernel address, the address is that of a local variable (\<open>ToLocal\<close>, which collects the bytes,
  and \<open>FromLocal\<close>, which gives them) or a physical page (\<open>ToPhys\<close>). A path is the list of its
  characters without the terminating 0, and a path element that of its at most 14 characters.
\<close>

section \<open>Constants and layout\<close>

definition ROOTINO :: uint where "ROOTINO = 1"
definition BSIZE :: nat where "BSIZE = 1024"
definition FSMAGIC :: uint where "FSMAGIC = 0x10203040"
definition NDIRECT :: nat where "NDIRECT = 12"
definition NINDIRECT :: nat where "NINDIRECT = BSIZE div 4"
definition MAXFILE :: nat where "MAXFILE = NDIRECT + NINDIRECT"
definition IPB :: nat where "IPB = BSIZE div 64"
definition BPB :: nat where "BPB = BSIZE * 8"
definition DIRSIZ :: nat where "DIRSIZ = 14"
definition T_DIR :: cshort where "T_DIR = 1"
definition T_FILE :: cshort where "T_FILE = 2"
definition T_DEVICE :: cshort where "T_DEVICE = 3"

definition IBLOCK :: "uint \<Rightarrow> superblock \<Rightarrow> uint" where
  "IBLOCK i sb = i div of_nat IPB + sb_inodestart sb"

definition BBLOCK :: "uint \<Rightarrow> superblock \<Rightarrow> uint" where
  "BBLOCK b sb = b div of_nat BPB + sb_bmapstart sb"

definition get_superblock :: "block \<Rightarrow> superblock" where
  "get_superblock d = \<lparr>sb_magic = get32 d 0, sb_size = get32 d 4, sb_nblocks = get32 d 8,
     sb_ninodes = get32 d 12, sb_nlog = get32 d 16, sb_logstart = get32 d 20,
     sb_inodestart = get32 d 24, sb_bmapstart = get32 d 28\<rparr>"

text \<open>\<^verbatim>\<open>struct dinode\<close> number \<open>inum % IPB\<close> of a block: type, major, minor, nlink, size, addrs[13].\<close>

definition dinode_off :: "uint \<Rightarrow> nat" where
  "dinode_off inum = 64 * (unat inum mod IPB)"

definition load_dinode :: "block \<Rightarrow> nat \<Rightarrow> inode \<Rightarrow> inode" where
  "load_dinode d o' ip = ip\<lparr>i_type := get16 d o', i_major := get16 d (o' + 2),
     i_minor := get16 d (o' + 4), i_nlink := get16 d (o' + 6), i_size := get32 d (o' + 8),
     i_addrs := (\<lambda>j. if j \<le> NDIRECT then get32 d (o' + 12 + 4 * j) else i_addrs ip j)\<rparr>"

definition store_dinode :: "inode \<Rightarrow> nat \<Rightarrow> block \<Rightarrow> block" where
  "store_dinode ip o' d =
     fold (\<lambda>j. put32 (o' + 12 + 4 * j) (i_addrs ip j)) [0..<NDIRECT + 1]
       (put32 (o' + 8) (i_size ip) (put16 (o' + 6) (i_nlink ip) (put16 (o' + 4) (i_minor ip)
          (put16 (o' + 2) (i_major ip) (put16 o' (i_type ip) d)))))"

record dirent =
  d_inum :: cshort
  d_name :: "uchar list"

definition dirent_bytes :: "dirent \<Rightarrow> uchar list" where
  "dirent_bytes de = le_bytes 2 (d_inum de) @ d_name de"

definition bytes_dirent :: "uchar list \<Rightarrow> dirent" where
  "bytes_dirent bs = \<lparr>d_inum = le_word (take 2 bs), d_name = take 14 (drop 2 bs)\<rparr>"

section \<open>Copying to and from user or kernel memory\<close>

datatype kdst = ToUser uint64 | ToLocal "uchar list" | ToPhys uint64

datatype ksrc = FromUser uint64 | FromLocal "uchar list"

definition mypagetable :: "addr kop" where
  "mypagetable =
     bind myproc (\<lambda>mp.
     bind (need mp) (\<lambda>p.
     bind (proc_at p) (\<lambda>q.
     ret (p_pagetable q))))"

definition either_copyout :: "kdst \<Rightarrow> uchar list \<Rightarrow> (cint \<times> kdst) kop" where
  "either_copyout dst bs = (case dst of
       ToUser a \<Rightarrow> bind mypagetable (\<lambda>pt. bind (copyout pt a bs) (\<lambda>r. ret (r, dst)))
     | ToLocal cs \<Rightarrow> ret (0, ToLocal (cs @ bs))
     | ToPhys a \<Rightarrow> seq (write_page (PGROUNDDOWN a) (unat (a mod PGSIZE)) bs) (ret (0, dst)))"

definition either_copyin :: "ksrc \<Rightarrow> uint64 \<Rightarrow> (cint \<times> uchar list) kop" where
  "either_copyin src len = (case src of
       FromUser a \<Rightarrow> bind mypagetable (\<lambda>pt. copyin pt a len)
     | FromLocal cs \<Rightarrow> ret (0, take (unat len) cs))"

definition dst_add :: "kdst \<Rightarrow> uint64 \<Rightarrow> kdst" where
  "dst_add dst m = (case dst of ToUser a \<Rightarrow> ToUser (a + m) | ToLocal cs \<Rightarrow> ToLocal cs
     | ToPhys a \<Rightarrow> ToPhys (a + m))"

definition src_add :: "ksrc \<Rightarrow> uint64 \<Rightarrow> ksrc" where
  "src_add src m = (case src of FromUser a \<Rightarrow> FromUser (a + m)
     | FromLocal cs \<Rightarrow> FromLocal (drop (unat m) cs))"

section \<open>Blocks\<close>

definition readsb :: "uint \<Rightarrow> superblock kop" where
  "readsb dev =
     bind (bread dev 1) (\<lambda>bp.
     bind (buf_at bp) (\<lambda>v.
     seq (brelse bp) (
     ret (get_superblock (b_data v)))))"

definition fsinit :: "uint \<Rightarrow> unit kop" where
  "fsinit dev =
     bind (readsb dev) (\<lambda>sb.
     seq (modify (\<lambda>s. s\<lparr>sblk := sb\<rparr>)) (
     seq (whenK (sb_magic sb \<noteq> FSMAGIC) (panic ''invalid file system'')) (
     initlog dev sb)))"

definition bzero :: "uint \<Rightarrow> uint \<Rightarrow> unit kop" where
  "bzero dev bno =
     bind (bread dev bno) (\<lambda>bp.
     seq (set_data bp (\<lambda>_ _. 0)) (
     seq (log_write bp) (
     brelse bp)))"

definition bit_of :: "nat \<Rightarrow> uchar" where
  "bit_of bi = push_bit (bi mod 8) 1"

definition balloc_bits :: "uint \<Rightarrow> uint \<Rightarrow> bufid \<Rightarrow> nat \<Rightarrow> (nat + uint option) kop" where
  "balloc_bits dev b bp bi =
     bind (gets (\<lambda>s. sb_size (sblk s))) (\<lambda>size.
     if bi < BPB \<and> b + of_nat bi < size then
       bind (buf_at bp) (\<lambda>v.
       if b_data v (bi div 8) AND bit_of bi = 0 then
         seq (set_data bp (\<lambda>d. d(bi div 8 := d (bi div 8) OR bit_of bi))) (
         seq (log_write bp) (
         seq (brelse bp) (
         seq (bzero dev (b + of_nat bi)) (
         ret (Inr (Some (b + of_nat bi)))))))
       else ret (Inl (Suc bi)))
     else ret (Inr None))"

definition balloc_body :: "uint \<Rightarrow> uint \<Rightarrow> (uint + uint) kop" where
  "balloc_body dev b =
     bind (gets sblk) (\<lambda>sb.
     if b < sb_size sb then
       bind (bread dev (BBLOCK b sb)) (\<lambda>bp.
       bind (loopK (balloc_bits dev b bp) 0) (\<lambda>r.
       case r of Some a \<Rightarrow> ret (Inr a)
       | None \<Rightarrow> seq (brelse bp) (ret (Inl (b + of_nat BPB)))))
     else
       seq (kprintf ''balloc: out of blocks\<newline>'' []) (
       ret (Inr 0)))"

definition balloc :: "uint \<Rightarrow> uint kop" where
  "balloc dev = loopK (balloc_body dev) 0"

definition bfree :: "uint \<Rightarrow> uint \<Rightarrow> unit kop" where
  "bfree dev b =
     bind (gets sblk) (\<lambda>sb.
     bind (bread dev (BBLOCK b sb)) (\<lambda>bp.
     let bi = unat b mod BPB in
     bind (buf_at bp) (\<lambda>v.
     seq (whenK (b_data v (bi div 8) AND bit_of bi = 0) (panic ''freeing free block'')) (
     seq (set_data bp (\<lambda>d. d(bi div 8 := d (bi div 8) AND NOT (bit_of bi)))) (
     seq (log_write bp) (
     brelse bp))))))"

section \<open>Inodes\<close>

definition ino_at :: "nat \<Rightarrow> inode kop" where
  "ino_at i = gets (\<lambda>s. inodes s i)"

definition upd_ino :: "nat \<Rightarrow> (inode \<Rightarrow> inode) \<Rightarrow> unit kop" where
  "upd_ino i f = modify (\<lambda>s. s\<lparr>inodes := (inodes s)(i := f (inodes s i))\<rparr>)"

definition iinit :: "unit kop" where
  "iinit =
     seq (initlock LkItable ''itable'') (
     for_each [0..<NINODE] (\<lambda>i. initsleeplock (SlInode i) ''inode''))"

text \<open>The search of \<^verbatim>\<open>iget\<close>: the loop leaves with the entry, or ends having remembered an empty slot.\<close>

definition iget_body :: "uint \<Rightarrow> uint \<Rightarrow> nat \<times> nat option \<Rightarrow> ((nat \<times> nat option) + (nat + nat option)) kop" where
  "iget_body dev inum = (\<lambda>(i, empty).
     if i < NINODE then
       bind (ino_at i) (\<lambda>ip.
       if i_ref ip > 0 \<and> i_dev ip = dev \<and> i_inum ip = inum then
         seq (upd_ino i (\<lambda>ip. ip\<lparr>i_ref := i_ref ip + 1\<rparr>)) (
         seq (release LkItable) (
         ret (Inr (Inl i))))
       else if empty = None \<and> i_ref ip = 0 then ret (Inl (Suc i, Some i))
       else ret (Inl (Suc i, empty)))
     else ret (Inr (Inr empty)))"

definition iget :: "uint \<Rightarrow> uint \<Rightarrow> nat kop" where
  "iget dev inum =
     seq (acquire LkItable) (
     bind (loopK (iget_body dev inum) (0, None)) (\<lambda>r.
     case r of Inl i \<Rightarrow> ret i
     | Inr None \<Rightarrow> panic ''iget: no inodes''
     | Inr (Some i) \<Rightarrow>
         seq (upd_ino i (\<lambda>ip. ip\<lparr>i_dev := dev, i_inum := inum, i_ref := 1, i_valid := False\<rparr>)) (
         seq (release LkItable) (
         ret i))))"

definition ialloc_body :: "uint \<Rightarrow> cshort \<Rightarrow> uint \<Rightarrow> (uint + nat option) kop" where
  "ialloc_body dev type inum =
     bind (gets sblk) (\<lambda>sb.
     if inum < sb_ninodes sb then
       bind (bread dev (IBLOCK inum sb)) (\<lambda>bp.
       bind (buf_at bp) (\<lambda>v.
       if get16 (b_data v) (dinode_off inum) = 0 then
         seq (set_data bp (put_bytes (dinode_off inum) (replicate 64 0))) (
         seq (set_data bp (put16 (dinode_off inum) type)) (
         seq (log_write bp) (
         seq (brelse bp) (
         bind (iget dev inum) (\<lambda>i.
         ret (Inr (Some i)))))))
       else
         seq (brelse bp) (
         ret (Inl (inum + 1)))))
     else
       seq (kprintf ''ialloc: no inodes\<newline>'' []) (
       ret (Inr None)))"

definition ialloc :: "uint \<Rightarrow> cshort \<Rightarrow> nat option kop" where
  "ialloc dev type = loopK (ialloc_body dev type) 1"

definition iupdate :: "nat \<Rightarrow> unit kop" where
  "iupdate i =
     bind (ino_at i) (\<lambda>ip.
     bind (gets sblk) (\<lambda>sb.
     bind (bread (i_dev ip) (IBLOCK (i_inum ip) sb)) (\<lambda>bp.
     seq (set_data bp (store_dinode ip (dinode_off (i_inum ip)))) (
     seq (log_write bp) (
     brelse bp)))))"

definition idup :: "nat option \<Rightarrow> nat option kop" where
  "idup ip =
     bind (need ip) (\<lambda>i.
     seq (acquire LkItable) (
     seq (upd_ino i (\<lambda>ip. ip\<lparr>i_ref := i_ref ip + 1\<rparr>)) (
     seq (release LkItable) (
     ret ip))))"

definition ilock :: "nat option \<Rightarrow> unit kop" where
  "ilock p = (case p of None \<Rightarrow> panic ''ilock'' | Some i \<Rightarrow>
     bind (ino_at i) (\<lambda>ip.
     seq (whenK (i_ref ip < 1) (panic ''ilock'')) (
     seq (acquiresleep (SlInode i)) (
     bind (ino_at i) (\<lambda>ip.
     whenK (\<not> i_valid ip) (
       bind (gets sblk) (\<lambda>sb.
       bind (bread (i_dev ip) (IBLOCK (i_inum ip) sb)) (\<lambda>bp.
       bind (buf_at bp) (\<lambda>v.
       seq (upd_ino i (load_dinode (b_data v) (dinode_off (i_inum ip)))) (
       seq (brelse bp) (
       seq (upd_ino i (\<lambda>ip. ip\<lparr>i_valid := True\<rparr>)) (
       bind (ino_at i) (\<lambda>ip.
       whenK (i_type ip = 0) (panic ''ilock: no type''))))))))))))))"

definition iunlock :: "nat option \<Rightarrow> unit kop" where
  "iunlock p = (case p of None \<Rightarrow> panic ''iunlock'' | Some i \<Rightarrow>
     bind (holdingsleep (SlInode i)) (\<lambda>h.
     bind (ino_at i) (\<lambda>ip.
     seq (whenK (\<not> h \<or> i_ref ip < 1) (panic ''iunlock'')) (
     releasesleep (SlInode i)))))"

definition itrunc_direct :: "nat \<Rightarrow> nat \<Rightarrow> unit kop" where
  "itrunc_direct i j =
     bind (ino_at i) (\<lambda>ip.
     whenK (i_addrs ip j \<noteq> 0) (
       seq (bfree (i_dev ip) (i_addrs ip j)) (
       upd_ino i (\<lambda>ip. ip\<lparr>i_addrs := (i_addrs ip)(j := 0)\<rparr>))))"

definition itrunc_indirect :: "nat \<Rightarrow> bufid \<Rightarrow> nat \<Rightarrow> unit kop" where
  "itrunc_indirect i bp j =
     bind (buf_at bp) (\<lambda>v.
     bind (ino_at i) (\<lambda>ip.
     whenK (get32 (b_data v) (4 * j) \<noteq> 0) (
       bfree (i_dev ip) (get32 (b_data v) (4 * j)))))"

definition itrunc :: "nat \<Rightarrow> unit kop" where
  "itrunc i =
     seq (for_each [0..<NDIRECT] (itrunc_direct i)) (
     bind (ino_at i) (\<lambda>ip.
     seq (whenK (i_addrs ip NDIRECT \<noteq> 0) (
       bind (bread (i_dev ip) (i_addrs ip NDIRECT)) (\<lambda>bp.
       seq (for_each [0..<NINDIRECT] (itrunc_indirect i bp)) (
       seq (brelse bp) (
       bind (ino_at i) (\<lambda>ip.
       seq (bfree (i_dev ip) (i_addrs ip NDIRECT)) (
       upd_ino i (\<lambda>ip. ip\<lparr>i_addrs := (i_addrs ip)(NDIRECT := 0)\<rparr>)))))))) (
     seq (upd_ino i (\<lambda>ip. ip\<lparr>i_size := 0\<rparr>)) (
     iupdate i))))"

definition iput :: "nat option \<Rightarrow> unit kop" where
  "iput p =
     seq (acquire LkItable) (
     bind (need p) (\<lambda>i.
     bind (ino_at i) (\<lambda>ip.
     seq (whenK (i_ref ip = 1 \<and> i_valid ip \<and> i_nlink ip = 0) (
       seq (acquiresleep (SlInode i)) (
       seq (release LkItable) (
       seq (itrunc i) (
       seq (upd_ino i (\<lambda>ip. ip\<lparr>i_type := 0\<rparr>)) (
       seq (iupdate i) (
       seq (upd_ino i (\<lambda>ip. ip\<lparr>i_valid := False\<rparr>)) (
       seq (releasesleep (SlInode i)) (
       acquire LkItable))))))))) (
     seq (upd_ino i (\<lambda>ip. ip\<lparr>i_ref := i_ref ip - 1\<rparr>)) (
     release LkItable)))))"

definition iunlockput :: "nat option \<Rightarrow> unit kop" where
  "iunlockput p = seq (iunlock p) (iput p)"

section \<open>File contents\<close>

definition bmap :: "nat \<Rightarrow> uint \<Rightarrow> uint kop" where
  "bmap i bn =
     bind (ino_at i) (\<lambda>ip.
     if unat bn < NDIRECT then
       (if i_addrs ip (unat bn) = 0 then
          bind (balloc (i_dev ip)) (\<lambda>a.
          if a = 0 then ret 0
          else seq (upd_ino i (\<lambda>ip. ip\<lparr>i_addrs := (i_addrs ip)(unat bn := a)\<rparr>)) (ret a))
        else ret (i_addrs ip (unat bn)))
     else
       let n = unat bn - NDIRECT in
       if n < NINDIRECT then
         bind (if i_addrs ip NDIRECT = 0 then
                 bind (balloc (i_dev ip)) (\<lambda>a.
                 if a = 0 then ret 0
                 else seq (upd_ino i (\<lambda>ip. ip\<lparr>i_addrs := (i_addrs ip)(NDIRECT := a)\<rparr>)) (ret a))
               else ret (i_addrs ip NDIRECT)) (\<lambda>ind.
         if ind = 0 then ret 0
         else
           bind (bread (i_dev ip) ind) (\<lambda>bp.
           bind (buf_at bp) (\<lambda>v.
           bind (if get32 (b_data v) (4 * n) = 0 then
                   bind (balloc (i_dev ip)) (\<lambda>a.
                   seq (whenK (a \<noteq> 0) (
                     seq (set_data bp (put32 (4 * n) a)) (
                     log_write bp))) (
                   ret a))
                 else ret (get32 (b_data v) (4 * n))) (\<lambda>a.
           seq (brelse bp) (
           ret a)))))
       else panic ''bmap: out of range'')"

definition stati :: "inode \<Rightarrow> uchar list" where
  "stati ip = le_bytes 4 (i_dev ip) @ le_bytes 4 (i_inum ip) @ le_bytes 2 (i_type ip) @
     le_bytes 2 (i_nlink ip) @ replicate 4 0 @ le_bytes 8 (ucast (i_size ip) :: uint64)"

definition readi_body :: "nat \<Rightarrow> uint \<Rightarrow> uint \<times> uint \<times> kdst \<Rightarrow> ((uint \<times> uint \<times> kdst) + (cint \<times> kdst)) kop" where
  "readi_body i n = (\<lambda>(tot, off, dst).
     if tot < n then
       bind (bmap i (off div of_nat BSIZE)) (\<lambda>a.
       if a = 0 then ret (Inr (tot, dst))
       else
         bind (ino_at i) (\<lambda>ip.
         bind (bread (i_dev ip) a) (\<lambda>bp.
         let m = min (n - tot) (of_nat BSIZE - off mod of_nat BSIZE) in
         bind (buf_at bp) (\<lambda>v.
         bind (either_copyout dst (map (\<lambda>j. b_data v (unat (off mod of_nat BSIZE) + j)) [0..<unat m])) (\<lambda>(r, dst').
         if r = -1 then seq (brelse bp) (ret (Inr (-1, dst')))
         else seq (brelse bp) (ret (Inl (tot + m, off + m, dst_add dst' (ucast m)))))))))
     else ret (Inr (tot, dst)))"

definition readi :: "nat \<Rightarrow> kdst \<Rightarrow> uint \<Rightarrow> uint \<Rightarrow> (cint \<times> kdst) kop" where
  "readi i dst off n =
     bind (ino_at i) (\<lambda>ip.
     if off > i_size ip \<or> off + n < off then ret (0, dst)
     else loopK (readi_body i (if off + n > i_size ip then i_size ip - off else n)) (0, off, dst))"

text \<open>
  The bytes that \<^verbatim>\<open>copyin\<close> moved before it failed stay in the buffer.
\<close>

definition writei_body :: "nat \<Rightarrow> uint \<Rightarrow> uint \<times> uint \<times> ksrc \<Rightarrow> ((uint \<times> uint \<times> ksrc) + (uint \<times> uint)) kop" where
  "writei_body i n = (\<lambda>(tot, off, src).
     if tot < n then
       bind (bmap i (off div of_nat BSIZE)) (\<lambda>a.
       if a = 0 then ret (Inr (tot, off))
       else
         bind (ino_at i) (\<lambda>ip.
         bind (bread (i_dev ip) a) (\<lambda>bp.
         let m = min (n - tot) (of_nat BSIZE - off mod of_nat BSIZE) in
         bind (either_copyin src (ucast m)) (\<lambda>(r, bs).
         seq (set_data bp (put_bytes (unat (off mod of_nat BSIZE)) bs)) (
         if r = -1 then seq (brelse bp) (ret (Inr (tot, off)))
         else
           seq (log_write bp) (
           seq (brelse bp) (
           ret (Inl (tot + m, off + m, src_add src (ucast m))))))))))
     else ret (Inr (tot, off)))"

definition writei :: "nat \<Rightarrow> ksrc \<Rightarrow> uint \<Rightarrow> uint \<Rightarrow> cint kop" where
  "writei i src off n =
     bind (ino_at i) (\<lambda>ip.
     if off > i_size ip \<or> off + n < off then ret (-1)
     else if unat (off + n) > MAXFILE * BSIZE then ret (-1)
     else
       bind (loopK (writei_body i n) (0, off, src)) (\<lambda>(tot, off').
       bind (ino_at i) (\<lambda>ip.
       seq (whenK (off' > i_size ip) (upd_ino i (\<lambda>ip. ip\<lparr>i_size := off'\<rparr>))) (
       seq (iupdate i) (
       ret tot)))))"

section \<open>Directories\<close>

definition namecmp :: "uchar list \<Rightarrow> uchar list \<Rightarrow> int" where
  "namecmp s t = strncmp s t DIRSIZ"

definition local_bytes :: "kdst \<Rightarrow> uchar list" where
  "local_bytes d = (case d of ToLocal bs \<Rightarrow> bs | _ \<Rightarrow> [])"

text \<open>\<^verbatim>\<open>readi\<close> of one directory entry into the local variable \<^verbatim>\<open>de\<close>.\<close>

definition read_dirent :: "nat \<Rightarrow> uint \<Rightarrow> string \<Rightarrow> dirent kop" where
  "read_dirent i off msg =
     bind (readi i (ToLocal []) off 16) (\<lambda>(r, d).
     if r \<noteq> 16 then panic msg else ret (bytes_dirent (local_bytes d)))"

definition dirlookup_body :: "nat \<Rightarrow> uchar list \<Rightarrow> uint \<Rightarrow> (uint + (nat \<times> uint) option) kop" where
  "dirlookup_body i name off =
     bind (ino_at i) (\<lambda>dp.
     if off < i_size dp then
       bind (read_dirent i off ''dirlookup read'') (\<lambda>de.
       if d_inum de = 0 then ret (Inl (off + 16))
       else if namecmp name (d_name de) = 0 then
         bind (iget (i_dev dp) (ucast (d_inum de))) (\<lambda>ip.
         ret (Inr (Some (ip, off))))
       else ret (Inl (off + 16)))
     else ret (Inr None))"

definition dirlookup :: "nat \<Rightarrow> uchar list \<Rightarrow> (nat \<times> uint) option kop" where
  "dirlookup i name =
     bind (ino_at i) (\<lambda>dp.
     seq (whenK (i_type dp \<noteq> T_DIR) (panic ''dirlookup not DIR'')) (
     loopK (dirlookup_body i name) 0))"

definition dirlink_body :: "nat \<Rightarrow> uint \<Rightarrow> (uint + uint) kop" where
  "dirlink_body i off =
     bind (ino_at i) (\<lambda>dp.
     if off < i_size dp then
       bind (read_dirent i off ''dirlink read'') (\<lambda>de.
       if d_inum de = 0 then ret (Inr off) else ret (Inl (off + 16)))
     else ret (Inr off))"

definition dirlink :: "nat \<Rightarrow> uchar list \<Rightarrow> uint \<Rightarrow> cint kop" where
  "dirlink i name inum =
     bind (dirlookup i name) (\<lambda>r.
     case r of Some (ip, off) \<Rightarrow> seq (iput (Some ip)) (ret (-1))
     | None \<Rightarrow>
         bind (loopK (dirlink_body i) 0) (\<lambda>off.
         bind (writei i (FromLocal (dirent_bytes \<lparr>d_inum = ucast inum, d_name = strncpy name DIRSIZ\<rparr>)) off 16) (\<lambda>r.
         if r \<noteq> 16 then ret (-1) else ret 0)))"

section \<open>Path names\<close>

definition slash :: uchar where "slash = 47"

text \<open>\<^verbatim>\<open>skipelem\<close>: the rest of the path and the element, cut to \<^verbatim>\<open>DIRSIZ\<close> characters.\<close>

definition skipelem :: "uchar list \<Rightarrow> (uchar list \<times> uchar list) option" where
  "skipelem path =
     (let p = dropWhile (\<lambda>c. c = slash) path in
      if p = [] then None
      else
        let name = takeWhile (\<lambda>c. c \<noteq> slash) p; rest = dropWhile (\<lambda>c. c \<noteq> slash) p in
        Some (dropWhile (\<lambda>c. c = slash) rest,
              if length name \<ge> DIRSIZ then take DIRSIZ name else name))"

definition namex_body :: "bool \<Rightarrow> nat option \<times> uchar list \<times> uchar list \<Rightarrow>
    ((nat option \<times> uchar list \<times> uchar list) + (nat option \<times> uchar list)) kop" where
  "namex_body nameiparent = (\<lambda>(ip, path, name).
     case skipelem path of
       None \<Rightarrow>
         if nameiparent then seq (iput ip) (ret (Inr (None, name))) else ret (Inr (ip, name))
     | Some (path', name') \<Rightarrow>
         seq (ilock ip) (
         bind (need ip) (\<lambda>i.
         bind (ino_at i) (\<lambda>v.
         if i_type v \<noteq> T_DIR then seq (iunlockput ip) (ret (Inr (None, name')))
         else if nameiparent \<and> path' = [] then seq (iunlock ip) (ret (Inr (ip, name')))
         else
           bind (dirlookup i name') (\<lambda>r.
           case r of
             None \<Rightarrow> seq (iunlockput ip) (ret (Inr (None, name')))
           | Some (next, off) \<Rightarrow> seq (iunlockput ip) (ret (Inl (Some next, path', name'))))))))"

definition namex :: "uchar list \<Rightarrow> bool \<Rightarrow> (nat option \<times> uchar list) kop" where
  "namex path nameiparent =
     bind (if at0 path = slash then bind (iget ROOTDEV ROOTINO) (\<lambda>i. ret (Some i))
           else bind myproc (\<lambda>mp. bind (need mp) (\<lambda>p. bind (proc_at p) (\<lambda>q. idup (p_cwd q))))) (\<lambda>ip.
     loopK (namex_body nameiparent) (ip, path, []))"

definition namei :: "uchar list \<Rightarrow> nat option kop" where
  "namei path = bind (namex path False) (\<lambda>(ip, name). ret ip)"

definition nameiparent :: "uchar list \<Rightarrow> (nat option \<times> uchar list) kop" where
  "nameiparent path = namex path True"

end
