(* ===== verification/Console.thy ===== *)
theory Console
  imports Fs
begin

text \<open>
  The console: \<^verbatim>\<open>kernel/uart.c\<close> (the driver of the serial port), \<^verbatim>\<open>kernel/console.c\<close> (line editing and
  the two device functions) and \<^verbatim>\<open>kernel/printf.c\<close>, with \<^verbatim>\<open>procdump\<close> of \<^verbatim>\<open>proc.c\<close>.

  The device has a queue \<open>u_rx\<close> of bytes that have arrived, can take \<open>u_room\<close> more bytes before it
  is busy, and has sent \<open>u_out\<close>. It makes room, and receives, in the steps of the schedule.
\<close>

section \<open>The serial port\<close>

definition UART_TX_BUF_SIZE :: nat where "UART_TX_BUF_SIZE = 32"

definition upd_uart :: "(uart_t \<Rightarrow> uart_t) \<Rightarrow> unit kop" where
  "upd_uart f = modify (\<lambda>s. s\<lparr>uart := f (uart s)\<rparr>)"

definition write_reg :: "nat \<Rightarrow> uchar \<Rightarrow> unit kop" where
  "write_reg r v = upd_uart (\<lambda>u. u\<lparr>u_regs := (u_regs u)(r := v)\<rparr>)"

text \<open>\<^verbatim>\<open>WriteReg(THR, c)\<close>, \<^verbatim>\<open>ReadReg(LSR) & LSR_TX_IDLE\<close>, \<^verbatim>\<open>ReadReg(LSR) & LSR_RX_READY\<close>.\<close>

definition write_thr :: "uchar \<Rightarrow> unit kop" where
  "write_thr c = upd_uart (\<lambda>u. u\<lparr>u_out := u_out u @ [c], u_room := u_room u - 1\<rparr>)"

definition tx_idle :: "bool kop" where
  "tx_idle = gets (\<lambda>s. u_room (uart s) > 0)"

definition rx_ready :: "bool kop" where
  "rx_ready = gets (\<lambda>s. u_rx (uart s) \<noteq> [])"

definition uartinit :: "unit kop" where
  "uartinit =
     seq (write_reg 1 0x00) (
     seq (write_reg 3 0x80) (
     seq (write_reg 0 0x03) (
     seq (write_reg 1 0x00) (
     seq (write_reg 3 0x03) (
     seq (write_reg 2 0x07) (
     seq (write_reg 1 0x03) (
     initlock LkUart ''uart'')))))))"

definition uartstart_body :: "unit \<Rightarrow> (unit + unit) kop" where
  "uartstart_body x =
     bind (gets uart) (\<lambda>u.
     if u_tx_w u = u_tx_r u then ret (Inr ())
     else
       bind tx_idle (\<lambda>idle.
       if \<not> idle then ret (Inr ())
       else
         let c = u_tx_buf u (unat (u_tx_r u) mod UART_TX_BUF_SIZE) in
         seq (upd_uart (\<lambda>u. u\<lparr>u_tx_r := u_tx_r u + 1\<rparr>)) (
         seq (wakeup ChUart) (
         seq (write_thr c) (
         ret (Inl ()))))))"

definition uartstart :: "unit kop" where
  "uartstart = loopK uartstart_body ()"

definition uartputc_wait :: "unit \<Rightarrow> (unit + unit) kop" where
  "uartputc_wait x =
     bind (gets uart) (\<lambda>u.
     if u_tx_w u = u_tx_r u + of_nat UART_TX_BUF_SIZE then
       seq (sleep ChUart LkUart) (ret (Inl ()))
     else ret (Inr ()))"

definition uartputc :: "uchar \<Rightarrow> unit kop" where
  "uartputc c =
     seq (acquire LkUart) (
     bind (gets panicked) (\<lambda>pk.
     if pk then halt Diverges
     else
       seq (loopK uartputc_wait ()) (
       seq (upd_uart (\<lambda>u. u\<lparr>u_tx_buf := (u_tx_buf u)(unat (u_tx_w u) mod UART_TX_BUF_SIZE := c)\<rparr>)) (
       seq (upd_uart (\<lambda>u. u\<lparr>u_tx_w := u_tx_w u + 1\<rparr>)) (
       seq uartstart (
       release LkUart))))))"

definition uartputc_sync :: "uchar \<Rightarrow> unit kop" where
  "uartputc_sync c =
     seq push_off (
     bind (gets panicked) (\<lambda>pk.
     if pk then halt Diverges
     else
       seq (loopK (\<lambda>_. bind tx_idle (\<lambda>idle.
              if idle then ret (Inr ()) else seq give_way (ret (Inl ())))) ()) (
       seq (write_thr c) (
       pop_off))))"

text \<open>-1 when no byte has arrived.\<close>

definition uartgetc :: "int kop" where
  "uartgetc =
     bind rx_ready (\<lambda>r.
     if r then
       bind (gets (\<lambda>s. hd (u_rx (uart s)))) (\<lambda>c.
       seq (upd_uart (\<lambda>u. u\<lparr>u_rx := tl (u_rx u)\<rparr>)) (
       ret (uint c)))
     else ret (-1))"

section \<open>The console\<close>

definition INPUT_BUF_SIZE :: nat where "INPUT_BUF_SIZE = 128"
definition BACKSPACE :: int where "BACKSPACE = 0x100"

definition consputc :: "int \<Rightarrow> unit kop" where
  "consputc c =
     (if c = BACKSPACE then
        seq (uartputc_sync 8) (seq (uartputc_sync 32) (uartputc_sync 8))
      else uartputc_sync (of_int c))"

definition upd_cons :: "(console \<Rightarrow> console) \<Rightarrow> unit kop" where
  "upd_cons f = modify (\<lambda>s. s\<lparr>cons := f (cons s)\<rparr>)"

definition consolewrite_body :: "ksrc \<Rightarrow> cint \<Rightarrow> nat \<Rightarrow> (nat + nat) kop" where
  "consolewrite_body src n i =
     (if int i < sint n then
        bind (either_copyin (src_add src (of_nat i)) 1) (\<lambda>(r, bs).
        if r = -1 then ret (Inr i)
        else seq (uartputc (hd bs)) (ret (Inl (Suc i))))
      else ret (Inr i))"

definition consolewrite :: "ksrc \<Rightarrow> cint \<Rightarrow> cint kop" where
  "consolewrite src n =
     bind (loopK (consolewrite_body src n) 0) (\<lambda>i. ret (of_nat i))"

definition consoleread_wait :: "unit \<Rightarrow> (unit + bool) kop" where
  "consoleread_wait u =
     bind (gets cons) (\<lambda>c.
     if co_r c = co_w c then
       bind myproc (\<lambda>mp.
       bind (need mp) (\<lambda>p.
       bind (killed p) (\<lambda>k.
       if k then seq (release LkCons) (ret (Inr False))
       else seq (sleep ChCons LkCons) (ret (Inl ())))))
     else ret (Inr True))"

text \<open>
  One round of the loop of \<^verbatim>\<open>consoleread\<close>: it leaves with \<open>None\<close> for \<^verbatim>\<open>return -1\<close> and with the
  remaining count for \<^verbatim>\<open>break\<close>.
\<close>

definition consoleread_body :: "cint \<Rightarrow> kdst \<times> cint \<Rightarrow> ((kdst \<times> cint) + (cint \<times> kdst) option) kop" where
  "consoleread_body target = (\<lambda>(dst, n).
     if 0 < sint n then
       bind (loopK consoleread_wait ()) (\<lambda>go.
       if \<not> go then ret (Inr None)
       else
         bind (gets cons) (\<lambda>k.
         let c = co_buf k (unat (co_r k) mod INPUT_BUF_SIZE) in
         seq (upd_cons (\<lambda>k. k\<lparr>co_r := co_r k + 1\<rparr>)) (
         if c = 4 then
           seq (whenK (n < target) (upd_cons (\<lambda>k. k\<lparr>co_r := co_r k - 1\<rparr>))) (
           ret (Inr (Some (n, dst))))
         else
           bind (either_copyout dst [c]) (\<lambda>(r, dst').
           if r = -1 then ret (Inr (Some (n, dst')))
           else if c = 10 then ret (Inr (Some (n - 1, dst_add dst' 1)))
           else ret (Inl (dst_add dst' 1, n - 1))))))
     else ret (Inr (Some (n, dst))))"

definition consoleread :: "kdst \<Rightarrow> cint \<Rightarrow> cint kop" where
  "consoleread dst n =
     seq (acquire LkCons) (
     bind (loopK (consoleread_body n) (dst, n)) (\<lambda>r.
     case r of None \<Rightarrow> ret (-1)
     | Some (n', dst') \<Rightarrow>
         seq (release LkCons) (
         ret (n - n'))))"

definition state_name :: "procstate \<Rightarrow> string" where
  "state_name st = (case st of UNUSED \<Rightarrow> ''unused'' | USED \<Rightarrow> ''used'' | SLEEPING \<Rightarrow> ''sleep ''
     | RUNNABLE \<Rightarrow> ''runble'' | RUNNING \<Rightarrow> ''run   '' | ZOMBIE \<Rightarrow> ''zombie'')"

definition bytes_of :: "string \<Rightarrow> uchar list" where
  "bytes_of cs = map of_char cs"

definition procdump :: "unit kop" where
  "procdump =
     seq (kprintf ''\<newline>'' []) (
     for_each [0..<NPROC] (\<lambda>i.
       bind (proc_at i) (\<lambda>p.
       whenK (p_state p \<noteq> UNUSED) (
         seq (kprintf ''%d %s %s'' [PInt (p_pid p), PStr (bytes_of (state_name (p_state p))), PStr (p_name p)]) (
         kprintf ''\<newline>'' [])))))"

definition kill_line_body :: "unit \<Rightarrow> (unit + unit) kop" where
  "kill_line_body u =
     bind (gets cons) (\<lambda>k.
     if co_e k \<noteq> co_w k \<and> co_buf k (unat (co_e k - 1) mod INPUT_BUF_SIZE) \<noteq> 10 then
       seq (upd_cons (\<lambda>k. k\<lparr>co_e := co_e k - 1\<rparr>)) (
       seq (consputc BACKSPACE) (
       ret (Inl ())))
     else ret (Inr ()))"

definition consoleintr_char :: "int \<Rightarrow> unit kop" where
  "consoleintr_char c0 =
     bind (gets cons) (\<lambda>k.
     whenK (c0 \<noteq> 0 \<and> co_e k - co_r k < of_nat INPUT_BUF_SIZE) (
       let c = (if c0 = 13 then 10 else c0) in
       seq (consputc c) (
       seq (upd_cons (\<lambda>k. k\<lparr>co_buf := (co_buf k)(unat (co_e k) mod INPUT_BUF_SIZE := of_int c),
              co_e := co_e k + 1\<rparr>)) (
       bind (gets cons) (\<lambda>k.
       whenK (c = 10 \<or> c = 4 \<or> co_e k - co_r k = of_nat INPUT_BUF_SIZE) (
         seq (upd_cons (\<lambda>k. k\<lparr>co_w := co_e k\<rparr>)) (
         wakeup ChCons)))))))"

definition consoleintr :: "int \<Rightarrow> unit kop" where
  "consoleintr c =
     seq (acquire LkCons) (
     seq (if c = 16 then procdump
          else if c = 21 then loopK kill_line_body ()
          else if c = 8 \<or> c = 127 then
            bind (gets cons) (\<lambda>k.
            whenK (co_e k \<noteq> co_w k) (
              seq (upd_cons (\<lambda>k. k\<lparr>co_e := co_e k - 1\<rparr>)) (
              consputc BACKSPACE)))
          else consoleintr_char c) (
     release LkCons))"

definition consoleinit :: "unit kop" where
  "consoleinit =
     seq (initlock LkCons ''cons'') (
     seq uartinit (
     seq (modify (\<lambda>s. s\<lparr>devsw := (devsw s)(1 := (devsw s 1)\<lparr>d_read := Some ConsoleFn\<rparr>)\<rparr>)) (
     modify (\<lambda>s. s\<lparr>devsw := (devsw s)(1 := (devsw s 1)\<lparr>d_write := Some ConsoleFn\<rparr>)\<rparr>))))"

definition uartintr :: "unit kop" where
  "uartintr =
     seq (loopK (\<lambda>_.
            bind uartgetc (\<lambda>c.
            if c = -1 then ret (Inr ()) else seq (consoleintr c) (ret (Inl ())))) ()) (
     seq (acquire LkUart) (
     seq uartstart (
     release LkUart)))"

section \<open>printf\<close>

definition digit :: "nat \<Rightarrow> uchar" where
  "digit d = (if d < 10 then 48 + of_nat d else 87 + of_nat d)"

text \<open>The digits that the \<^verbatim>\<open>do\<close>-\<^verbatim>\<open>while\<close> loop of \<^verbatim>\<open>printint\<close> puts into \<^verbatim>\<open>buf\<close>, the last digit first.\<close>

function digits_rev :: "nat \<Rightarrow> nat \<Rightarrow> uchar list" where
  "digits_rev base x =
     (if 2 \<le> base \<and> x div base \<noteq> 0 then digit (x mod base) # digits_rev base (x div base)
      else [digit (x mod base)])"
  by pat_completeness auto
termination
proof (relation "measure snd")
  fix base x :: nat
  assume "2 \<le> base \<and> x div base \<noteq> 0"
  then have "0 < x" "1 < base" by (cases "x = 0", auto)
  then show "((base, x div base), base, x) \<in> measure snd" by simp
qed simp

declare digits_rev.simps [simp del]

text \<open>\<^verbatim>\<open>buf\<close> has 16 bytes; a longer number runs over its end.\<close>

definition printint :: "uint64 \<Rightarrow> nat \<Rightarrow> bool \<Rightarrow> unit kop" where
  "printint xx base sign =
     (let neg = (sign \<and> sint xx < 0);
          x = (if neg then - xx else xx);
          b = digits_rev base (unat x) @ (if neg then [45] else []) in
      if length b > 16 then fault
      else for_each (rev b) (\<lambda>c. consputc (uint c)))"

definition printptr :: "uint64 \<Rightarrow> unit kop" where
  "printptr x =
     seq (consputc 48) (
     seq (consputc 120) (
     for_each [0..<16] (\<lambda>i. consputc (uint (digit (unat (drop_bit 60 (push_bit (4 * i) x))))))))"

definition int_arg :: "parg list \<Rightarrow> (cint \<times> parg list) option" where
  "int_arg ap = (case ap of PInt w # r \<Rightarrow> Some (w, r) | _ \<Rightarrow> None)"

definition long_arg :: "parg list \<Rightarrow> (uint64 \<times> parg list) option" where
  "long_arg ap = (case ap of PLong w # r \<Rightarrow> Some (w, r) | _ \<Rightarrow> None)"

definition str_arg :: "parg list \<Rightarrow> (uchar list \<times> parg list) option" where
  "str_arg ap = (case ap of PStr s # r \<Rightarrow> Some (s, r)
     | PLong w # r \<Rightarrow> if w = 0 then Some (bytes_of ''(null)'', r) else None | _ \<Rightarrow> None)"

text \<open>
  The loop of \<^verbatim>\<open>printf\<close> over the format string. Characters: \<open>%\<close> is 37, \<open>d\<close> 100, \<open>l\<close> 108, \<open>u\<close> 117, \<open>x\<close> 120,
  \<open>p\<close> 112, \<open>s\<close> 115. A missing argument or one of another type is undefined.
\<close>

fun printf_loop :: "uchar list \<Rightarrow> parg list \<Rightarrow> unit kop" where
  "printf_loop [] ap = skip"
| "printf_loop (cx # r) ap =
     (if cx \<noteq> 37 then seq (consputc (uint cx)) (printf_loop r ap)
      else
        let c0 = at0 r; c1 = at0 (tl r); c2 = at0 (tl (tl r)) in
        if c0 = 100 then
          bind (need (int_arg ap)) (\<lambda>(w, ap'). seq (printint (scast w) 10 True) (printf_loop (tl r) ap'))
        else if c0 = 108 \<and> c1 = 100 then
          bind (need (long_arg ap)) (\<lambda>(w, ap'). seq (printint w 10 True) (printf_loop (drop 2 r) ap'))
        else if c0 = 108 \<and> c1 = 108 \<and> c2 = 100 then
          bind (need (long_arg ap)) (\<lambda>(w, ap'). seq (printint w 10 True) (printf_loop (drop 3 r) ap'))
        else if c0 = 117 then
          bind (need (int_arg ap)) (\<lambda>(w, ap'). seq (printint (scast w) 10 False) (printf_loop (tl r) ap'))
        else if c0 = 108 \<and> c1 = 117 then
          bind (need (long_arg ap)) (\<lambda>(w, ap'). seq (printint w 10 False) (printf_loop (drop 2 r) ap'))
        else if c0 = 108 \<and> c1 = 108 \<and> c2 = 117 then
          bind (need (long_arg ap)) (\<lambda>(w, ap'). seq (printint w 10 False) (printf_loop (drop 3 r) ap'))
        else if c0 = 120 then
          bind (need (int_arg ap)) (\<lambda>(w, ap'). seq (printint (scast w) 16 False) (printf_loop (tl r) ap'))
        else if c0 = 108 \<and> c1 = 120 then
          bind (need (long_arg ap)) (\<lambda>(w, ap'). seq (printint w 16 False) (printf_loop (drop 2 r) ap'))
        else if c0 = 108 \<and> c1 = 108 \<and> c2 = 120 then
          bind (need (long_arg ap)) (\<lambda>(w, ap'). seq (printint w 16 False) (printf_loop (drop 3 r) ap'))
        else if c0 = 112 then
          bind (need (long_arg ap)) (\<lambda>(w, ap'). seq (printptr w) (printf_loop (tl r) ap'))
        else if c0 = 115 then
          bind (need (str_arg ap)) (\<lambda>(s, ap').
            seq (for_each (takeWhile (\<lambda>c. c \<noteq> 0) s) (\<lambda>c. consputc (uint c))) (printf_loop (tl r) ap'))
        else if c0 = 37 then seq (consputc 37) (printf_loop (tl r) ap)
        else if c0 = 0 then skip
        else seq (consputc 37) (seq (consputc (uint c0)) (printf_loop (tl r) ap)))"

definition printf :: "uchar list \<Rightarrow> parg list \<Rightarrow> unit kop" where
  "printf fmt ap =
     bind (gets pr_locking) (\<lambda>locking.
     seq (whenK locking (acquire LkPr)) (
     seq (printf_loop fmt ap) (
     whenK locking (release LkPr))))"

text \<open>What \<^verbatim>\<open>panic\<close> does; in the other theories a call of it is the outcome \<open>Panic msg\<close>.\<close>

definition panic_stop :: "uchar list \<Rightarrow> unit kop" where
  "panic_stop msg =
     seq (modify (\<lambda>s. s\<lparr>pr_locking := False\<rparr>)) (
     seq (printf (bytes_of ''panic: '') []) (
     seq (printf (bytes_of ''%s'' @ [10]) [PStr msg]) (
     seq (modify (\<lambda>s. s\<lparr>panicked := True\<rparr>)) (
     halt Diverges))))"

definition printfinit :: "unit kop" where
  "printfinit =
     seq (initlock LkPr ''pr'') (
     modify (\<lambda>s. s\<lparr>pr_locking := True\<rparr>))"

end
