(* ===== verification/PageTable.thy ===== *)
theory PageTable
  imports Vm
begin

text \<open>
  Page tables as address spaces. \<open>pt_ok l m a\<close>: in memory \<open>m\<close> the page-table page \<open>a\<close> of level \<open>l\<close>
  is the root of a tree of page-table pages \<open>pt_pages l m a\<close>, no two of which coincide.
  \<open>amap l m a va\<close> is the entry that maps the page of \<open>va\<close> (0 where a table is missing): the
  abstract address space. Looking up leaves memory alone, adding missing tables leaves the
  address space alone, and storing through the pointer \<^verbatim>\<open>walk\<close> returns changes the address space
  at one page only.
\<close>

section \<open>Trees of page tables\<close>

type_synonym mem = "addr \<Rightarrow> page"

definition child :: "(nat \<Rightarrow> uint64) \<Rightarrow> nat \<Rightarrow> addr option" where
  "child t i = (if t i AND PTE_V \<noteq> 0 then Some (PTE2PA (t i)) else None)"

abbreviation ix :: "nat \<Rightarrow> uint64 \<Rightarrow> nat" where
  "ix l va \<equiv> unat (PX l va)"

primrec pt_look :: "nat \<Rightarrow> mem \<Rightarrow> addr \<Rightarrow> uint64 \<Rightarrow> pte_ref option" where
  "pt_look 0 m a va = Some (a, ix 0 va)"
| "pt_look (Suc l) m a va = (case ptab_at m a of None \<Rightarrow> None
     | Some t \<Rightarrow> (case child t (ix (Suc l) va) of None \<Rightarrow> None | Some b \<Rightarrow> pt_look l m b va))"

primrec pt_pages :: "nat \<Rightarrow> mem \<Rightarrow> addr \<Rightarrow> addr set" where
  "pt_pages 0 m a = {a}"
| "pt_pages (Suc l) m a = insert a (case ptab_at m a of None \<Rightarrow> {}
     | Some t \<Rightarrow> (\<Union>i \<in> {..<512}. case child t i of None \<Rightarrow> {} | Some b \<Rightarrow> pt_pages l m b))"

primrec pt_ok :: "nat \<Rightarrow> mem \<Rightarrow> addr \<Rightarrow> bool" where
  "pt_ok 0 m a \<longleftrightarrow> ptab_at m a \<noteq> None"
| "pt_ok (Suc l) m a \<longleftrightarrow> (case ptab_at m a of None \<Rightarrow> False
     | Some t \<Rightarrow> (\<forall>i < 512. \<forall>b. child t i = Some b \<longrightarrow>
         pt_ok l m b \<and> a \<notin> pt_pages l m b \<and>
         (\<forall>j < 512. \<forall>c. j \<noteq> i \<longrightarrow> child t j = Some c \<longrightarrow> pt_pages l m b \<inter> pt_pages l m c = {})))"

definition amap :: "nat \<Rightarrow> mem \<Rightarrow> addr \<Rightarrow> uint64 \<Rightarrow> uint64" where
  "amap l m a va = (case pt_look l m a va of None \<Rightarrow> 0
     | Some (p, i) \<Rightarrow> (case ptab_at m p of None \<Rightarrow> 0 | Some t \<Rightarrow> t i))"

lemma ix_less [simp]: "ix l va < 512"
proof -
  have "unat (drop_bit (12 + 9 * l) va AND 0x1FF) \<le> unat (0x1FF :: uint64)"
    by (metis and.commute word_and_le1 word_le_nat_alt)
  then show ?thesis by (simp add: PX_def)
qed

lemma ptab_at_cong: "m' a = m a \<Longrightarrow> ptab_at m' a = ptab_at m a"
  by (simp add: ptab_at_def)

lemma ptab_at_upd [simp]:
  "ptab_at (m(b := pg)) a = (if a = b then (if a = 0 then None else as_ptab pg) else ptab_at m a)"
  by (simp add: ptab_at_def)

lemma ptab_at_nonnull: "ptab_at m a = Some t \<Longrightarrow> a \<noteq> 0"
  by (auto simp: ptab_at_def split: if_splits)

lemma as_ptab_simps [simp]:
  "as_ptab (PgPtab t) = Some t" "as_ptab (PgFill 0) = Some (\<lambda>_. 0)"
  by (simp_all add: as_ptab_def fill64_def)

lemma root_in_pages [simp]: "a \<in> pt_pages l m a"
  by (cases l) auto

lemma child_pages:
  "ptab_at m a = Some t \<Longrightarrow> i < 512 \<Longrightarrow> child t i = Some b \<Longrightarrow> pt_pages l m b \<subseteq> pt_pages (Suc l) m a"
  by force

lemma pt_ok_child:
  assumes "pt_ok (Suc l) m a" and "ptab_at m a = Some t" and "i < 512" and "child t i = Some b"
  shows "pt_ok l m b" and "a \<notin> pt_pages l m b"
  using assms by auto

lemma pt_ok_disjoint:
  assumes "pt_ok (Suc l) m a" and "ptab_at m a = Some t" and "i < 512" and "child t i = Some b"
    and "j < 512" and "child t j = Some c" and "j \<noteq> i"
  shows "pt_pages l m b \<inter> pt_pages l m c = {}"
  using assms by simp

text \<open>Memory that agrees on the pages of the tree holds the same tree.\<close>

lemma pt_frame:
  assumes "\<And>p. p \<in> pt_pages l m a \<Longrightarrow> m' p = m p"
  shows "pt_pages l m' a = pt_pages l m a" and "pt_ok l m' a = pt_ok l m a"
    and "pt_look l m' a va = pt_look l m a va"
proof -
  have "pt_pages l m' a = pt_pages l m a \<and> pt_ok l m' a = pt_ok l m a \<and>
      pt_look l m' a va = pt_look l m a va"
    using assms
  proof (induction l arbitrary: a)
    case 0
    then show ?case by (simp add: ptab_at_def)
  next
    case (Suc l)
    have t: "ptab_at m' a = ptab_at m a"
      using Suc.prems [of a] by (intro ptab_at_cong) simp
    show ?case
    proof (cases "ptab_at m a")
      case None
      with t show ?thesis by simp
    next
      case (Some tt)
      have IH: "pt_pages l m' b = pt_pages l m b" "pt_ok l m' b = pt_ok l m b"
        "pt_look l m' b va = pt_look l m b va"
        if "i < 512" "child tt i = Some b" for i b
        using Suc.IH [of b] Suc.prems child_pages [OF Some that, of l] by blast+
      have "pt_pages (Suc l) m' a = pt_pages (Suc l) m a"
        by (auto simp: t Some IH split: option.splits)
      moreover have "pt_ok (Suc l) m' a = pt_ok (Suc l) m a"
        by (simp add: t Some) (metis IH(1,2))
      moreover have "pt_look (Suc l) m' a va = pt_look (Suc l) m a va"
        using IH(3) [OF ix_less] by (simp add: t Some split: option.split)
      ultimately show ?thesis by blast
    qed
  qed
  then show "pt_pages l m' a = pt_pages l m a" "pt_ok l m' a = pt_ok l m a"
    "pt_look l m' a va = pt_look l m a va" by blast+
qed

lemma pt_look_in:
  assumes "pt_ok l m a" and "pt_look l m a va = Some (p, i)"
  shows "p \<in> pt_pages l m a" and "i = ix 0 va" and "ptab_at m p \<noteq> None"
proof -
  have "p \<in> pt_pages l m a \<and> i = ix 0 va \<and> ptab_at m p \<noteq> None"
    using assms
  proof (induction l arbitrary: a)
    case 0
    then show ?case by simp
  next
    case (Suc l)
    then obtain t b where tb: "ptab_at m a = Some t" "child t (ix (Suc l) va) = Some b"
      "pt_look l m b va = Some (p, i)"
      by (auto split: option.splits)
    moreover have "pt_ok l m b" by (rule pt_ok_child(1) [OF Suc.prems(1) tb(1) ix_less tb(2)])
    ultimately show ?case
      using Suc.IH child_pages [OF tb(1) ix_less tb(2), of l] by blast
  qed
  then show "p \<in> pt_pages l m a" "i = ix 0 va" "ptab_at m p \<noteq> None" by blast+
qed

lemma amap_frame:
  assumes "pt_ok l m a" and "\<And>p. p \<in> pt_pages l m a \<Longrightarrow> m' p = m p"
  shows "amap l m' a va = amap l m a va"
proof -
  have look: "pt_look l m' a va = pt_look l m a va"
    using assms(2) by (rule pt_frame(3))
  show ?thesis
  proof (cases "pt_look l m a va")
    case None
    with look show ?thesis by (simp add: amap_def)
  next
    case (Some r)
    obtain p i where r: "r = (p, i)" by (cases r)
    then have "p \<in> pt_pages l m a" using pt_look_in [OF assms(1)] Some by blast
    with assms(2) have "ptab_at m' p = ptab_at m p" by (simp add: ptab_at_def)
    with look Some r show ?thesis by (simp add: amap_def)
  qed
qed

text \<open>Two addresses whose walks end in the same slot have the same indices.\<close>

lemma pt_look_inj:
  assumes "pt_ok l m a" and "pt_look l m a va = Some r" and "pt_look l m a vb = Some r"
    and "k \<le> l"
  shows "ix k va = ix k vb"
  using assms
proof (induction l arbitrary: a)
  case 0
  then show ?case by auto
next
  case (Suc l)
  obtain p i where r: "r = (p, i)" by (cases r)
  from Suc.prems obtain t b c where t: "ptab_at m a = Some t"
    and b: "child t (ix (Suc l) va) = Some b" "pt_look l m b va = Some r"
    and c: "child t (ix (Suc l) vb) = Some c" "pt_look l m c vb = Some r"
    by (auto split: option.splits)
  have ok: "pt_ok l m b" "pt_ok l m c"
    using pt_ok_child(1) [OF Suc.prems(1) t ix_less] b(1) c(1) by blast+
  have "p \<in> pt_pages l m b" "p \<in> pt_pages l m c"
    using pt_look_in(1) ok b(2) c(2) r by blast+
  then have eq: "ix (Suc l) va = ix (Suc l) vb"
    using pt_ok_disjoint [OF Suc.prems(1) t ix_less b(1) ix_less c(1)] by fastforce
  show ?case
  proof (cases "k = Suc l")
    case False
    with Suc.prems(4) have "k \<le> l" by simp
    moreover have "b = c" using eq b(1) c(1) by simp
    ultimately show ?thesis using Suc.IH [OF ok(1) b(2)] c(2) by simp
  qed (use eq in simp)
qed

text \<open>Storing into the slot a walk ends in keeps the tree.\<close>

lemma pt_store:
  fixes v :: uint64
  assumes "pt_ok l m a" and "pt_look l m a va = Some (p, i)" and "ptab_at m p = Some t"
  defines "m' \<equiv> m(p := PgPtab (t(i := v)))"
  shows "pt_pages l m' a = pt_pages l m a" and "pt_ok l m' a"
    and "pt_look l m' a vb = pt_look l m a vb"
proof -
  have "pt_pages l m' a = pt_pages l m a \<and> pt_ok l m' a \<and> pt_look l m' a vb = pt_look l m a vb"
    using assms(1,2)
  proof (induction l arbitrary: a)
    case 0
    then show ?case using ptab_at_nonnull [OF assms(3)] by (auto simp: m'_def ptab_at_def)
  next
    case (Suc l)
    then obtain u b where u: "ptab_at m a = Some u" and b: "child u (ix (Suc l) va) = Some b"
      "pt_look l m b va = Some (p, i)"
      by (auto split: option.splits)
    let ?k = "ix (Suc l) va"
    have okb: "pt_ok l m b" and ab: "a \<notin> pt_pages l m b"
      using pt_ok_child [OF Suc.prems(1) u ix_less b(1)] by blast+
    have pb: "p \<in> pt_pages l m b" using pt_look_in(1) okb b(2) by blast
    with ab have "a \<noteq> p" by blast
    then have u': "ptab_at m' a = Some u" using u by (auto simp: m'_def ptab_at_def split: if_splits)
    have eqs: "pt_pages l m' c = pt_pages l m c \<and> pt_ok l m' c = pt_ok l m c \<and>
        pt_look l m' c vb = pt_look l m c vb" if "j < 512" "child u j = Some c" for j c
    proof (cases "j = ?k")
      case True
      with that b(1) have "c = b" by simp
      with Suc.IH [OF okb b(2)] okb show ?thesis by simp
    next
      case False
      then have "pt_pages l m b \<inter> pt_pages l m c = {}"
        by (rule pt_ok_disjoint [OF Suc.prems(1) u ix_less b(1) that])
      with pb have "m' q = m q" if "q \<in> pt_pages l m c" for q
        using that by (auto simp: m'_def)
      then show ?thesis using pt_frame [of l m c m'] by blast
    qed
    have "pt_pages (Suc l) m' a = pt_pages (Suc l) m a"
      using eqs by (auto simp: u u' split: option.splits)
    moreover have "pt_ok (Suc l) m' a"
      using Suc.prems(1) eqs by (simp add: u u')
    moreover have "pt_look (Suc l) m' a vb = pt_look (Suc l) m a vb"
      using eqs [OF ix_less] by (simp add: u u' split: option.split)
    ultimately show ?case by blast
  qed
  then show "pt_pages l m' a = pt_pages l m a" "pt_ok l m' a"
    "pt_look l m' a vb = pt_look l m a vb" by blast+
qed

text \<open>The same indices down from level \<open>l\<close>.\<close>

definition same_ix :: "nat \<Rightarrow> uint64 \<Rightarrow> uint64 \<Rightarrow> bool" where
  "same_ix l va vb \<longleftrightarrow> (\<forall>k \<le> l. ix k va = ix k vb)"

lemma pt_look_same: "same_ix l va vb \<Longrightarrow> pt_look l m a va = pt_look l m a vb"
proof (induction l arbitrary: a)
  case 0
  then show ?case by (simp add: same_ix_def)
next
  case (Suc l)
  then have "same_ix l va vb" "ix (Suc l) va = ix (Suc l) vb" by (auto simp: same_ix_def)
  with Suc.IH show ?case by (simp split: option.split)
qed

lemma amap_store:
  assumes "pt_ok l m a" and "pt_look l m a va = Some (p, i)" and "ptab_at m p = Some t"
  shows "amap l (m(p := PgPtab (t(i := v)))) a vb = (if same_ix l va vb then v else amap l m a vb)"
proof -
  let ?m = "m(p := PgPtab (t(i := v)))"
  have look: "pt_look l ?m a vb = pt_look l m a vb" by (rule pt_store(3) [OF assms])
  have tab: "ptab_at ?m q = (if q = p then Some (t(i := v)) else ptab_at m q)" for q
    using ptab_at_nonnull [OF assms(3)] by simp
  show ?thesis
  proof (cases "same_ix l va vb")
    case True
    then have "pt_look l m a vb = Some (p, i)" using pt_look_same assms(2) by metis
    with True look tab show ?thesis by (simp add: amap_def)
  next
    case False
    have "pt_look l m a vb \<noteq> Some (p, i)"
      using False pt_look_inj [OF assms(1,2)] unfolding same_ix_def by blast
    with False look tab assms(3) show ?thesis
      by (cases "pt_look l m a vb") (auto simp: amap_def split: if_splits)
  qed
qed

text \<open>Replacing one subtree by a larger one that takes its new pages \<open>Z\<close> from outside the tree.\<close>

lemma pt_subtree:
  assumes ok: "pt_ok (Suc l) m a" and t: "ptab_at m a = Some t"
    and k: "k < 512" "child t k = Some b"
    and ok': "pt_ok l m' b" and pg: "pt_pages l m' b = pt_pages l m b \<union> Z"
    and Z: "Z \<inter> pt_pages (Suc l) m a = {}"
    and out: "\<And>p. p \<notin> pt_pages l m b \<union> Z \<Longrightarrow> m' p = m p"
  shows "pt_ok (Suc l) m' a" and "pt_pages (Suc l) m' a = pt_pages (Suc l) m a \<union> Z"
    and "pt_look (Suc l) m' a va =
      (if ix (Suc l) va = k then pt_look l m' b va else pt_look (Suc l) m a va)"
    and "amap (Suc l) m' a va =
      (if ix (Suc l) va = k then amap l m' b va else amap (Suc l) m a va)"
proof -
  have "a \<notin> pt_pages l m b \<union> Z" using pt_ok_child(2) [OF ok t k] Z by auto
  then have t': "ptab_at m' a = Some t" using out t by (metis ptab_at_cong)
  have Zc: "Z \<inter> pt_pages l m c = {}" if "j < 512" "child t j = Some c" for j c
    using Z child_pages [OF t that, of l] by blast
  have same: "\<forall>p \<in> pt_pages l m c. m' p = m p" if "j < 512" "child t j = Some c" "j \<noteq> k" for j c
    using pt_ok_disjoint [OF ok t k that] Zc [OF that(1,2)] out by blast
  have eqs: "pt_pages l m' c = pt_pages l m c" "pt_ok l m' c" "pt_look l m' c va = pt_look l m c va"
    if "j < 512" "child t j = Some c" "j \<noteq> k" for j c va
    using pt_frame [of l m c m'] same [OF that] pt_ok_child(1) [OF ok t that(1,2)] by blast+
  have pages: "pt_pages l m' c = pt_pages l m c \<union> (if j = k then Z else {})"
    if "j < 512" "child t j = Some c" for j c
    using that k pg eqs(1) by (cases "j = k") auto
  have oks: "pt_ok l m' c" if "j < 512" "child t j = Some c" for j c
    using that k ok' eqs(2) by (cases "j = k") auto
  have disj: "pt_pages l m' c \<inter> pt_pages l m' d = {}"
    if "i < 512" "child t i = Some c" "j < 512" "child t j = Some d" "j \<noteq> i" for i j c d
    using pt_ok_disjoint [OF ok t that] Zc [OF that(1,2)] Zc [OF that(3,4)]
      pages [OF that(1,2)] pages [OF that(3,4)] that(5) by auto
  have root: "a \<notin> pt_pages l m' c" if "i < 512" "child t i = Some c" for i c
    using pages [OF that] pt_ok_child(2) [OF ok t that] Z by auto
  show "pt_ok (Suc l) m' a" using oks disj root by (simp add: t')
  show "pt_pages (Suc l) m' a = pt_pages (Suc l) m a \<union> Z"
  proof -
    have "(case child t i of None \<Rightarrow> {} | Some c \<Rightarrow> pt_pages l m' c) =
        (case child t i of None \<Rightarrow> {} | Some c \<Rightarrow> pt_pages l m c) \<union> (if i = k then Z else {})"
      if "i < 512" for i
      using pages [OF that] k by (auto split: option.splits)
    then have "(\<Union>i \<in> {..<512}. case child t i of None \<Rightarrow> {} | Some c \<Rightarrow> pt_pages l m' c) =
        (\<Union>i \<in> {..<512}. case child t i of None \<Rightarrow> {} | Some c \<Rightarrow> pt_pages l m c) \<union> Z"
      using k(1) by (auto split: if_splits)
    then show ?thesis by (simp add: t t')
  qed
  show look: "pt_look (Suc l) m' a va =
      (if ix (Suc l) va = k then pt_look l m' b va else pt_look (Suc l) m a va)"
    using eqs(3) [OF ix_less] k by (auto simp: t t' split: option.split)
  show "amap (Suc l) m' a va =
      (if ix (Suc l) va = k then amap l m' b va else amap (Suc l) m a va)"
  proof (cases "ix (Suc l) va = k")
    case True
    with look show ?thesis by (simp add: amap_def)
  next
    case False
    show ?thesis
    proof (cases "child t (ix (Suc l) va)")
      case None
      with look False t show ?thesis by (simp add: amap_def)
    next
      case (Some c)
      have "amap l m' c va = amap l m c va"
        using same [OF ix_less Some] False pt_ok_child(1) [OF ok t ix_less Some]
        by (intro amap_frame) auto
      with False Some show ?thesis by (simp add: amap_def t t')
    qed
  qed
qed

text \<open>A page of zeros is an empty table of any level.\<close>

lemma zero_table:
  assumes "m a = PgFill 0" and "a \<noteq> 0"
  shows "pt_ok l m a" and "pt_pages l m a = {a}" and "amap l m a va = 0"
proof -
  have t: "ptab_at m a = Some (\<lambda>_. 0)" using assms by (simp add: ptab_at_def)
  have c: "child (\<lambda>_. 0) i = None" for i by (simp add: child_def)
  show "pt_ok l m a" "pt_pages l m a = {a}" "amap l m a va = 0"
    by (cases l; simp add: t c amap_def)+
qed

section \<open>Walking\<close>

lemma load_pte_run: "ptab_at (phys s) p = Some t \<Longrightarrow> load_pte (p, i) s e = Ok (t i) s e"
  by (simp add: load_pte_def bind_def)

lemma store_pte_run:
  "ptab_at (phys s) p = Some t \<Longrightarrow> store_pte (p, i) v s e = Ok () (set_page p (PgPtab (t(i := v))) s) e"
  by (simp add: store_pte_def bind_def)

lemma walk_from_ro:
  assumes "pt_ok l (phys s) a"
  shows "walk_from l a va False s e = Ok (pt_look l (phys s) a va) s e"
  using assms
proof (induction l arbitrary: a)
  case 0
  then show ?case by simp
next
  case (Suc l)
  then obtain t where t: "ptab_at (phys s) a = Some t" by (auto split: option.splits)
  show ?case
  proof (cases "child t (ix (Suc l) va)")
    case None
    with t show ?thesis by (simp add: bind_def load_pte_run child_def split: if_splits)
  next
    case (Some b)
    with Suc t have "walk_from l b va False s e = Ok (pt_look l (phys s) b va) s e"
      using pt_ok_child(1) ix_less by blast
    with t Some show ?thesis by (simp add: bind_def load_pte_run child_def split: if_splits)
  qed
qed

text \<open>
  What a walk that may allocate does: it takes the pages \<open>zs\<close>, at most \<open>n\<close>, off the front of the
  free list \<open>xs\<close> for new tables and leaves \<open>ys\<close>; the address space is what it was; and it fails
  only when no page is left.
\<close>

definition walked :: "nat \<Rightarrow> nat \<Rightarrow> addr \<Rightarrow> uint64 \<Rightarrow> kernel \<Rightarrow> addr list \<Rightarrow> pte_ref option \<Rightarrow> kernel \<Rightarrow>
    addr list \<Rightarrow> addr list \<Rightarrow> bool" where
  "walked n l a va s xs r t zs ys \<longleftrightarrow>
     xs = zs @ ys \<and> length zs \<le> n \<and> free_pages t ys \<and>
     t = s\<lparr>freelist := freelist t, phys := phys t\<rparr> \<and>
     pt_ok l (phys t) a \<and> pt_pages l (phys t) a = pt_pages l (phys s) a \<union> set zs \<and>
     (\<forall>v. amap l (phys t) a v = amap l (phys s) a v) \<and>
     (\<forall>b. b \<notin> pt_pages l (phys s) a \<union> set zs \<longrightarrow> phys t b = phys s b) \<and>
     (case r of None \<Rightarrow> ys = [] \<and> length zs < n | Some x \<Rightarrow> pt_look l (phys t) a va = Some x)"

lemma walked_child:
  assumes ok: "pt_ok (Suc l) (phys s) a" and t: "ptab_at (phys s) a = Some tt"
    and b: "child tt (ix (Suc l) va) = Some b"
    and dj: "pt_pages (Suc l) (phys s) a \<inter> set xs = {}"
    and w: "walked n l b va s xs r t zs ys"
  shows "walked n (Suc l) a va s xs r t zs ys"
proof -
  note w' = w [unfolded walked_def]
  have Z: "set zs \<inter> pt_pages (Suc l) (phys s) a = {}" using dj w' by auto
  note sub = pt_subtree [OF ok t ix_less b, of "phys t" "set zs"]
  have am: "amap (Suc l) (phys s) a v = amap l (phys s) b v" if "ix (Suc l) v = ix (Suc l) va" for v
    using that t b by (simp add: amap_def)
  have "b' \<notin> pt_pages (Suc l) (phys s) a \<union> set zs \<Longrightarrow> phys t b' = phys s b'" for b'
    using w' child_pages [OF t ix_less b, of l] by blast
  then show ?thesis
    unfolding walked_def using w' Z sub am by (auto split: option.splits)
qed

text \<open>Hanging an empty table into a free slot.\<close>

lemma pt_add_table:
  assumes ok: "pt_ok (Suc l) m a" and t: "ptab_at m a = Some t"
    and k: "k < 512" "child t k = None"
    and c: "c \<notin> pt_pages (Suc l) m a" "c \<noteq> 0"
    and w: "PTE2PA w = c" "w AND PTE_V \<noteq> 0"
    and m': "m' = m(c := PgFill 0, a := PgPtab (t(k := w)))"
  shows "ptab_at m' a = Some (t(k := w))" and "child (t(k := w)) k = Some c"
    and "pt_ok (Suc l) m' a" and "pt_pages (Suc l) m' a = insert c (pt_pages (Suc l) m a)"
    and "amap (Suc l) m' a va = amap (Suc l) m a va"
proof -
  have ac: "a \<noteq> c" using c(1) by auto
  have a0: "a \<noteq> 0" by (rule ptab_at_nonnull [OF t])
  show t': "ptab_at m' a = Some (t(k := w))" using a0 by (simp add: m')
  show ck: "child (t(k := w)) k = Some c" using w by (simp add: child_def)
  have cj: "child (t(k := w)) j = child t j" if "j \<noteq> k" for j using that by (simp add: child_def)
  have z: "pt_ok l m' c" "pt_pages l m' c = {c}" "\<And>v. amap l m' c v = 0"
    using zero_table [of m' c] c(2) ac by (simp_all add: m')
  have same: "\<forall>p \<in> pt_pages l m b. m' p = m p" if "j < 512" "child t j = Some b" for j b
    using pt_ok_child(2) [OF ok t that] child_pages [OF t that, of l] c(1) by (auto simp: m')
  have eqs: "pt_pages l m' b = pt_pages l m b" "pt_ok l m' b" "pt_look l m' b v = pt_look l m b v"
      "amap l m' b v = amap l m b v"
    if "j < 512" "child t j = Some b" for j b v
    using pt_frame [of l m b m'] amap_frame [of l m b m'] same [OF that] pt_ok_child(1) [OF ok t that]
    by blast+
  have pages: "pt_pages l m' b = (if j = k then {c} else pt_pages l m b)"
    if "j < 512" "child (t(k := w)) j = Some b" for j b
    using that ck cj z(2) eqs(1) by (cases "j = k") auto
  have oks: "pt_ok l m' b" if "j < 512" "child (t(k := w)) j = Some b" for j b
    using that ck cj z(1) eqs(2) by (cases "j = k") auto
  have cb: "c \<notin> pt_pages l m b" if "j < 512" "child t j = Some b" for j b
    using child_pages [OF t that, of l] c(1) by blast
  have disj: "pt_pages l m' b \<inter> pt_pages l m' d = {}"
    if "i < 512" "child (t(k := w)) i = Some b" "j < 512" "child (t(k := w)) j = Some d" "j \<noteq> i" for i j b d
    using pages [OF that(1,2)] pages [OF that(3,4)] pt_ok_disjoint [OF ok t, of i b j d] cb that cj
    by (cases "i = k"; cases "j = k") auto
  have root: "a \<notin> pt_pages l m' b" if "i < 512" "child (t(k := w)) i = Some b" for i b
    using pages [OF that] pt_ok_child(2) [OF ok t, of i b] that cj ac by (cases "i = k") auto
  show "pt_ok (Suc l) m' a" using oks disj root by (simp add: t')
  have "(case child (t(k := w)) i of None \<Rightarrow> {} | Some b \<Rightarrow> pt_pages l m' b) =
      (case child t i of None \<Rightarrow> {} | Some b \<Rightarrow> pt_pages l m b) \<union> (if i = k then {c} else {})"
    if "i < 512" for i
    using that ck cj [of i] z(2) eqs(1) [of i] k(2) by (cases "i = k") (auto split: option.split)
  then have "(\<Union>i \<in> {..<512}. case child (t(k := w)) i of None \<Rightarrow> {} | Some b \<Rightarrow> pt_pages l m' b) =
      (\<Union>i \<in> {..<512}. case child t i of None \<Rightarrow> {} | Some b \<Rightarrow> pt_pages l m b) \<union> {c}"
    using k(1) by (auto split: if_splits)
  then show "pt_pages (Suc l) m' a = insert c (pt_pages (Suc l) m a)"
    by (auto simp: t t')
  have am: "amap (Suc l) m'' a va = (case child tt (ix (Suc l) va) of None \<Rightarrow> 0 | Some b \<Rightarrow> amap l m'' b va)"
    if "ptab_at m'' a = Some tt" for m'' tt
    using that by (simp add: amap_def split: option.split)
  show "amap (Suc l) m' a va = amap (Suc l) m a va"
    using am [OF t] am [OF t'] ck cj [of "ix (Suc l) va"] k(2) z(3) eqs(4) [OF ix_less]
    by (cases "ix (Suc l) va = k") (auto split: option.split)
qed

lemma allocatable_pte:
  assumes "allocatable s c"
  shows "PTE2PA (PA2PTE c OR PTE_V) = c" and "(PA2PTE c OR PTE_V) AND PTE_V \<noteq> 0"
proof -
  have "unat c < 2 ^ 56"
    using assms unat_PHYSTOP by (simp add: allocatable_def word_less_nat_alt)
  moreover have "PTE_V AND NOT (mask 10) = 0" by (simp add: PTE_V_def mask_eq_exp_minus_1)
  ultimately show "PTE2PA (PA2PTE c OR PTE_V) = c"
    using assms by (intro PTE2PA_PA2PTE) (auto simp: allocatable_def)
  have "bit ((PA2PTE c OR PTE_V) AND PTE_V) 0" by (simp add: PTE_V_def bit_simps)
  then show "(PA2PTE c OR PTE_V) AND PTE_V \<noteq> 0" by force
qed

lemma walkedD:
  assumes "walked n l a va s xs r t zs ys"
  shows "xs = zs @ ys" and "length zs \<le> n" and "free_pages t ys"
    and "t = s\<lparr>freelist := freelist t, phys := phys t\<rparr>"
    and "pt_ok l (phys t) a" and "pt_pages l (phys t) a = pt_pages l (phys s) a \<union> set zs"
    and "amap l (phys t) a v = amap l (phys s) a v"
    and "b \<notin> pt_pages l (phys s) a \<Longrightarrow> b \<notin> set zs \<Longrightarrow> phys t b = phys s b"
    and "case r of None \<Rightarrow> ys = [] \<and> length zs < n | Some x \<Rightarrow> pt_look l (phys t) a va = Some x"
  using assms unfolding walked_def by blast+

lemma walked_fresh:
  assumes w: "walked n l a va u xs' r t zs ys" and xs: "xs = c # xs'"
    and u: "u = s\<lparr>freelist := freelist u, phys := phys u\<rparr>"
      "phys u = (phys s)(c := PgFill 0, a := pg)"
    and pg: "pt_pages l (phys u) a = insert c (pt_pages l (phys s) a)"
    and am: "\<And>v. amap l (phys u) a v = amap l (phys s) a v"
  shows "walked (Suc n) l a va s xs r t (c # zs) ys"
  unfolding walked_def
proof (intro conjI allI impI)
  note w' = walkedD [OF w]
  show "xs = (c # zs) @ ys" "length (c # zs) \<le> Suc n" "free_pages t ys" "pt_ok l (phys t) a"
    using xs w'(1,2,3,5) by simp_all
  have "t = u\<lparr>freelist := freelist t, phys := phys t\<rparr>" by (rule w'(4))
  also have "\<dots> = s\<lparr>freelist := freelist t, phys := phys t\<rparr>" by (subst u(1)) simp
  finally show "t = s\<lparr>freelist := freelist t, phys := phys t\<rparr>" .
  show "pt_pages l (phys t) a = pt_pages l (phys s) a \<union> set (c # zs)"
    using w'(6) pg by simp
  show "amap l (phys t) a v = amap l (phys s) a v" for v
    using w'(7) [of v] am [of v] by simp
  show "phys t b = phys s b" if "b \<notin> pt_pages l (phys s) a \<union> set (c # zs)" for b
  proof -
    have "b \<noteq> a" "b \<noteq> c" using that root_in_pages by auto
    then have "phys u b = phys s b" by (simp add: u(2))
    moreover have "b \<notin> pt_pages l (phys u) a" "b \<notin> set zs" using that pg by auto
    ultimately show ?thesis using w'(8) by simp
  qed
  show "case r of None \<Rightarrow> ys = [] \<and> length (c # zs) < Suc n | Some x \<Rightarrow> pt_look l (phys t) a va = Some x"
    using w'(9) by (simp split: option.splits)
qed

lemma walk_from_alloc:
  fixes s :: kernel
  assumes "pt_ok l (phys s) a" and "free_pages s xs" and "lk_avail LkKmem (lkst s)"
    and "pt_pages l (phys s) a \<inter> set xs = {}"
  shows "\<exists>r t zs ys. walk_from l a va True s e = Ok r t e \<and> walked l l a va s xs r t zs ys"
  using assms
proof (induction l arbitrary: a s xs)
  case 0
  then show ?case by (auto simp: walked_def intro!: exI [of _ "[]"])
next
  case (Suc l)
  then obtain tt where tt: "ptab_at (phys s) a = Some tt" by (auto split: option.splits)
  let ?k = "ix (Suc l) va"
  show ?case
  proof (cases "child tt ?k")
    case (Some b)
    note b = pt_ok_child [OF Suc.prems(1) tt ix_less Some]
    have "pt_pages l (phys s) b \<inter> set xs = {}"
      using child_pages [OF tt ix_less Some, of l] Suc.prems(4) by blast
    from Suc.IH [OF b(1) Suc.prems(2,3) this] obtain r t zs ys where
      w: "walk_from l b va True s e = Ok r t e" "walked l l b va s xs r t zs ys" by blast
    have "walk_from (Suc l) a va True s e = Ok r t e"
      using w(1) tt Some by (simp add: bind_def load_pte_run child_def split: if_splits)
    moreover have "walked (Suc l) (Suc l) a va s xs r t zs ys"
      using walked_child [OF Suc.prems(1) tt Some Suc.prems(4) w(2)]
      by (auto simp: walked_def split: option.splits)
    ultimately show ?thesis by blast
  next
    case None
    then have inv: "tt ?k AND PTE_V = 0" by (simp add: child_def split: if_splits)
    show ?thesis
    proof (cases xs)
      case Nil
      have "walk_from (Suc l) a va True s e = Ok None s e"
        using tt inv Suc.prems(2,3) Nil kalloc_st_empty [of s]
        by (simp add: bind_def load_pte_run kalloc_run)
      moreover have "walked (Suc l) (Suc l) a va s xs None s [] []"
        using Nil Suc.prems by (simp add: walked_def)
      ultimately show ?thesis by blast
    next
      case (Cons c xs')
      note k = kalloc_st_cons [OF Suc.prems(2) [unfolded Cons]]
      have c: "c \<notin> pt_pages (Suc l) (phys s) a" "c \<noteq> 0"
        using Suc.prems(4) Cons k(2) by (auto simp: allocatable_def)
      let ?w = "PA2PTE c OR PTE_V"
      let ?u = "set_page a (PgPtab (tt(?k := ?w))) (set_page c (PgFill 0) (kalloc_st s))"
      have u: "phys ?u = (phys s)(c := PgFill 0, a := PgPtab (tt(?k := ?w)))"
        using c by (simp add: k(4))
      note add = pt_add_table [OF Suc.prems(1) tt ix_less None c allocatable_pte [OF k(2)] u]
      have ax: "a \<notin> set xs'" and cx: "c \<notin> set xs'"
        using Suc.prems(4) Cons k(6) by auto
      have fp: "free_pages ?u xs'"
        using k(3) ax cx by (intro free_pages_set_page) auto
      have dj: "pt_pages (Suc l) (phys ?u) a \<inter> set xs' = {}"
        using add(4) Suc.prems(4) Cons k(6) by auto
      have "pt_pages l (phys ?u) c \<inter> set xs' = {}"
        using child_pages [OF add(1) ix_less add(2), of l] dj by blast
      from Suc.IH [OF pt_ok_child(1) [OF add(3,1) ix_less add(2)] fp _ this] Suc.prems(3)
      obtain r t zs ys where
        w: "walk_from l c va True ?u e = Ok r t e" "walked l l c va ?u xs' r t zs ys" by auto
      have "ptab_at (phys (set_page c (PgFill 0) (kalloc_st s))) a = Some tt"
        using c tt k(4) by (auto simp: ptab_at_def)
      then have "walk_from (Suc l) a va True s e = Ok r t e"
        using w(1) tt inv c Suc.prems(2,3) Cons k(1)
        by (simp add: bind_def seq_def load_pte_run store_pte_run kalloc_run memset_page_def)
      moreover have "walked l (Suc l) a va ?u xs' r t zs ys"
        by (rule walked_child [OF add(3,1,2) dj w(2)])
      then have "walked (Suc l) (Suc l) a va s xs r t (c # zs) ys"
      proof (rule walked_fresh [OF _ Cons _ u add(4,5)])
        show "?u = s\<lparr>freelist := freelist ?u, phys := phys ?u\<rparr>"
          by (subst (1) kalloc_st_only) simp
      qed
      ultimately show ?thesis by blast
    qed
  qed
qed

section \<open>Address spaces\<close>

definition aspace :: "kernel \<Rightarrow> addr \<Rightarrow> uint64 \<Rightarrow> uint64" where
  "aspace s pt va = amap 2 (phys s) pt va"

definition vpn :: "uint64 \<Rightarrow> nat" where
  "vpn va = unat va div 4096"

text \<open>A page table in a state whose allocator works and whose free pages it does not use.\<close>

definition pt_env :: "kernel \<Rightarrow> addr \<Rightarrow> addr list \<Rightarrow> bool" where
  "pt_env s pt xs \<longleftrightarrow> pt_ok 2 (phys s) pt \<and> free_pages s xs \<and> lk_avail LkKmem (lkst s) \<and>
     pt_pages 2 (phys s) pt \<inter> set xs = {}"

text \<open>The table took the pages \<open>zs\<close> off the free list; nothing but the table and they changed.\<close>

definition grown :: "kernel \<Rightarrow> addr \<Rightarrow> addr list \<Rightarrow> kernel \<Rightarrow> addr list \<Rightarrow> addr list \<Rightarrow> bool" where
  "grown s pt xs t zs ys \<longleftrightarrow>
     xs = zs @ ys \<and> free_pages t ys \<and> t = s\<lparr>freelist := freelist t, phys := phys t\<rparr> \<and>
     pt_ok 2 (phys t) pt \<and> pt_pages 2 (phys t) pt = pt_pages 2 (phys s) pt \<union> set zs \<and>
     (\<forall>b. b \<notin> pt_pages 2 (phys s) pt \<union> set zs \<longrightarrow> phys t b = phys s b)"

lemma unat_PX: "unat (PX k va) = unat va div 2 ^ (12 + 9 * k) mod 512"
proof -
  have "(0x1FF :: uint64) = mask 9" by (simp add: mask_eq_exp_minus_1)
  then have "PX k va = take_bit 9 (drop_bit (12 + 9 * k) va)"
    by (simp add: PX_def take_bit_eq_mask)
  then have "unat (PX k va) = take_bit 9 (drop_bit (12 + 9 * k) (unat va))"
    by (simp only: unsigned_take_bit_eq unat_drop_bit_eq)
  then show ?thesis by (simp only: take_bit_eq_mod drop_bit_eq_div) simp
qed

lemma vpn_parts:
  assumes "n < 2 ^ 26"
  shows "n = n div 262144 mod 512 * 262144 + n div 512 mod 512 * 512 + n mod (512 :: nat)"
proof -
  have "n div 262144 mod 512 = n div 262144"
    using assms by (intro mod_less) (simp add: div_less_iff_less_mult)
  moreover have "n div 262144 = n div 512 div 512" by (simp add: div_mult2_eq [symmetric])
  moreover have "n div 512 div 512 * 512 + n div 512 mod 512 = n div 512"
    and "n div 512 * 512 + n mod 512 = n"
    by (rule div_mult_mod_eq)+
  ultimately show ?thesis by linarith
qed

lemma vpn_bound: "va < MAXVA \<Longrightarrow> vpn va < 2 ^ 26"
  by (simp add: vpn_def word_less_nat_alt unat_MAXVA div_less_iff_less_mult)

lemma same_ix_vpn:
  assumes "va < MAXVA" and "vb < MAXVA"
  shows "same_ix 2 va vb \<longleftrightarrow> vpn va = vpn vb"
proof
  have px: "ix 0 v = vpn v mod 512" "ix 1 v = vpn v div 512 mod 512" "ix 2 v = vpn v div 262144 mod 512"
    for v
    by (simp_all add: unat_PX vpn_def div_mult2_eq [symmetric] del: One_nat_def)
  { assume "same_ix 2 va vb"
    then have "ix 0 va = ix 0 vb" "ix 1 va = ix 1 vb" "ix 2 va = ix 2 vb"
      unfolding same_ix_def by simp_all
    then show "vpn va = vpn vb"
      using vpn_parts [OF vpn_bound [OF assms(1)]] vpn_parts [OF vpn_bound [OF assms(2)]]
      unfolding px by metis }
  assume eq: "vpn va = vpn vb"
  have "ix k va = ix k vb" if "k \<le> 2" for k
  proof -
    from that consider "k = 0" | "k = 1" | "k = 2" by linarith
    then show ?thesis by cases (simp_all only: px eq)
  qed
  then show "same_ix 2 va vb" by (simp only: same_ix_def) simp
qed

lemma walk_ro:
  assumes "pt_ok 2 (phys s) pt"
  shows "walk pt va False s e =
    (if va \<ge> MAXVA then Stop (Panic ''walk'') else Ok (pt_look 2 (phys s) pt va) s e)"
  using walk_from_ro [OF assms, of va e] by (simp add: walk_def seq_def)

lemma walk_alloc:
  assumes "pt_env s pt xs" and "va < MAXVA"
  shows "\<exists>r t zs ys. walk pt va True s e = Ok r t e \<and> walked 2 2 pt va s xs r t zs ys"
proof -
  have "\<exists>r t zs ys. walk_from 2 pt va True s e = Ok r t e \<and> walked 2 2 pt va s xs r t zs ys"
    using assms(1) by (intro walk_from_alloc) (auto simp: pt_env_def)
  moreover have "\<not> MAXVA \<le> va" using assms(2) by (simp add: linorder_not_le)
  ultimately show ?thesis by (simp add: walk_def seq_def)
qed

text \<open>The entry \<^verbatim>\<open>walk\<close> points to is the address space's entry, and it can be loaded.\<close>

lemma load_walked:
  assumes "pt_ok 2 (phys s) pt" and "pt_look 2 (phys s) pt va = Some p"
  shows "load_pte p s e = Ok (aspace s pt va) s e"
proof -
  obtain q i where p: "p = (q, i)" by (cases p)
  then obtain t where t: "ptab_at (phys s) q = Some t" using pt_look_in(3) [OF assms(1)] assms(2) by blast
  with p assms(2) show ?thesis by (simp add: load_pte_run aspace_def amap_def)
qed

text \<open>Storing through it changes the address space at the pages of \<open>va\<close> and nothing else.\<close>

lemma store_walked:
  assumes "pt_ok 2 (phys s) pt" and "pt_look 2 (phys s) pt va = Some p" and "va < MAXVA"
  shows "\<exists>m. store_pte p v s e = Ok () (s\<lparr>phys := m\<rparr>) e \<and>
    pt_ok 2 m pt \<and> pt_pages 2 m pt = pt_pages 2 (phys s) pt \<and>
    (\<forall>b. b \<notin> pt_pages 2 (phys s) pt \<longrightarrow> m b = phys s b) \<and>
    (\<forall>u < MAXVA. amap 2 m pt u = (if vpn u = vpn va then v else aspace s pt u))"
proof -
  obtain q i where p: "p = (q, i)" by (cases p)
  note look = assms(2) [unfolded p]
  obtain t where t: "ptab_at (phys s) q = Some t" using pt_look_in(3) [OF assms(1) look] by blast
  let ?m = "(phys s)(q := PgPtab (t(i := v)))"
  have "q \<in> pt_pages 2 (phys s) pt" by (rule pt_look_in(1) [OF assms(1) look])
  moreover have "amap 2 ?m pt u = (if vpn u = vpn va then v else aspace s pt u)" if "u < MAXVA" for u
    using amap_store [OF assms(1) look t, of v u] same_ix_vpn [OF assms(3) that]
    by (auto simp: aspace_def)
  ultimately show ?thesis
    using pt_store [OF assms(1) look t, of v]
    by (intro exI [of _ ?m]) (auto simp: p store_pte_run [OF t])
qed

section \<open>Mapping pages\<close>

definition mapped :: "uint64 \<Rightarrow> uint64 \<Rightarrow> nat \<Rightarrow> uint64 \<Rightarrow> (uint64 \<Rightarrow> uint64) \<Rightarrow> uint64 \<Rightarrow> uint64" where
  "mapped va pa n perm A v =
     (if vpn va \<le> vpn v \<and> vpn v < vpn va + n
      then PA2PTE (pa + of_nat (vpn v - vpn va) * PGSIZE) OR perm OR PTE_V else A v)"

lemma grown_trans:
  assumes "grown s pt xs t zs ys" and "grown t pt ys u zs' ys'"
  shows "grown s pt xs u (zs @ zs') ys'"
proof -
  have "u = s\<lparr>freelist := freelist u, phys := phys u\<rparr>"
  proof -
    have "u = t\<lparr>freelist := freelist u, phys := phys u\<rparr>" using assms(2) by (simp add: grown_def)
    also have "t = s\<lparr>freelist := freelist t, phys := phys t\<rparr>" using assms(1) by (simp add: grown_def)
    finally show ?thesis by simp
  qed
  with assms show ?thesis unfolding grown_def by auto
qed

lemma grown_env:
  assumes "grown s pt xs t zs ys" and "pt_env s pt xs"
  shows "pt_env t pt ys" and "lkst t = lkst s"
proof -
  have t: "t = s\<lparr>freelist := freelist t, phys := phys t\<rparr>" using assms(1) by (simp add: grown_def)
  then show l: "lkst t = lkst s" by (metis kernel.select_convs(1) kernel.surjective kernel.update_convs(3,4))
  have "distinct xs" using assms(2) by (simp add: pt_env_def free_pages_def)
  with assms l show "pt_env t pt ys" unfolding grown_def pt_env_def by auto
qed

text \<open>One page: walk, check, store.\<close>

lemma mappages_body_run:
  assumes env: "pt_env s pt xs" and a: "a < MAXVA" and free: "aspace s pt a AND PTE_V = 0"
  shows "\<exists>t zs ys. grown s pt xs t zs ys \<and> length zs \<le> 2 \<and>
    (mappages_body pt lst perm (a, pa) s e = Ok (Inr (-1)) t e \<and> ys = [] \<and> length zs < 2 \<and>
       (\<forall>v < MAXVA. aspace t pt v = aspace s pt v) \<or>
     mappages_body pt lst perm (a, pa) s e =
       Ok (if a = lst then Inr 0 else Inl (a + PGSIZE, pa + PGSIZE)) t e \<and>
       (\<forall>v < MAXVA. aspace t pt v = mapped a pa 1 perm (aspace s pt) v))"
proof -
  obtain r t zs ys where w: "walk pt a True s e = Ok r t e" "walked 2 2 pt a s xs r t zs ys"
    using walk_alloc [OF env a] by blast
  note d = walkedD [OF w(2)]
  have g: "grown s pt xs t zs ys" unfolding grown_def using d(1,3,4,5,6,8) by blast
  have am: "aspace t pt v = aspace s pt v" for v using d(7) [of v] by (simp add: aspace_def)
  show ?thesis
  proof (cases r)
    case None
    with w(1) have "mappages_body pt lst perm (a, pa) s e = Ok (Inr (-1)) t e"
      by (simp add: mappages_body_def bind_def)
    with None d(2,9) am g show ?thesis by (intro exI [of _ t] exI [of _ zs] exI [of _ ys]) auto
  next
    case (Some p)
    with d(9) have look: "pt_look 2 (phys t) pt a = Some p" by simp
    note load = load_walked [OF d(5) look, of e]
    obtain m where m: "store_pte p (PA2PTE pa OR perm OR PTE_V) t e = Ok () (t\<lparr>phys := m\<rparr>) e"
      "pt_ok 2 m pt" "pt_pages 2 m pt = pt_pages 2 (phys t) pt"
      "\<forall>b. b \<notin> pt_pages 2 (phys t) pt \<longrightarrow> m b = phys t b"
      "\<forall>u < MAXVA. amap 2 m pt u = (if vpn u = vpn a then PA2PTE pa OR perm OR PTE_V else aspace t pt u)"
      using store_walked [OF d(5) look a] by blast
    let ?t = "t\<lparr>phys := m\<rparr>"
    have dj: "pt_pages 2 (phys t) pt \<inter> set ys = {}"
      using grown_env(1) [OF g env] by (simp add: pt_env_def)
    have "grown t pt ys ?t [] ys"
      unfolding grown_def
    proof (intro conjI allI impI)
      show "free_pages ?t ys"
        by (rule free_pages_cong [OF d(3)]) (use m(4) dj in auto)
    qed (use m in auto)
    then have "grown s pt xs ?t zs ys" using grown_trans [OF g] by fastforce
    moreover have "mappages_body pt lst perm (a, pa) s e =
        Ok (if a = lst then Inr 0 else Inl (a + PGSIZE, pa + PGSIZE)) ?t e"
      using w(1) Some load m(1) free by (simp add: mappages_body_def bind_def seq_def am)
    moreover have "aspace ?t pt v = mapped a pa 1 perm (aspace s pt) v" if "v < MAXVA" for v
      using m(5) that am by (auto simp: aspace_def mapped_def)
    ultimately show ?thesis
      using d(2) by (intro exI [of _ ?t] exI [of _ zs] exI [of _ ys]) blast
  qed
qed

lemma vpn_next:
  assumes "unat a + 4096 \<le> 2 ^ 38"
  shows "vpn (a + PGSIZE) = Suc (vpn a)" and "unat (a + PGSIZE) = unat a + 4096"
proof -
  show u: "unat (a + PGSIZE) = unat a + 4096"
    using assms by (intro unat_add_PGSIZE) simp
  then show "vpn (a + PGSIZE) = Suc (vpn a)" by (simp add: vpn_def)
qed

lemma mapped_Suc:
  assumes "vpn (a + PGSIZE) = Suc (vpn a)"
  shows "mapped a pa (Suc n) perm A v = mapped (a + PGSIZE) (pa + PGSIZE) n perm (mapped a pa 1 perm A) v"
proof (cases "vpn v \<le> vpn a")
  case True
  then show ?thesis by (auto simp: mapped_def assms)
next
  case False
  then obtain k where k: "vpn v = Suc (vpn a) + k" using less_imp_Suc_add by fastforce
  then have "pa + of_nat (vpn v - vpn a) * PGSIZE = pa + PGSIZE + of_nat k * PGSIZE"
    by (simp add: algebra_simps)
  with k show ?thesis by (simp add: mapped_def assms add.assoc)
qed

text \<open>
  \<open>maps n\<close>: the outcome of mapping \<open>n\<close> pages. All of them are mapped, or the first \<open>j\<close> and then
  there was no page left for a table.
\<close>

definition maps :: "nat \<Rightarrow> addr \<Rightarrow> uint64 \<Rightarrow> uint64 \<Rightarrow> uint64 \<Rightarrow> kernel \<Rightarrow> addr list \<Rightarrow> cint \<Rightarrow> kernel \<Rightarrow>
    addr list \<Rightarrow> addr list \<Rightarrow> bool" where
  "maps n pt va pa perm s xs r t zs ys \<longleftrightarrow> grown s pt xs t zs ys \<and> length zs \<le> 2 * n \<and>
     (\<exists>j \<le> n. (\<forall>v < MAXVA. aspace t pt v = mapped va pa j perm (aspace s pt) v) \<and>
       (if r = 0 then j = n else r = -1 \<and> j < n \<and> ys = [] \<and> length zs < 2 * n))"

lemma maps_fail:
  assumes "grown s pt xs t zs []" and "length zs < 2" and "\<forall>v < MAXVA. aspace t pt v = aspace s pt v"
  shows "maps (Suc k) pt a pa perm s xs (-1) t zs []"
  unfolding maps_def
proof (intro conjI exI [of _ 0])
  show "\<forall>v<MAXVA. aspace t pt v = mapped a pa 0 perm (aspace s pt) v"
    using assms(3) by (auto simp: mapped_def)
qed (use assms in auto)

lemma maps_one:
  assumes "grown s pt xs t zs ys" and "length zs \<le> 2"
    and "\<forall>v < MAXVA. aspace t pt v = mapped a pa 1 perm (aspace s pt) v"
  shows "maps 1 pt a pa perm s xs 0 t zs ys"
  unfolding maps_def
proof (intro conjI exI [of _ 1])
  show "\<forall>v<MAXVA. aspace t pt v = mapped a pa 1 perm (aspace s pt) v" by (rule assms(3))
qed (use assms in auto)

lemma maps_step:
  assumes m: "maps 1 pt a pa perm s xs 0 t zs ys"
    and ms: "maps k pt (a + PGSIZE) (pa + PGSIZE) perm t ys r u zs' ys'"
    and nx: "vpn (a + PGSIZE) = Suc (vpn a)"
  shows "maps (Suc k) pt a pa perm s xs r u (zs @ zs') ys'"
proof -
  have m1: "grown s pt xs t zs ys" "length zs \<le> 2"
    "\<forall>v < MAXVA. aspace t pt v = mapped a pa 1 perm (aspace s pt) v"
    using m by (auto simp: maps_def)
  obtain j where j: "j \<le> k"
    "\<forall>v < MAXVA. aspace u pt v = mapped (a + PGSIZE) (pa + PGSIZE) j perm (aspace t pt) v"
    "if r = 0 then j = k else r = -1 \<and> j < k \<and> ys' = [] \<and> length zs' < 2 * k"
    and g: "grown t pt ys u zs' ys'" and len: "length zs' \<le> 2 * k"
    using ms unfolding maps_def by blast
  have am: "\<forall>v < MAXVA. aspace u pt v = mapped a pa (Suc j) perm (aspace s pt) v"
  proof (intro allI impI)
    fix v assume v: "v < MAXVA"
    have "aspace u pt v = mapped (a + PGSIZE) (pa + PGSIZE) j perm (aspace t pt) v" using j(2) v by blast
    also have "\<dots> = mapped (a + PGSIZE) (pa + PGSIZE) j perm (mapped a pa 1 perm (aspace s pt)) v"
      using m1(3) v unfolding mapped_def by simp
    also have "\<dots> = mapped a pa (Suc j) perm (aspace s pt) v" by (rule mapped_Suc [OF nx, symmetric])
    finally show "aspace u pt v = mapped a pa (Suc j) perm (aspace s pt) v" .
  qed
  show ?thesis
    unfolding maps_def
  proof (intro conjI exI [of _ "Suc j"])
    show "grown s pt xs u (zs @ zs') ys'" by (rule grown_trans [OF m1(1) g])
    show "length (zs @ zs') \<le> 2 * Suc k" "Suc j \<le> Suc k" using m1(2) len j(1) by simp_all
    show "if r = 0 then Suc j = Suc k
        else r = -1 \<and> Suc j < Suc k \<and> ys' = [] \<and> length (zs @ zs') < 2 * Suc k"
      using j(3) m1(2) by (simp split: if_splits)
  qed (rule am)
qed

lemma mappages_loop:
  assumes "pt_env s pt xs" and "unat a + Suc k * 4096 \<le> 2 ^ 38"
    and "lst = a + of_nat k * PGSIZE"
    and "\<And>v. v < MAXVA \<Longrightarrow> vpn a \<le> vpn v \<Longrightarrow> vpn v < vpn a + Suc k \<Longrightarrow> aspace s pt v AND PTE_V = 0"
  shows "\<exists>r t zs ys. loopK (mappages_body pt lst perm) (a, pa) s e = Ok r t e \<and>
    maps (Suc k) pt a pa perm s xs r t zs ys"
  using assms
proof (induction k arbitrary: a pa s xs)
  case (0 a pa s xs)
  have a: "a < MAXVA" using 0(2) by (simp add: word_less_nat_alt unat_MAXVA)
  then have "aspace s pt a AND PTE_V = 0" using 0(4) by simp
  from mappages_body_run [OF 0(1) a this, of lst perm pa e]
  obtain t zs ys where g: "grown s pt xs t zs ys" "length zs \<le> 2"
    and "mappages_body pt lst perm (a, pa) s e = Ok (Inr (-1)) t e \<and> ys = [] \<and> length zs < 2 \<and>
       (\<forall>v < MAXVA. aspace t pt v = aspace s pt v) \<or>
     mappages_body pt lst perm (a, pa) s e = Ok (if a = lst then Inr 0 else Inl (a + PGSIZE, pa + PGSIZE)) t e \<and>
       (\<forall>v < MAXVA. aspace t pt v = mapped a pa 1 perm (aspace s pt) v)" by blast
  then consider (fail) "mappages_body pt lst perm (a, pa) s e = Ok (Inr (-1)) t e" "ys = []" "length zs < 2"
      "\<forall>v < MAXVA. aspace t pt v = aspace s pt v"
    | (go) "mappages_body pt lst perm (a, pa) s e = Ok (if a = lst then Inr 0 else Inl (a + PGSIZE, pa + PGSIZE)) t e"
      "\<forall>v < MAXVA. aspace t pt v = mapped a pa 1 perm (aspace s pt) v" by blast
  then show ?case
  proof cases
    case fail
    with maps_fail g(1) have "maps (Suc 0) pt a pa perm s xs (-1) t zs ys" by simp
    moreover from fail(1) have "loopK (mappages_body pt lst perm) (a, pa) s e = Ok (-1) t e"
      by (rule loopK_done)
    ultimately show ?thesis by blast
  next
    case go
    have "a = lst" using 0(3) by simp
    with go(1) have "loopK (mappages_body pt lst perm) (a, pa) s e = Ok 0 t e"
      by (intro loopK_done) simp
    moreover have "maps (Suc 0) pt a pa perm s xs 0 t zs ys" using maps_one [OF g go(2)] by simp
    ultimately show ?thesis by blast
  qed
next
  case (Suc k a pa s xs)
  have a: "a < MAXVA" using Suc.prems(2) by (simp add: word_less_nat_alt unat_MAXVA)
  have "unat a + 4096 \<le> 2 ^ 38" using Suc.prems(2) by simp
  note nx = vpn_next [OF this]
  have ne: "a \<noteq> lst"
  proof
    assume "a = lst"
    then have "unat (of_nat (Suc k) * PGSIZE) = 0" using Suc.prems(3) by simp
    moreover have "Suc k * 4096 < 2 ^ 64" using Suc.prems(2) by simp
    then have "unat (of_nat (Suc k) * PGSIZE) = Suc k * 4096"
      by (simp only: unat_word_ariths unat_of_nat unat_PGSIZE) (simp add: mod_mult_left_eq)
    ultimately show False by simp
  qed
  have "aspace s pt a AND PTE_V = 0" using Suc.prems(4) a by simp
  from mappages_body_run [OF Suc.prems(1) a this, of lst perm pa e]
  obtain t zs ys where g: "grown s pt xs t zs ys" "length zs \<le> 2"
    and "mappages_body pt lst perm (a, pa) s e = Ok (Inr (-1)) t e \<and> ys = [] \<and> length zs < 2 \<and>
       (\<forall>v < MAXVA. aspace t pt v = aspace s pt v) \<or>
     mappages_body pt lst perm (a, pa) s e = Ok (if a = lst then Inr 0 else Inl (a + PGSIZE, pa + PGSIZE)) t e \<and>
       (\<forall>v < MAXVA. aspace t pt v = mapped a pa 1 perm (aspace s pt) v)" by blast
  then consider (fail) "mappages_body pt lst perm (a, pa) s e = Ok (Inr (-1)) t e" "ys = []" "length zs < 2"
      "\<forall>v < MAXVA. aspace t pt v = aspace s pt v"
    | (go) "mappages_body pt lst perm (a, pa) s e = Ok (if a = lst then Inr 0 else Inl (a + PGSIZE, pa + PGSIZE)) t e"
      "\<forall>v < MAXVA. aspace t pt v = mapped a pa 1 perm (aspace s pt) v" by blast
  then show ?case
  proof cases
    case fail
    with maps_fail g(1) have "maps (Suc (Suc k)) pt a pa perm s xs (-1) t zs ys" by simp
    moreover from fail(1) have "loopK (mappages_body pt lst perm) (a, pa) s e = Ok (-1) t e"
      by (rule loopK_done)
    ultimately show ?thesis by blast
  next
    case go
    from go(1) ne have step: "loopK (mappages_body pt lst perm) (a, pa) s e =
        loopK (mappages_body pt lst perm) (a + PGSIZE, pa + PGSIZE) t e"
      by (intro loopK_step) simp
    have "\<exists>r u zs' ys'. loopK (mappages_body pt lst perm) (a + PGSIZE, pa + PGSIZE) t e = Ok r u e \<and>
        maps (Suc k) pt (a + PGSIZE) (pa + PGSIZE) perm t ys r u zs' ys'"
    proof (rule Suc.IH [OF grown_env(1) [OF g(1) Suc.prems(1)]])
      show "lst = a + PGSIZE + of_nat k * PGSIZE"
        using Suc.prems(3) by (simp add: algebra_simps)
      show "aspace t pt v AND PTE_V = 0"
        if "v < MAXVA" "vpn (a + PGSIZE) \<le> vpn v" "vpn v < vpn (a + PGSIZE) + Suc k" for v
        using that Suc.prems(4) [of v] go(2) nx(1) by (simp add: mapped_def)
    qed (use Suc.prems(2) nx(2) in simp)
    then show ?thesis
      unfolding step using maps_step [OF maps_one [OF g go(2)] _ nx(1)] by blast
  qed
qed

lemma mappages_run:
  assumes "pt_env s pt xs" and "va mod PGSIZE = 0" and "0 < n" and "unat va + n * 4096 \<le> 2 ^ 38"
    and "\<And>v. v < MAXVA \<Longrightarrow> vpn va \<le> vpn v \<Longrightarrow> vpn v < vpn va + n \<Longrightarrow> aspace s pt v AND PTE_V = 0"
  shows "\<exists>r t zs ys. mappages pt va (of_nat n * PGSIZE) pa perm s e = Ok r t e \<and>
    maps n pt va pa perm s xs r t zs ys"
proof -
  obtain k where n: "n = Suc k" using assms(3) gr0_conv_Suc by blast
  have sz: "unat (of_nat n * PGSIZE) = n * 4096"
  proof -
    have "n * 4096 < 2 ^ 64" using assms(4) by simp
    then show ?thesis
      by (simp only: unat_word_ariths unat_of_nat unat_PGSIZE) (simp add: mod_mult_left_eq)
  qed
  have "of_nat n * PGSIZE mod PGSIZE = 0" by (simp only: page_aligned_iff sz) simp
  moreover have "of_nat n * PGSIZE \<noteq> 0" using sz assms(3) by (metis mult_is_0 neq0_conv unat_0 zero_neq_numeral)
  moreover have "va + of_nat n * PGSIZE - PGSIZE = va + of_nat k * PGSIZE"
    by (simp add: n ring_distribs)
  then have "\<exists>r t zs ys. loopK (mappages_body pt (va + of_nat n * PGSIZE - PGSIZE) perm) (va, pa) s e =
      Ok r t e \<and> maps n pt va pa perm s xs r t zs ys"
    unfolding n by (rule mappages_loop [OF assms(1,4) [unfolded n]]) (use assms(5) n in auto)
  ultimately show ?thesis
    using assms(2) by (simp add: mappages_def seq_def)
qed

end
