(* ===== verification/UserMem.thy ===== *)
theory UserMem
  imports PageTable
begin

text \<open>
  A process's memory as its bytes. \<open>user_byte s pt va\<close> is the byte a user program sees at virtual
  address \<open>va\<close> through page table \<open>pt\<close>. \<^verbatim>\<open>copyin\<close>, \<^verbatim>\<open>copyout\<close> and \<^verbatim>\<open>copyinstr\<close> are specified on
  it: what they transfer, when they fail, and that nothing else changes.
\<close>

lemma unat_add_nat: "unat va + i < 2 ^ 64 \<Longrightarrow> unat (va + of_nat i :: uint64) = unat va + i"
  by (simp add: unat_word_ariths unat_of_nat)

lemma unat_eq_word: "unat (x :: uint64) = n \<Longrightarrow> x = of_nat n"
  by auto

lemma unat_sub_nat:
  assumes "n \<le> unat (len :: uint64)"
  shows "unat (len - of_nat n) = unat len - n"
proof -
  have "unat len < 2 ^ 64" using unsigned_less [of len] by simp
  with assms have "n < 2 ^ 64" by simp
  then have "unat (of_nat n :: uint64) = n" by (simp add: unat_of_nat)
  with assms show ?thesis by (simp add: unat_sub_if')
qed

lemma all_less_shift:
  fixes n N :: nat
  assumes "\<And>i. i < n \<Longrightarrow> P i" and "n \<le> N"
  shows "(\<forall>i < N. P i) \<longleftrightarrow> (\<forall>i < N - n. P (n + i))"
proof
  assume r: "\<forall>i < N - n. P (n + i)"
  show "\<forall>i < N. P i"
  proof (intro allI impI)
    fix i assume "i < N"
    show "P i"
    proof (cases "i < n")
      case False
      then have "i = n + (i - n)" "i - n < N - n" using \<open>i < N\<close> by auto
      with r show ?thesis by metis
    qed (rule assms(1))
  qed
qed auto

section \<open>The memory a user program sees\<close>

definition user_pa :: "kernel \<Rightarrow> addr \<Rightarrow> uint64 \<Rightarrow> addr option" where
  "user_pa s pt va = (let pte = aspace s pt va in
     if va < MAXVA \<and> pte AND PTE_V \<noteq> 0 \<and> pte AND PTE_U \<noteq> 0 then Some (PTE2PA pte) else None)"

definition user_byte :: "kernel \<Rightarrow> addr \<Rightarrow> uint64 \<Rightarrow> uchar option" where
  "user_byte s pt va = (case user_pa s pt va of None \<Rightarrow> None
     | Some pa \<Rightarrow> map_option (\<lambda>f. f (unat va mod 4096)) (bytes_at (phys s) pa))"

definition user_writable :: "kernel \<Rightarrow> addr \<Rightarrow> uint64 \<Rightarrow> bool" where
  "user_writable s pt va \<longleftrightarrow> user_pa s pt va \<noteq> None \<and> aspace s pt va AND PTE_W \<noteq> 0"

text \<open>
  A user address space in order: a tree of page tables whose user pages hold bytes, are no
  page-table pages, and are mapped once.
\<close>

definition user_ok :: "kernel \<Rightarrow> addr \<Rightarrow> bool" where
  "user_ok s pt \<longleftrightarrow> pt_ok 2 (phys s) pt \<and>
     (\<forall>va pa. user_pa s pt va = Some pa \<longrightarrow> bytes_at (phys s) pa \<noteq> None \<and>
        pa \<notin> pt_pages 2 (phys s) pt \<and> (\<forall>vb. user_pa s pt vb = Some pa \<longrightarrow> vpn vb = vpn va))"

lemma aspace_page:
  assumes "vpn va = vpn vb" and "va < MAXVA"
  shows "aspace s pt va = aspace s pt vb"
proof -
  have "vb < MAXVA"
  proof -
    have "unat vb div 4096 < 2 ^ 26" using vpn_bound [OF assms(2)] assms(1) by (simp add: vpn_def)
    then have "unat vb < 2 ^ 38" by (simp add: div_less_iff_less_mult)
    then show ?thesis by (simp add: word_less_nat_alt unat_MAXVA)
  qed
  then have "same_ix 2 va vb" using same_ix_vpn assms by simp
  from pt_look_same [OF this] show ?thesis by (simp add: aspace_def amap_def)
qed

lemma MAXVA_page: "vpn va = vpn vb \<Longrightarrow> va < MAXVA \<longleftrightarrow> vb < MAXVA"
proof -
  have "v < MAXVA \<longleftrightarrow> vpn v < 2 ^ 26" for v
    by (simp add: word_less_nat_alt unat_MAXVA vpn_def div_less_iff_less_mult)
  then show "vpn va = vpn vb \<Longrightarrow> va < MAXVA \<longleftrightarrow> vb < MAXVA" by simp
qed

lemma user_pa_page: "vpn va = vpn vb \<Longrightarrow> user_pa s pt va = user_pa s pt vb"
  using MAXVA_page [of va vb] aspace_page [of va vb s pt] by (auto simp: user_pa_def Let_def)

lemma user_writable_page: "vpn va = vpn vb \<Longrightarrow> user_writable s pt va = user_writable s pt vb"
  using user_pa_page [of va vb s pt] aspace_page [of va vb s pt]
  by (auto simp: user_writable_def user_pa_def Let_def split: if_splits)

lemma unat_page_parts:
  "unat (PGROUNDDOWN va) = vpn va * 4096" "unat (va - PGROUNDDOWN va) = unat va mod 4096"
  "unat (PGSIZE - (va - PGROUNDDOWN va)) = 4096 - unat va mod 4096"
proof -
  show d: "unat (PGROUNDDOWN va) = vpn va * 4096" by (simp add: unat_PGROUNDDOWN vpn_def)
  then have "PGROUNDDOWN va \<le> va" by (simp add: word_le_nat_alt vpn_def)
  then have "unat (va - PGROUNDDOWN va) = unat va - vpn va * 4096"
    using d by (simp add: unat_sub_if' word_le_nat_alt)
  also have "\<dots> = unat va mod 4096" by (simp add: vpn_def minus_div_mult_eq_mod)
  finally show m: "unat (va - PGROUNDDOWN va) = unat va mod 4096" .
  then have "va - PGROUNDDOWN va \<le> PGSIZE" by (simp add: word_le_nat_alt less_imp_le)
  then show "unat (PGSIZE - (va - PGROUNDDOWN va)) = 4096 - unat va mod 4096"
    using m by (simp add: unat_sub_if' word_le_nat_alt)
qed

lemma vpn_PGROUNDDOWN [simp]: "vpn (PGROUNDDOWN va) = vpn va"
  by (simp add: vpn_def [of "PGROUNDDOWN va"] unat_page_parts)

lemma walkaddr_run:
  assumes "pt_ok 2 (phys s) pt"
  shows "walkaddr pt va s e = Ok (case user_pa s pt va of None \<Rightarrow> 0 | Some pa \<Rightarrow> pa) s e"
proof (cases "va < MAXVA")
  case False
  then have "user_pa s pt va = None" by (simp add: user_pa_def Let_def)
  with False show ?thesis by (simp add: walkaddr_def linorder_not_less)
next
  case True
  then have lt: "\<not> MAXVA \<le> va" by (simp add: linorder_not_le)
  show ?thesis
  proof (cases "pt_look 2 (phys s) pt va")
    case None
    then have "aspace s pt va = 0" by (simp add: aspace_def amap_def)
    with None lt show ?thesis
      by (simp add: walkaddr_def bind_def walk_ro [OF assms] user_pa_def)
  next
    case (Some p)
    from load_walked [OF assms Some, of e] Some lt True show ?thesis
      by (simp add: walkaddr_def bind_def walk_ro [OF assms] user_pa_def Let_def)
  qed
qed

section \<open>Changing bytes of user pages\<close>

lemma user_okD:
  assumes "user_ok s pt" and "user_pa s pt va = Some pa"
  shows "\<exists>f. bytes_at (phys s) pa = Some f" and "pa \<notin> pt_pages 2 (phys s) pt"
    and "user_pa s pt vb = Some pa \<Longrightarrow> vpn vb = vpn va" and "pa \<noteq> 0"
proof -
  show f: "\<exists>f. bytes_at (phys s) pa = Some f" using assms unfolding user_ok_def by blast
  then show "pa \<noteq> 0" by (auto simp: bytes_at_def split: if_splits)
  show "pa \<notin> pt_pages 2 (phys s) pt" using assms unfolding user_ok_def by blast
  show "user_pa s pt vb = Some pa \<Longrightarrow> vpn vb = vpn va" using assms unfolding user_ok_def by blast
qed

text \<open>Writing bytes to the page of \<open>va\<close>.\<close>

lemma write_user_page:
  fixes off :: nat and bs :: "uchar list"
  assumes ok: "user_ok s pt" and pa: "user_pa s pt va = Some pa"
    and f: "bytes_at (phys s) pa = Some f"
  defines "t \<equiv> set_page pa (PgBytes (put_bytes off bs f)) s"
  shows "aspace t pt v = aspace s pt v" and "user_ok t pt" and "user_pa t pt v = user_pa s pt v"
    and "user_byte t pt v = (if vpn v = vpn va \<and> off \<le> unat v mod 4096 \<and> unat v mod 4096 < off + length bs
           then Some (bs ! (unat v mod 4096 - off)) else user_byte s pt v)"
    and "pt_pages 2 (phys t) pt = pt_pages 2 (phys s) pt"
proof -
  note nt = user_okD(2) [OF ok pa] and uq = user_okD(3) [OF ok pa] and pa0 = user_okD(4) [OF ok pa]
  have pt: "pt_ok 2 (phys s) pt" using ok by (simp add: user_ok_def)
  have same: "phys t p = phys s p" if "p \<in> pt_pages 2 (phys s) pt" for p
    using that nt by (auto simp: t_def)
  show asp: "aspace t pt v = aspace s pt v" for v
    unfolding aspace_def by (rule amap_frame [OF pt same])
  show upa: "user_pa t pt v = user_pa s pt v" for v by (simp add: user_pa_def asp)
  have bt: "bytes_at (phys t) q = (if q = pa then Some (put_bytes off bs f) else bytes_at (phys s) q)" for q
    using pa0 by (simp add: t_def bytes_at_def as_bytes_def)
  show pages: "pt_pages 2 (phys t) pt = pt_pages 2 (phys s) pt" by (rule pt_frame(1) [OF same])
  show "user_ok t pt"
    unfolding user_ok_def upa pages
  proof (intro conjI allI impI)
    show "pt_ok 2 (phys t) pt" using pt_frame(2) [OF same] pt by simp
    fix w q assume q: "user_pa s pt w = Some q"
    show "bytes_at (phys t) q \<noteq> None" using user_okD(1) [OF ok q] by (simp add: bt)
    show "q \<notin> pt_pages 2 (phys s) pt" by (rule user_okD(2) [OF ok q])
    show "vpn x = vpn w" if "user_pa s pt x = Some q" for x by (rule user_okD(3) [OF ok q that])
  qed
  show "user_byte t pt v = (if vpn v = vpn va \<and> off \<le> unat v mod 4096 \<and> unat v mod 4096 < off + length bs
           then Some (bs ! (unat v mod 4096 - off)) else user_byte s pt v)"
  proof (cases "user_pa s pt v = Some pa")
    case True
    then show ?thesis using uq [OF True] f by (simp add: user_byte_def upa bt put_bytes_def)
  next
    case False
    then have "vpn v \<noteq> vpn va" using user_pa_page pa by metis
    with False show ?thesis by (auto simp: user_byte_def upa bt split: option.split)
  qed
qed

section \<open>copyout\<close>

text \<open>
  \<open>wrote dst bs s t\<close>: user memory of \<open>t\<close> is that of \<open>s\<close> with the bytes \<open>bs\<close> from address \<open>dst\<close>.
\<close>

definition wrote :: "addr \<Rightarrow> nat \<Rightarrow> uchar list \<Rightarrow> kernel \<Rightarrow> kernel \<Rightarrow> bool" where
  "wrote pt dst bs s t \<longleftrightarrow> t = s\<lparr>phys := phys t\<rparr> \<and> user_ok t pt \<and>
     pt_pages 2 (phys t) pt = pt_pages 2 (phys s) pt \<and>
     (\<forall>v. aspace t pt v = aspace s pt v) \<and>
     (\<forall>a. phys t a = phys s a \<or> (\<exists>v. user_pa s pt v = Some a)) \<and>
     (\<forall>v. user_byte t pt v = (if dst \<le> unat v \<and> unat v < dst + length bs
        then Some (bs ! (unat v - dst)) else user_byte s pt v))"

lemma wrote_refl: "user_ok s pt \<Longrightarrow> wrote pt dst [] s s"
  by (auto simp: wrote_def)

lemma wrote_trans:
  assumes "wrote pt dst bs s t" and "wrote pt (dst + length bs) cs t u"
  shows "wrote pt dst (bs @ cs) s u"
proof -
  have pa: "user_pa t pt v = user_pa s pt v" for v using assms(1) by (simp add: wrote_def user_pa_def)
  have "u = s\<lparr>phys := phys u\<rparr>"
  proof -
    have "u = t\<lparr>phys := phys u\<rparr>" using assms(2) by (simp add: wrote_def)
    also have "t = s\<lparr>phys := phys t\<rparr>" using assms(1) by (simp add: wrote_def)
    finally show ?thesis by simp
  qed
  moreover have "user_byte u pt v = (if dst \<le> unat v \<and> unat v < dst + length (bs @ cs)
        then Some ((bs @ cs) ! (unat v - dst)) else user_byte s pt v)" for v
  proof -
    have "user_byte u pt v = (if dst + length bs \<le> unat v \<and> unat v < dst + length bs + length cs
        then Some (cs ! (unat v - (dst + length bs))) else user_byte t pt v)"
      using assms(2) by (simp add: wrote_def)
    moreover have "user_byte t pt v = (if dst \<le> unat v \<and> unat v < dst + length bs
        then Some (bs ! (unat v - dst)) else user_byte s pt v)"
      using assms(1) by (simp add: wrote_def)
    ultimately show ?thesis by (auto simp: nth_append diff_diff_left less_diff_conv2)
  qed
  moreover have "\<forall>a. phys u a = phys s a \<or> (\<exists>v. user_pa s pt v = Some a)"
    using assms pa unfolding wrote_def by metis
  ultimately show ?thesis
    using assms unfolding wrote_def by auto
qed

text \<open>What one round of the loop does.\<close>

lemma copyout_body_fail:
  assumes "pt_ok 2 (phys s) pt" and "src \<noteq> []" and "\<not> user_writable s pt dst"
  shows "copyout_body pt (dst, src) s e = Ok (Inr (-1)) s e"
proof -
  let ?a = "PGROUNDDOWN dst"
  have nw: "\<not> user_writable s pt ?a"
    using assms(3) user_writable_page [of ?a dst s pt] by simp
  show ?thesis
  proof (cases "MAXVA \<le> ?a")
    case True
    with assms(2) show ?thesis by (simp add: copyout_body_def)
  next
    case False
    show ?thesis
    proof (cases "pt_look 2 (phys s) pt ?a")
      case None
      with assms(1,2) False show ?thesis by (simp add: copyout_body_def bind_def walk_ro Let_def)
    next
      case (Some p)
      have "aspace s pt ?a AND PTE_V = 0 \<or> aspace s pt ?a AND PTE_U = 0 \<or> aspace s pt ?a AND PTE_W = 0"
        using nw False by (auto simp: user_writable_def user_pa_def Let_def linorder_not_le split: if_splits)
      with load_walked [OF assms(1) Some, of e] assms(1,2) Some False show ?thesis
        by (simp add: copyout_body_def bind_def walk_ro Let_def)
    qed
  qed
qed

definition chunk :: "uint64 \<Rightarrow> nat \<Rightarrow> nat" where
  "chunk va n = min (4096 - unat va mod 4096) n"

lemma chunk_page:
  assumes "unat va \<le> unat v" and "unat v < unat va + chunk va n"
  shows "vpn v = vpn va"
proof -
  have "unat v div 4096 = (unat va div 4096 * 4096 + (unat va mod 4096 + (unat v - unat va))) div 4096"
    using assms(1) by simp
  also have "\<dots> = unat va div 4096"
    using assms by (subst div_mult_self3) (auto simp: chunk_def)
  finally show ?thesis by (simp add: vpn_def)
qed

lemma page_chunk:
  "vpn v = vpn va \<and> unat va mod 4096 \<le> unat v mod 4096 \<and> unat v mod 4096 < unat va mod 4096 + chunk va n
     \<longleftrightarrow> unat va \<le> unat v \<and> unat v < unat va + chunk va n"
proof
  assume l: "vpn v = vpn va \<and> unat va mod 4096 \<le> unat v mod 4096 \<and>
    unat v mod 4096 < unat va mod 4096 + chunk va n"
  then have "unat v div 4096 = unat va div 4096" by (simp add: vpn_def)
  with l show "unat va \<le> unat v \<and> unat v < unat va + chunk va n"
    using div_mult_mod_eq [of "unat v" 4096] div_mult_mod_eq [of "unat va" 4096] by linarith
next
  assume r: "unat va \<le> unat v \<and> unat v < unat va + chunk va n"
  then have "vpn v = vpn va" using chunk_page by blast
  then have "unat v div 4096 = unat va div 4096" by (simp add: vpn_def)
  with r \<open>vpn v = vpn va\<close> show "vpn v = vpn va \<and> unat va mod 4096 \<le> unat v mod 4096 \<and>
    unat v mod 4096 < unat va mod 4096 + chunk va n"
    using div_mult_mod_eq [of "unat v" 4096] div_mult_mod_eq [of "unat va" 4096] by linarith
qed

lemma copyout_body_go:
  assumes ok: "user_ok s pt" and src: "src \<noteq> []" and wr: "user_writable s pt dst"
  shows "\<exists>t. copyout_body pt (dst, src) s e =
      Ok (Inl (PGROUNDDOWN dst + PGSIZE, drop (chunk dst (length src)) src)) t e \<and>
    wrote pt (unat dst) (take (chunk dst (length src)) src) s t"
proof -
  let ?a = "PGROUNDDOWN dst" and ?n = "chunk dst (length src)"
  have pt: "pt_ok 2 (phys s) pt" using ok by (simp add: user_ok_def)
  have wa: "user_writable s pt ?a" using wr user_writable_page [of ?a dst s pt] by simp
  then obtain pa where pa: "user_pa s pt ?a = Some pa" by (auto simp: user_writable_def)
  then have lt: "\<not> MAXVA \<le> ?a" and pte: "aspace s pt ?a AND PTE_V \<noteq> 0" "aspace s pt ?a AND PTE_U \<noteq> 0"
      "PTE2PA (aspace s pt ?a) = pa"
    by (auto simp: user_pa_def Let_def linorder_not_le split: if_splits)
  have w: "aspace s pt ?a AND PTE_W \<noteq> 0" using wa by (simp add: user_writable_def)
  obtain p where p: "pt_look 2 (phys s) pt ?a = Some p"
    using pte(1) by (cases "pt_look 2 (phys s) pt ?a") (auto simp: aspace_def amap_def)
  obtain f where f: "bytes_at (phys s) pa = Some f" using user_okD(1) [OF ok pa] by blast
  let ?bs = "take ?n src" and ?off = "unat dst mod 4096"
  let ?t = "set_page pa (PgBytes (put_bytes ?off ?bs f)) s"
  note wp = write_user_page [OF ok pa f, of ?off ?bs]
  have "copyout_body pt (dst, src) s e = Ok (Inl (?a + PGSIZE, drop ?n src)) ?t e"
    using src lt p pte w f load_walked [OF pt p, of e]
    by (simp add: copyout_body_def bind_def seq_def walk_ro [OF pt] write_page_def Let_def
        unat_page_parts chunk_def)
  moreover have "wrote pt (unat dst) ?bs s ?t"
    unfolding wrote_def
  proof (intro conjI allI)
    fix v
    have len: "length ?bs = ?n" by (simp add: chunk_def)
    have "unat v mod 4096 - ?off = unat v - unat dst" if "vpn v = vpn dst" "?off \<le> unat v mod 4096"
      using that div_mult_mod_eq [of "unat v" 4096] div_mult_mod_eq [of "unat dst" 4096]
      unfolding vpn_def by linarith
    then show "user_byte ?t pt v = (if unat dst \<le> unat v \<and> unat v < unat dst + length ?bs
        then Some (?bs ! (unat v - unat dst)) else user_byte s pt v)"
      unfolding wp(4) len vpn_PGROUNDDOWN page_chunk using page_chunk [of v dst "length src"] by auto
    show "aspace ?t pt v = aspace s pt v" by (rule wp(1))
  next
    fix a
    show "phys ?t a = phys s a \<or> (\<exists>v. user_pa s pt v = Some a)" using pa by auto
  qed (use wp(2,5) in auto)
  ultimately show ?thesis by blast
qed

text \<open>
  The whole loop: it writes all of \<open>src\<close> and returns 0, or it stops with -1 at a page that is not
  writable.
\<close>

lemma copyout_loop:
  assumes "user_ok s pt" and "unat dst + length src < 2 ^ 64"
  shows "\<exists>r t k. loopK (copyout_body pt) (dst, src) s e = Ok r t e \<and> wrote pt (unat dst) (take k src) s t \<and>
    (if \<forall>i < length src. user_writable s pt (dst + of_nat i) then r = 0 \<and> k = length src
     else r = -1 \<and> k < length src)"
  using assms
proof (induction "length src" arbitrary: dst src s rule: less_induct)
  case less
  show ?case
  proof (cases "src = []")
    case True
    then have "loopK (copyout_body pt) (dst, src) s e = Ok 0 s e"
      by (intro loopK_done) (simp add: copyout_body_def)
    with True wrote_refl [OF less.prems(1)] show ?thesis by (auto intro!: exI [of _ 0])
  next
    case ne: False
    show ?thesis
    proof (cases "user_writable s pt dst")
      case False
      have "copyout_body pt (dst, src) s e = Ok (Inr (-1)) s e"
        using less.prems(1) ne False by (intro copyout_body_fail) (auto simp: user_ok_def)
      then have "loopK (copyout_body pt) (dst, src) s e = Ok (-1) s e" by (rule loopK_done)
      moreover have "\<not> (\<forall>i < length src. user_writable s pt (dst + of_nat i))"
        using ne False by (auto intro!: exI [of _ 0])
      ultimately show ?thesis
        using ne wrote_refl [OF less.prems(1)] by (auto intro!: exI [of _ 0])
    next
      case True
      let ?n = "chunk dst (length src)" and ?d = "PGROUNDDOWN dst + PGSIZE"
      obtain t where t: "copyout_body pt (dst, src) s e = Ok (Inl (?d, drop ?n src)) t e"
        "wrote pt (unat dst) (take ?n src) s t"
        using copyout_body_go [OF less.prems(1) ne True] by blast
      from t(1) have step: "loopK (copyout_body pt) (dst, src) s e =
          loopK (copyout_body pt) (?d, drop ?n src) t e" by (rule loopK_step)
      have n: "0 < ?n" "?n \<le> length src" using ne by (auto simp: chunk_def)
      have wt: "user_writable t pt v = user_writable s pt v" for v
        using t(2) by (simp add: wrote_def user_writable_def user_pa_def)
      have head: "user_writable s pt (dst + of_nat i)" if "i < ?n" for i
      proof -
        have "unat (dst + of_nat i) = unat dst + i"
          using that n less.prems(2) by (intro unat_add_nat) simp
        then have "vpn (dst + of_nat i) = vpn dst" using that by (intro chunk_page) auto
        with True show ?thesis using user_writable_page by blast
      qed
      show ?thesis
      proof (cases "?n = length src")
        case True
        have "loopK (copyout_body pt) (dst, src) s e = Ok 0 t e"
        proof -
          have "loopK (copyout_body pt) (?d, []) t e = Ok 0 t e"
            by (intro loopK_done) (simp add: copyout_body_def)
          with step True show ?thesis by simp
        qed
        with t(2) True head show ?thesis by (auto intro!: exI [of _ "length src"])
      next
        case False
        then have full: "?n = 4096 - unat dst mod 4096" by (simp add: chunk_def min_def split: if_splits)
        have "vpn dst < 2 ^ 26"
          using True by (intro vpn_bound) (auto simp: user_writable_def user_pa_def Let_def split: if_splits)
        then have "unat ?d = vpn dst * 4096 + 4096"
          using unat_page_parts(1) [of dst] by (subst unat_add_PGSIZE) auto
        also have "\<dots> = unat dst + ?n"
          using full mod_less_divisor [of 4096 "unat dst"] div_mult_mod_eq [of "unat dst" 4096]
          unfolding vpn_def by linarith
        finally have d: "unat ?d = unat dst + ?n" .
        have "?d = dst + of_nat ?n"
          using d unat_add_nat [of dst ?n] less.prems(2) n by (intro word_unat_eq_iff [THEN iffD2]) simp
        then have dw: "?d + of_nat i = dst + of_nat (?n + i)" for i
          by (simp only: of_nat_add add.assoc)
        have "length (drop ?n src) < length src" using n by simp
        moreover have "user_ok t pt" using t(2) by (simp add: wrote_def)
        moreover have "unat ?d + length (drop ?n src) < 2 ^ 64" using d n less.prems(2) by simp
        ultimately obtain r u k where IH: "loopK (copyout_body pt) (?d, drop ?n src) t e = Ok r u e"
          "wrote pt (unat ?d) (take k (drop ?n src)) t u"
          "if \<forall>i < length (drop ?n src). user_writable t pt (?d + of_nat i)
           then r = 0 \<and> k = length (drop ?n src) else r = -1 \<and> k < length (drop ?n src)"
          using less.hyps by blast
        have "wrote pt (unat dst) (take ?n src @ take k (drop ?n src)) s u"
          using wrote_trans [OF t(2)] IH(2) d n by simp
        then have w: "wrote pt (unat dst) (take (?n + k) src) s u" by (simp add: take_add)
        have all: "(\<forall>i < length src. user_writable s pt (dst + of_nat i)) \<longleftrightarrow>
            (\<forall>i < length (drop ?n src). user_writable t pt (?d + of_nat i))"
          unfolding wt dw length_drop using head n(2) by (rule all_less_shift)
        have "loopK (copyout_body pt) (dst, src) s e = Ok r u e"
          using step IH(1) by simp
        with w all IH(3) n show ?thesis
          by (intro exI [of _ r] exI [of _ u] exI [of _ "?n + k"]) (auto split: if_splits)
      qed
    qed
  qed
qed

section \<open>copyin and copyinstr\<close>

definition ubytes :: "kernel \<Rightarrow> addr \<Rightarrow> uint64 \<Rightarrow> nat \<Rightarrow> uchar list" where
  "ubytes s pt va n = map (\<lambda>i. the (user_byte s pt (va + of_nat i))) [0..<n]"

definition readable :: "kernel \<Rightarrow> addr \<Rightarrow> uint64 \<Rightarrow> nat \<Rightarrow> bool" where
  "readable s pt va n \<longleftrightarrow> (\<forall>i < n. user_byte s pt (va + of_nat i) \<noteq> None)"

lemma length_ubytes [simp]: "length (ubytes s pt va n) = n"
  by (simp add: ubytes_def)

lemma ubytes_0 [simp]: "ubytes s pt va 0 = []"
  by (simp add: ubytes_def)

lemma ubytes_add: "ubytes s pt va (n + k) = ubytes s pt va n @ ubytes s pt (va + of_nat n) k"
  by (rule nth_equalityI) (auto simp: ubytes_def nth_append algebra_simps simp flip: of_nat_add)

lemma readable_add:
  "readable s pt va (n + k) \<longleftrightarrow> readable s pt va n \<and> readable s pt (va + of_nat n) k"
proof -
  have "readable s pt va (n + k) \<longleftrightarrow> readable s pt va n \<and>
      (\<forall>i < n + k - n. user_byte s pt (va + of_nat (n + i)) \<noteq> None)"
    using all_less_shift [of n "\<lambda>i. user_byte s pt (va + of_nat i) \<noteq> None" "n + k"]
    unfolding readable_def by fastforce
  then show ?thesis by (simp add: readable_def add.assoc)
qed

text \<open>Within the page of \<open>va\<close> the bytes come from one physical page.\<close>

lemma read_chunk:
  assumes ok: "user_ok s pt" and pa: "user_pa s pt va = Some pa" and f: "bytes_at (phys s) pa = Some f"
    and b: "unat va + n < 2 ^ 64" and n: "n \<le> 4096 - unat va mod 4096"
  shows "readable s pt va n" and "ubytes s pt va n = map (\<lambda>i. f (unat va mod 4096 + i)) [0..<n]"
proof -
  have "user_byte s pt (va + of_nat i) = Some (f (unat va mod 4096 + i))" if "i < n" for i
  proof -
    have u: "unat (va + of_nat i) = unat va + i" using that b by (intro unat_add_nat) simp
    have "vpn (va + of_nat i) = vpn va"
      using that n u by (intro chunk_page [where n = n]) (auto simp: chunk_def)
    then have "user_pa s pt (va + of_nat i) = Some pa" using user_pa_page pa by metis
    moreover have "(unat va + i) mod 4096 = unat va mod 4096 + i"
    proof -
      have "(unat va + i) mod 4096 = (unat va mod 4096 + i) mod 4096" by (simp add: mod_add_left_eq)
      also have "\<dots> = unat va mod 4096 + i" using that n by (intro mod_less) linarith
      finally show ?thesis .
    qed
    ultimately show ?thesis using u f by (simp add: user_byte_def)
  qed
  then show "readable s pt va n" "ubytes s pt va n = map (\<lambda>i. f (unat va mod 4096 + i)) [0..<n]"
    by (auto simp: readable_def ubytes_def)
qed

lemma unat_chunk:
  "unat (if PGSIZE - (va - PGROUNDDOWN va) > len then len else PGSIZE - (va - PGROUNDDOWN va)) =
     chunk va (unat len)"
  by (auto simp: chunk_def word_less_nat_alt unat_page_parts min_def)

lemma page_end:
  assumes "va < MAXVA" and "n = 4096 - unat va mod 4096"
  shows "PGROUNDDOWN va + PGSIZE = va + of_nat n" and "unat (PGROUNDDOWN va + PGSIZE) = unat va + n"
proof -
  have "vpn va < 2 ^ 26" by (rule vpn_bound [OF assms(1)])
  then have "unat (PGROUNDDOWN va + PGSIZE) = vpn va * 4096 + 4096"
    using unat_page_parts(1) [of va] by (subst unat_add_PGSIZE) auto
  also have "\<dots> = unat va + n"
    using assms(2) mod_less_divisor [of 4096 "unat va"] div_mult_mod_eq [of "unat va" 4096]
    unfolding vpn_def by linarith
  finally show u: "unat (PGROUNDDOWN va + PGSIZE) = unat va + n" .
  have "unat va + n < 2 ^ 64"
    using assms by (auto simp: word_less_nat_alt unat_MAXVA)
  with u show "PGROUNDDOWN va + PGSIZE = va + of_nat n"
    using unat_add_nat [of va n] by (intro word_unat_eq_iff [THEN iffD2]) simp
qed

lemma user_pa_MAXVA: "user_pa s pt va = Some pa \<Longrightarrow> va < MAXVA"
  by (auto simp: user_pa_def Let_def split: if_splits)

lemma user_byte_None: "user_pa s pt va = None \<Longrightarrow> user_byte s pt va = None"
  by (simp add: user_byte_def)

lemma copyin_body_run:
  assumes ok: "user_ok s pt" and len: "0 < len" and b: "unat va + unat len < 2 ^ 64"
  shows "copyin_body pt (va, len, dst) s e = (case user_pa s pt va of
      None \<Rightarrow> Ok (Inr (-1, dst)) s e
    | Some pa \<Rightarrow> let n = chunk va (unat len) in
        Ok (Inl (PGROUNDDOWN va + PGSIZE, len - of_nat n, dst @ ubytes s pt va n)) s e)"
proof -
  have pt: "pt_ok 2 (phys s) pt" using ok by (simp add: user_ok_def)
  have up: "user_pa s pt (PGROUNDDOWN va) = user_pa s pt va" by (rule user_pa_page) simp
  show ?thesis
  proof (cases "user_pa s pt va")
    case None
    with len show ?thesis by (simp add: copyin_body_def bind_def walkaddr_run [OF pt] up Let_def)
  next
    case (Some pa)
    obtain f where f: "bytes_at (phys s) pa = Some f" using user_okD(1) [OF ok Some] by blast
    have pa0: "pa \<noteq> 0" by (rule user_okD(4) [OF ok Some])
    let ?n = "chunk va (unat len)"
    let ?w = "if PGSIZE - (va - PGROUNDDOWN va) > len then len else PGSIZE - (va - PGROUNDDOWN va)"
    have w: "?w = of_nat ?n" by (rule unat_eq_word [OF unat_chunk])
    have "ubytes s pt va ?n = map (\<lambda>i. f (unat va mod 4096 + i)) [0..<?n]"
      using b by (intro read_chunk(2) [OF ok Some f]) (auto simp: chunk_def)
    then show ?thesis
      using len f pa0 Some w unat_chunk [of len va]
      by (simp add: copyin_body_def bind_def walkaddr_run [OF pt] up Let_def read_page_def unat_page_parts
            del: upt.upt_Suc)
  qed
qed

lemma copyin_loop:
  assumes "user_ok s pt" and "unat va + unat len < 2 ^ 64"
  shows "\<exists>r k. loopK (copyin_body pt) (va, len, dst) s e = Ok (r, dst @ ubytes s pt va k) s e \<and>
    (if readable s pt va (unat len) then r = 0 \<and> k = unat len else r = -1 \<and> k < unat len)"
  using assms(2)
proof (induction "unat len" arbitrary: va len dst rule: less_induct)
  case less
  show ?case
  proof (cases "len = 0")
    case True
    then have "loopK (copyin_body pt) (va, len, dst) s e = Ok (0, dst) s e"
      by (intro loopK_done) (simp add: copyin_body_def)
    with True show ?thesis by (auto simp: readable_def intro!: exI [of _ 0])
  next
    case ne: False
    then have pos: "0 < len" by (simp add: word_gt_0)
    show ?thesis
    proof (cases "user_pa s pt va")
      case None
      have "loopK (copyin_body pt) (va, len, dst) s e = Ok (-1, dst) s e"
        using copyin_body_run [OF assms(1) pos less.prems] None by (intro loopK_done) simp
      moreover have "\<not> readable s pt va (unat len)"
        using pos user_byte_None [OF None]
        by (auto simp: readable_def word_less_nat_alt intro!: exI [of _ 0])
      ultimately show ?thesis using pos by (auto simp: word_less_nat_alt intro!: exI [of _ 0])
    next
      case (Some pa)
      let ?n = "chunk va (unat len)" and ?v = "PGROUNDDOWN va + PGSIZE"
      let ?d = "dst @ ubytes s pt va ?n"
      obtain f where f: "bytes_at (phys s) pa = Some f" using user_okD(1) [OF assms(1) Some] by blast
      have step: "loopK (copyin_body pt) (va, len, dst) s e =
          loopK (copyin_body pt) (?v, len - of_nat ?n, ?d) s e"
        using copyin_body_run [OF assms(1) pos less.prems, of dst e] Some
        by (intro loopK_step) (simp add: Let_def)
      have rd: "readable s pt va ?n"
        using less.prems by (intro read_chunk(1) [OF assms(1) Some f]) (auto simp: chunk_def)
      have n: "0 < ?n" "?n \<le> unat len" using pos by (auto simp: chunk_def word_less_nat_alt)
      have l: "unat (len - of_nat ?n) = unat len - ?n"
        using n(2) by (rule unat_sub_nat)
      show ?thesis
      proof (cases "?n = unat len")
        case True
        then have "len - of_nat ?n = 0" by simp
        then have "loopK (copyin_body pt) (?v, len - of_nat ?n, ?d) s e = Ok (0, ?d) s e"
          by (intro loopK_done) (simp add: copyin_body_def)
        with step True rd show ?thesis by (intro exI [of _ 0] exI [of _ ?n]) simp
      next
        case False
        then have full: "?n = 4096 - unat va mod 4096" by (simp add: chunk_def min_def split: if_splits)
        note pe = page_end [OF user_pa_MAXVA [OF Some] full]
        have "unat ?v + unat (len - of_nat ?n) < 2 ^ 64" "unat (len - of_nat ?n) < unat len"
          using pe(2) l n less.prems by simp_all
        then obtain r k where IH:
          "loopK (copyin_body pt) (?v, len - of_nat ?n, ?d) s e = Ok (r, ?d @ ubytes s pt ?v k) s e"
          "if readable s pt ?v (unat len - ?n) then r = 0 \<and> k = unat len - ?n else r = -1 \<and> k < unat len - ?n"
          using less.hyps [of "len - of_nat ?n" ?v ?d] unfolding l by blast
        have "readable s pt va (unat len) \<longleftrightarrow> readable s pt ?v (unat len - ?n)"
          using readable_add [of s pt va ?n "unat len - ?n"] rd n pe(1) by simp
        moreover have "?d @ ubytes s pt ?v k = dst @ ubytes s pt va (?n + k)"
          by (simp add: ubytes_add pe(1))
        ultimately show ?thesis
          using IH step n by (intro exI [of _ r] exI [of _ "?n + k"]) (auto split: if_splits)
      qed
    qed
  qed
qed

text \<open>The string at a user address: the bytes up to and including the first 0, at most \<open>n\<close> of them.\<close>

primrec user_str :: "kernel \<Rightarrow> addr \<Rightarrow> uint64 \<Rightarrow> nat \<Rightarrow> uchar list option" where
  "user_str s pt va 0 = None"
| "user_str s pt va (Suc n) = (case user_byte s pt va of None \<Rightarrow> None
     | Some c \<Rightarrow> if c = 0 then Some [0] else map_option ((#) c) (user_str s pt (va + 1) n))"

lemma user_str_chunk:
  assumes "readable s pt va n" and "str_chunk (ubytes s pt va n) = (ds, g, k)"
  shows "if g then user_str s pt va (n + m) = Some ds
     else k = n \<and> ds = ubytes s pt va n \<and>
       user_str s pt va (n + m) = map_option ((@) ds) (user_str s pt (va + of_nat n) m)"
  using assms
proof (induction n arbitrary: va ds g k)
  case 0
  then show ?case by (cases "user_str s pt va m") auto
next
  case (Suc n)
  have rd: "user_byte s pt va \<noteq> None" "readable s pt (va + 1) n"
    using Suc.prems(1) readable_add [of s pt va 1 n] by (auto simp: readable_def)
  then obtain c where c: "user_byte s pt va = Some c" by blast
  have ub: "ubytes s pt va (Suc n) = c # ubytes s pt (va + 1) n"
    using ubytes_add [of s pt va 1 n] c by (simp add: ubytes_def)
  show ?case
  proof (cases "c = 0")
    case True
    with Suc.prems(2) c ub show ?thesis by auto
  next
    case False
    obtain ds' g' k' where ch: "str_chunk (ubytes s pt (va + 1) n) = (ds', g', k')"
      by (cases "str_chunk (ubytes s pt (va + 1) n)") auto
    with Suc.prems(2) ub False have eq: "ds = c # ds'" "g = g'" "k = Suc k'" by auto
    note IH = Suc.IH [OF rd(2) ch]
    have "va + 1 + of_nat n = va + of_nat (Suc n)" by simp
    with IH eq c False ub show ?thesis
      by (cases g'; cases "user_str s pt (va + of_nat (Suc n)) m") (auto simp: add.assoc)
  qed
qed

lemma user_str_unreadable:
  assumes "user_byte s pt va = None"
  shows "user_str s pt va n = None"
  using assms by (cases n) auto

lemma copyinstr_body_run:
  assumes ok: "user_ok s pt" and len: "0 < mx" and b: "unat va + unat mx < 2 ^ 64"
  shows "copyinstr_body pt (va, mx, dst, False) s e = (case user_pa s pt va of
      None \<Rightarrow> Ok (Inr (-1, dst)) s e
    | Some pa \<Rightarrow> let n = chunk va (unat mx); (ds, g, k) = str_chunk (ubytes s pt va n) in
        Ok (Inl (PGROUNDDOWN va + PGSIZE, mx - of_nat k, dst @ ds, g)) s e)"
proof -
  have pt: "pt_ok 2 (phys s) pt" using ok by (simp add: user_ok_def)
  have up: "user_pa s pt (PGROUNDDOWN va) = user_pa s pt va" by (rule user_pa_page) simp
  show ?thesis
  proof (cases "user_pa s pt va")
    case None
    with len show ?thesis by (simp add: copyinstr_body_def bind_def walkaddr_run [OF pt] up Let_def)
  next
    case (Some pa)
    obtain f where f: "bytes_at (phys s) pa = Some f" using user_okD(1) [OF ok Some] by blast
    have pa0: "pa \<noteq> 0" by (rule user_okD(4) [OF ok Some])
    let ?n = "chunk va (unat mx)"
    have ub: "ubytes s pt va ?n = map (\<lambda>i. f (unat va mod 4096 + i)) [0..<?n]"
      using b by (intro read_chunk(2) [OF ok Some f]) (auto simp: chunk_def)
    obtain ds g k where "str_chunk (ubytes s pt va ?n) = (ds, g, k)"
      by (cases "str_chunk (ubytes s pt va ?n)") auto
    then show ?thesis
      using len f pa0 Some unat_chunk [of mx va] ub
      by (simp add: copyinstr_body_def bind_def walkaddr_run [OF pt] up Let_def read_page_def unat_page_parts
            del: upt.upt_Suc)
  qed
qed

lemma copyinstr_loop:
  assumes "user_ok s pt" and "unat va + unat mx < 2 ^ 64"
  shows "\<exists>ds. loopK (copyinstr_body pt) (va, mx, dst, False) s e =
    Ok (case user_str s pt va (unat mx) of Some str \<Rightarrow> (0, dst @ str) | None \<Rightarrow> (-1, ds)) s e"
  using assms(2)
proof (induction "unat mx" arbitrary: va mx dst rule: less_induct)
  case less
  show ?case
  proof (cases "mx = 0")
    case True
    then have "loopK (copyinstr_body pt) (va, mx, dst, False) s e = Ok (-1, dst) s e"
      by (intro loopK_done) (simp add: copyinstr_body_def)
    with True show ?thesis by auto
  next
    case ne: False
    then have pos: "0 < mx" by (simp add: word_gt_0)
    show ?thesis
    proof (cases "user_pa s pt va")
      case None
      have "loopK (copyinstr_body pt) (va, mx, dst, False) s e = Ok (-1, dst) s e"
        using copyinstr_body_run [OF assms(1) pos less.prems] None by (intro loopK_done) simp
      then show ?thesis using user_str_unreadable [OF user_byte_None [OF None]] by auto
    next
      case (Some pa)
      let ?n = "chunk va (unat mx)" and ?v = "PGROUNDDOWN va + PGSIZE"
      obtain f where f: "bytes_at (phys s) pa = Some f" using user_okD(1) [OF assms(1) Some] by blast
      obtain ds g k where ch: "str_chunk (ubytes s pt va ?n) = (ds, g, k)"
        by (cases "str_chunk (ubytes s pt va ?n)") auto
      have step: "loopK (copyinstr_body pt) (va, mx, dst, False) s e =
          loopK (copyinstr_body pt) (?v, mx - of_nat k, dst @ ds, g) s e"
        using copyinstr_body_run [OF assms(1) pos less.prems, of dst e] Some ch
        by (intro loopK_step) (simp add: Let_def)
      have rd: "readable s pt va ?n"
        using less.prems by (intro read_chunk(1) [OF assms(1) Some f]) (auto simp: chunk_def)
      have n: "0 < ?n" "?n \<le> unat mx" using pos by (auto simp: chunk_def word_less_nat_alt)
      then have split: "unat mx = ?n + (unat mx - ?n)" by simp
      note us = user_str_chunk [OF rd ch, of "unat mx - ?n", folded split]
      show ?thesis
      proof (cases g)
        case True
        then have "loopK (copyinstr_body pt) (?v, mx - of_nat k, dst @ ds, g) s e = Ok (0, dst @ ds) s e"
          by (intro loopK_done) (simp add: copyinstr_body_def)
        with step us True show ?thesis by simp
      next
        case False
        with us have k: "k = ?n" and str: "user_str s pt va (unat mx) =
            map_option ((@) ds) (user_str s pt (va + of_nat ?n) (unat mx - ?n))" by auto
        have l: "unat (mx - of_nat ?n) = unat mx - ?n" using n(2) by (rule unat_sub_nat)
        show ?thesis
        proof (cases "?n = unat mx")
          case True
          then have "mx - of_nat k = 0" by (simp add: k)
          then have "loopK (copyinstr_body pt) (?v, mx - of_nat k, dst @ ds, g) s e = Ok (-1, dst @ ds) s e"
            using False by (intro loopK_done) (simp add: copyinstr_body_def)
          with step str True show ?thesis by auto
        next
          case ne: False
          then have full: "?n = 4096 - unat va mod 4096" by (simp add: chunk_def min_def split: if_splits)
          note pe = page_end [OF user_pa_MAXVA [OF Some] full]
          have "unat ?v + unat (mx - of_nat ?n) < 2 ^ 64" "unat (mx - of_nat ?n) < unat mx"
            using pe(2) l n less.prems by simp_all
          then obtain ds' where "loopK (copyinstr_body pt) (?v, mx - of_nat ?n, dst @ ds, False) s e =
              Ok (case user_str s pt ?v (unat mx - ?n) of Some str \<Rightarrow> (0, (dst @ ds) @ str)
                  | None \<Rightarrow> (-1, ds')) s e"
            using less.hyps [of "mx - of_nat ?n" ?v "dst @ ds"] unfolding l by blast
          with step str False k pe(1) show ?thesis
            by (cases "user_str s pt ?v (unat mx - ?n)") auto
        qed
      qed
    qed
  qed
qed

section \<open>What an address space occupies\<close>

definition user_pages :: "kernel \<Rightarrow> addr \<Rightarrow> addr set" where
  "user_pages s pt = pt_pages 2 (phys s) pt \<union> {a. \<exists>v. user_pa s pt v = Some a}"

text \<open>Code that leaves these pages alone leaves the process's memory alone.\<close>

lemma user_frame:
  assumes ok: "user_ok s pt" and same: "\<And>a. a \<in> user_pages s pt \<Longrightarrow> phys t a = phys s a"
  shows "user_ok t pt" and "aspace t pt v = aspace s pt v" and "user_pa t pt v = user_pa s pt v"
    and "user_byte t pt v = user_byte s pt v" and "user_pages t pt = user_pages s pt"
    and "user_writable t pt v = user_writable s pt v"
proof -
  have pt: "pt_ok 2 (phys s) pt" using ok by (simp add: user_ok_def)
  have tab: "phys t p = phys s p" if "p \<in> pt_pages 2 (phys s) pt" for p
    using same that by (simp add: user_pages_def)
  show asp: "aspace t pt v = aspace s pt v" for v
    unfolding aspace_def by (rule amap_frame [OF pt tab])
  show upa: "user_pa t pt v = user_pa s pt v" for v by (simp add: user_pa_def asp)
  show "user_writable t pt v = user_writable s pt v" by (simp add: user_writable_def upa asp)
  have pages: "pt_pages 2 (phys t) pt = pt_pages 2 (phys s) pt" by (rule pt_frame(1) [OF tab])
  then show "user_pages t pt = user_pages s pt" by (simp add: user_pages_def upa)
  have bt: "bytes_at (phys t) q = bytes_at (phys s) q" if "user_pa s pt w = Some q" for q w
  proof -
    have "phys t q = phys s q" using that by (intro same) (auto simp: user_pages_def)
    then show ?thesis by (simp add: bytes_at_def)
  qed
  then show "user_byte t pt v = user_byte s pt v"
    by (simp add: user_byte_def upa split: option.split)
  show "user_ok t pt"
    unfolding user_ok_def upa pages
  proof (intro conjI allI impI)
    show "pt_ok 2 (phys t) pt" using pt_frame(2) [OF tab] pt by simp
    fix w q assume q: "user_pa s pt w = Some q"
    show "bytes_at (phys t) q \<noteq> None" using user_okD(1) [OF ok q] bt [OF q] by simp
    show "q \<notin> pt_pages 2 (phys s) pt" by (rule user_okD(2) [OF ok q])
    show "vpn x = vpn w" if "user_pa s pt x = Some q" for x by (rule user_okD(3) [OF ok q that])
  qed
qed

lemma ubytes_frame:
  assumes "\<And>v. user_byte t pt v = user_byte s pt v"
  shows "ubytes t pt va n = ubytes s pt va n" and "readable t pt va n = readable s pt va n"
  by (simp_all add: ubytes_def readable_def assms)

lemma copyin_run:
  assumes "user_ok s pt" and "unat va + unat len < 2 ^ 64"
  shows "\<exists>bs. copyin pt va len s e =
    Ok (if readable s pt va (unat len) then (0, ubytes s pt va (unat len)) else (-1, bs)) s e"
  using copyin_loop [OF assms, of "[]" e] unfolding copyin_def by (auto split: if_splits)

lemma copyout_run:
  assumes "user_ok s pt" and "unat dst + length src < 2 ^ 64"
  shows "\<exists>r t k. copyout pt dst src s e = Ok r t e \<and> wrote pt (unat dst) (take k src) s t \<and>
    (if \<forall>i < length src. user_writable s pt (dst + of_nat i) then r = 0 \<and> k = length src
     else r = -1 \<and> k < length src)"
  using copyout_loop [OF assms, of e] unfolding copyout_def .

text \<open>Its pages hold bytes or page-table entries.\<close>

lemma pt_pages_typed: "pt_ok l m a \<Longrightarrow> p \<in> pt_pages l m a \<Longrightarrow> as_ptab (m p) \<noteq> None"
proof (induction l arbitrary: a)
  case 0
  then show ?case by (auto simp: ptab_at_def split: if_splits)
next
  case (Suc l)
  then obtain t where t: "ptab_at m a = Some t" by (auto split: option.splits)
  from Suc.prems(2) t consider "p = a" | i b where "i < 512" "child t i = Some b" "p \<in> pt_pages l m b"
    by (auto split: option.splits)
  then show ?case
  proof cases
    case 1
    with t show ?thesis by (auto simp: ptab_at_def split: if_splits)
  next
    case 2
    with pt_ok_child(1) [OF Suc.prems(1) t 2(1,2)] show ?thesis by (intro Suc.IH)
  qed
qed

definition user_page :: "page \<Rightarrow> bool" where
  "user_page pg \<longleftrightarrow> as_ptab pg \<noteq> None \<or> as_bytes pg \<noteq> None"

lemma user_page_simps [simp]:
  "\<not> user_page (PgRun a)" "\<not> user_page (PgNode n)" "\<not> user_page (PgPipeRt r)" "\<not> user_page (PgPipe i)"
  "\<not> user_page (PgTrapframe g)" "\<not> user_page (PgTimer m)" "user_page (PgFill c)" "user_page (PgBytes f)"
  "user_page (PgPtab t)"
  by (simp_all add: user_page_def as_ptab_def as_bytes_def)

lemma user_pages_typed:
  assumes "user_ok s pt" and "a \<in> user_pages s pt"
  shows "user_page (phys s a)"
proof -
  consider "a \<in> pt_pages 2 (phys s) pt" | v where "user_pa s pt v = Some a"
    using assms(2) by (auto simp: user_pages_def)
  then show ?thesis
  proof cases
    case 1
    then show ?thesis
      using pt_pages_typed [of 2 "phys s" pt a] assms(1) by (simp add: user_ok_def user_page_def)
  next
    case 2
    then show ?thesis
      using user_okD(1) [OF assms(1) 2] by (auto simp: bytes_at_def user_page_def split: if_splits)
  qed
qed

lemma user_pa_page_typed:
  "user_ok s pt \<Longrightarrow> user_pa s pt v = Some a \<Longrightarrow> user_page (phys s a)"
  by (rule user_pages_typed) (auto simp: user_pages_def)

lemma wrote_ubytes:
  assumes w: "wrote pt (unat dst) bs s t" and "unat dst + length bs < 2 ^ 64"
  shows "readable t pt dst (length bs)" and "ubytes t pt dst (length bs) = bs"
proof -
  have ub: "user_byte t pt (dst + of_nat i) = Some (bs ! i)" if "i < length bs" for i
  proof -
    have "unat (dst + of_nat i) = unat dst + i" using that assms(2) by (intro unat_add_nat) simp
    with w that show ?thesis by (simp add: wrote_def)
  qed
  show "readable t pt dst (length bs)" using ub by (simp add: readable_def)
  show "ubytes t pt dst (length bs) = bs"
    using ub by (intro nth_equalityI) (auto simp: ubytes_def)
qed

end
