(* ===== verification/Sample.thy ===== *)
theory Sample
  imports UserMem
begin

text \<open>
  A concrete kernel state: process 0 (pid 3) runs on hart 0; its page table, at
  \<open>0x80100000\<close>, maps two user pages, at virtual addresses 0 and \<open>0x1000\<close>; four pages are free.
  The theorems of the development are applied to it.
\<close>

definition sample_tf :: trapframe where
  "sample_tf = \<lparr>kernel_satp = 0, kernel_sp = 0, kernel_trap = 0, epc = 0, kernel_hartid = 0,
     regs = (\<lambda>_. 0)\<rparr>"

definition one_entry :: "uint64 \<Rightarrow> nat \<Rightarrow> uint64" where
  "one_entry w = (\<lambda>_. 0)(0 := w)"

definition sample_leaf :: "nat \<Rightarrow> uint64" where
  "sample_leaf = (\<lambda>_. 0)(
     0 := PA2PTE 0x80103000 OR (PTE_R OR PTE_W OR PTE_U) OR PTE_V,
     1 := PA2PTE 0x80104000 OR (PTE_R OR PTE_W OR PTE_U) OR PTE_V)"

definition sample_phys :: "addr \<Rightarrow> page" where
  "sample_phys = (\<lambda>_. PgFill 0)(
     0x80100000 := PgPtab (one_entry (PA2PTE 0x80101000 OR PTE_V)),
     0x80101000 := PgPtab (one_entry (PA2PTE 0x80102000 OR PTE_V)),
     0x80102000 := PgPtab sample_leaf,
     0x80105000 := PgTrapframe sample_tf,
     0x80200000 := PgRun 0x80201000,
     0x80201000 := PgRun 0x80202000,
     0x80202000 := PgRun 0x80203000,
     0x80203000 := PgRun 0)"

definition sample :: kernel where
  "sample = (boot_kernel sample_syms)\<lparr>lkst := proc0_runs, phys := sample_phys, freelist := 0x80200000,
     procs := (\<lambda>_. zero_proc)(0 := zero_proc\<lparr>p_state := RUNNING, p_pid := 3, p_sz := 0x2000,
       p_pagetable := 0x80100000, p_trapframe := 0x80105000\<rparr>), nextpid := 4\<rparr>"

lemma sample_simps [simp]:
  "lkst sample = proc0_runs" "phys sample = sample_phys" "freelist sample = 0x80200000"
  "procs sample 0 = zero_proc\<lparr>p_state := RUNNING, p_pid := 3, p_sz := 0x2000,
     p_pagetable := 0x80100000, p_trapframe := 0x80105000\<rparr>"
  "syms sample = sample_syms" "nextpid sample = 4" "ftable sample = (\<lambda>_. zero_file)"
  "ticks sample = 0"
  by (simp_all add: sample_def boot_kernel_def)

lemma sample_avail [simp]: "lk_avail k proc0_runs"
  by (simp add: lk_avail_def proc0_runs_def net_defs zero_defs)

lemma sample_allocatable:
  "allocatable sample a \<longleftrightarrow> a \<noteq> 0 \<and> a mod PGSIZE = 0 \<and> 0x80022000 \<le> a \<and> a < PHYSTOP"
  by (simp add: allocatable_def sample_syms_def)

lemma sample_free: "free_pages sample [0x80200000, 0x80201000, 0x80202000, 0x80203000]"
  by (simp add: free_pages_def sample_allocatable sample_phys_def PGSIZE_def PHYSTOP_def KERNBASE_def)

lemma sample_ptes:
  "PTE2PA (PA2PTE 0x80101000 OR PTE_V) = 0x80101000"
  "PTE2PA (PA2PTE 0x80102000 OR PTE_V) = 0x80102000"
  "(PA2PTE 0x80101000 OR PTE_V) AND PTE_V \<noteq> 0"
  "(PA2PTE 0x80102000 OR PTE_V) AND PTE_V \<noteq> 0"
  "PTE2PA (PA2PTE 0x80103000 OR (PTE_R OR PTE_W OR PTE_U) OR PTE_V) = 0x80103000"
  "PTE2PA (PA2PTE 0x80104000 OR (PTE_R OR PTE_W OR PTE_U) OR PTE_V) = 0x80104000"
  by (simp_all add: PTE2PA_def PA2PTE_def PTE_V_def PTE_R_def PTE_W_def PTE_U_def)

lemma one_entry_child:
  "child (one_entry w) i = (if i = 0 \<and> w AND PTE_V \<noteq> 0 then Some (PTE2PA w) else None)"
  by (simp add: child_def one_entry_def)

lemma one_entry_table:
  assumes "ptab_at m a = Some (one_entry w)" and "w AND PTE_V \<noteq> 0"
  shows "pt_pages (Suc l) m a = insert a (pt_pages l m (PTE2PA w))"
    and "pt_ok (Suc l) m a \<longleftrightarrow> pt_ok l m (PTE2PA w) \<and> a \<notin> pt_pages l m (PTE2PA w)"
    and "pt_look (Suc l) m a va = (if ix (Suc l) va = 0 then pt_look l m (PTE2PA w) va else None)"
proof -
  have "(\<Union>i \<in> {..<512 :: nat}. case child (one_entry w) i of None \<Rightarrow> {} | Some b \<Rightarrow> pt_pages l m b) =
      pt_pages l m (PTE2PA w)"
    using assms(2) by (auto simp: one_entry_child split: if_splits)
  then show "pt_pages (Suc l) m a = insert a (pt_pages l m (PTE2PA w))"
    using assms(1) by simp
  show "pt_ok (Suc l) m a \<longleftrightarrow> pt_ok l m (PTE2PA w) \<and> a \<notin> pt_pages l m (PTE2PA w)"
    using assms by (auto simp: one_entry_child split: if_splits)
  show "pt_look (Suc l) m a va = (if ix (Suc l) va = 0 then pt_look l m (PTE2PA w) va else None)"
    using assms by (simp add: one_entry_child)
qed

lemma sample_tables:
  "ptab_at sample_phys 0x80100000 = Some (one_entry (PA2PTE 0x80101000 OR PTE_V))"
  "ptab_at sample_phys 0x80101000 = Some (one_entry (PA2PTE 0x80102000 OR PTE_V))"
  "ptab_at sample_phys 0x80102000 = Some sample_leaf"
  by (simp_all add: ptab_at_def sample_phys_def)

lemma sample_tree:
  "pt_pages 2 sample_phys 0x80100000 = {0x80100000, 0x80101000, 0x80102000}"
  "pt_ok 2 sample_phys 0x80100000"
  "pt_look 2 sample_phys 0x80100000 va =
     (if ix 2 va = 0 \<and> ix 1 va = 0 then Some (0x80102000, ix 0 va) else None)"
proof -
  note t2 = one_entry_table [OF sample_tables(1) sample_ptes(3), unfolded sample_ptes]
  note t1 = one_entry_table [OF sample_tables(2) sample_ptes(4), unfolded sample_ptes]
  have two: "2 = Suc (Suc 0)" by simp
  show "pt_pages 2 sample_phys 0x80100000 = {0x80100000, 0x80101000, 0x80102000}"
    unfolding two t2 t1 by simp
  show "pt_ok 2 sample_phys 0x80100000"
    unfolding two t2 t1 using sample_tables(3) by simp
  show "pt_look 2 sample_phys 0x80100000 va =
     (if ix 2 va = 0 \<and> ix 1 va = 0 then Some (0x80102000, ix 0 va) else None)"
    unfolding two t2 t1 One_nat_def by simp
qed

lemma vpn_ix: "va < MAXVA \<Longrightarrow> ix 2 va = 0 \<and> ix 1 va = 0 \<Longrightarrow> ix 0 va = vpn va"
proof -
  assume va: "va < MAXVA" and "ix 2 va = 0 \<and> ix 1 va = 0"
  then have "vpn va div 262144 mod 512 = 0" "vpn va div 512 mod 512 = 0"
    unfolding unat_PX vpn_def by (simp_all add: div_mult2_eq [symmetric])
  then have "vpn va = vpn va mod 512" using vpn_parts [OF vpn_bound [OF va]] by simp
  then show "ix 0 va = vpn va" unfolding unat_PX vpn_def by simp
qed

text \<open>Virtual page 0 is at \<open>0x80103000\<close>, page 1 at \<open>0x80104000\<close>, and that is all.\<close>

lemma sample_user_pa:
  "user_pa sample 0x80100000 va =
     (if vpn va = 0 then Some 0x80103000 else if vpn va = 1 then Some 0x80104000 else None)"
proof (cases "va < MAXVA")
  case False
  then have "2 ^ 26 \<le> vpn va"
    by (simp add: vpn_def word_less_nat_alt unat_MAXVA linorder_not_less less_eq_div_iff_mult_less_eq)
  with False show ?thesis by (simp add: user_pa_def Let_def)
next
  case True
  have entry: "aspace sample 0x80100000 va = (if ix 2 va = 0 \<and> ix 1 va = 0 then sample_leaf (vpn va) else 0)"
    using vpn_ix [OF True] sample_tree(3) [of va] sample_tables(3)
    by (auto simp: aspace_def amap_def)
  have low: "ix 2 va = 0 \<and> ix 1 va = 0" if "vpn va < 2"
    using that unfolding unat_PX vpn_def by (simp add: div_mult2_eq)
  have flags: "sample_leaf i AND PTE_V \<noteq> 0 \<and> sample_leaf i AND PTE_U \<noteq> 0 \<longleftrightarrow> i < 2" for i
    by (simp add: sample_leaf_def PA2PTE_def PTE_V_def PTE_R_def PTE_W_def PTE_U_def)
  show ?thesis
  proof (cases "vpn va < 2")
    case lt: True
    then consider "vpn va = 0" | "vpn va = 1" by linarith
    then show ?thesis
      using True entry low [OF lt] flags [of "vpn va"] sample_ptes(5,6)
      by cases (auto simp: user_pa_def Let_def sample_leaf_def)
  next
    case False
    then show ?thesis using entry flags [of "vpn va"] by (auto simp: user_pa_def Let_def)
  qed
qed

lemma sample_user_ok: "user_ok sample 0x80100000"
  unfolding user_ok_def
proof (intro conjI allI impI)
  show "pt_ok 2 (phys sample) 0x80100000" using sample_tree(2) by simp
  fix va pa assume pa: "user_pa sample 0x80100000 va = Some pa"
  show "bytes_at (phys sample) pa \<noteq> None"
    using pa by (auto simp: sample_user_pa bytes_at_def sample_phys_def as_bytes_def split: if_splits)
  show "pa \<notin> pt_pages 2 (phys sample) 0x80100000"
    using pa by (auto simp: sample_user_pa sample_tree(1) split: if_splits)
  show "vpn vb = vpn va" if "user_pa sample 0x80100000 vb = Some pa" for vb
    using pa that by (auto simp: sample_user_pa split: if_splits)
qed

lemma sample_writable: "vpn va < 2 \<Longrightarrow> user_writable sample 0x80100000 va"
proof -
  assume lt: "vpn va < 2"
  then have "user_pa sample 0x80100000 va \<noteq> None" by (auto simp: sample_user_pa)
  then have va: "va < MAXVA" by (auto simp: user_pa_def Let_def split: if_splits)
  have low: "ix 2 va = 0 \<and> ix 1 va = 0"
    using lt unfolding unat_PX vpn_def by (simp add: div_mult2_eq)
  then have "aspace sample 0x80100000 va = sample_leaf (vpn va)"
    using vpn_ix [OF va] sample_tree(3) [of va] sample_tables(3) by (simp add: aspace_def amap_def)
  moreover have "sample_leaf i AND PTE_W \<noteq> 0" if "i < 2" for i
  proof -
    from that consider "i = 0" | "i = 1" by linarith
    then show ?thesis
      by cases (simp_all add: sample_leaf_def PA2PTE_def PTE_V_def PTE_R_def PTE_W_def PTE_U_def)
  qed
  ultimately show ?thesis
    using lt \<open>user_pa sample 0x80100000 va \<noteq> None\<close> by (simp add: user_writable_def)
qed

lemma sample_env: "pt_env sample 0x80100000 [0x80200000, 0x80201000, 0x80202000, 0x80203000]"
  using sample_free sample_tree by (simp add: pt_env_def)

text \<open>States that extend the sample's memory elsewhere give the process the same memory.\<close>

lemma sample_user_frame:
  assumes "\<And>a. a \<in> {0x80100000, 0x80101000, 0x80102000, 0x80103000, 0x80104000} \<Longrightarrow> phys t a = sample_phys a"
  shows "user_ok t 0x80100000"
    and "user_byte t 0x80100000 v = user_byte sample 0x80100000 v"
    and "user_writable t 0x80100000 v = user_writable sample 0x80100000 v"
proof -
  have same: "phys t a = phys sample a" if "a \<in> user_pages sample 0x80100000" for a
    using that sample_tree(1) sample_user_pa assms [of a]
    by (auto simp: user_pages_def split: if_splits)
  show "user_ok t 0x80100000" by (rule user_frame(1) [OF sample_user_ok same])
  show "user_byte t 0x80100000 v = user_byte sample 0x80100000 v"
    by (rule user_frame(4) [OF sample_user_ok same])
  show "user_writable t 0x80100000 v = user_writable sample 0x80100000 v"
    by (rule user_frame(6) [OF sample_user_ok same])
qed

lemma sample_bytes: "vpn v < 2 \<Longrightarrow> user_byte sample 0x80100000 v = Some 0"
  by (auto simp: user_byte_def sample_user_pa bytes_at_def as_bytes_def sample_phys_def)

lemma sample_range:
  assumes "unat a + n \<le> 8192" and "i < n"
  shows "vpn (a + of_nat i) < 2"
proof -
  have "unat (a + of_nat i) = unat a + i" using assms by (intro unat_add_nat) simp
  with assms show ?thesis by (simp add: vpn_def)
qed

lemma sample_rw:
  assumes "unat a + n \<le> 8192"
  shows "readable sample 0x80100000 a n" and "i < n \<Longrightarrow> user_writable sample 0x80100000 (a + of_nat i)"
    and "ubytes sample 0x80100000 a n = replicate n 0"
proof -
  show "readable sample 0x80100000 a n"
    using sample_bytes [OF sample_range [OF assms]] by (simp add: readable_def)
  show "i < n \<Longrightarrow> user_writable sample 0x80100000 (a + of_nat i)"
    by (rule sample_writable [OF sample_range [OF assms]])
  show "ubytes sample 0x80100000 a n = replicate n 0"
    using sample_bytes [OF sample_range [OF assms]] by (intro nth_equalityI) (auto simp: ubytes_def)
qed

end
