(* ===== verification/Pipe.thy ===== *)
theory Pipe
  imports Sample
begin

text \<open>
  \<^verbatim>\<open>kernel/pipe.c\<close>: closing, writing and reading a pipe, a ring buffer of 512 bytes with two
  free-running 32-bit counters. (Creating a pipe needs the file table and is in \<^verbatim>\<open>FileOps\<close>.)
\<close>

section \<open>The operations\<close>

definition PIPESIZE :: nat where "PIPESIZE = 512"

definition as_pipe :: "page \<Rightarrow> pipe option" where
  "as_pipe pg = (case pg of PgPipe i \<Rightarrow> Some i | _ \<Rightarrow> None)"

definition pipe_at :: "addr \<Rightarrow> pipe kop" where
  "pipe_at a = (if a = 0 then fault else bind (gets (\<lambda>s. as_pipe (phys s a))) need)"

definition upd_pipe :: "addr \<Rightarrow> (pipe \<Rightarrow> pipe) \<Rightarrow> unit kop" where
  "upd_pipe a f = bind (pipe_at a) (\<lambda>i. modify (set_page a (PgPipe (f i))))"

definition pipeclose :: "addr \<Rightarrow> bool \<Rightarrow> unit kop" where
  "pipeclose pi writable =
     seq (acquire (LkPipe pi)) (
     seq (if writable then
            seq (upd_pipe pi (\<lambda>i. i\<lparr>pi_writeopen := False\<rparr>)) (
            wakeup (ChPipeRead pi))
          else
            seq (upd_pipe pi (\<lambda>i. i\<lparr>pi_readopen := False\<rparr>)) (
            wakeup (ChPipeWrite pi))) (
     bind (pipe_at pi) (\<lambda>i.
     if \<not> pi_readopen i \<and> \<not> pi_writeopen i then
       seq (release (LkPipe pi)) (
       kfree pi)
     else release (LkPipe pi))))"

text \<open>One round of the loop of \<^verbatim>\<open>pipewrite\<close>; it leaves with \<open>None\<close> for \<^verbatim>\<open>return -1\<close> and with \<open>Some i\<close> past the loop.\<close>

definition pipewrite_body :: "addr \<Rightarrow> nat \<Rightarrow> uint64 \<Rightarrow> cint \<Rightarrow> nat \<Rightarrow> (nat + nat option) kop" where
  "pipewrite_body pi pr addr n i =
     (if int i < sint n then
        bind (pipe_at pi) (\<lambda>v.
        bind (if \<not> pi_readopen v then ret True else killed pr) (\<lambda>k.
        if k then
          seq (release (LkPipe pi)) (ret (Inr None))
        else if pi_nwrite v = pi_nread v + of_nat PIPESIZE then
          seq (wakeup (ChPipeRead pi)) (
          seq (sleep (ChPipeWrite pi) (LkPipe pi)) (
          ret (Inl i)))
        else
          bind (proc_at pr) (\<lambda>q.
          bind (copyin (p_pagetable q) (addr + of_nat i) 1) (\<lambda>(c, bs).
          if c = -1 then ret (Inr (Some i))
          else
            seq (upd_pipe pi (\<lambda>v. v\<lparr>pi_data := (pi_data v)(unat (pi_nwrite v) mod PIPESIZE := hd bs),
                                    pi_nwrite := pi_nwrite v + 1\<rparr>)) (
            ret (Inl (Suc i)))))))
      else ret (Inr (Some i)))"

definition pipewrite :: "addr \<Rightarrow> uint64 \<Rightarrow> cint \<Rightarrow> cint kop" where
  "pipewrite pi addr n =
     bind myproc (\<lambda>mp.
     seq (acquire (LkPipe pi)) (
     bind (need mp) (\<lambda>pr.
     bind (loopK (pipewrite_body pi pr addr n) 0) (\<lambda>r.
     case r of None \<Rightarrow> ret (-1)
     | Some i \<Rightarrow>
         seq (wakeup (ChPipeRead pi)) (
         seq (release (LkPipe pi)) (
         ret (of_nat i)))))))"

definition piperead_wait :: "addr \<Rightarrow> nat \<Rightarrow> unit \<Rightarrow> (unit + bool) kop" where
  "piperead_wait pi pr u =
     bind (pipe_at pi) (\<lambda>v.
     if pi_nread v = pi_nwrite v \<and> pi_writeopen v then
       bind (killed pr) (\<lambda>k.
       if k then seq (release (LkPipe pi)) (ret (Inr False))
       else seq (sleep (ChPipeRead pi) (LkPipe pi)) (ret (Inl ())))
     else ret (Inr True))"

definition piperead_copy :: "addr \<Rightarrow> nat \<Rightarrow> uint64 \<Rightarrow> cint \<Rightarrow> nat \<Rightarrow> (nat + nat) kop" where
  "piperead_copy pi pr addr n i =
     (if int i < sint n then
        bind (pipe_at pi) (\<lambda>v.
        if pi_nread v = pi_nwrite v then ret (Inr i)
        else
          let ch = pi_data v (unat (pi_nread v) mod PIPESIZE) in
          seq (upd_pipe pi (\<lambda>v. v\<lparr>pi_nread := pi_nread v + 1\<rparr>)) (
          bind (proc_at pr) (\<lambda>q.
          bind (copyout (p_pagetable q) (addr + of_nat i) [ch]) (\<lambda>c.
          if c = -1 then ret (Inr i) else ret (Inl (Suc i))))))
      else ret (Inr i))"

definition piperead :: "addr \<Rightarrow> uint64 \<Rightarrow> cint \<Rightarrow> cint kop" where
  "piperead pi addr n =
     bind myproc (\<lambda>mp.
     seq (acquire (LkPipe pi)) (
     bind (need mp) (\<lambda>pr.
     bind (loopK (piperead_wait pi pr) ()) (\<lambda>go.
     if \<not> go then ret (-1)
     else
       bind (loopK (piperead_copy pi pr addr n) 0) (\<lambda>i.
       seq (wakeup (ChPipeWrite pi)) (
       seq (release (LkPipe pi)) (
       ret (of_nat i))))))))"

end
