(* ===== verification/PrioQueue.thy ===== *)
theory PrioQueue
  imports KTypes
begin

text \<open>
  The contract of a queue of tasks with priorities (\<open>prio_queue\<close>), and the two list routines the
  kernel's linked lists implement: \<open>rt_ins\<close>, the insertion of \<^verbatim>\<open>pipe_rt.c\<close>, which walks past
  strictly higher priorities, and \<open>pq_ins\<close>, that of \<^verbatim>\<open>pqueue.c\<close>, which walks past equal ones too.
  Both are interpretations of the contract: what is drained from them is what was inserted, by
  descending priority.
\<close>

abbreviation prio :: "task_t \<Rightarrow> int" where
  "prio t \<equiv> sint (priority t)"

definition by_prio :: "task_t list \<Rightarrow> bool" where
  "by_prio ts = sorted_wrt (\<lambda>a b. prio b \<le> prio a) ts"

lemma by_prio_simps [simp]:
  "by_prio []" "by_prio (t # ts) \<longleftrightarrow> (\<forall>u \<in> set ts. prio u \<le> prio t) \<and> by_prio ts"
  by (simp_all add: by_prio_def)

lemma by_prio_append:
  "by_prio (us @ vs) \<longleftrightarrow> by_prio us \<and> by_prio vs \<and> (\<forall>u \<in> set us. \<forall>v \<in> set vs. prio v \<le> prio u)"
  by (simp add: by_prio_def sorted_wrt_append)

section \<open>The contract\<close>

locale prio_queue =
  fixes emp :: 'q and ins :: "task_t \<Rightarrow> 'q \<Rightarrow> 'q" and first :: "'q \<Rightarrow> task_t" and rest :: "'q \<Rightarrow> 'q"
    and ok :: "'q \<Rightarrow> bool" and tasks :: "'q \<Rightarrow> task_t multiset"
  assumes ok_emp: "ok emp" and tasks_emp: "tasks emp = {#}"
    and ok_ins: "ok q \<Longrightarrow> ok (ins t q)"
    and tasks_ins: "ok q \<Longrightarrow> tasks (ins t q) = add_mset t (tasks q)"
    and ok_rest: "ok q \<Longrightarrow> tasks q \<noteq> {#} \<Longrightarrow> ok (rest q)"
    and tasks_rest: "ok q \<Longrightarrow> tasks q \<noteq> {#} \<Longrightarrow> tasks q = add_mset (first q) (tasks (rest q))"
    and first_max: "ok q \<Longrightarrow> t \<in># tasks q \<Longrightarrow> prio t \<le> prio (first q)"
begin

definition fill :: "task_t list \<Rightarrow> 'q \<Rightarrow> 'q" where
  "fill ts q = fold ins ts q"

primrec drain :: "nat \<Rightarrow> 'q \<Rightarrow> task_t list" where
  "drain 0 q = []"
| "drain (Suc n) q = (if tasks q = {#} then [] else first q # drain n (rest q))"

lemma fill_ok: "ok q \<Longrightarrow> ok (fill ts q) \<and> tasks (fill ts q) = mset ts + tasks q"
  unfolding fill_def by (induction ts arbitrary: q) (auto simp: ok_ins tasks_ins)

lemma drain_tasks:
  assumes "ok q" and "size (tasks q) \<le> n"
  shows "mset (drain n q) = tasks q"
  using assms
proof (induction n arbitrary: q)
  case 0
  then show ?case by simp
next
  case (Suc n)
  show ?case
  proof (cases "tasks q = {#}")
    case False
    note r = tasks_rest [OF Suc.prems(1) False]
    have "mset (drain n (rest q)) = tasks (rest q)"
      using Suc.prems False r by (intro Suc.IH ok_rest) (auto dest: arg_cong [of _ _ size])
    with False r show ?thesis by simp
  qed simp
qed

lemma drain_subset: "ok q \<Longrightarrow> t \<in> set (drain n q) \<Longrightarrow> t \<in># tasks q"
proof (induction n arbitrary: q)
  case (Suc n)
  then have ne: "tasks q \<noteq> {#}" by (auto split: if_splits)
  note r = tasks_rest [OF Suc.prems(1) ne]
  from Suc.prems ne have "t = first q \<or> t \<in> set (drain n (rest q))" by simp
  with Suc.IH ok_rest [OF Suc.prems(1) ne] r show ?case by (metis insert_iff set_mset_add_mset_insert)
qed simp

lemma drain_sorted: "ok q \<Longrightarrow> by_prio (drain n q)"
proof (induction n arbitrary: q)
  case (Suc n)
  show ?case
  proof (cases "tasks q = {#}")
    case False
    note r = tasks_rest [OF Suc.prems False] ok_rest [OF Suc.prems False]
    have "prio t \<le> prio (first q)" if "t \<in> set (drain n (rest q))" for t
      using drain_subset [OF r(2) that] r(1) first_max [OF Suc.prems] by simp
    with Suc.IH [OF r(2)] False show ?thesis by simp
  qed simp
qed simp

text \<open>Everything inserted comes out, once, by descending priority.\<close>

lemma fill_drain:
  "mset (drain (length ts) (fill ts emp)) = mset ts \<and> by_prio (drain (length ts) (fill ts emp))"
  using fill_ok [OF ok_emp, of ts] drain_tasks [of "fill ts emp" "length ts"] drain_sorted
  by (simp add: tasks_emp)

end

section \<open>The two insertions\<close>

text \<open>Insertion behind the longest prefix with property \<open>P\<close>.\<close>

definition ins_past :: "(task_t \<Rightarrow> bool) \<Rightarrow> task_t \<Rightarrow> task_t list \<Rightarrow> task_t list" where
  "ins_past P t ts = takeWhile P ts @ t # dropWhile P ts"

text \<open>
  The head is compared with \<^verbatim>\<open>>\<close> in both routines; the loop continues while the next task has a
  higher priority (\<open>rt_ins\<close>) or one at least as high (\<open>pq_ins\<close>).
\<close>

fun head_ins :: "(task_t \<Rightarrow> bool) \<Rightarrow> task_t \<Rightarrow> task_t list \<Rightarrow> task_t list" where
  "head_ins P t [] = [t]"
| "head_ins P t (h # ts) = (if prio t > prio h then t # h # ts else h # ins_past P t ts)"

definition rt_ins :: "task_t \<Rightarrow> task_t list \<Rightarrow> task_t list" where
  "rt_ins t = head_ins (\<lambda>u. prio u > prio t) t"

definition pq_ins :: "task_t \<Rightarrow> task_t list \<Rightarrow> task_t list" where
  "pq_ins t = head_ins (\<lambda>u. prio u \<ge> prio t) t"

lemma mset_ins_past [simp]: "mset (ins_past P t ts) = add_mset t (mset ts)"
proof -
  have "mset (takeWhile P ts) + mset (dropWhile P ts) = mset ts"
    by (metis mset_append takeWhile_dropWhile_id)
  then show ?thesis by (simp add: ins_past_def)
qed

lemma set_ins_past [simp]: "set (ins_past P t ts) = insert t (set ts)"
  by (metis mset_ins_past set_mset_add_mset_insert set_mset_mset)

lemma by_prio_ins_past:
  assumes "by_prio ts" and "\<And>u. P u \<Longrightarrow> prio t \<le> prio u" and "\<And>u. \<not> P u \<Longrightarrow> prio u \<le> prio t"
  shows "by_prio (ins_past P t ts)"
proof -
  have pre: "\<forall>u \<in> set (takeWhile P ts). prio t \<le> prio u"
    using assms(2) by (auto dest: set_takeWhileD)
  have split: "by_prio (takeWhile P ts) \<and> by_prio (dropWhile P ts) \<and>
      (\<forall>u \<in> set (takeWhile P ts). \<forall>v \<in> set (dropWhile P ts). prio v \<le> prio u)"
    using assms(1) by_prio_append [of "takeWhile P ts" "dropWhile P ts"] by simp
  have post: "\<forall>v \<in> set (dropWhile P ts). prio v \<le> prio t"
  proof (cases "dropWhile P ts")
    case (Cons v vs)
    then have "\<not> P v" by (metis hd_dropWhile list.sel(1) list.discI)
    then have "prio v \<le> prio t" by (rule assms(3))
    with split Cons show ?thesis by (auto intro: order_trans)
  next
    case Nil
    show ?thesis unfolding Nil by simp
  qed
  show ?thesis unfolding ins_past_def using split pre post by (auto simp: by_prio_append)
qed

lemma mset_head_ins: "mset (head_ins P t ts) = add_mset t (mset ts)"
  by (cases ts) auto

lemma by_prio_head_ins:
  assumes "by_prio ts" and "\<And>u. P u \<Longrightarrow> prio t \<le> prio u" and "\<And>u. \<not> P u \<Longrightarrow> prio u \<le> prio t"
  shows "by_prio (head_ins P t ts)"
proof (cases ts)
  case (Cons h us)
  then show ?thesis using assms(1) by_prio_ins_past [of us P t, OF _ assms(2,3)] by auto
qed simp

lemma by_prio_rt_ins: "by_prio ts \<Longrightarrow> by_prio (rt_ins t ts)"
  unfolding rt_ins_def by (rule by_prio_head_ins) auto

lemma by_prio_pq_ins: "by_prio ts \<Longrightarrow> by_prio (pq_ins t ts)"
  unfolding pq_ins_def by (rule by_prio_head_ins) auto

lemma hd_max: "by_prio ts \<Longrightarrow> u \<in> set ts \<Longrightarrow> prio u \<le> prio (hd ts)"
  by (cases ts) auto

lemma by_prio_tl: "by_prio ts \<Longrightarrow> by_prio (tl ts)"
  by (cases ts) auto

lemma mset_hd_tl: "ts \<noteq> [] \<Longrightarrow> add_mset (hd ts) (mset (tl ts)) = mset ts"
  by (cases ts) auto

interpretation rtq: prio_queue "[]" rt_ins hd tl by_prio mset
  by unfold_locales (simp_all add: by_prio_rt_ins by_prio_tl hd_max mset_hd_tl, simp add: rt_ins_def mset_head_ins)

interpretation pqq: prio_queue "[]" pq_ins hd tl by_prio mset
  by unfold_locales (simp_all add: by_prio_pq_ins by_prio_tl hd_max mset_hd_tl, simp add: pq_ins_def mset_head_ins)

section \<open>Tasks of equal priority\<close>

text \<open>
  \<open>pq_ins\<close> puts a task behind all tasks of its priority: among equals, first in is first out.
  \<open>rt_ins\<close> puts it behind the head of the queue but before every other task of its priority.
\<close>

lemma pq_ins_stable:
  assumes "by_prio ts"
  shows "filter (\<lambda>u. prio u = p) (pq_ins t ts) =
    filter (\<lambda>u. prio u = p) ts @ (if prio t = p then [t] else [])"
proof -
  let ?P = "\<lambda>u. prio u \<ge> prio t" and ?Q = "\<lambda>u. prio u = p"
  have drop: "filter ?Q (dropWhile ?P us) = []" if "by_prio us" "prio t = p" for us
  proof (cases "dropWhile ?P us")
    case (Cons v vs)
    then have "\<not> ?P v" by (metis (no_types, lifting) hd_dropWhile list.sel(1) list.discI)
    moreover have "by_prio (v # vs)"
      using that(1) by_prio_append [of "takeWhile ?P us" "v # vs"] Cons
      by (metis takeWhile_dropWhile_id)
    ultimately show ?thesis using Cons that(2) by (auto simp: filter_empty_conv)
  next
    case Nil
    show ?thesis unfolding Nil by simp
  qed
  have past: "filter ?Q (ins_past ?P t us) = filter ?Q us @ (if prio t = p then [t] else [])"
    if "by_prio us" for us
  proof -
    have "filter ?Q us = filter ?Q (takeWhile ?P us) @ filter ?Q (dropWhile ?P us)"
      by (metis filter_append takeWhile_dropWhile_id)
    with drop [OF that] show ?thesis by (simp add: ins_past_def)
  qed
  show ?thesis
  proof (cases ts)
    case Nil
    then show ?thesis by (simp add: pq_ins_def)
  next
    case (Cons h us)
    show ?thesis
    proof (cases "prio t > prio h")
      case True
      then have "filter (\<lambda>u. prio u = p) ts = []" if "prio t = p"
        using Cons assms that by (auto simp: filter_empty_conv)
      with True Cons show ?thesis by (auto simp: pq_ins_def)
    next
      case False
      with Cons assms past [of us] show ?thesis by (auto simp: pq_ins_def)
    qed
  qed
qed

lemma rt_ins_overtakes:
  assumes "\<forall>u \<in> set (h # ts). prio u = prio t"
  shows "rt_ins t (h # ts) = h # t # ts"
  using assms by (cases ts) (auto simp: rt_ins_def ins_past_def)

end
