(* ===== verification/Pqueue.thy ===== *)
theory Pqueue
  imports Sample PrioQueue
begin

text \<open>
  The linked priority lists of the real-time pipes: \<^verbatim>\<open>pq_insert\<close> and \<^verbatim>\<open>pq_remove\<close> of
  \<^verbatim>\<open>proj2/kernel/pipe_rt.c\<close> and the stand-alone queue of \<^verbatim>\<open>proj2/kernel/pqueue.c\<close>.

  A node occupies a page of its own. The argument \<^verbatim>\<open>struct pq_node **head\<close> is passed as the value
  of \<^verbatim>\<open>*head\<close> and returned updated; a \<^verbatim>\<open>struct pqueue *\<close> likewise. \<open>plist m a xs\<close> says that the
  list from \<open>a\<close> consists of the nodes \<open>xs\<close> (address and task); the routines refine the list
  functions \<open>rt_ins\<close> and \<open>pq_ins\<close>.
\<close>

section \<open>The operations\<close>

definition as_node :: "page \<Rightarrow> pq_node option" where
  "as_node pg = (case pg of PgNode n \<Rightarrow> Some n | _ \<Rightarrow> None)"

definition node_at :: "addr \<Rightarrow> pq_node kop" where
  "node_at a = (if a = 0 then fault else bind (gets (\<lambda>s. as_node (phys s a))) need)"

definition put_node :: "addr \<Rightarrow> pq_node \<Rightarrow> unit kop" where
  "put_node a n = (if a = 0 then fault else modify (set_page a (PgNode n)))"

definition set_next :: "addr \<Rightarrow> addr \<Rightarrow> unit kop" where
  "set_next a b = bind (node_at a) (\<lambda>n. put_node a (n\<lparr>nxt := b\<rparr>))"

text \<open>
  The loop of both insertions: from \<^verbatim>\<open>current\<close>, go on while there is a next node whose task has the
  property \<open>P\<close>.
\<close>

definition seek_body :: "(task_t \<Rightarrow> bool) \<Rightarrow> addr \<Rightarrow> (addr + addr) kop" where
  "seek_body P current =
     bind (node_at current) (\<lambda>c.
     if nxt c = 0 then ret (Inr current) else
     bind (node_at (nxt c)) (\<lambda>n.
     if P (task n) then ret (Inl (nxt c)) else ret (Inr current)))"

text \<open>
  The part of both insertions after the new node has been filled: put it in front of a list that
  is empty or whose head has a lower priority (\<open>insert_node\<close>), or find the place behind and link
  it in (\<open>link_after\<close>). Only the property the loop goes by differs.
\<close>

definition link_after :: "(task_t \<Rightarrow> bool) \<Rightarrow> addr \<Rightarrow> addr \<Rightarrow> unit kop" where
  "link_after P head new =
     bind (loopK (seek_body P) head) (\<lambda>current.
     bind (node_at current) (\<lambda>c.
     seq (set_next new (nxt c)) (
     set_next current new)))"

definition insert_node :: "(task_t \<Rightarrow> bool) \<Rightarrow> addr \<Rightarrow> addr \<Rightarrow> task_t \<Rightarrow> addr kop" where
  "insert_node P head new t =
     bind (if head = 0 then ret True
           else bind (node_at head) (\<lambda>h. ret (prio t > prio (task h)))) (\<lambda>front.
     if front then seq (set_next new head) (ret new)
     else seq (link_after P head new) (ret head))"

definition pq_insert :: "addr \<Rightarrow> task_t \<Rightarrow> addr kop" where
  "pq_insert head t =
     bind kalloc (\<lambda>new.
     if new = 0 then ret head else
     seq (put_node new \<lparr>task = t, nxt = 0\<rparr>) (
     insert_node (\<lambda>u. prio u > prio t) head new t))"

definition zero_task :: task_t where
  "zero_task = \<lparr>priority = 0, t_pid = 0, t_x = 0, t_y = 0, t_op = 0, t_pad = replicate 7 0,
     t_result = 0, t_error = 0\<rparr>"

definition pq_remove :: "addr \<Rightarrow> (task_t \<times> addr) kop" where
  "pq_remove head =
     (if head = 0 then ret (zero_task, 0) else
      bind (node_at head) (\<lambda>n.
      seq (kfree head) (
      ret (task n, nxt n))))"

text \<open>\<^verbatim>\<open>acquire(pq->lock)\<close> follows a pointer that may be null.\<close>

definition acquire_ptr :: "lockid option \<Rightarrow> unit kop" where
  "acquire_ptr l = bind (need l) acquire"

definition release_ptr :: "lockid option \<Rightarrow> unit kop" where
  "release_ptr l = bind (need l) release"

definition pqueue_init :: "pqueue \<Rightarrow> pqueue" where
  "pqueue_init pq = pq\<lparr>q_head := 0, q_lock := None\<rparr>"

definition pqueue_push :: "pqueue \<Rightarrow> task_t \<Rightarrow> (cint \<times> pqueue) kop" where
  "pqueue_push pq t =
     bind kalloc (\<lambda>new_node.
     seq (put_node new_node \<lparr>task = t, nxt = 0\<rparr>) (
     seq (acquire_ptr (q_lock pq)) (
     bind (insert_node (\<lambda>u. prio u \<ge> prio t) (q_head pq) new_node t) (\<lambda>h.
     seq (release_ptr (q_lock pq)) (
     ret (0, pq\<lparr>q_head := h\<rparr>))))))"

text \<open>The result of \<^verbatim>\<open>pqueue_pop\<close> is the address of the task, the first field of the node.\<close>

definition pqueue_pop :: "pqueue \<Rightarrow> (addr \<times> pqueue) kop" where
  "pqueue_pop pq =
     seq (acquire_ptr (q_lock pq)) (
     if q_head pq = 0 then
       seq (release_ptr (q_lock pq)) (ret (0, pq))
     else
       bind (node_at (q_head pq)) (\<lambda>n.
       seq (kfree (q_head pq)) (
       seq (release_ptr (q_lock pq)) (
       ret (q_head pq, pq\<lparr>q_head := nxt n\<rparr>)))))"

definition pqueue_empty :: "pqueue \<Rightarrow> bool kop" where
  "pqueue_empty pq =
     seq (acquire_ptr (q_lock pq)) (
     seq (release_ptr (q_lock pq)) (
     ret (q_head pq = 0)))"

section \<open>Lists of nodes\<close>

primrec plist :: "(addr \<Rightarrow> page) \<Rightarrow> addr \<Rightarrow> (addr \<times> task_t) list \<Rightarrow> bool" where
  "plist m a [] \<longleftrightarrow> a = 0"
| "plist m a (x # xs) \<longleftrightarrow> a = fst x \<and> a \<noteq> 0 \<and>
     (\<exists>b. m a = PgNode \<lparr>task = snd x, nxt = b\<rparr> \<and> plist m b xs)"

lemma plist_frame [simp]:
  "c \<notin> fst ` set xs \<Longrightarrow> plist (m(c := pg)) a xs = plist m a xs"
proof (induction xs arbitrary: a)
  case (Cons x xs)
  then show ?case by (cases "a = fst x") auto
qed simp

lemma plist_cong:
  assumes "plist m a xs" and "\<And>x. x \<in> fst ` set xs \<Longrightarrow> m' x = m x"
  shows "plist m' a xs"
  using assms
proof (induction xs arbitrary: a)
  case (Cons x xs)
  then obtain b where b: "a = fst x" "a \<noteq> 0" "m a = PgNode \<lparr>task = snd x, nxt = b\<rparr>" "plist m b xs"
    by auto
  with Cons have "plist m' b xs" "m' a = m a" by auto
  with b show ?case by auto
qed simp

lemma plist_head:
  "plist m a xs \<Longrightarrow> a = (case xs of [] \<Rightarrow> 0 | x # _ \<Rightarrow> fst x)"
  by (cases xs) auto

lemma plist_null: "plist m 0 xs \<Longrightarrow> xs = []"
  by (cases xs) auto

text \<open>Putting a new node \<open>c\<close> behind the node \<open>y\<close>.\<close>

lemma plist_insert:
  assumes "plist m a (us @ y # vs)" and "distinct (map fst (us @ y # vs))"
    and "c \<notin> fst ` set (us @ y # vs)" and "c \<noteq> 0"
    and c: "m' c = PgNode \<lparr>task = t, nxt = (case vs of [] \<Rightarrow> 0 | v # _ \<Rightarrow> fst v)\<rparr>"
    and y: "m' (fst y) = PgNode \<lparr>task = snd y, nxt = c\<rparr>"
    and other: "\<And>x. x \<noteq> c \<Longrightarrow> x \<noteq> fst y \<Longrightarrow> m' x = m x"
  shows "plist m' a (us @ y # (c, t) # vs)"
  using assms(1-4)
proof (induction us arbitrary: a)
  case Nil
  then obtain b where b: "a = fst y" "a \<noteq> 0" "plist m b vs" by auto
  have "plist m' b vs"
  proof (rule plist_cong [OF b(3)])
    fix x assume x: "x \<in> fst ` set vs"
    have "c \<notin> fst ` set vs" "fst y \<notin> fst ` set vs" using Nil.prems(2,3) by simp_all
    with x have "x \<noteq> c" "x \<noteq> fst y" by metis+
    then show "m' x = m x" by (rule other)
  qed
  with plist_head [OF b(3)] Nil.prems(4) b(1,2) c y show ?case by simp
next
  case (Cons u us)
  then obtain b where b: "a = fst u" "a \<noteq> 0" "m a = PgNode \<lparr>task = snd u, nxt = b\<rparr>" "plist m b (us @ y # vs)"
    by auto
  have "a \<noteq> c" "a \<noteq> fst y" using Cons.prems b(1) by auto
  then have "m' a = m a" by (rule other)
  moreover have "plist m' b (us @ y # (c, t) # vs)"
    using Cons.IH [OF b(4)] Cons.prems(2-4) by simp
  ultimately show ?case using b(1-3) by simp
qed

lemma plist_mid: "plist m a (us @ y # vs) \<Longrightarrow>
  fst y \<noteq> 0 \<and> m (fst y) = PgNode \<lparr>task = snd y, nxt = (case vs of [] \<Rightarrow> 0 | v # _ \<Rightarrow> fst v)\<rparr>"
proof (induction us arbitrary: a)
  case Nil
  then show ?case by (auto dest: plist_head)
qed auto

lemma node_at_run [simp]:
  "a \<noteq> 0 \<Longrightarrow> phys s a = PgNode n \<Longrightarrow> node_at a s e = Ok n s e"
  by (simp add: node_at_def bind_def as_node_def)

lemma put_node_run [simp]: "a \<noteq> 0 \<Longrightarrow> put_node a n s e = Ok () (set_page a (PgNode n) s) e"
  by (simp add: put_node_def)

lemma set_next_run [simp]:
  "a \<noteq> 0 \<Longrightarrow> phys s a = PgNode n \<Longrightarrow> set_next a b s e = Ok () (set_page a (PgNode (n\<lparr>nxt := b\<rparr>)) s) e"
  by (simp add: set_next_def bind_def)

text \<open>The loop stops at the last node of the longest run with property \<open>P\<close> behind the head.\<close>

lemma seek_run:
  assumes "plist (phys s) a (x # xs)"
  shows "loopK (seek_body P) a s e = Ok (fst (last (x # takeWhile (P \<circ> snd) xs))) s e"
  using assms
proof (induction xs arbitrary: a x)
  case Nil
  then have "seek_body P a s e = Ok (Inr (fst x)) s e" by (auto simp: seek_body_def bind_def)
  then show ?case by (simp add: loopK_done)
next
  case (Cons y ys)
  then obtain b where b: "a = fst x" "a \<noteq> 0" "phys s a = PgNode \<lparr>task = snd x, nxt = b\<rparr>"
    and ys: "plist (phys s) b (y # ys)" by auto
  then obtain d where d: "b = fst y" "b \<noteq> 0" "phys s b = PgNode \<lparr>task = snd y, nxt = d\<rparr>" by auto
  show ?case
  proof (cases "P (snd y)")
    case True
    with b d have "seek_body P a s e = Ok (Inl b) s e" by (simp add: seek_body_def bind_def)
    then have "loopK (seek_body P) a s e = loopK (seek_body P) b s e" by (rule loopK_step)
    with Cons.IH [OF ys] True show ?thesis by simp
  next
    case False
    with b d have "seek_body P a s e = Ok (Inr a) s e" by (simp add: seek_body_def bind_def)
    with False b(1) show ?thesis by (simp add: loopK_done)
  qed
qed

lemma link_after_run:
  assumes pl: "plist (phys s) head (x # xs)" and dist: "distinct (map fst (x # xs))"
    and new: "new \<notin> fst ` set (x # xs)" "new \<noteq> 0" "phys s new = PgNode \<lparr>task = t, nxt = z\<rparr>"
  shows "\<exists>u. link_after P head new s e = Ok () u e \<and> u = s\<lparr>phys := phys u\<rparr> \<and>
    plist (phys u) head (x # takeWhile (P \<circ> snd) xs @ (new, t) # dropWhile (P \<circ> snd) xs) \<and>
    (\<forall>b. b \<noteq> new \<longrightarrow> b \<notin> fst ` set (x # xs) \<longrightarrow> phys u b = phys s b)"
proof -
  let ?pre = "x # takeWhile (P \<circ> snd) xs" and ?vs = "dropWhile (P \<circ> snd) xs"
  obtain us y where pre: "?pre = us @ [y]" by (metis list.discI rev_exhaust)
  then have last: "last ?pre = y" by simp
  have "x # xs = ?pre @ ?vs" by simp
  then have eq: "x # xs = us @ y # ?vs" unfolding pre by simp
  have y: "fst y \<in> fst ` set (x # xs)" unfolding eq by simp
  then have ne: "fst y \<noteq> new" using new(1) by metis
  note mid = plist_mid [OF pl [unfolded eq]]
  let ?n = "case ?vs of [] \<Rightarrow> 0 | v # _ \<Rightarrow> fst v"
  let ?u = "set_page (fst y) (PgNode \<lparr>task = snd y, nxt = new\<rparr>) (set_page new (PgNode \<lparr>task = t, nxt = ?n\<rparr>) s)"
  have run: "link_after P head new s e = Ok () ?u e"
    using mid new(2,3) ne
    by (simp add: link_after_def bind_def seq_def seek_run [OF pl] last del: last.simps)
  have "plist (phys ?u) head (us @ y # (new, t) # ?vs)"
  proof (rule plist_insert [OF pl [unfolded eq] dist [unfolded eq]])
    show "new \<notin> fst ` set (us @ y # ?vs)" using new(1) unfolding eq .
  qed (use new ne in auto)
  moreover have "us @ y # (new, t) # ?vs = x # takeWhile (P \<circ> snd) xs @ (new, t) # ?vs"
    using arg_cong [OF pre, of "\<lambda>l. l @ (new, t) # ?vs"] by simp
  ultimately have "plist (phys ?u) head (x # takeWhile (P \<circ> snd) xs @ (new, t) # ?vs)"
    by (simp only:)
  moreover have "\<forall>b. b \<noteq> new \<longrightarrow> b \<notin> fst ` set (x # xs) \<longrightarrow> phys ?u b = phys s b"
    using y by auto
  moreover have "?u = s\<lparr>phys := phys ?u\<rparr>" by simp
  ultimately show ?thesis using run by blast
qed

text \<open>
  A state with a list of nodes: the nodes \<open>xs\<close> from \<open>h\<close>, on pages of the allocator that are in
  use, and \<open>fs\<close> the free pages.
\<close>

definition pq_rep :: "kernel \<Rightarrow> addr \<Rightarrow> (addr \<times> task_t) list \<Rightarrow> addr list \<Rightarrow> bool" where
  "pq_rep s h xs fs \<longleftrightarrow> plist (phys s) h xs \<and> distinct (map fst xs) \<and> free_pages s fs \<and>
     (\<forall>x \<in> fst ` set xs. allocatable s x \<and> x \<notin> set fs)"

lemma pq_rep_cong:
  assumes "pq_rep s h xs fs" and "phys t = phys s" and "freelist t = freelist s" and "syms t = syms s"
  shows "pq_rep t h xs fs"
  using assms by (simp add: pq_rep_def free_pages_def allocatable_def)

definition places :: "(task_t \<Rightarrow> bool) \<Rightarrow> task_t \<Rightarrow> addr \<Rightarrow> (addr \<times> task_t) list \<Rightarrow> (addr \<times> task_t) list" where
  "places P t c xs = (case xs of [] \<Rightarrow> [(c, t)]
     | x # ys \<Rightarrow> if prio t > prio (snd x) then (c, t) # xs
         else x # takeWhile (P \<circ> snd) ys @ (c, t) # dropWhile (P \<circ> snd) ys)"

lemma places_snd: "map snd (places P t c xs) = head_ins P t (map snd xs)"
  by (cases xs) (auto simp: places_def ins_past_def takeWhile_map dropWhile_map)

lemma places_fst: "mset (map fst (places P t c xs)) = add_mset c (mset (map fst xs))"
proof (cases xs)
  case (Cons x ys)
  have "mset (map fst (takeWhile (P \<circ> snd) ys)) + mset (map fst (dropWhile (P \<circ> snd) ys)) = mset (map fst ys)"
    by (metis map_append mset_append takeWhile_dropWhile_id)
  with Cons show ?thesis by (simp add: places_def)
qed (simp add: places_def)

lemma places_facts:
  "fst ` set (places P t c xs) = insert c (fst ` set xs)"
  "distinct (map fst (places P t c xs)) \<longleftrightarrow> c \<notin> fst ` set xs \<and> distinct (map fst xs)"
proof -
  have "set_mset (mset (map fst (places P t c xs))) = insert c (fst ` set xs)"
    unfolding places_fst by simp
  then show "fst ` set (places P t c xs) = insert c (fst ` set xs)" by simp
  have "distinct (map fst (places P t c xs)) \<longleftrightarrow> distinct (c # map fst xs)"
    using places_fst [of P t c xs] by (intro mset_eq_imp_distinct_iff) simp
  then show "distinct (map fst (places P t c xs)) \<longleftrightarrow> c \<notin> fst ` set xs \<and> distinct (map fst xs)" by simp
qed

lemma insert_node_run:
  assumes pl: "plist (phys s) h xs" and dist: "distinct (map fst xs)"
    and c: "c \<notin> fst ` set xs" "c \<noteq> 0" "phys s c = PgNode \<lparr>task = t, nxt = z\<rparr>"
  shows "\<exists>u h'. insert_node P h c t s e = Ok h' u e \<and> u = s\<lparr>phys := phys u\<rparr> \<and>
    plist (phys u) h' (places P t c xs) \<and>
    (\<forall>b. b \<noteq> c \<longrightarrow> b \<notin> fst ` set xs \<longrightarrow> phys u b = phys s b)"
proof -
  let ?f = "set_page c (PgNode \<lparr>task = t, nxt = h\<rparr>) s"
  have front: "plist (phys ?f) c ((c, t) # xs)" using pl c(1,2) by simp
  have rest: "?f = s\<lparr>phys := phys ?f\<rparr>" "\<forall>b. b \<noteq> c \<longrightarrow> b \<notin> fst ` set xs \<longrightarrow> phys ?f b = phys s b"
    by auto
  show ?thesis
  proof (cases xs)
    case Nil
    then have "insert_node P h c t s e = Ok c ?f e"
      using pl c(2,3) by (simp add: insert_node_def bind_def seq_def)
    moreover have "places P t c xs = (c, t) # xs" using Nil by (simp add: places_def)
    ultimately show ?thesis using front rest by metis
  next
    case (Cons x ys)
    with pl obtain b where b: "h = fst x" "h \<noteq> 0" "phys s h = PgNode \<lparr>task = snd x, nxt = b\<rparr>" by auto
    show ?thesis
    proof (cases "prio t > prio (snd x)")
      case True
      then have "insert_node P h c t s e = Ok c ?f e"
        using b c(2,3) by (simp add: insert_node_def bind_def seq_def)
      moreover have "places P t c xs = (c, t) # xs" using Cons True by (simp add: places_def)
      ultimately show ?thesis using front rest by metis
    next
      case False
      obtain u where u: "link_after P h c s e = Ok () u e" "u = s\<lparr>phys := phys u\<rparr>"
        "plist (phys u) h (x # takeWhile (P \<circ> snd) ys @ (c, t) # dropWhile (P \<circ> snd) ys)"
        "\<forall>b. b \<noteq> c \<longrightarrow> b \<notin> fst ` set (x # ys) \<longrightarrow> phys u b = phys s b"
        using link_after_run [OF pl [unfolded Cons] dist [unfolded Cons] c(1) [unfolded Cons] c(2,3)] by blast
      then have "insert_node P h c t s e = Ok h u e"
        using b False by (simp add: insert_node_def bind_def seq_def)
      moreover have "places P t c xs = x # takeWhile (P \<circ> snd) ys @ (c, t) # dropWhile (P \<circ> snd) ys"
        using Cons False by (simp add: places_def)
      ultimately show ?thesis using u Cons by metis
    qed
  qed
qed

lemma mem_only: "u = s\<lparr>freelist := f, phys := p\<rparr> \<Longrightarrow> u = s\<lparr>freelist := freelist u, phys := phys u\<rparr>"
  for u s :: kernel
  by simp

text \<open>\<^verbatim>\<open>pq_insert\<close> refines \<open>rt_ins\<close>; with no page left it does nothing.\<close>

lemma pq_insert_full:
  assumes "free_pages s []" and "lk_avail LkKmem (lkst s)"
  shows "pq_insert h t s e = Ok h s e"
  using assms kalloc_st_empty [OF assms(1)] by (simp add: pq_insert_def bind_def kalloc_run)

lemma new_node_rep:
  fixes t :: task_t
  assumes rep: "pq_rep s h xs (c # cs)" and "lk_avail LkKmem (lkst s)"
  defines "v \<equiv> set_page c (PgNode \<lparr>task = t, nxt = 0\<rparr>) (kalloc_st s)"
  shows "kalloc s e = Ok c (kalloc_st s) e" and "c \<noteq> 0" and "c \<notin> fst ` set xs" and "allocatable s c"
    and "plist (phys v) h xs" and "free_pages v cs" and "lkst v = lkst s" and "allocatable v = allocatable s"
    and "phys v = (phys s)(c := PgNode \<lparr>task = t, nxt = 0\<rparr>)" and "c \<notin> set cs"
    and "v = s\<lparr>freelist := freelist v, phys := phys v\<rparr>"
proof -
  have fp: "free_pages s (c # cs)" using rep by (simp add: pq_rep_def)
  note k = kalloc_st_cons [OF fp]
  show "kalloc s e = Ok c (kalloc_st s) e" using kalloc_run [OF fp assms(2)] k(1) by simp
  show "c \<noteq> 0" using k(2) by (simp add: allocatable_def)
  show c: "c \<notin> fst ` set xs" using rep by (auto simp: pq_rep_def)
  show "allocatable s c" by (rule k(2))
  show ph: "phys v = (phys s)(c := PgNode \<lparr>task = t, nxt = 0\<rparr>)" by (simp add: v_def k(4))
  show "plist (phys v) h xs" unfolding ph using rep c by (simp add: pq_rep_def)
  show "c \<notin> set cs" by (rule k(6))
  then show "free_pages v cs" unfolding v_def by (rule free_pages_set_page [OF k(3)])
  show "lkst v = lkst s" by (simp add: v_def)
  show "allocatable v = allocatable s" by (rule allocatable_cong) (simp add: v_def)
  show "v = s\<lparr>freelist := freelist v, phys := phys v\<rparr>"
    unfolding v_def by (subst (1) kalloc_st_only) simp
qed

lemma rep_after_insert:
  assumes rep: "pq_rep s h xs (c # cs)" and c: "c \<notin> fst ` set xs" "allocatable s c" "c \<notin> set cs"
    and v: "free_pages v cs" "allocatable v = allocatable s"
    and u: "u = v\<lparr>phys := phys u\<rparr>" "plist (phys u) h' (places P t c xs)"
      "\<forall>b. b \<noteq> c \<longrightarrow> b \<notin> fst ` set xs \<longrightarrow> phys u b = phys v b"
  shows "pq_rep u h' (places P t c xs) cs"
proof -
  have su: "syms u = syms v" "freelist u = freelist v" by (subst u(1), simp)+
  have "allocatable u = allocatable s"
    using allocatable_cong [OF su(1)] v(2) by simp
  moreover have "free_pages u cs"
  proof (rule free_pages_cong [OF v(1) su])
    fix x assume "x \<in> set cs"
    then have "x \<noteq> c" "x \<notin> fst ` set xs" using c(3) rep by (auto simp: pq_rep_def)
    then show "phys u x = phys v x" using u(3) by blast
  qed
  ultimately show ?thesis
    using rep c u(2) unfolding pq_rep_def places_facts by auto
qed

lemma pq_insert_run:
  assumes rep: "pq_rep s h xs (c # cs)" and av: "lk_avail LkKmem (lkst s)"
  shows "\<exists>h' u ys. pq_insert h t s e = Ok h' u e \<and> pq_rep u h' ys cs \<and>
    map snd ys = rt_ins t (map snd xs) \<and> fst ` set ys = insert c (fst ` set xs) \<and>
    u = s\<lparr>freelist := freelist u, phys := phys u\<rparr> \<and>
    (\<forall>b. b \<noteq> c \<longrightarrow> b \<notin> fst ` set xs \<longrightarrow> phys u b = phys s b)"
proof -
  let ?P = "\<lambda>u. prio u > prio t"
  let ?v = "set_page c (PgNode \<lparr>task = t, nxt = 0\<rparr>) (kalloc_st s)"
  note n = new_node_rep(1-4,10) [OF rep av]
  note v = new_node_rep(5-9,11) [OF rep av, of t]
  obtain u h' where u: "insert_node ?P h c t ?v e = Ok h' u e" "u = ?v\<lparr>phys := phys u\<rparr>"
    "plist (phys u) h' (places ?P t c xs)"
    "\<forall>b. b \<noteq> c \<longrightarrow> b \<notin> fst ` set xs \<longrightarrow> phys u b = phys ?v b"
    using insert_node_run [OF v(1) _ n(3,2), of t 0 ?P e] rep v(5) by (auto simp: pq_rep_def)
  have "pq_insert h t s e = Ok h' u e"
    using n(1,2) u(1) by (simp add: pq_insert_def bind_def seq_def)
  moreover have "pq_rep u h' (places ?P t c xs) cs"
    by (rule rep_after_insert [OF rep n(3,4,5) v(2,4) u(2-4)])
  moreover have "u = s\<lparr>freelist := freelist u, phys := phys u\<rparr>"
  proof -
    have "u = (s\<lparr>freelist := freelist ?v, phys := phys ?v\<rparr>)\<lparr>phys := phys u\<rparr>"
      unfolding v(6) [symmetric] by (rule u(2))
    then have "u = s\<lparr>freelist := freelist ?v, phys := phys u\<rparr>" by simp
    then show ?thesis by (rule mem_only)
  qed
  moreover have "\<forall>b. b \<noteq> c \<longrightarrow> b \<notin> fst ` set xs \<longrightarrow> phys u b = phys s b"
    using u(4) v(5) by simp
  ultimately show ?thesis
    using places_snd [of ?P t c xs] places_facts(1) [of ?P t c xs] unfolding rt_ins_def by blast
qed

text \<open>\<^verbatim>\<open>pq_remove\<close> takes the head off and frees its page.\<close>

lemma pq_remove_run:
  assumes rep: "pq_rep s h (x # xs) fs" and av: "lk_avail LkKmem (lkst s)"
  shows "\<exists>h'. pq_remove h s e = Ok (snd x, h') (kfree_st h s) e \<and> pq_rep (kfree_st h s) h' xs (h # fs)"
proof -
  obtain b where b: "h = fst x" "h \<noteq> 0" "phys s h = PgNode \<lparr>task = snd x, nxt = b\<rparr>" "plist (phys s) b xs"
    using rep by (auto simp: pq_rep_def)
  have al: "allocatable s h" and hf: "h \<notin> set fs" using rep b(1) by (auto simp: pq_rep_def)
  have "pq_remove h s e = Ok (snd x, b) (kfree_st h s) e"
    using b(2,3) by (simp add: pq_remove_def bind_def seq_def kfree_run [OF al av])
  moreover have "pq_rep (kfree_st h s) b xs (h # fs)"
  proof -
    have "h \<notin> fst ` set xs" using rep b(1) by (simp add: pq_rep_def)
    then have "plist (phys (kfree_st h s)) b xs" using b(4) by (simp add: kfree_st_def)
    moreover have "free_pages (kfree_st h s) (h # fs)"
      using rep by (intro kfree_st_pages al hf) (simp add: pq_rep_def)
    moreover have "allocatable (kfree_st h s) y \<and> y \<notin> set (h # fs)" if "y \<in> fst ` set xs" for y
      using rep that \<open>h \<notin> fst ` set xs\<close> unfolding pq_rep_def allocatable_st by (metis image_insert
        insert_iff list.set(2))
    ultimately show ?thesis
      using rep unfolding pq_rep_def by simp
  qed
  ultimately show ?thesis by blast
qed

section \<open>The stand-alone queue\<close>

lemma pqueue_push_run:
  assumes rep: "pq_rep s (q_head pq) xs (c # cs)" and av: "lk_avail LkKmem (lkst s)"
    and l: "q_lock pq = Some l" "lk_avail l (lkst s)"
  shows "\<exists>h' u ys. pqueue_push pq t s e = Ok (0, pq\<lparr>q_head := h'\<rparr>) u e \<and> pq_rep u h' ys cs \<and>
    map snd ys = pq_ins t (map snd xs) \<and> u = s\<lparr>freelist := freelist u, phys := phys u\<rparr>"
proof -
  let ?P = "\<lambda>u. prio u \<ge> prio t"
  let ?v = "set_page c (PgNode \<lparr>task = t, nxt = 0\<rparr>) (kalloc_st s)"
  let ?w = "?v\<lparr>lkst := enter l (lkst s)\<rparr>"
  note n = new_node_rep(1-4,10) [OF rep av]
  note v = new_node_rep(5-9,11) [OF rep av, of t]
  have w: "phys ?w = phys ?v" "plist (phys ?w) (q_head pq) xs" "phys ?w c = PgNode \<lparr>task = t, nxt = 0\<rparr>"
    using v(1,5) by simp_all
  obtain u h' where u: "insert_node ?P (q_head pq) c t ?w e = Ok h' u e" "u = ?w\<lparr>phys := phys u\<rparr>"
    "plist (phys u) h' (places ?P t c xs)"
    "\<forall>b. b \<noteq> c \<longrightarrow> b \<notin> fst ` set xs \<longrightarrow> phys u b = phys ?w b"
    using insert_node_run [OF w(2) _ n(3,2) w(3), of ?P e] rep by (auto simp: pq_rep_def)
  let ?u = "u\<lparr>lkst := lkst s\<rparr>"
  have lu: "lkst u = enter l (lkst s)" by (subst u(2)) simp
  have "pqueue_push pq t s e = Ok (0, pq\<lparr>q_head := h'\<rparr>) ?u e"
    using n(1,2) u(1) l lu
    by (simp add: pqueue_push_def bind_def seq_def acquire_ptr_def release_ptr_def ksimps)
  moreover have "pq_rep ?u h' (places ?P t c xs) cs"
  proof (rule rep_after_insert [OF rep n(3,4,5) v(2,4)])
    have "?u = (?w\<lparr>phys := phys u\<rparr>)\<lparr>lkst := lkst s\<rparr>" by (subst (1) u(2)) simp
    then show "?u = ?v\<lparr>phys := phys ?u\<rparr>" by simp
  qed (use u(3,4) in simp_all)
  moreover have "?u = s\<lparr>freelist := freelist ?u, phys := phys ?u\<rparr>"
  proof -
    have "?u = (?w\<lparr>phys := phys u\<rparr>)\<lparr>lkst := lkst s\<rparr>" by (subst (1) u(2)) simp
    also have "\<dots> = ?v\<lparr>phys := phys u\<rparr>" by simp
    finally have "?u = (s\<lparr>freelist := freelist ?v, phys := phys ?v\<rparr>)\<lparr>phys := phys u\<rparr>"
      unfolding v(6) [symmetric] .
    then have "?u = s\<lparr>freelist := freelist ?v, phys := phys u\<rparr>" by simp
    then show ?thesis by (rule mem_only)
  qed
  ultimately show ?thesis
    using places_snd [of ?P t c xs] unfolding pq_ins_def by blast
qed

lemma pqueue_pop_run:
  assumes rep: "pq_rep s (q_head pq) (x # xs) fs" and av: "lk_avail LkKmem (lkst s)"
    and l: "q_lock pq = Some l" "l \<noteq> LkKmem" "lk_avail l (lkst s)"
  shows "\<exists>h'. pqueue_pop pq s e = Ok (q_head pq, pq\<lparr>q_head := h'\<rparr>) (kfree_st (q_head pq) s) e \<and>
    pq_rep (kfree_st (q_head pq) s) h' xs (q_head pq # fs)"
proof -
  let ?w = "s\<lparr>lkst := enter l (lkst s)\<rparr>"
  obtain b where b: "q_head pq = fst x" "q_head pq \<noteq> 0"
    "phys s (q_head pq) = PgNode \<lparr>task = snd x, nxt = b\<rparr>"
    using rep by (auto simp: pq_rep_def)
  obtain h' where h': "pq_remove (q_head pq) s e = Ok (snd x, h') (kfree_st (q_head pq) s) e"
    "pq_rep (kfree_st (q_head pq) s) h' xs (q_head pq # fs)"
    using pq_remove_run [OF rep av] by blast
  have al: "allocatable s (q_head pq)" using rep b(1) by (auto simp: pq_rep_def)
  then have "h' = b" using h'(1) b(2,3) by (simp add: pq_remove_def bind_def seq_def kfree_run [OF al av])
  have "allocatable ?w (q_head pq)" using al by (simp add: allocatable_def)
  moreover have "lk_avail LkKmem (lkst ?w)"
    using l av by (auto simp: lk_avail_def)
  ultimately have "kfree (q_head pq) ?w e = Ok () (kfree_st (q_head pq) ?w) e" by (rule kfree_run)
  moreover have "(kfree_st (q_head pq) ?w)\<lparr>lkst := lkst s\<rparr> = kfree_st (q_head pq) s"
    by (simp add: kfree_st_def)
  ultimately have "pqueue_pop pq s e = Ok (q_head pq, pq\<lparr>q_head := b\<rparr>) (kfree_st (q_head pq) s) e"
    using b l by (simp add: pqueue_pop_def bind_def seq_def acquire_ptr_def release_ptr_def ksimps)
  with h'(2) \<open>h' = b\<close> show ?thesis by blast
qed

section \<open>Properties\<close>

lemma sample_pq: "pq_rep sample 0 [] [0x80200000, 0x80201000, 0x80202000, 0x80203000]"
  using sample_free by (simp add: pq_rep_def)

text \<open>
  C14. \<^verbatim>\<open>pq_insert\<close> implements the list insertion \<open>rt_ins\<close>: it takes one page off the free list for
  the new node and links it so that the tasks along the list are those of \<open>rt_ins\<close>; nodes and free
  pages stay apart, and no other memory changes. With no free page the list is left as it was and
  the task is dropped without any sign of it.
\<close>

theorem pq_insert_refines:
  fixes s :: kernel
  assumes "pq_rep s h xs fs" and "lk_avail LkKmem (lkst s)"
  shows "case fs of [] \<Rightarrow> pq_insert h t s e = Ok h s e
    | c # cs \<Rightarrow> \<exists>h' u ys. pq_insert h t s e = Ok h' u e \<and> pq_rep u h' ys cs \<and>
        map snd ys = rt_ins t (map snd xs) \<and>
        (\<forall>b. b \<noteq> c \<longrightarrow> b \<notin> fst ` set xs \<longrightarrow> phys u b = phys s b)"
proof (cases fs)
  case Nil
  then show ?thesis using assms by (simp add: pq_insert_full pq_rep_def)
next
  case (Cons c cs)
  show ?thesis
    unfolding Cons list.case using pq_insert_run [OF assms(1) [unfolded Cons] assms(2), of t e] by blast
qed

theorem pq_insert_refines_witness:
  "\<exists>h' u ys. pq_insert 0 zero_task sample [] = Ok h' u [] \<and> map snd ys = [zero_task] \<and>
     pq_rep u h' ys [0x80201000, 0x80202000, 0x80203000]"
proof -
  have "rt_ins zero_task (map snd []) = [zero_task]" by (simp add: rt_ins_def)
  moreover have "lk_avail LkKmem (lkst sample)" by simp
  ultimately show ?thesis
    using pq_insert_refines [OF sample_pq, of zero_task "[]"] unfolding list.case by metis
qed

text \<open>
  C15. \<^verbatim>\<open>pq_remove\<close> returns the first task of the list, gives the list without it, and frees its
  page; on an empty list it returns an all-zero task and changes nothing.
\<close>

theorem pq_remove_first:
  fixes s :: kernel
  assumes "pq_rep s h xs fs" and "lk_avail LkKmem (lkst s)"
  shows "case xs of [] \<Rightarrow> pq_remove h s e = Ok (zero_task, 0) s e
    | x # ys \<Rightarrow> \<exists>h' u. pq_remove h s e = Ok (snd x, h') u e \<and> pq_rep u h' ys (fst x # fs)"
proof (cases xs)
  case Nil
  then show ?thesis using assms(1) by (simp add: pq_rep_def pq_remove_def)
next
  case (Cons x ys)
  moreover have "h = fst x" using assms(1) Cons by (simp add: pq_rep_def)
  ultimately show ?thesis using pq_remove_run [OF assms(1) [unfolded Cons] assms(2), of e] by auto
qed

definition one_task :: kernel where
  "one_task = sample\<lparr>phys := sample_phys(0x80106000 := PgNode \<lparr>task = zero_task\<lparr>priority := 5\<rparr>, nxt = 0\<rparr>)\<rparr>"

lemma one_task_rep:
  "pq_rep one_task 0x80106000 [(0x80106000, zero_task\<lparr>priority := 5\<rparr>)]
     [0x80200000, 0x80201000, 0x80202000, 0x80203000]"
proof -
  have "free_pages one_task [0x80200000, 0x80201000, 0x80202000, 0x80203000]"
    by (rule free_pages_cong [OF sample_free]) (auto simp: one_task_def)
  moreover have "allocatable one_task 0x80106000"
    by (simp add: allocatable_def one_task_def sample_syms_def PGSIZE_def PHYSTOP_def KERNBASE_def)
  ultimately show ?thesis by (simp add: pq_rep_def) (simp add: one_task_def)
qed

theorem pq_remove_first_witness:
  "\<exists>h' u. pq_remove 0x80106000 one_task [] = Ok (zero_task\<lparr>priority := 5\<rparr>, h') u []"
  using pq_remove_first [OF one_task_rep, of "[]"] by (auto simp: one_task_def)






text \<open>
  C19. A queue set up by \<^verbatim>\<open>pqueue_init\<close> cannot be used: its lock pointer is null, so \<^verbatim>\<open>pqueue_push\<close>,
  \<^verbatim>\<open>pqueue_pop\<close> and \<^verbatim>\<open>pqueue_empty\<close> all follow a null pointer.
\<close>

theorem pqueue_init_unusable:
  fixes s :: kernel
  assumes "free_pages s fs" and "lk_avail LkKmem (lkst s)"
  shows "pqueue_push (pqueue_init pq) t s e = Stop Fault \<and> pqueue_pop (pqueue_init pq) s e = Stop Fault \<and>
    pqueue_empty (pqueue_init pq) s e = Stop Fault"
proof -
  have "pqueue_push (pqueue_init pq) t s e = Stop Fault"
    using kalloc_run [OF assms, of e]
    by (cases "freelist s = 0")
       (simp_all add: pqueue_push_def pqueue_init_def bind_def seq_def put_node_def acquire_ptr_def)
  then show ?thesis
    by (simp add: pqueue_pop_def pqueue_empty_def pqueue_init_def bind_def seq_def acquire_ptr_def)
qed

theorem pqueue_init_unusable_witness:
  "pqueue_push (pqueue_init \<lparr>q_head = 0, q_lock = Some LkPr\<rparr>) zero_task sample [] = Stop Fault"
  using pqueue_init_unusable [OF sample_free] by simp

end
