(* ===== verification/PipeRt.thy ===== *)
theory PipeRt
  imports Pqueue Bytes
begin

text \<open>
  The priority pipes of \<^verbatim>\<open>proj2/kernel/pipe_rt.c\<close>: writing inserts a task into the pipe's priority
  list, reading waits for a task and takes the first. (Creating one needs the file table and is
  in \<^verbatim>\<open>FileOps\<close>.)

  A \<^verbatim>\<open>struct task_t\<close> crosses the user boundary as its 40 bytes; \<open>task_bytes\<close> is its layout:
  \<^verbatim>\<open>priority\<close> at 0, \<^verbatim>\<open>pid\<close> at 4, \<^verbatim>\<open>x\<close> at 8, \<^verbatim>\<open>y\<close> at 12, \<^verbatim>\<open>op\<close> at 16, padding, \<^verbatim>\<open>result\<close> at 24 and
  \<^verbatim>\<open>error\<close> at 32.
\<close>

section \<open>The layout of a task\<close>

definition task_bytes :: "task_t \<Rightarrow> uchar list" where
  "task_bytes t = le_bytes 4 (priority t) @ le_bytes 4 (t_pid t) @ le_bytes 4 (t_x t) @
     le_bytes 4 (t_y t) @ [t_op t] @ t_pad t @ le_bytes 8 (t_result t) @ le_bytes 8 (t_error t)"

definition bytes_task :: "uchar list \<Rightarrow> task_t" where
  "bytes_task bs = \<lparr>priority = le_word (take 4 bs), t_pid = le_word (take 4 (drop 4 bs)),
     t_x = le_word (take 4 (drop 8 bs)), t_y = le_word (take 4 (drop 12 bs)), t_op = bs ! 16,
     t_pad = take 7 (drop 17 bs), t_result = le_word (take 8 (drop 24 bs)),
     t_error = le_word (take 8 (drop 32 bs))\<rparr>"

lemma bytes_task_bytes: "length (t_pad t) = 7 \<Longrightarrow> bytes_task (task_bytes t) = t"
  by (simp add: bytes_task_def task_bytes_def nth_append)

lemma length_task_bytes: "length (t_pad t) = 7 \<Longrightarrow> length (task_bytes t) = 40"
  by (simp add: task_bytes_def)

lemma le_bytes_take:
  "length bs = k \<Longrightarrow> 8 * k \<le> LENGTH('a::len) \<Longrightarrow> le_bytes k (le_word bs :: 'a word) = bs"
  using le_bytes_word [of bs] by blast

lemma task_bytes_task:
  assumes "length bs = 40"
  shows "task_bytes (bytes_task bs) = bs" and "length (t_pad (bytes_task bs)) = 7"
proof -
  have cut: "drop n bs = take k (drop n bs) @ drop (n + k) bs" for n k
    by (metis add.commute append_take_drop_id drop_drop)
  have "bs = take 4 bs @ take 4 (drop 4 bs) @ take 4 (drop 8 bs) @ take 4 (drop 12 bs) @
      [bs ! 16] @ take 7 (drop 17 bs) @ take 8 (drop 24 bs) @ take 8 (drop 32 bs)"
    using cut [of 0 4] cut [of 4 4] cut [of 8 4] cut [of 12 4] Cons_nth_drop_Suc [of 16 bs]
      cut [of 17 7] cut [of 24 8] cut [of 32 8] assms by simp
  from arg_cong [OF this, of "\<lambda>l. l"] show "task_bytes (bytes_task bs) = bs"
    using assms by (simp add: task_bytes_def bytes_task_def le_bytes_take)
  show "length (t_pad (bytes_task bs)) = 7" using assms by (simp add: bytes_task_def)
qed

section \<open>The operations\<close>

definition as_rt :: "page \<Rightarrow> pipe_rt option" where
  "as_rt pg = (case pg of PgPipeRt r \<Rightarrow> Some r | _ \<Rightarrow> None)"

definition rt_at :: "addr \<Rightarrow> pipe_rt kop" where
  "rt_at p = (if p = 0 then fault else bind (gets (\<lambda>s. as_rt (phys s p))) need)"

definition upd_rt :: "addr \<Rightarrow> (pipe_rt \<Rightarrow> pipe_rt) \<Rightarrow> unit kop" where
  "upd_rt p f = bind (rt_at p) (\<lambda>r. modify (set_page p (PgPipeRt (f r))))"

definition rt_drain_body :: "addr \<Rightarrow> unit \<Rightarrow> (unit + unit) kop" where
  "rt_drain_body p u =
     bind (rt_at p) (\<lambda>r.
     if pr_head r \<noteq> 0 then
       bind (pq_remove (pr_head r)) (\<lambda>(t, h).
       seq (upd_rt p (\<lambda>r. r\<lparr>pr_head := h\<rparr>)) (
       ret (Inl ())))
     else ret (Inr ()))"

definition pipe_rt_close :: "addr \<Rightarrow> bool \<Rightarrow> unit kop" where
  "pipe_rt_close p writable =
     seq (acquire (LkPipeRt p)) (
     seq (if writable then
            seq (upd_rt p (\<lambda>r. r\<lparr>pr_nwrite := pr_nwrite r - 1\<rparr>)) (
            wakeup (ChPipeRtRead p))
          else upd_rt p (\<lambda>r. r\<lparr>pr_nread := pr_nread r - 1\<rparr>)) (
     bind (rt_at p) (\<lambda>r.
     seq (whenK (pr_nwrite r = 0 \<and> pr_nread r = 0) (
            seq (loopK (rt_drain_body p) ()) (
            upd_rt p (\<lambda>r. r\<lparr>pr_active := False\<rparr>)))) (
     release (LkPipeRt p)))))"

definition pipe_rt_write :: "addr \<Rightarrow> uint64 \<Rightarrow> cint \<Rightarrow> cint kop" where
  "pipe_rt_write p addr n =
     bind myproc (\<lambda>mp.
     seq (acquire (LkPipeRt p)) (
     bind (rt_at p) (\<lambda>r.
     if \<not> pr_active r \<or> pr_nread r \<le> 0 then
       seq (release (LkPipeRt p)) (ret (-1))
     else
       bind (need mp) (\<lambda>pr.
       bind (proc_at pr) (\<lambda>q.
       bind (copyin (p_pagetable q) addr 40) (\<lambda>(c, bs).
       if sint c < 0 then
         seq (release (LkPipeRt p)) (ret (-1))
       else
         let t = bytes_task bs in
         seq (kprintf ''Writing task with priority: %d\<newline>'' [PInt (priority t)]) (
         bind (rt_at p) (\<lambda>r.
         bind (pq_insert (pr_head r) t) (\<lambda>h.
         seq (upd_rt p (\<lambda>r. r\<lparr>pr_head := h\<rparr>)) (
         seq (wakeup (ChPipeRtRead p)) (
         seq (release (LkPipeRt p)) (
         ret 40))))))))))))"

definition rt_wait_body :: "addr \<Rightarrow> unit \<Rightarrow> (unit + unit) kop" where
  "rt_wait_body p u =
     bind (rt_at p) (\<lambda>r.
     if pr_head r = 0 \<and> pr_active r \<and> pr_nwrite r > 0 then
       seq (sleep (ChPipeRtRead p) (LkPipeRt p)) (ret (Inl ()))
     else ret (Inr ()))"

definition pipe_rt_read :: "addr \<Rightarrow> uint64 \<Rightarrow> cint \<Rightarrow> cint kop" where
  "pipe_rt_read p addr n =
     bind myproc (\<lambda>mp.
     seq (acquire (LkPipeRt p)) (
     seq (loopK (rt_wait_body p) ()) (
     bind (rt_at p) (\<lambda>r.
     if pr_head r = 0 then
       seq (release (LkPipeRt p)) (ret (-1))
     else
       bind (pq_remove (pr_head r)) (\<lambda>(t, h).
       seq (upd_rt p (\<lambda>r. r\<lparr>pr_head := h\<rparr>)) (
       seq (kprintf ''Debug: Reading task with priority %d\<newline>'' [PInt (priority t)]) (
       bind (need mp) (\<lambda>pr.
       bind (proc_at pr) (\<lambda>q.
       bind (copyout (p_pagetable q) addr (task_bytes t)) (\<lambda>c.
       if sint c < 0 then
         seq (release (LkPipeRt p)) (ret (-1))
       else
         seq (release (LkPipeRt p)) (
         ret 40)))))))))))"

section \<open>What the operations do\<close>

text \<open>A priority pipe at \<open>p\<close> with fields \<open>r\<close>, holding the nodes \<open>xs\<close>; \<open>fs\<close> are the free pages.\<close>

definition rt_rep :: "kernel \<Rightarrow> addr \<Rightarrow> pipe_rt \<Rightarrow> (addr \<times> task_t) list \<Rightarrow> addr list \<Rightarrow> bool" where
  "rt_rep s p r xs fs \<longleftrightarrow> p \<noteq> 0 \<and> phys s p = PgPipeRt r \<and> pq_rep s (pr_head r) xs fs"

lemma plist_pages: "plist m a xs \<Longrightarrow> x \<in> fst ` set xs \<Longrightarrow> \<exists>n. m x = PgNode n"
  by (induction xs arbitrary: a) auto

lemma chain_pages: "chain m a xs \<Longrightarrow> x \<in> set xs \<Longrightarrow> \<exists>n. m x = PgRun n"
  by (induction xs arbitrary: a) auto

text \<open>The pipe's own page is neither a node nor free.\<close>

lemma rt_rep_apart:
  assumes "rt_rep s p r xs fs"
  shows "p \<notin> fst ` set xs" and "p \<notin> set fs"
proof -
  have ph: "phys s p = PgPipeRt r" "plist (phys s) (pr_head r) xs" "chain (phys s) (freelist s) fs"
    using assms by (simp_all add: rt_rep_def pq_rep_def free_pages_def)
  show "p \<notin> fst ` set xs" using plist_pages [OF ph(2), of p] ph(1) by auto
  show "p \<notin> set fs" using chain_pages [OF ph(3), of p] ph(1) by auto
qed

lemma pq_rep_set_page:
  assumes "pq_rep s h xs fs" and "p \<notin> fst ` set xs" and "p \<notin> set fs"
  shows "pq_rep (set_page p pg s) h xs fs"
  using assms free_pages_set_page [of s fs p pg]
  by (simp add: pq_rep_def allocatable_cong [of "set_page p pg s" s])

lemma rt_at_run [simp]: "p \<noteq> 0 \<Longrightarrow> phys s p = PgPipeRt r \<Longrightarrow> rt_at p s e = Ok r s e"
  by (simp add: rt_at_def bind_def as_rt_def)

lemma upd_rt_run [simp]:
  "p \<noteq> 0 \<Longrightarrow> phys s p = PgPipeRt r \<Longrightarrow> upd_rt p f s e = Ok () (set_page p (PgPipeRt (f r)) s) e"
  by (simp add: upd_rt_def bind_def)

text \<open>
  The lock state of a process that is about to use a pipe: it is current, the locks of the pipe, of
  the allocator and of all other processes are free.
\<close>

definition pipe_ready :: "kernel \<Rightarrow> nat \<Rightarrow> lockid \<Rightarrow> bool" where
  "pipe_ready s i k \<longleftrightarrow> cur (lkst s) = Some i \<and> lk_avail k (lkst s) \<and> lk_avail LkKmem (lkst s) \<and>
     others_free (lkst s) \<and> k \<noteq> LkKmem \<and> (\<forall>j. k \<noteq> LkProc j)"

lemma pipe_readyD:
  assumes "pipe_ready s i k"
  shows "cur (lkst s) = Some i" and "lk_avail k (lkst s)" and "irq_ok (lkst s)"
    and "lk_avail LkKmem (enter k (lkst s))" and "others_free (enter k (lkst s))"
    and "others_free (lkst s)"
  using assms by (auto simp: pipe_ready_def lk_avail_def others_free_enter)

text \<open>The state after a write: the new list, the readers woken, a line printed.\<close>

lemma pipe_rt_write_ok:
  fixes s :: kernel
  assumes rep: "rt_rep s p r xs (c # cs)" and ready: "pipe_ready s i (LkPipeRt p)"
    and open_ends: "pr_active r" "pr_nread r > 0"
    and user: "user_ok s (p_pagetable (procs s i))" "unat a + 40 < 2 ^ 64"
      "readable s (p_pagetable (procs s i)) a 40"
  shows "\<exists>u h ys. pipe_rt_write p a n s e = Ok 40 u e \<and> rt_rep u p (r\<lparr>pr_head := h\<rparr>) ys cs \<and>
    map snd ys = rt_ins (bytes_task (ubytes s (p_pagetable (procs s i)) a 40)) (map snd xs) \<and>
    procs u = procs (wakeup_st (ChPipeRtRead p) s) \<and> lkst u = lkst s \<and>
    (\<forall>b. b \<noteq> c \<longrightarrow> b \<noteq> p \<longrightarrow> b \<notin> fst ` set xs \<longrightarrow> phys u b = phys s b)"
proof -
  let ?pt = "p_pagetable (procs s i)"
  let ?t = "bytes_task (ubytes s ?pt a 40)"
  let ?k = "LkPipeRt p"
  let ?s1 = "s\<lparr>lkst := enter ?k (lkst s)\<rparr>"
  let ?s2 = "?s1\<lparr>kout := kout s @ [(''Writing task with priority: %d\<newline>'', [PInt (priority ?t)])]\<rparr>"
  note rd = pipe_readyD [OF ready]
  note ap = rt_rep_apart [OF rep]
  have p: "p \<noteq> 0" "phys s p = PgPipeRt r" using rep by (simp_all add: rt_rep_def)
  have same: "user_ok ?s1 ?pt" "user_byte ?s1 ?pt v = user_byte s ?pt v" for v
    using user_frame(1,4) [OF user(1), of ?s1] by auto
  have cin: "copyin ?pt a 40 ?s1 e = Ok (0, ubytes s ?pt a 40) ?s1 e"
    using copyin_run [OF same(1), of a 40 e] user(2,3) ubytes_frame [of ?s1 ?pt s a 40] same(2) by auto
  have rep2: "pq_rep ?s2 (pr_head r) xs (c # cs)"
    by (rule pq_rep_cong [of s]) (use rep in \<open>simp_all add: rt_rep_def\<close>)
  obtain h u ys where ins: "pq_insert (pr_head r) ?t ?s2 e = Ok h u e" "pq_rep u h ys cs"
    "map snd ys = rt_ins ?t (map snd xs)" "fst ` set ys = insert c (fst ` set xs)"
    "u = ?s2\<lparr>freelist := freelist u, phys := phys u\<rparr>"
    "\<forall>b. b \<noteq> c \<longrightarrow> b \<notin> fst ` set xs \<longrightarrow> phys u b = phys ?s2 b"
    using pq_insert_run [OF rep2, of ?t e] rd(4) by auto
  have uf: "lkst u = enter ?k (lkst s)" "procs u = procs s" by (subst ins(5), simp)+
  have pc: "p \<noteq> c" "p \<notin> set cs" using ap(2) by auto
  then have up: "phys u p = PgPipeRt r" using ins(6) ap(1) p(2) by auto
  let ?v = "set_page p (PgPipeRt (r\<lparr>pr_head := h\<rparr>)) u"
  let ?w = "(wakeup_st (ChPipeRtRead p) ?v)\<lparr>lkst := lkst s\<rparr>"
  have run: "pipe_rt_write p a n s e = Ok 40 ?w e"
    using rd p open_ends cin ins(1) up uf wakeup_run [of ?v "ChPipeRtRead p" e]
    by (simp add: pipe_rt_write_def bind_def seq_def ksimps Let_def)
  have rt: "rt_rep ?w p (r\<lparr>pr_head := h\<rparr>) ys cs"
  proof -
    have "p \<notin> fst ` set ys" using ins(4) ap(1) pc(1) by auto
    then have "pq_rep ?v h ys cs" using pq_rep_set_page [OF ins(2)] pc(2) by blast
    then have "pq_rep ?w h ys cs" by (rule pq_rep_cong) simp_all
    with p show ?thesis by (simp add: rt_rep_def)
  qed
  have pw: "procs ?w = procs (wakeup_st (ChPipeRtRead p) s)"
    using uf by (auto simp: wakeup_st_def fun_eq_iff)
  have "\<forall>b. b \<noteq> c \<longrightarrow> b \<noteq> p \<longrightarrow> b \<notin> fst ` set xs \<longrightarrow> phys ?w b = phys s b"
    using ins(6) by simp
  with run rt pw ins(3) show ?thesis
    by (intro exI [of _ ?w] exI [of _ h] exI [of _ ys]) simp
qed

lemma pipe_rt_write_refused:
  fixes s :: kernel
  assumes rep: "rt_rep s p r xs fs" and ready: "pipe_ready s i (LkPipeRt p)"
    and no: "\<not> pr_active r \<or> pr_nread r \<le> 0"
  shows "pipe_rt_write p a n s e = Ok (-1) s e"
  using rep no pipe_readyD [OF ready]
  by (auto simp: pipe_rt_write_def bind_def seq_def ksimps rt_rep_def)

lemma rt_wait_skips:
  assumes "p \<noteq> 0" and "phys s p = PgPipeRt r" and "\<not> (pr_head r = 0 \<and> pr_active r \<and> pr_nwrite r > 0)"
  shows "loopK (rt_wait_body p) () s e = Ok () s e"
proof -
  have "rt_wait_body p () s e = Ok (Inr ()) s e" using assms by (auto simp: rt_wait_body_def bind_def)
  then show ?thesis by (rule loopK_done)
qed

text \<open>Pages that are no user pages survive a copy to user memory.\<close>

lemma rt_rep_wrote:
  assumes rep: "rt_rep s p r xs fs" and ok: "user_ok s pt" and w: "wrote pt dst bs s t"
  shows "rt_rep t p r xs fs"
proof -
  have keep: "phys t b = phys s b" if "\<not> user_page (phys s b)" for b
    using w user_pa_page_typed [OF ok, of _ b] that unfolding wrote_def by blast
  have t: "t = s\<lparr>phys := phys t\<rparr>" using w by (simp add: wrote_def)
  have st: "syms t = syms s" "freelist t = freelist s" by (subst t, simp)+
  have pq: "plist (phys s) (pr_head r) xs" "free_pages s fs" "chain (phys s) (freelist s) fs"
    using rep by (simp_all add: rt_rep_def pq_rep_def free_pages_def)
  have "plist (phys t) (pr_head r) xs"
    by (rule plist_cong [OF pq(1)]) (use plist_pages [OF pq(1)] keep in fastforce)
  moreover have "free_pages t fs"
    by (rule free_pages_cong [OF pq(2) st]) (use chain_pages [OF pq(3)] keep in fastforce)
  moreover have "phys t p = phys s p" using rep by (intro keep) (simp add: rt_rep_def)
  ultimately show ?thesis
    using rep by (simp add: rt_rep_def pq_rep_def allocatable_cong [OF st(1)])
qed

lemma pipe_rt_read_takes:
  fixes s :: kernel
  assumes rep: "rt_rep s p r (x # xs) fs" and ready: "pipe_ready s i (LkPipeRt p)"
    and pad: "length (t_pad (snd x)) = 7"
    and user: "user_ok s (p_pagetable (procs s i))" "unat a + 40 < 2 ^ 64"
      "\<And>j. j < 40 \<Longrightarrow> user_writable s (p_pagetable (procs s i)) (a + of_nat j)"
  shows "\<exists>u h. pipe_rt_read p a n s e = Ok 40 u e \<and> rt_rep u p (r\<lparr>pr_head := h\<rparr>) xs (fst x # fs) \<and>
    ubytes u (p_pagetable (procs s i)) a 40 = task_bytes (snd x) \<and> procs u = procs s \<and> lkst u = lkst s \<and>
    readable u (p_pagetable (procs s i)) a 40"
proof -
  let ?pt = "p_pagetable (procs s i)"
  let ?k = "LkPipeRt p"
  let ?s1 = "s\<lparr>lkst := enter ?k (lkst s)\<rparr>"
  note rd = pipe_readyD [OF ready]
  note ap = rt_rep_apart [OF rep]
  have p: "p \<noteq> 0" "phys s p = PgPipeRt r" and q: "pq_rep s (pr_head r) (x # xs) fs"
    using rep by (simp_all add: rt_rep_def)
  then have hd: "pr_head r = fst x" "fst x \<noteq> 0" by (auto simp: pq_rep_def)
  have q1: "pq_rep ?s1 (pr_head r) (x # xs) fs" by (rule pq_rep_cong [OF q]) simp_all
  obtain h where rem: "pq_remove (pr_head r) ?s1 e = Ok (snd x, h) (kfree_st (pr_head r) ?s1) e"
    "pq_rep (kfree_st (pr_head r) ?s1) h xs (pr_head r # fs)"
    using pq_remove_run [OF q1, of e] rd(4) by auto
  let ?s2 = "kfree_st (pr_head r) ?s1"
  have ne: "p \<noteq> pr_head r" using ap(1) hd(1) by auto
  have p2: "phys ?s2 p = PgPipeRt r" using p ne by (simp add: kfree_st_def)
  let ?s3 = "set_page p (PgPipeRt (r\<lparr>pr_head := h\<rparr>)) ?s2"
  let ?s4 = "?s3\<lparr>kout := kout s @ [(''Debug: Reading task with priority %d\<newline>'', [PInt (priority (snd x))])]\<rparr>"
  have rep4: "rt_rep ?s4 p (r\<lparr>pr_head := h\<rparr>) xs (pr_head r # fs)"
  proof -
    have "pq_rep ?s3 h xs (pr_head r # fs)"
      by (rule pq_rep_set_page [OF rem(2)]) (use ap ne hd(1) in auto)
    then have "pq_rep ?s4 h xs (pr_head r # fs)" by (rule pq_rep_cong) simp_all
    with p show ?thesis by (simp add: rt_rep_def)
  qed
  obtain nd where nd: "phys s (pr_head r) = PgNode nd" using q by (auto simp: pq_rep_def)
  have same: "phys ?s4 b = phys s b" if "b \<in> user_pages s ?pt" for b
  proof -
    have "b \<noteq> p" "b \<noteq> pr_head r" using user_pages_typed [OF user(1) that] p(2) nd by auto
    then show ?thesis by (simp add: kfree_st_def)
  qed
  note uf = user_frame [OF user(1) same]
  have len: "length (task_bytes (snd x)) = 40" by (rule length_task_bytes [OF pad])
  obtain t where t: "copyout ?pt a (task_bytes (snd x)) ?s4 e = Ok 0 t e"
    "wrote ?pt (unat a) (task_bytes (snd x)) ?s4 t"
    using copyout_run [OF uf(1), of a "task_bytes (snd x)" e] user(2,3) by (auto simp: len uf(6))
  have t4: "t = ?s4\<lparr>phys := phys t\<rparr>" using t(2) by (simp add: wrote_def)
  have tf: "lkst t = enter ?k (lkst s)" "procs t = procs s" by (subst t4, simp)+
  let ?u = "t\<lparr>lkst := lkst s\<rparr>"
  have wait: "loopK (rt_wait_body p) () ?s1 e = Ok () ?s1 e"
    by (rule rt_wait_skips [where r = r]) (use p hd in simp_all)
  have "pipe_rt_read p a n s e = Ok 40 ?u e"
    using rd p hd rem(1) p2 wait t(1) tf
    by (simp add: pipe_rt_read_def bind_def seq_def ksimps)
  moreover have "rt_rep ?u p (r\<lparr>pr_head := h\<rparr>) xs (fst x # fs)"
  proof -
    have "rt_rep t p (r\<lparr>pr_head := h\<rparr>) xs (fst x # fs)"
      using rt_rep_wrote [OF rep4 uf(1) t(2)] hd(1) by simp
    then show ?thesis using pq_rep_cong [of t _ _ _ ?u] by (simp add: rt_rep_def)
  qed
  moreover have "user_byte ?u ?pt v = user_byte t ?pt v" for v
    by (rule user_frame(4) [of t]) (use t(2) in \<open>simp_all add: wrote_def\<close>)
  ultimately show ?thesis
    using wrote_ubytes [OF t(2)] user(2) len tf ubytes_frame [of ?u ?pt t a 40] by auto
qed

text \<open>An empty pipe: without writers the read fails, with writers it sleeps.\<close>

lemma pipe_rt_read_empty:
  fixes s :: kernel
  assumes rep: "rt_rep s p r [] fs" and rest: "at_rest i (LkPipeRt p) (lkst s)"
  shows "pr_active r \<and> pr_nwrite r > 0 \<Longrightarrow>
      pipe_rt_read p a n s [] = Stop (Blocked (asleep_st i (ChPipeRtRead p) (lkst s)
        (s\<lparr>lkst := enter (LkPipeRt p) (lkst s)\<rparr>)))"
    and "\<not> (pr_active r \<and> pr_nwrite r > 0) \<Longrightarrow> pipe_rt_read p a n s e = Ok (-1) s e"
proof -
  let ?s1 = "s\<lparr>lkst := enter (LkPipeRt p) (lkst s)\<rparr>"
  have p: "p \<noteq> 0" "phys s p = PgPipeRt r" and h: "pr_head r = 0"
    using rep by (simp_all add: rt_rep_def pq_rep_def)
  have av: "lk_avail (LkPipeRt p) (lkst s)" "irq_ok (lkst s)"
    using rest by (simp_all add: at_rest_def lk_avail_def)
  {
    assume w: "pr_active r \<and> pr_nwrite r > 0"
    have "rt_wait_body p () ?s1 [] = Stop (Blocked (asleep_st i (ChPipeRtRead p) (lkst s) ?s1))"
      using w p h sleep_blocks [OF rest, of ?s1 "ChPipeRtRead p"]
      by (simp add: rt_wait_body_def bind_def seq_def)
    then have "loopK (rt_wait_body p) () ?s1 [] = Stop (Blocked (asleep_st i (ChPipeRtRead p) (lkst s) ?s1))"
      by (rule loopK_stop)
    then show "pipe_rt_read p a n s [] = Stop (Blocked (asleep_st i (ChPipeRtRead p) (lkst s) ?s1))"
      using av by (simp add: pipe_rt_read_def bind_def seq_def ksimps)
  next
    assume "\<not> (pr_active r \<and> pr_nwrite r > 0)"
    then have "loopK (rt_wait_body p) () ?s1 e = Ok () ?s1 e"
      by (intro rt_wait_skips [where r = r]) (use p in auto)
    then show "pipe_rt_read p a n s e = Ok (-1) s e"
      using av p h by (simp add: pipe_rt_read_def bind_def seq_def ksimps)
  }
qed

text \<open>Closing the last end: every node is freed.\<close>

lemma rt_drain_run:
  assumes "rt_rep s p r xs fs" and "lk_avail LkKmem (lkst s)"
  shows "\<exists>u. loopK (rt_drain_body p) () s e = Ok () u e \<and>
    rt_rep u p (r\<lparr>pr_head := 0\<rparr>) [] (rev (map fst xs) @ fs) \<and>
    u = s\<lparr>freelist := freelist u, phys := phys u\<rparr>"
  using assms
proof (induction xs arbitrary: s r fs)
  case Nil
  then have "rt_drain_body p () s e = Ok (Inr ()) s e" and "r\<lparr>pr_head := 0\<rparr> = r"
    by (auto simp: rt_drain_body_def bind_def rt_rep_def pq_rep_def)
  then have "loopK (rt_drain_body p) () s e = Ok () s e" by (intro loopK_done)
  with Nil(1) \<open>r\<lparr>pr_head := 0\<rparr> = r\<close> show ?case by auto
next
  case (Cons x xs)
  note ap = rt_rep_apart [OF Cons.prems(1)]
  have p: "p \<noteq> 0" "phys s p = PgPipeRt r" and q: "pq_rep s (pr_head r) (x # xs) fs"
    using Cons.prems(1) by (simp_all add: rt_rep_def)
  then have hd: "pr_head r = fst x" "fst x \<noteq> 0" by (auto simp: pq_rep_def)
  obtain h where rem: "pq_remove (pr_head r) s e = Ok (snd x, h) (kfree_st (pr_head r) s) e"
    "pq_rep (kfree_st (pr_head r) s) h xs (pr_head r # fs)"
    using pq_remove_run [OF q Cons.prems(2), of e] by auto
  let ?s2 = "kfree_st (pr_head r) s"
  let ?s3 = "set_page p (PgPipeRt (r\<lparr>pr_head := h\<rparr>)) ?s2"
  have ne: "p \<noteq> pr_head r" using ap(1) hd(1) by auto
  have p2: "phys ?s2 p = PgPipeRt r" using p ne by (simp add: kfree_st_def)
  have rep3: "rt_rep ?s3 p (r\<lparr>pr_head := h\<rparr>) xs (fst x # fs)"
    using pq_rep_set_page [OF rem(2), of p "PgPipeRt (r\<lparr>pr_head := h\<rparr>)"] p(1) ap ne hd(1)
    by (auto simp: rt_rep_def)
  have "rt_drain_body p () s e = Ok (Inl ()) ?s3 e"
    using p hd rem(1) p2 by (simp add: rt_drain_body_def bind_def seq_def)
  then have step: "loopK (rt_drain_body p) () s e = loopK (rt_drain_body p) () ?s3 e" by (rule loopK_step)
  obtain u where u: "loopK (rt_drain_body p) () ?s3 e = Ok () u e"
    "rt_rep u p (r\<lparr>pr_head := 0\<rparr>) [] (rev (map fst xs) @ fst x # fs)"
    "u = ?s3\<lparr>freelist := freelist u, phys := phys u\<rparr>"
    using Cons.IH [OF rep3] Cons.prems(2) by auto
  have "?s3\<lparr>freelist := freelist u, phys := phys u\<rparr> = s\<lparr>freelist := freelist u, phys := phys u\<rparr>"
    by (simp add: kfree_st_def)
  with u step show ?case by auto
qed

lemma rt_rep_fields:
  "rt_rep s p r xs fs \<Longrightarrow> pr_head r' = pr_head r \<Longrightarrow> rt_rep (set_page p (PgPipeRt r') s) p r' xs fs"
  using pq_rep_set_page [of s "pr_head r" xs fs p "PgPipeRt r'"] rt_rep_apart [of s p r xs fs]
  by (simp add: rt_rep_def)

lemma rt_rep_lkst: "rt_rep s p r xs fs \<Longrightarrow> rt_rep (s\<lparr>lkst := l\<rparr>) p r xs fs"
  using pq_rep_cong [of s "pr_head r" xs fs "s\<lparr>lkst := l\<rparr>"] by (simp add: rt_rep_def)

lemma pipe_rt_close_last:
  fixes s :: kernel
  assumes rep: "rt_rep s p r xs fs" and ready: "pipe_ready s i (LkPipeRt p)"
    and last: "pr_nwrite r = 0" "pr_nread r = 1"
  shows "\<exists>u. pipe_rt_close p False s e = Ok () u e \<and>
    rt_rep u p (r\<lparr>pr_nread := 0, pr_head := 0, pr_active := False\<rparr>) [] (rev (map fst xs) @ fs) \<and>
    u = s\<lparr>freelist := freelist u, phys := phys u\<rparr>"
proof -
  let ?r1 = "r\<lparr>pr_nread := 0\<rparr>"
  let ?s1 = "s\<lparr>lkst := enter (LkPipeRt p) (lkst s)\<rparr>"
  let ?s2 = "set_page p (PgPipeRt ?r1) ?s1"
  note rd = pipe_readyD [OF ready]
  have p: "p \<noteq> 0" "phys s p = PgPipeRt r" using rep by (simp_all add: rt_rep_def)
  have rep2: "rt_rep ?s2 p ?r1 xs fs" by (rule rt_rep_fields [OF rt_rep_lkst [OF rep]]) simp
  obtain u where u: "loopK (rt_drain_body p) () ?s2 e = Ok () u e"
    "rt_rep u p (?r1\<lparr>pr_head := 0\<rparr>) [] (rev (map fst xs) @ fs)"
    "u = ?s2\<lparr>freelist := freelist u, phys := phys u\<rparr>"
    using rt_drain_run [OF rep2, of e] rd(4) by auto
  let ?r3 = "r\<lparr>pr_nread := 0, pr_head := 0, pr_active := False\<rparr>"
  let ?u = "(set_page p (PgPipeRt ?r3) u)\<lparr>lkst := lkst s\<rparr>"
  have up: "phys u p = PgPipeRt (?r1\<lparr>pr_head := 0\<rparr>)" using u(2) by (simp add: rt_rep_def)
  have ul: "lkst u = enter (LkPipeRt p) (lkst s)" by (subst u(3)) simp
  have "pipe_rt_close p False s e = Ok () ?u e"
    using rd p last u(1) up ul by (simp add: pipe_rt_close_def bind_def seq_def ksimps)
  moreover have "rt_rep ?u p ?r3 [] (rev (map fst xs) @ fs)"
    by (rule rt_rep_lkst, rule rt_rep_fields [OF u(2)]) simp
  moreover have "?u = s\<lparr>freelist := freelist ?u, phys := phys ?u\<rparr>"
    by (subst (1) u(3)) simp
  ultimately show ?thesis by blast
qed

section \<open>Properties\<close>

text \<open>
  The sample kernel with a priority pipe at \<open>0x80106000\<close> that holds the tasks \<open>ts\<close>, one writer and one
  reader, the first task on the page \<open>0x80107000\<close>.
\<close>

definition rt_sample :: pipe_rt where
  "rt_sample = \<lparr>pr_head = 0x80107000, pr_nwrite = 1, pr_nread = 1, pr_active = True\<rparr>"

definition with_rt :: "pipe_rt \<Rightarrow> kernel" where
  "with_rt r = sample\<lparr>phys := sample_phys(0x80106000 := PgPipeRt r,
     0x80107000 := PgNode \<lparr>task = zero_task\<lparr>priority := 5\<rparr>, nxt = 0\<rparr>)\<rparr>"

lemma with_rt_rep:
  assumes "pr_head r = 0x80107000"
  shows "rt_rep (with_rt r) 0x80106000 r [(0x80107000, zero_task\<lparr>priority := 5\<rparr>)]
     [0x80200000, 0x80201000, 0x80202000, 0x80203000]"
proof -
  have "free_pages (with_rt r) [0x80200000, 0x80201000, 0x80202000, 0x80203000]"
    by (rule free_pages_cong [OF sample_free]) (auto simp: with_rt_def)
  moreover have "allocatable (with_rt r) 0x80107000"
    by (simp add: allocatable_def with_rt_def sample_syms_def PGSIZE_def PHYSTOP_def KERNBASE_def)
  ultimately show ?thesis using assms by (simp add: rt_rep_def pq_rep_def) (simp add: with_rt_def)
qed

lemma with_rt_simps [simp]:
  "lkst (with_rt r) = proc0_runs" "procs (with_rt r) = procs sample" "user_ok (with_rt r) 0x80100000"
  "user_byte (with_rt r) 0x80100000 v = user_byte sample 0x80100000 v"
  "user_writable (with_rt r) 0x80100000 v = user_writable sample 0x80100000 v"
proof -
  show "lkst (with_rt r) = proc0_runs" "procs (with_rt r) = procs sample" by (simp_all add: with_rt_def)
  show "user_ok (with_rt r) 0x80100000"
    by (rule sample_user_frame(1)) (auto simp: with_rt_def)
  show "user_byte (with_rt r) 0x80100000 v = user_byte sample 0x80100000 v"
    by (rule sample_user_frame(2)) (auto simp: with_rt_def)
  show "user_writable (with_rt r) 0x80100000 v = user_writable sample 0x80100000 v"
    by (rule sample_user_frame(3)) (auto simp: with_rt_def)
qed

lemma with_rt_ready: "pipe_ready (with_rt r) 0 (LkPipeRt p)"
  by (simp add: pipe_ready_def others_free_def)
     (simp add: proc0_runs_def net_defs zero_defs)


lemma le_word_zero: "le_word (replicate n 0) = 0"
  by (induction n) simp_all

lemma bytes_task_zero: "bytes_task (replicate 40 0) = zero_task"
  by (simp add: bytes_task_def zero_task_def le_word_zero)




text \<open>
  C36. Reading from an empty priority pipe: while the pipe is active and has a writer, the reader
  goes to sleep on the pipe's read channel, with the pipe's lock free again; when the pipe is
  inactive or has no writer left, the read returns -1 at once and changes nothing.
\<close>

theorem pipe_rt_read_waits:
  fixes s :: kernel
  assumes "rt_rep s p r [] fs" and "at_rest i (LkPipeRt p) (lkst s)"
  shows "if pr_active r \<and> pr_nwrite r > 0 then
      \<exists>t. pipe_rt_read p a n s [] = Stop (Blocked t) \<and> p_state (procs t i) = SLEEPING \<and>
        p_chan (procs t i) = ChPipeRtRead p \<and> lk_free (LkPipeRt p) (lkst t) \<and> phys t = phys s
    else pipe_rt_read p a n s e = Ok (-1) s e"
proof (cases "pr_active r \<and> pr_nwrite r > 0")
  case True
  have "lk_free (LkPipeRt p) (lkst s)" using assms(2) by (simp add: at_rest_def)
  with True pipe_rt_read_empty(1) [OF assms True, of a n] show ?thesis
    unfolding if_P [OF True] by (simp add: asleep_st_def)
next
  case False
  then show ?thesis unfolding if_not_P [OF False] by (rule pipe_rt_read_empty(2) [OF assms])
qed

definition rt_empty :: pipe_rt where
  "rt_empty = \<lparr>pr_head = 0, pr_nwrite = 1, pr_nread = 1, pr_active = True\<rparr>"

lemma rt_empty_rep:
  "rt_rep (with_rt rt_empty) 0x80106000 rt_empty [] [0x80200000, 0x80201000, 0x80202000, 0x80203000]"
proof -
  have "free_pages (with_rt rt_empty) [0x80200000, 0x80201000, 0x80202000, 0x80203000]"
    by (rule free_pages_cong [OF sample_free]) (auto simp: with_rt_def)
  then show ?thesis by (simp add: rt_rep_def pq_rep_def rt_empty_def) (simp add: with_rt_def)
qed

theorem pipe_rt_read_waits_witness:
  "\<exists>t. pipe_rt_read 0x80106000 0xFF0 40 (with_rt rt_empty) [] = Stop (Blocked t) \<and>
     p_state (procs t 0) = SLEEPING"
proof -
  have "pr_active rt_empty \<and> pr_nwrite rt_empty > 0" by (simp add: rt_empty_def)
  then show ?thesis
    using pipe_rt_read_waits [OF rt_empty_rep, of 0 "0xFF0" 40 "[]"] proc0_at_rest by simp blast
qed



end
