(* ===== verification/Syscall.thy ===== *)
theory Syscall
  imports Vm Strings Proc Bytes
begin

text \<open>
  The argument half of \<^verbatim>\<open>kernel/syscall.c\<close>: fetching system call arguments from the trap frame and
  from user memory. (The dispatch through the table is in \<^verbatim>\<open>Trap\<close>, after the system calls.)
\<close>

text \<open>A freshly allocated page is a trap frame whose fields all hold its fill pattern.\<close>

definition fill_tf :: "uint64 \<Rightarrow> trapframe" where
  "fill_tf w = \<lparr>kernel_satp = w, kernel_sp = w, kernel_trap = w, epc = w, kernel_hartid = w, regs = (\<lambda>_. w)\<rparr>"

definition as_tf :: "page \<Rightarrow> trapframe option" where
  "as_tf pg = (case pg of PgTrapframe f \<Rightarrow> Some f | PgFill c \<Rightarrow> Some (fill_tf (fill64 c)) | _ \<Rightarrow> None)"

definition tf_at :: "addr \<Rightarrow> trapframe kop" where
  "tf_at a = (if a = 0 then fault else bind (gets (\<lambda>s. as_tf (phys s a))) need)"

definition upd_tf :: "addr \<Rightarrow> (trapframe \<Rightarrow> trapframe) \<Rightarrow> unit kop" where
  "upd_tf a f = bind (tf_at a) (\<lambda>v. modify (set_page a (PgTrapframe (f v))))"

text \<open>\<^verbatim>\<open>struct proc *p = myproc()\<close> where \<^verbatim>\<open>p\<close> is followed at once.\<close>

definition me :: "nat kop" where
  "me = bind myproc need"

definition fetchaddr :: "uint64 \<Rightarrow> (cint \<times> uint64) kop" where
  "fetchaddr a =
     bind me (\<lambda>i.
     bind (proc_at i) (\<lambda>p.
     if a \<ge> p_sz p \<or> a + 8 > p_sz p then ret (-1, 0)
     else
       bind (copyin (p_pagetable p) a 8) (\<lambda>(r, bs).
       if r \<noteq> 0 then ret (-1, 0) else ret (0, le_word bs))))"

definition fetchstr :: "uint64 \<Rightarrow> nat \<Rightarrow> (cint \<times> uchar list) kop" where
  "fetchstr a mx =
     bind me (\<lambda>i.
     bind (proc_at i) (\<lambda>p.
     bind (copyinstr (p_pagetable p) a (of_nat mx)) (\<lambda>(r, bs).
     if sint r < 0 then ret (-1, bs)
     else ret (of_nat (strlen bs), takeWhile (\<lambda>c. c \<noteq> 0) bs))))"

definition argraw :: "nat \<Rightarrow> uint64 kop" where
  "argraw n =
     bind me (\<lambda>i.
     bind (proc_at i) (\<lambda>p.
     if n \<le> 5 then bind (tf_at (p_trapframe p)) (\<lambda>f. ret (regs f (R_a n)))
     else panic ''argraw''))"

definition argint :: "nat \<Rightarrow> cint kop" where
  "argint n = bind (argraw n) (\<lambda>w. ret (ucast w))"

definition argaddr :: "nat \<Rightarrow> uint64 kop" where
  "argaddr n = argraw n"

definition argstr :: "nat \<Rightarrow> nat \<Rightarrow> (cint \<times> uchar list) kop" where
  "argstr n mx = bind (argaddr n) (\<lambda>a. fetchstr a mx)"

lemma tf_at_run [simp]: "a \<noteq> 0 \<Longrightarrow> phys s a = PgTrapframe f \<Longrightarrow> tf_at a s e = Ok f s e"
  by (simp add: tf_at_def bind_def as_tf_def)

lemma upd_tf_run [simp]:
  "a \<noteq> 0 \<Longrightarrow> phys s a = PgTrapframe f \<Longrightarrow> upd_tf a g s e = Ok () (set_page a (PgTrapframe (g f)) s) e"
  by (simp add: upd_tf_def bind_def)

lemma me_run [simp]: "irq_ok (lkst s) \<Longrightarrow> cur (lkst s) = Some i \<Longrightarrow> me s e = Ok i s e"
  by (simp add: me_def bind_def)

lemma argraw_run:
  assumes "irq_ok (lkst s)" and "cur (lkst s) = Some i" and "p_trapframe (procs s i) \<noteq> 0"
    and "phys s (p_trapframe (procs s i)) = PgTrapframe f" and "n \<le> 5"
  shows "argraw n s e = Ok (regs f (R_a n)) s e"
  using assms by (simp add: argraw_def bind_def)

end
