(* ===== verification/FileOps.thy ===== *)
theory FileOps
  imports Console Pipe PipeRt Syscall
begin

text \<open>
  \<^verbatim>\<open>kernel/file.c\<close>: the table of open files and the operations on them, which dispatch on the type of
  the file; \<^verbatim>\<open>pipealloc\<close> of \<^verbatim>\<open>pipe.c\<close>, and \<^verbatim>\<open>pipe_rt_alloc\<close> and \<^verbatim>\<open>sys_pipe_rt\<close> of \<^verbatim>\<open>pipe_rt.c\<close>.
\<close>

section \<open>The operations\<close>

definition file_at :: "nat \<Rightarrow> kfile kop" where
  "file_at f = gets (\<lambda>s. ftable s f)"

definition set_file :: "nat \<Rightarrow> (kfile \<Rightarrow> kfile) \<Rightarrow> unit kop" where
  "set_file f g = modify (upd_file f g)"

definition fileinit :: "unit kop" where
  "fileinit = initlock LkFtable ''ftable''"

definition set_ofile :: "nat \<Rightarrow> nat \<Rightarrow> nat option \<Rightarrow> unit kop" where
  "set_ofile i fd f = set_proc i (\<lambda>p. p\<lparr>p_ofile := (p_ofile p)(fd := f)\<rparr>)"

definition fdalloc :: "nat \<Rightarrow> cint kop" where
  "fdalloc f =
     bind me (\<lambda>i.
     bind (forK [0..<NOFILE] (\<lambda>fd.
       bind (proc_at i) (\<lambda>p.
       if p_ofile p fd = None then seq (set_ofile i fd (Some f)) (ret (Some (of_nat fd)))
       else ret None))) (\<lambda>r.
     case r of Some fd \<Rightarrow> ret fd | None \<Rightarrow> ret (-1)))"

definition filealloc :: "nat option kop" where
  "filealloc =
     seq (acquire LkFtable) (
     bind (forK [0..<NFILE] (\<lambda>f.
       bind (file_at f) (\<lambda>v.
       if f_ref v = 0 then
         seq (set_file f (\<lambda>v. v\<lparr>f_ref := 1\<rparr>)) (
         seq (release LkFtable) (
         ret (Some f)))
       else ret None))) (\<lambda>r.
     case r of Some f \<Rightarrow> ret (Some f)
     | None \<Rightarrow> seq (release LkFtable) (ret None)))"

definition filedup :: "nat \<Rightarrow> nat kop" where
  "filedup f =
     seq (acquire LkFtable) (
     bind (file_at f) (\<lambda>v.
     seq (whenK (f_ref v < 1) (panic ''filedup'')) (
     seq (set_file f (\<lambda>v. v\<lparr>f_ref := f_ref v + 1\<rparr>)) (
     seq (release LkFtable) (
     ret f)))))"

definition fileclose :: "nat \<Rightarrow> unit kop" where
  "fileclose f =
     seq (acquire LkFtable) (
     bind (file_at f) (\<lambda>v.
     seq (whenK (f_ref v < 1) (panic ''fileclose'')) (
     seq (set_file f (\<lambda>v. v\<lparr>f_ref := f_ref v - 1\<rparr>)) (
     bind (file_at f) (\<lambda>ff.
     if f_ref ff > 0 then release LkFtable
     else
       seq (set_file f (\<lambda>v. v\<lparr>f_ref := 0\<rparr>)) (
       seq (set_file f (\<lambda>v. v\<lparr>f_type := FD_NONE\<rparr>)) (
       seq (release LkFtable) (
       case f_type ff of
         FD_PIPE \<Rightarrow> pipeclose (f_pipe ff) (f_writable ff \<noteq> 0)
       | FD_PIPE_RT \<Rightarrow> pipe_rt_close (f_pipe ff) (f_writable ff \<noteq> 0)
       | FD_INODE \<Rightarrow> seq begin_op (seq (iput (f_ip ff)) end_op)
       | FD_DEVICE \<Rightarrow> seq begin_op (seq (iput (f_ip ff)) end_op)
       | FD_NONE \<Rightarrow> skip))))))))"

definition filestat :: "nat \<Rightarrow> uint64 \<Rightarrow> cint kop" where
  "filestat f addr =
     bind me (\<lambda>i.
     bind (file_at f) (\<lambda>v.
     if f_type v = FD_INODE \<or> f_type v = FD_DEVICE then
       seq (ilock (f_ip v)) (
       bind (need (f_ip v)) (\<lambda>j.
       bind (ino_at j) (\<lambda>ip.
       seq (iunlock (f_ip v)) (
       bind (proc_at i) (\<lambda>p.
       bind (copyout (p_pagetable p) addr (stati ip)) (\<lambda>r.
       if sint r < 0 then ret (-1) else ret 0))))))
     else ret (-1)))"

definition fileread :: "nat \<Rightarrow> uint64 \<Rightarrow> cint \<Rightarrow> cint kop" where
  "fileread f addr n =
     bind (file_at f) (\<lambda>v.
     if f_readable v = 0 then ret (-1)
     else case f_type v of
       FD_PIPE \<Rightarrow> piperead (f_pipe v) addr n
     | FD_PIPE_RT \<Rightarrow> pipe_rt_read (f_pipe v) addr n
     | FD_INODE \<Rightarrow>
         seq (ilock (f_ip v)) (
         bind (need (f_ip v)) (\<lambda>j.
         bind (file_at f) (\<lambda>v.
         bind (readi j (ToUser addr) (f_off v) n) (\<lambda>(r, d).
         seq (whenK (sint r > 0) (set_file f (\<lambda>v. v\<lparr>f_off := f_off v + r\<rparr>))) (
         seq (iunlock (f_ip v)) (
         ret r))))))
     | FD_DEVICE \<Rightarrow>
         bind (gets devsw) (\<lambda>dv.
         if sint (f_major v) < 0 \<or> sint (f_major v) \<ge> int NDEV \<or> d_read (dv (nat (sint (f_major v)))) = None
         then ret (-1)
         else consoleread (ToUser addr) n)
     | FD_NONE \<Rightarrow> panic ''fileread'')"

definition WRITE_MAX :: int where
  "WRITE_MAX = int ((MAXOPBLOCKS - 1 - 1 - 2) div 2 * BSIZE)"

text \<open>One round of the loop of \<^verbatim>\<open>filewrite\<close> on an inode; \<open>i\<close> is the number of bytes written so far.\<close>

definition filewrite_body :: "nat \<Rightarrow> nat \<Rightarrow> uint64 \<Rightarrow> cint \<Rightarrow> cint \<Rightarrow> (cint + cint) kop" where
  "filewrite_body f j addr n i =
     (if sint i < sint n then
        let n1 = (if sint (n - i) > WRITE_MAX then of_int WRITE_MAX else n - i) in
        bind (file_at f) (\<lambda>v.
        bind (writei j (FromUser (addr + scast i)) (f_off v) n1) (\<lambda>r.
        seq (whenK (sint r > 0) (set_file f (\<lambda>v. v\<lparr>f_off := f_off v + r\<rparr>))) (
        if sint r < 0 then ret (Inr i) else ret (Inl (i + r)))))
      else ret (Inr i))"

text \<open>\<^verbatim>\<open>f->writable\<close> is one byte, so \<^verbatim>\<open>f->writable & O_APPEND\<close> is the conjunction of a byte with \<^verbatim>\<open>0x400\<close>.\<close>

definition filewrite :: "nat \<Rightarrow> uint64 \<Rightarrow> cint \<Rightarrow> cint kop" where
  "filewrite f addr n =
     bind (file_at f) (\<lambda>v.
     if f_writable v = 0 then ret (-1)
     else case f_type v of
       FD_PIPE \<Rightarrow> pipewrite (f_pipe v) addr n
     | FD_PIPE_RT \<Rightarrow> pipe_rt_write (f_pipe v) addr n
     | FD_INODE \<Rightarrow>
         seq begin_op (
         seq (ilock (f_ip v)) (
         bind (need (f_ip v)) (\<lambda>j.
         bind (ino_at j) (\<lambda>ip.
         seq (whenK ((ucast (f_writable v) :: cint) AND 0x400 \<noteq> 0) (
           set_file f (\<lambda>v. v\<lparr>f_off := i_size ip\<rparr>))) (
         bind (loopK (filewrite_body f j addr n) 0) (\<lambda>i.
         seq (iunlock (f_ip v)) (
         seq end_op (
         ret (if i = n then n else -1)))))))))
     | FD_DEVICE \<Rightarrow>
         bind (gets devsw) (\<lambda>dv.
         if sint (f_major v) < 0 \<or> sint (f_major v) \<ge> int NDEV \<or> d_write (dv (nat (sint (f_major v)))) = None
         then ret (-1)
         else consolewrite (FromUser addr) n)
     | FD_NONE \<Rightarrow> ret (-1))"

section \<open>Creating pipes\<close>

text \<open>
  The result is the pair of files, or \<open>None\<close> for the return value -1. The failure branch (\<^verbatim>\<open>bad:\<close>)
  frees the page and closes the files it got.
\<close>

definition pipe_bad :: "addr \<Rightarrow> nat option \<Rightarrow> nat option \<Rightarrow> (nat \<times> nat) option kop" where
  "pipe_bad pg f0 f1 =
     seq (whenK (pg \<noteq> 0) (kfree pg)) (
     seq (case f0 of Some f \<Rightarrow> fileclose f | None \<Rightarrow> skip) (
     seq (case f1 of Some f \<Rightarrow> fileclose f | None \<Rightarrow> skip) (
     ret None)))"

definition pipe_ends :: "ftype \<Rightarrow> addr \<Rightarrow> nat \<Rightarrow> nat \<Rightarrow> (nat \<times> nat) option kop" where
  "pipe_ends ty pg f0 f1 =
     seq (set_file f0 (\<lambda>v. v\<lparr>f_type := ty, f_readable := 1, f_writable := 0, f_pipe := pg\<rparr>)) (
     seq (set_file f1 (\<lambda>v. v\<lparr>f_type := ty, f_readable := 0, f_writable := 1, f_pipe := pg\<rparr>)) (
     ret (Some (f0, f1))))"

definition fresh_pipe :: pipe where
  "fresh_pipe = \<lparr>pi_data = (\<lambda>_. 5), pi_nread = 0, pi_nwrite = 0, pi_readopen = True, pi_writeopen = True\<rparr>"

definition pipealloc :: "(nat \<times> nat) option kop" where
  "pipealloc =
     bind filealloc (\<lambda>f0.
     case f0 of None \<Rightarrow> pipe_bad 0 None None
     | Some r \<Rightarrow>
         bind filealloc (\<lambda>f1.
         case f1 of None \<Rightarrow> pipe_bad 0 f0 None
         | Some w \<Rightarrow>
             bind kalloc (\<lambda>pi.
             if pi = 0 then pipe_bad 0 f0 f1
             else
               seq (modify (set_page pi (PgPipe fresh_pipe))) (
               seq (initlock (LkPipe pi) ''pipe'') (
               pipe_ends FD_PIPE pi r w)))))"

definition pipe_rt_alloc :: "(nat \<times> nat) option kop" where
  "pipe_rt_alloc =
     bind kalloc (\<lambda>p.
     if p = 0 then pipe_bad 0 None None
     else
       seq (initlock (LkPipeRt p) ''pipe_rt'') (
       seq (modify (set_page p (PgPipeRt \<lparr>pr_head = 0, pr_nwrite = 1, pr_nread = 1, pr_active = True\<rparr>))) (
       bind filealloc (\<lambda>f0.
       case f0 of None \<Rightarrow> pipe_bad p None None
       | Some r \<Rightarrow>
           bind filealloc (\<lambda>f1.
           case f1 of None \<Rightarrow> pipe_bad p f0 None
           | Some w \<Rightarrow> pipe_ends FD_PIPE_RT p r w)))))"

text \<open>
  What \<^verbatim>\<open>sys_pipe\<close> and \<^verbatim>\<open>sys_pipe_rt\<close> do with the two files: descriptors for both, written to the
  user's array, or everything undone.
\<close>

definition pipe_fds :: "uint64 \<Rightarrow> (nat \<times> nat) option kop \<Rightarrow> uint64 kop" where
  "pipe_fds fdarray alloc =
     bind me (\<lambda>i.
     bind alloc (\<lambda>r.
     case r of None \<Rightarrow> ret (-1)
     | Some (rfile, wfile) \<Rightarrow>
         bind (fdalloc rfile) (\<lambda>fd0.
         if sint fd0 < 0 then
           seq (fileclose rfile) (seq (fileclose wfile) (ret (-1)))
         else
           bind (fdalloc wfile) (\<lambda>fd1.
           if sint fd1 < 0 then
             seq (set_ofile i (unat fd0) None) (
             seq (fileclose rfile) (seq (fileclose wfile) (ret (-1))))
           else
             bind (proc_at i) (\<lambda>p.
             bind (copyout (p_pagetable p) fdarray (le_bytes 4 fd0)) (\<lambda>c0.
             bind (if sint c0 < 0 then ret c0
                   else copyout (p_pagetable p) (fdarray + 4) (le_bytes 4 fd1)) (\<lambda>c1.
             if sint c1 < 0 then
               seq (set_ofile i (unat fd0) None) (
               seq (set_ofile i (unat fd1) None) (
               seq (fileclose rfile) (seq (fileclose wfile) (ret (-1)))))
             else ret 0)))))))"

definition sys_pipe_rt :: "uint64 kop" where
  "sys_pipe_rt = bind (argaddr 0) (\<lambda>fdarray. pipe_fds fdarray pipe_rt_alloc)"

end
