(* ===== verification/Shm.thy ===== *)
theory Shm
  imports Syscall
begin

text \<open>
  \<^verbatim>\<open>proj4/kernel/shm.c\<close>: one shared page, mapped at a fixed address, with a count of its users, and
  \<^verbatim>\<open>proj4/kernel/show_vm.c\<close>, which prints the regions of the address space.
\<close>

section \<open>The operations\<close>

definition SHM_VA :: uint64 where "SHM_VA = MAXVA - 15 * PGSIZE"

text \<open>\<^verbatim>\<open>pte && (*pte & PTE_V)\<close> after \<^verbatim>\<open>pte = walk(pagetable, va, 0)\<close>.\<close>

definition is_mapped :: "addr \<Rightarrow> uint64 \<Rightarrow> bool kop" where
  "is_mapped pagetable va =
     bind (walk pagetable va False) (\<lambda>r.
     case r of None \<Rightarrow> ret False
     | Some pte \<Rightarrow> bind (load_pte pte) (\<lambda>v. ret (v AND PTE_V \<noteq> 0)))"

definition sys_shmget :: "uint64 kop" where
  "sys_shmget =
     bind me (\<lambda>i.
     bind (argint 0) (\<lambda>key.
     bind (argaddr 1) (\<lambda>size.
     if key \<noteq> 0 \<or> size \<noteq> 4096 then ret (-1)
     else
       bind (gets shm_memory) (\<lambda>m.
       bind (if m = 0 then
               bind kalloc (\<lambda>a.
               seq (modify (\<lambda>s. s\<lparr>shm_memory := a\<rparr>)) (
               if a = 0 then ret False
               else seq (memset_page a 0) (ret True)))
             else ret True) (\<lambda>ok.
       if \<not> ok then ret (-1)
       else
         bind (gets shm_memory) (\<lambda>m.
         bind (proc_at i) (\<lambda>p.
         bind (mappages (p_pagetable p) SHM_VA PGSIZE m (PTE_R OR PTE_W OR PTE_U)) (\<lambda>r.
         if sint r < 0 then ret (-1) else ret SHM_VA))))))))"

definition shmem_fork :: "addr \<Rightarrow> addr \<Rightarrow> cint kop" where
  "shmem_fork old new =
     bind (is_mapped old SHM_VA) (\<lambda>mp.
     if mp then
       bind (gets shm_memory) (\<lambda>m.
       bind (mappages new SHM_VA PGSIZE m (PTE_R OR PTE_W OR PTE_U OR PTE_V)) (\<lambda>r.
       if sint r < 0 then ret (-1)
       else
         seq (modify (\<lambda>s. s\<lparr>shm_refs := shm_refs s + 1\<rparr>)) (
         ret 0)))
     else ret 0)"

definition shmem_exit :: "unit kop" where
  "shmem_exit =
     bind me (\<lambda>i.
     bind (proc_at i) (\<lambda>p.
     bind (is_mapped (p_pagetable p) SHM_VA) (\<lambda>mp.
     whenK mp (
       seq (uvmunmap (p_pagetable p) SHM_VA 1 False) (
       seq (modify (\<lambda>s. s\<lparr>shm_refs := shm_refs s - 1\<rparr>)) (
       bind (gets shm_refs) (\<lambda>n.
       bind (gets shm_memory) (\<lambda>m.
       whenK (n = 0 \<and> m \<noteq> 0) (
         seq (kfree m) (
         modify (\<lambda>s. s\<lparr>shm_memory := 0\<rparr>)))))))))))"

text \<open>One round of the loop of \<^verbatim>\<open>sys_show_vm_areas\<close> over \<^verbatim>\<open>va\<close>, \<^verbatim>\<open>prev_va\<close> and \<^verbatim>\<open>pages\<close>.\<close>

definition show_body :: "addr \<Rightarrow> uint64 \<times> uint64 \<times> cint \<Rightarrow> ((uint64 \<times> uint64 \<times> cint) + unit) kop" where
  "show_body pt = (\<lambda>(va, prev_va, pages).
     if va < MAXVA then
       bind (is_mapped pt va) (\<lambda>mp.
       if mp then
         (if pages = 0 then ret (Inl (va + PGSIZE, va, 1))
          else ret (Inl (va + PGSIZE, prev_va, pages + 1)))
       else if 0 < sint pages then
         seq (kprintf ''Region: 0x%lx - 0x%lx: %d\<newline>'' [PLong prev_va, PLong va, PInt pages]) (
         ret (Inl (va + PGSIZE, prev_va, 0)))
       else ret (Inl (va + PGSIZE, prev_va, pages)))
     else ret (Inr ()))"

definition sys_show_vm_areas :: "uint64 kop" where
  "sys_show_vm_areas =
     bind me (\<lambda>i.
     bind (proc_at i) (\<lambda>p.
     seq (kprintf ''[Memory-mapped areas for process %d:]\<newline>'' [PInt (p_pid p)]) (
     seq (loopK (show_body (p_pagetable p)) (0, 0, 0)) (
     ret 0))))"

end
