(* ===== verification/ProcLife.thy ===== *)
theory ProcLife
  imports FileOps Shm
begin

text \<open>
  The life of a process, the other half of \<^verbatim>\<open>kernel/proc.c\<close>: allocating and freeing a slot of the
  process table, the first process, growing, forking, exiting and waiting.
\<close>

section \<open>Slots and page tables\<close>

definition proc_pagetable :: "nat \<Rightarrow> addr kop" where
  "proc_pagetable i =
     bind uvmcreate (\<lambda>pagetable.
     if pagetable = 0 then ret 0
     else
       bind (gets (\<lambda>s. sym_trampoline (syms s))) (\<lambda>tramp.
       bind (mappages pagetable TRAMPOLINE PGSIZE tramp (PTE_R OR PTE_X)) (\<lambda>r.
       if sint r < 0 then
         seq (uvmfree pagetable 0) (ret 0)
       else
         bind (proc_at i) (\<lambda>p.
         bind (mappages pagetable TRAPFRAME PGSIZE (p_trapframe p) (PTE_R OR PTE_W)) (\<lambda>r.
         if sint r < 0 then
           seq (uvmunmap pagetable TRAMPOLINE 1 False) (
           seq (uvmfree pagetable 0) (ret 0))
         else ret pagetable)))))"

definition proc_freepagetable :: "addr \<Rightarrow> uint64 \<Rightarrow> unit kop" where
  "proc_freepagetable pagetable sz =
     seq (uvmunmap pagetable TRAMPOLINE 1 False) (
     seq (uvmunmap pagetable TRAPFRAME 1 False) (
     uvmfree pagetable sz))"

definition freeproc :: "nat \<Rightarrow> unit kop" where
  "freeproc i =
     bind (proc_at i) (\<lambda>p.
     seq (whenK (p_trapframe p \<noteq> 0) (kfree (p_trapframe p))) (
     seq (set_proc i (\<lambda>p. p\<lparr>p_trapframe := 0\<rparr>)) (
     seq (whenK (p_pagetable p \<noteq> 0) (proc_freepagetable (p_pagetable p) (p_sz p))) (
     set_proc i (\<lambda>p. p\<lparr>p_pagetable := 0, p_sz := 0, p_pid := 0, p_parent := None, p_name := [],
       p_chan := ChNull, p_killed := False, p_xstate := 0, p_state := UNUSED\<rparr>)))))"

definition allocproc_scan :: "nat \<Rightarrow> nat option kop" where
  "allocproc_scan i =
     seq (acquire (LkProc i)) (
     bind (proc_at i) (\<lambda>p.
     if p_state p = UNUSED then ret (Some i)
     else seq (release (LkProc i)) (ret None)))"

definition allocproc :: "nat option kop" where
  "allocproc =
     bind (forK [0..<NPROC] allocproc_scan) (\<lambda>r.
     case r of None \<Rightarrow> ret None
     | Some i \<Rightarrow>
         bind allocpid (\<lambda>pid.
         seq (set_proc i (\<lambda>p. p\<lparr>p_pid := pid\<rparr>)) (
         seq (set_proc i (\<lambda>p. p\<lparr>p_state := USED\<rparr>)) (
         bind kalloc (\<lambda>tf.
         seq (set_proc i (\<lambda>p. p\<lparr>p_trapframe := tf\<rparr>)) (
         if tf = 0 then
           seq (freeproc i) (seq (release (LkProc i)) (ret None))
         else
           bind (proc_pagetable i) (\<lambda>pt.
           seq (set_proc i (\<lambda>p. p\<lparr>p_pagetable := pt\<rparr>)) (
           if pt = 0 then
             seq (freeproc i) (seq (release (LkProc i)) (ret None))
           else
             bind (gets (\<lambda>s. sym_forkret (syms s))) (\<lambda>fr.
             seq (set_proc i (\<lambda>p. p\<lparr>p_context := zero_kcontext\<lparr>ctx_ra := fr, ctx_sp := p_kstack p + PGSIZE\<rparr>\<rparr>)) (
             ret (Some i)))))))))))"

section \<open>The first process\<close>

definition initcode :: "uchar list" where
  "initcode = [
     0x17, 0x05, 0x00, 0x00, 0x13, 0x05, 0x45, 0x02,
     0x97, 0x05, 0x00, 0x00, 0x93, 0x85, 0x35, 0x02,
     0x93, 0x08, 0x70, 0x00, 0x73, 0x00, 0x00, 0x00,
     0x93, 0x08, 0x20, 0x00, 0x73, 0x00, 0x00, 0x00,
     0xef, 0xf0, 0x9f, 0xff, 0x2f, 0x69, 0x6e, 0x69,
     0x74, 0x00, 0x00, 0x24, 0x00, 0x00, 0x00, 0x00,
     0x00, 0x00, 0x00, 0x00]"

definition userinit :: "unit kop" where
  "userinit =
     bind allocproc (\<lambda>p.
     seq (modify (\<lambda>s. s\<lparr>initproc := p\<rparr>)) (
     bind (need p) (\<lambda>i.
     bind (proc_at i) (\<lambda>v.
     seq (uvmfirst (p_pagetable v) initcode) (
     seq (set_proc i (\<lambda>p. p\<lparr>p_sz := PGSIZE\<rparr>)) (
     seq (upd_tf (p_trapframe v) (\<lambda>f. f\<lparr>epc := 0\<rparr>)) (
     seq (upd_tf (p_trapframe v) (\<lambda>f. f\<lparr>regs := (regs f)(R_sp := PGSIZE)\<rparr>)) (
     seq (set_proc i (\<lambda>p. p\<lparr>p_name := safestrcpy (bytes_of ''initcode'') 16\<rparr>)) (
     bind (namei [slash]) (\<lambda>ip.
     seq (set_proc i (\<lambda>p. p\<lparr>p_cwd := ip\<rparr>)) (
     seq (set_proc i (\<lambda>p. p\<lparr>p_state := RUNNABLE\<rparr>)) (
     release (LkProc i)))))))))))))"

section \<open>Growing and forking\<close>

definition growproc :: "cint \<Rightarrow> cint kop" where
  "growproc n =
     bind me (\<lambda>i.
     bind (proc_at i) (\<lambda>p.
     if sint n > 0 then
       bind (uvmalloc (p_pagetable p) (p_sz p) (p_sz p + scast n) PTE_W) (\<lambda>sz.
       if sz = 0 then ret (-1)
       else seq (set_proc i (\<lambda>p. p\<lparr>p_sz := sz\<rparr>)) (ret 0))
     else if sint n < 0 then
       bind (uvmdealloc (p_pagetable p) (p_sz p) (p_sz p + scast n)) (\<lambda>sz.
       seq (set_proc i (\<lambda>p. p\<lparr>p_sz := sz\<rparr>)) (ret 0))
     else ret 0))"

definition fork_files :: "nat \<Rightarrow> nat \<Rightarrow> nat \<Rightarrow> unit kop" where
  "fork_files i np fd =
     bind (proc_at i) (\<lambda>p.
     case p_ofile p fd of None \<Rightarrow> skip
     | Some f \<Rightarrow> bind (filedup f) (\<lambda>g. set_ofile np fd (Some g)))"

definition fork :: "cint kop" where
  "fork =
     bind me (\<lambda>i.
     bind allocproc (\<lambda>r.
     case r of None \<Rightarrow> ret (-1)
     | Some np \<Rightarrow>
         bind (proc_at i) (\<lambda>p.
         bind (proc_at np) (\<lambda>v.
         bind (uvmcopy (p_pagetable p) (p_pagetable v) (p_sz p)) (\<lambda>c.
         if sint c < 0 then
           seq (freeproc np) (seq (release (LkProc np)) (ret (-1)))
         else
           seq (set_proc np (\<lambda>q. q\<lparr>p_sz := p_sz p\<rparr>)) (
           bind (shmem_fork (p_pagetable p) (p_pagetable v)) (\<lambda>m.
           if sint m < 0 then
             seq (freeproc np) (seq (release (LkProc np)) (ret (-1)))
           else
             bind (tf_at (p_trapframe p)) (\<lambda>f.
             seq (upd_tf (p_trapframe v) (\<lambda>_. f)) (
             seq (upd_tf (p_trapframe v) (\<lambda>f. f\<lparr>regs := (regs f)(R_a 0 := 0)\<rparr>)) (
             seq (for_each [0..<NOFILE] (fork_files i np)) (
             bind (idup (p_cwd p)) (\<lambda>cwd.
             seq (set_proc np (\<lambda>q. q\<lparr>p_cwd := cwd\<rparr>)) (
             seq (set_proc np (\<lambda>q. q\<lparr>p_name := safestrcpy (p_name p) 16\<rparr>)) (
             bind (proc_at np) (\<lambda>q.
             seq (release (LkProc np)) (
             seq (acquire LkWait) (
             seq (set_proc np (\<lambda>q. q\<lparr>p_parent := Some i\<rparr>)) (
             seq (release LkWait) (
             seq (acquire (LkProc np)) (
             seq (set_proc np (\<lambda>q. q\<lparr>p_state := RUNNABLE\<rparr>)) (
             seq (release (LkProc np)) (
             ret (p_pid q)))))))))))))))))))))))"

section \<open>Exiting and waiting\<close>

text \<open>The wait channel of a process structure; the null pointer is \<open>ChNull\<close>.\<close>

definition proc_chan :: "nat option \<Rightarrow> chan" where
  "proc_chan p = (case p of None \<Rightarrow> ChNull | Some i \<Rightarrow> ChProc i)"

definition reparent_body :: "nat \<Rightarrow> nat \<Rightarrow> unit kop" where
  "reparent_body p i =
     bind (proc_at i) (\<lambda>pp.
     whenK (p_parent pp = Some p) (
       bind (gets initproc) (\<lambda>ini.
       seq (set_proc i (\<lambda>q. q\<lparr>p_parent := ini\<rparr>)) (
       wakeup (proc_chan ini)))))"

definition reparent :: "nat \<Rightarrow> unit kop" where
  "reparent p = for_each [0..<NPROC] (reparent_body p)"

definition exit_files :: "nat \<Rightarrow> nat \<Rightarrow> unit kop" where
  "exit_files i fd =
     bind (proc_at i) (\<lambda>p.
     case p_ofile p fd of None \<Rightarrow> skip
     | Some f \<Rightarrow> seq (fileclose f) (set_ofile i fd None))"

definition exit :: "cint \<Rightarrow> 'a kop" where
  "exit status =
     bind me (\<lambda>i.
     bind (gets initproc) (\<lambda>ini.
     seq (whenK (Some i = ini) (panic ''init exiting'')) (
     seq (for_each [0..<NOFILE] (exit_files i)) (
     seq shmem_exit (
     seq begin_op (
     bind (proc_at i) (\<lambda>p.
     seq (iput (p_cwd p)) (
     seq end_op (
     seq (set_proc i (\<lambda>p. p\<lparr>p_cwd := None\<rparr>)) (
     seq (acquire LkWait) (
     seq (reparent i) (
     bind (proc_at i) (\<lambda>p.
     seq (wakeup (proc_chan (p_parent p))) (
     seq (acquire (LkProc i)) (
     seq (set_proc i (\<lambda>p. p\<lparr>p_xstate := status\<rparr>)) (
     seq (set_proc i (\<lambda>p. p\<lparr>p_state := ZOMBIE\<rparr>)) (
     seq (release LkWait) (
     seq sched (
     panic ''zombie exit'')))))))))))))))))))"

text \<open>
  The scan of \<^verbatim>\<open>wait\<close>: it ends with \<open>Some r\<close> when the function returns \<open>r\<close>, and otherwise says whether
  there are children.
\<close>

definition wait_scan :: "uint64 \<Rightarrow> nat \<Rightarrow> nat \<times> bool \<Rightarrow> ((nat \<times> bool) + (cint option \<times> bool)) kop" where
  "wait_scan addr p = (\<lambda>(i, havekids).
     if i < NPROC then
       bind (proc_at i) (\<lambda>pp.
       if p_parent pp = Some p then
         seq (acquire (LkProc i)) (
         bind (proc_at i) (\<lambda>pp.
         if p_state pp = ZOMBIE then
           bind (if addr \<noteq> 0 then
                   bind (proc_at p) (\<lambda>q. copyout (p_pagetable q) addr (le_bytes 4 (p_xstate pp)))
                 else ret 0) (\<lambda>c.
           if sint c < 0 then
             seq (release (LkProc i)) (seq (release LkWait) (ret (Inr (Some (-1), True))))
           else
             seq (freeproc i) (
             seq (release (LkProc i)) (
             seq (release LkWait) (
             ret (Inr (Some (p_pid pp), True))))))
         else
           seq (release (LkProc i)) (
           ret (Inl (Suc i, True)))))
       else ret (Inl (Suc i, havekids)))
     else ret (Inr (None, havekids)))"

definition wait_body :: "uint64 \<Rightarrow> nat \<Rightarrow> unit \<Rightarrow> (unit + cint) kop" where
  "wait_body addr p u =
     bind (loopK (wait_scan addr p) (0, False)) (\<lambda>(r, havekids).
     case r of Some v \<Rightarrow> ret (Inr v)
     | None \<Rightarrow>
         bind (if \<not> havekids then ret True else killed p) (\<lambda>stop.
         if stop then seq (release LkWait) (ret (Inr (-1)))
         else seq (sleep (ChProc p) LkWait) (ret (Inl ()))))"

definition wait :: "uint64 \<Rightarrow> cint kop" where
  "wait addr =
     bind me (\<lambda>p.
     seq (acquire LkWait) (
     loopK (wait_body addr p) ()))"

end
