(* ===== verification/Exec.thy ===== *)
theory Exec
  imports ProcLife
begin

text \<open>
  \<^verbatim>\<open>kernel/exec.c\<close> with the layouts of \<^verbatim>\<open>elf.h\<close>: replacing the memory image of a process by a program
  read from a file. An argument string is the page it was copied to.
\<close>

section \<open>ELF\<close>

definition ELF_MAGIC :: uint where "ELF_MAGIC = 0x464C457F"
definition ELF_PROG_LOAD :: uint where "ELF_PROG_LOAD = 1"

record elfhdr =
  e_magic :: uint
  e_entry :: uint64
  e_phoff :: uint64
  e_phnum :: cshort

record proghdr =
  ph_type :: uint
  ph_flags :: uint
  ph_off :: uint64
  ph_vaddr :: uint64
  ph_filesz :: uint64
  ph_memsz :: uint64

definition bytes_elfhdr :: "uchar list \<Rightarrow> elfhdr" where
  "bytes_elfhdr bs = \<lparr>e_magic = le_word (take 4 bs), e_entry = le_word (take 8 (drop 24 bs)),
     e_phoff = le_word (take 8 (drop 32 bs)), e_phnum = le_word (take 2 (drop 56 bs))\<rparr>"

definition bytes_proghdr :: "uchar list \<Rightarrow> proghdr" where
  "bytes_proghdr bs = \<lparr>ph_type = le_word (take 4 bs), ph_flags = le_word (take 4 (drop 4 bs)),
     ph_off = le_word (take 8 (drop 8 bs)), ph_vaddr = le_word (take 8 (drop 16 bs)),
     ph_filesz = le_word (take 8 (drop 32 bs)), ph_memsz = le_word (take 8 (drop 40 bs))\<rparr>"

section \<open>Loading\<close>

definition flags2perm :: "uint \<Rightarrow> uint64" where
  "flags2perm flags =
     (let perm = (if flags AND 1 \<noteq> 0 then PTE_X else 0) in
      if flags AND 2 \<noteq> 0 then perm OR PTE_W else perm)"

definition loadseg_body :: "addr \<Rightarrow> uint64 \<Rightarrow> nat \<Rightarrow> uint \<Rightarrow> uint \<Rightarrow> uint \<Rightarrow> (uint + cint) kop" where
  "loadseg_body pagetable va ip offset sz i =
     (if i < sz then
        bind (walkaddr pagetable (va + ucast i)) (\<lambda>pa.
        seq (whenK (pa = 0) (panic ''loadseg: address should exist'')) (
        let n = (if sz - i < 4096 then sz - i else 4096) in
        bind (readi ip (ToPhys pa) (offset + i) n) (\<lambda>(r, d).
        if r \<noteq> n then ret (Inr (-1)) else ret (Inl (i + 4096)))))
      else ret (Inr 0))"

definition loadseg :: "addr \<Rightarrow> uint64 \<Rightarrow> nat \<Rightarrow> uint \<Rightarrow> uint \<Rightarrow> cint kop" where
  "loadseg pagetable va ip offset sz = loopK (loadseg_body pagetable va ip offset sz) 0"

text \<open>
  One round of the loop over the program headers, with \<^verbatim>\<open>i\<close>, \<^verbatim>\<open>off\<close> and \<^verbatim>\<open>sz\<close>. It leaves with \<open>(ok, sz)\<close>,
  \<open>ok\<close> false for \<^verbatim>\<open>goto bad\<close>.
\<close>

definition load_body :: "nat \<Rightarrow> elfhdr \<Rightarrow> addr \<Rightarrow> nat \<times> uint \<times> uint64 \<Rightarrow> ((nat \<times> uint \<times> uint64) + (bool \<times> uint64)) kop" where
  "load_body ip elf pagetable = (\<lambda>(i, off, sz).
     if i < unat (e_phnum elf) then
       bind (readi ip (ToLocal []) off 56) (\<lambda>(r, d).
       if r \<noteq> 56 then ret (Inr (False, sz))
       else
         let ph = bytes_proghdr (local_bytes d) in
         if ph_type ph \<noteq> ELF_PROG_LOAD then ret (Inl (Suc i, off + 56, sz))
         else if ph_memsz ph < ph_filesz ph then ret (Inr (False, sz))
         else if ph_vaddr ph + ph_memsz ph < ph_vaddr ph then ret (Inr (False, sz))
         else if ph_vaddr ph mod PGSIZE \<noteq> 0 then ret (Inr (False, sz))
         else
           bind (uvmalloc pagetable sz (ph_vaddr ph + ph_memsz ph) (flags2perm (ph_flags ph))) (\<lambda>sz1.
           if sz1 = 0 then ret (Inr (False, sz))
           else
             bind (loadseg pagetable (ph_vaddr ph) ip (ucast (ph_off ph)) (ucast (ph_filesz ph))) (\<lambda>l.
             if sint l < 0 then ret (Inr (False, sz1)) else ret (Inl (Suc i, off + 56, sz1)))))
     else ret (Inr (True, sz)))"

section \<open>The stack\<close>

text \<open>The string on an argument page.\<close>

definition page_str :: "addr \<Rightarrow> uchar list kop" where
  "page_str a = bind (read_page a 0 4096) (\<lambda>bs. ret (takeWhile (\<lambda>c. c \<noteq> 0) bs))"

definition push_body :: "addr \<Rightarrow> uint64 \<Rightarrow> addr list \<times> uint64 \<times> uint64 list \<Rightarrow>
    ((addr list \<times> uint64 \<times> uint64 list) + (uint64 \<times> uint64 list) option) kop" where
  "push_body pagetable stackbase = (\<lambda>(argv, sp, ustack).
     case argv of [] \<Rightarrow> ret (Inr (Some (sp, ustack)))
     | a # rest \<Rightarrow>
         if length ustack \<ge> MAXARG then ret (Inr None)
         else
           bind (page_str a) (\<lambda>str.
           let sp1 = sp - of_nat (length str + 1); sp2 = sp1 - sp1 mod 16 in
           if sp2 < stackbase then ret (Inr None)
           else
             bind (copyout pagetable sp2 (str @ [0])) (\<lambda>r.
             if sint r < 0 then ret (Inr None) else ret (Inl (rest, sp2, ustack @ [sp2])))))"

text \<open>\<^verbatim>\<open>ustack[argc] = 0\<close> with \<^verbatim>\<open>argc == MAXARG\<close> would write past the array.\<close>

definition push_args :: "addr \<Rightarrow> uint64 \<Rightarrow> uint64 \<Rightarrow> addr list \<Rightarrow> (uint64 \<times> nat) option kop" where
  "push_args pagetable sz stackbase argv =
     bind (loopK (push_body pagetable stackbase) (argv, sz, [])) (\<lambda>r.
     case r of None \<Rightarrow> ret None
     | Some (sp, ustack) \<Rightarrow>
         if length ustack \<ge> MAXARG then fault
         else
           let sp1 = sp - of_nat (length ustack + 1) * 8; sp2 = sp1 - sp1 mod 16 in
           if sp2 < stackbase then ret None
           else
             bind (copyout pagetable sp2 (concat (map (le_bytes 8) (ustack @ [0])))) (\<lambda>r.
             if sint r < 0 then ret None else ret (Some (sp2, length ustack))))"

section \<open>exec\<close>

text \<open>The label \<^verbatim>\<open>bad\<close>.\<close>

definition exec_bad :: "addr \<Rightarrow> uint64 \<Rightarrow> nat option \<Rightarrow> cint kop" where
  "exec_bad pagetable sz ip =
     seq (whenK (pagetable \<noteq> 0) (proc_freepagetable pagetable sz)) (
     seq (whenK (ip \<noteq> None) (seq (iunlockput ip) end_op)) (
     ret (-1)))"

text \<open>The part after the label's last \<^verbatim>\<open>goto\<close>: the new image takes effect.\<close>

definition last_elem :: "uchar list \<Rightarrow> uchar list" where
  "last_elem path = rev (takeWhile (\<lambda>c. c \<noteq> slash) (rev path))"

definition exec_commit :: "nat \<Rightarrow> uchar list \<Rightarrow> addr \<Rightarrow> uint64 \<Rightarrow> uint64 \<Rightarrow> uint64 \<Rightarrow> nat \<Rightarrow> uint64 \<Rightarrow> cint kop" where
  "exec_commit i path pagetable sz oldsz sp argc entry =
     bind (proc_at i) (\<lambda>p.
     seq (upd_tf (p_trapframe p) (\<lambda>f. f\<lparr>regs := (regs f)(R_a 1 := sp)\<rparr>)) (
     seq (set_proc i (\<lambda>p. p\<lparr>p_name := safestrcpy (last_elem path) 16\<rparr>)) (
     seq (set_proc i (\<lambda>p. p\<lparr>p_pagetable := pagetable\<rparr>)) (
     seq (set_proc i (\<lambda>p. p\<lparr>p_sz := sz\<rparr>)) (
     seq (upd_tf (p_trapframe p) (\<lambda>f. f\<lparr>epc := entry\<rparr>)) (
     seq (upd_tf (p_trapframe p) (\<lambda>f. f\<lparr>regs := (regs f)(R_sp := sp)\<rparr>)) (
     seq (proc_freepagetable (p_pagetable p) oldsz) (
     ret (of_nat argc)))))))))"

definition exec :: "uchar list \<Rightarrow> addr list \<Rightarrow> cint kop" where
  "exec path argv =
     bind me (\<lambda>i.
     seq begin_op (
     bind (namei path) (\<lambda>ip.
     case ip of None \<Rightarrow> seq end_op (ret (-1))
     | Some j \<Rightarrow>
         seq (ilock ip) (
         bind (readi j (ToLocal []) 0 64) (\<lambda>(r, d).
         if r \<noteq> 64 then exec_bad 0 0 ip
         else
           let elf = bytes_elfhdr (local_bytes d) in
           if e_magic elf \<noteq> ELF_MAGIC then exec_bad 0 0 ip
           else
             bind (proc_pagetable i) (\<lambda>pagetable.
             if pagetable = 0 then exec_bad 0 0 ip
             else
               bind (loopK (load_body j elf pagetable) (0, ucast (e_phoff elf), 0)) (\<lambda>(ok, sz).
               if \<not> ok then exec_bad pagetable sz ip
               else
                 seq (iunlockput ip) (
                 seq end_op (
                 bind me (\<lambda>i.
                 bind (proc_at i) (\<lambda>p.
                 let oldsz = p_sz p; sz = PGROUNDUP sz in
                 bind (uvmalloc pagetable sz (sz + of_nat (USERSTACK + 1) * PGSIZE) PTE_W) (\<lambda>sz1.
                 if sz1 = 0 then exec_bad pagetable sz None
                 else
                   seq (uvmclear pagetable (sz1 - of_nat (USERSTACK + 1) * PGSIZE)) (
                   bind (push_args pagetable sz1 (sz1 - of_nat USERSTACK * PGSIZE) argv) (\<lambda>a.
                   case a of None \<Rightarrow> exec_bad pagetable sz1 None
                   | Some (sp, argc) \<Rightarrow>
                       exec_commit i path pagetable sz1 oldsz sp argc (e_entry elf)))))))))))))))"

end
