(* ===== verification/Sysfile.thy ===== *)
theory Sysfile
  imports Exec
begin

text \<open>
  \<^verbatim>\<open>kernel/sysfile.c\<close>, the file system calls, and \<^verbatim>\<open>sys_getfilesize\<close> of \<^verbatim>\<open>proj5/kernel/getfilesize.c\<close>.
  System calls return 64 bits; \<^verbatim>\<open>return -1\<close> is the word \<open>-1\<close>, and a 32-bit result is sign-extended.
\<close>

section \<open>Descriptors\<close>

definition O_RDONLY :: cint where "O_RDONLY = 0"
definition O_WRONLY :: cint where "O_WRONLY = 1"
definition O_RDWR :: cint where "O_RDWR = 2"
definition O_CREATE :: cint where "O_CREATE = 0x100"
definition O_TRUNC :: cint where "O_TRUNC = 0x200"
definition O_APPEND :: cint where "O_APPEND = 0x400"

definition argfd :: "nat \<Rightarrow> (nat \<times> nat) option kop" where
  "argfd n =
     bind (argint n) (\<lambda>fd.
     if sint fd < 0 \<or> sint fd \<ge> int NOFILE then ret None
     else
       bind me (\<lambda>i.
       bind (proc_at i) (\<lambda>p.
       case p_ofile p (unat fd) of None \<Rightarrow> ret None
       | Some f \<Rightarrow> ret (Some (unat fd, f)))))"

definition sys_dup :: "uint64 kop" where
  "sys_dup =
     bind (argfd 0) (\<lambda>r.
     case r of None \<Rightarrow> ret (-1)
     | Some (_, f) \<Rightarrow>
         bind (fdalloc f) (\<lambda>fd.
         if sint fd < 0 then ret (-1)
         else seq (filedup f) (ret (scast fd))))"

definition sys_read :: "uint64 kop" where
  "sys_read =
     bind (argaddr 1) (\<lambda>p.
     bind (argint 2) (\<lambda>n.
     bind (argfd 0) (\<lambda>r.
     case r of None \<Rightarrow> ret (-1)
     | Some (_, f) \<Rightarrow> bind (fileread f p n) (\<lambda>v. ret (scast v)))))"

definition sys_write :: "uint64 kop" where
  "sys_write =
     bind (argaddr 1) (\<lambda>p.
     bind (argint 2) (\<lambda>n.
     bind (argfd 0) (\<lambda>r.
     case r of None \<Rightarrow> ret (-1)
     | Some (_, f) \<Rightarrow>
         bind (file_at f) (\<lambda>v.
         if f_writable v = 0 then ret (-1)
         else bind (filewrite f p n) (\<lambda>v. ret (scast v))))))"

definition sys_close :: "uint64 kop" where
  "sys_close =
     bind (argfd 0) (\<lambda>r.
     case r of None \<Rightarrow> ret (-1)
     | Some (fd, f) \<Rightarrow>
         bind me (\<lambda>i.
         seq (set_ofile i fd None) (
         seq (fileclose f) (
         ret 0))))"

definition sys_fstat :: "uint64 kop" where
  "sys_fstat =
     bind (argaddr 1) (\<lambda>st.
     bind (argfd 0) (\<lambda>r.
     case r of None \<Rightarrow> ret (-1)
     | Some (_, f) \<Rightarrow> bind (filestat f st) (\<lambda>v. ret (scast v))))"

section \<open>Links\<close>

definition set_nlink :: "nat \<Rightarrow> cshort \<Rightarrow> unit kop" where
  "set_nlink i d = upd_ino i (\<lambda>ip. ip\<lparr>i_nlink := i_nlink ip + d\<rparr>)"

text \<open>The label \<^verbatim>\<open>bad\<close> of \<^verbatim>\<open>sys_link\<close>.\<close>

definition link_bad :: "nat \<Rightarrow> uint64 kop" where
  "link_bad ip =
     seq (ilock (Some ip)) (
     seq (set_nlink ip (-1)) (
     seq (iupdate ip) (
     seq (iunlockput (Some ip)) (
     seq end_op (
     ret (-1))))))"

definition sys_link :: "uint64 kop" where
  "sys_link =
     bind (argstr 0 MAXPATH) (\<lambda>(n0, old).
     if sint n0 < 0 then ret (-1)
     else
     bind (argstr 1 MAXPATH) (\<lambda>(n1, new).
     if sint n1 < 0 then ret (-1)
     else
     seq begin_op (
     bind (namei old) (\<lambda>r.
     case r of None \<Rightarrow> seq end_op (ret (-1))
     | Some ip \<Rightarrow>
         seq (ilock r) (
         bind (ino_at ip) (\<lambda>v.
         if i_type v = T_DIR then seq (iunlockput r) (seq end_op (ret (-1)))
         else
           seq (set_nlink ip 1) (
           seq (iupdate ip) (
           seq (iunlock r) (
           bind (nameiparent new) (\<lambda>(dr, name).
           case dr of None \<Rightarrow> link_bad ip
           | Some dp \<Rightarrow>
               seq (ilock dr) (
               bind (ino_at dp) (\<lambda>dv.
               bind (ino_at ip) (\<lambda>v.
               bind (if i_dev dv \<noteq> i_dev v then ret (-1) else dirlink dp name (i_inum v)) (\<lambda>l.
               if sint l < 0 then seq (iunlockput dr) (link_bad ip)
               else
                 seq (iunlockput dr) (
                 seq (iput r) (
                 seq end_op (
                 ret 0)))))))))))))))))"

definition isdirempty_body :: "nat \<Rightarrow> uint \<Rightarrow> (uint + bool) kop" where
  "isdirempty_body dp off =
     bind (ino_at dp) (\<lambda>v.
     if off < i_size v then
       bind (read_dirent dp off ''isdirempty: readi'') (\<lambda>de.
       if d_inum de \<noteq> 0 then ret (Inr False) else ret (Inl (off + 16)))
     else ret (Inr True))"

definition isdirempty :: "nat \<Rightarrow> bool kop" where
  "isdirempty dp = loopK (isdirempty_body dp) 32"

definition unlink_bad :: "nat option \<Rightarrow> uint64 kop" where
  "unlink_bad dr = seq (iunlockput dr) (seq end_op (ret (-1)))"

definition sys_unlink :: "uint64 kop" where
  "sys_unlink =
     bind (argstr 0 MAXPATH) (\<lambda>(n, path).
     if sint n < 0 then ret (-1)
     else
     seq begin_op (
     bind (nameiparent path) (\<lambda>(dr, name).
     case dr of None \<Rightarrow> seq end_op (ret (-1))
     | Some dp \<Rightarrow>
         seq (ilock dr) (
         if namecmp name [46] = 0 \<or> namecmp name [46, 46] = 0 then unlink_bad dr
         else
           bind (dirlookup dp name) (\<lambda>r.
           case r of None \<Rightarrow> unlink_bad dr
           | Some (ip, off) \<Rightarrow>
               seq (ilock (Some ip)) (
               bind (ino_at ip) (\<lambda>v.
               seq (whenK (sint (i_nlink v) < 1) (panic ''unlink: nlink < 1'')) (
               bind (if i_type v = T_DIR then isdirempty ip else ret True) (\<lambda>em.
               if \<not> em then seq (iunlockput (Some ip)) (unlink_bad dr)
               else
                 bind (writei dp (FromLocal (replicate 16 0)) off 16) (\<lambda>w.
                 seq (whenK (w \<noteq> 16) (panic ''unlink: writei'')) (
                 seq (whenK (i_type v = T_DIR) (seq (set_nlink dp (-1)) (iupdate dp))) (
                 seq (iunlockput dr) (
                 seq (set_nlink ip (-1)) (
                 seq (iupdate ip) (
                 seq (iunlockput (Some ip)) (
                 seq end_op (
                 ret 0)))))))))))))))))"

section \<open>Creating and opening\<close>

text \<open>The label \<^verbatim>\<open>fail\<close> of \<^verbatim>\<open>create\<close>.\<close>

definition create_fail :: "nat \<Rightarrow> nat option \<Rightarrow> nat option kop" where
  "create_fail ip dr =
     seq (upd_ino ip (\<lambda>v. v\<lparr>i_nlink := 0\<rparr>)) (
     seq (iupdate ip) (
     seq (iunlockput (Some ip)) (
     seq (iunlockput dr) (
     ret None))))"

definition create :: "uchar list \<Rightarrow> cshort \<Rightarrow> cshort \<Rightarrow> cshort \<Rightarrow> nat option kop" where
  "create path type major minor =
     bind (nameiparent path) (\<lambda>(dr, name).
     case dr of None \<Rightarrow> ret None
     | Some dp \<Rightarrow>
         seq (ilock dr) (
         bind (dirlookup dp name) (\<lambda>r.
         case r of
           Some (ip, off) \<Rightarrow>
             seq (iunlockput dr) (
             seq (ilock (Some ip)) (
             bind (ino_at ip) (\<lambda>v.
             if type = T_FILE \<and> (i_type v = T_FILE \<or> i_type v = T_DEVICE) then ret (Some ip)
             else seq (iunlockput (Some ip)) (ret None))))
         | None \<Rightarrow>
             bind (ino_at dp) (\<lambda>dv.
             bind (ialloc (i_dev dv) type) (\<lambda>a.
             case a of None \<Rightarrow> seq (iunlockput dr) (ret None)
             | Some ip \<Rightarrow>
                 seq (ilock a) (
                 seq (upd_ino ip (\<lambda>v. v\<lparr>i_major := major\<rparr>)) (
                 seq (upd_ino ip (\<lambda>v. v\<lparr>i_minor := minor\<rparr>)) (
                 seq (upd_ino ip (\<lambda>v. v\<lparr>i_nlink := 1\<rparr>)) (
                 seq (iupdate ip) (
                 bind (ino_at ip) (\<lambda>v.
                 bind (if type = T_DIR then
                         bind (dirlink ip [46] (i_inum v)) (\<lambda>l.
                         if sint l < 0 then ret l
                         else bind (ino_at dp) (\<lambda>dv. dirlink ip [46, 46] (i_inum dv)))
                       else ret 0) (\<lambda>l.
                 if sint l < 0 then create_fail ip dr
                 else
                   bind (dirlink dp name (i_inum v)) (\<lambda>l.
                   if sint l < 0 then create_fail ip dr
                   else
                     seq (whenK (type = T_DIR) (seq (set_nlink dp 1) (iupdate dp))) (
                     seq (iunlockput dr) (
                     ret (Some ip))))))))))))))))"

text \<open>\<^verbatim>\<open>sys_open\<close> once the inode is found and locked.\<close>

definition open_fail :: "nat \<Rightarrow> uint64 kop" where
  "open_fail ip = seq (iunlockput (Some ip)) (seq end_op (ret (-1)))"

definition open_inode :: "cint \<Rightarrow> nat \<Rightarrow> uint64 kop" where
  "open_inode omode ip =
     bind (ino_at ip) (\<lambda>v.
     if i_type v = T_DEVICE \<and> (sint (i_major v) < 0 \<or> sint (i_major v) \<ge> int NDEV) then open_fail ip
     else
       bind filealloc (\<lambda>fr.
       case fr of None \<Rightarrow> open_fail ip
       | Some f \<Rightarrow>
           bind (fdalloc f) (\<lambda>fd.
           if sint fd < 0 then seq (fileclose f) (open_fail ip)
           else
             bind (ino_at ip) (\<lambda>v.
             seq (if i_type v = T_DEVICE then
                    seq (set_file f (\<lambda>x. x\<lparr>f_type := FD_DEVICE\<rparr>)) (
                    set_file f (\<lambda>x. x\<lparr>f_major := i_major v\<rparr>))
                  else
                    seq (set_file f (\<lambda>x. x\<lparr>f_type := FD_INODE\<rparr>)) (
                    seq (set_file f (\<lambda>x. x\<lparr>f_off := 0\<rparr>)) (
                    whenK (omode AND O_APPEND \<noteq> 0) (set_file f (\<lambda>x. x\<lparr>f_off := i_size v\<rparr>))))) (
             seq (set_file f (\<lambda>x. x\<lparr>f_ip := Some ip\<rparr>)) (
             seq (set_file f (\<lambda>x. x\<lparr>f_readable := (if omode AND O_WRONLY = 0 then 1 else 0)\<rparr>)) (
             seq (set_file f (\<lambda>x. x\<lparr>f_writable := ucast (omode AND (O_WRONLY OR O_RDWR))\<rparr>)) (
             seq (whenK (omode AND O_TRUNC \<noteq> 0 \<and> i_type v = T_FILE) (itrunc ip)) (
             seq (iunlock (Some ip)) (
             seq end_op (
             ret (scast fd))))))))))))"

definition sys_open :: "uint64 kop" where
  "sys_open =
     bind (argint 1) (\<lambda>omode.
     bind (argstr 0 MAXPATH) (\<lambda>(n, path).
     if sint n < 0 then ret (-1)
     else
       seq begin_op (
       if omode AND O_CREATE \<noteq> 0 then
         bind (create path T_FILE 0 0) (\<lambda>r.
         case r of None \<Rightarrow> seq end_op (ret (-1))
         | Some ip \<Rightarrow> open_inode omode ip)
       else
         bind (namei path) (\<lambda>r.
         case r of None \<Rightarrow> seq end_op (ret (-1))
         | Some ip \<Rightarrow>
             seq (ilock r) (
             bind (ino_at ip) (\<lambda>v.
             if i_type v = T_DIR \<and> omode \<noteq> O_RDONLY then open_fail ip
             else open_inode omode ip))))))"

definition create_only :: "cint \<times> uchar list \<Rightarrow> cshort \<Rightarrow> cshort \<Rightarrow> cshort \<Rightarrow> uint64 kop" where
  "create_only a type major minor =
     (if sint (fst a) < 0 then seq end_op (ret (-1))
      else
        bind (create (snd a) type major minor) (\<lambda>r.
        case r of None \<Rightarrow> seq end_op (ret (-1))
        | Some ip \<Rightarrow>
            seq (iunlockput r) (
            seq end_op (
            ret 0))))"

definition sys_mkdir :: "uint64 kop" where
  "sys_mkdir =
     seq begin_op (
     bind (argstr 0 MAXPATH) (\<lambda>a.
     create_only a T_DIR 0 0))"

definition sys_mknod :: "uint64 kop" where
  "sys_mknod =
     seq begin_op (
     bind (argint 1) (\<lambda>major.
     bind (argint 2) (\<lambda>minor.
     bind (argstr 0 MAXPATH) (\<lambda>a.
     create_only a T_DEVICE (ucast major) (ucast minor)))))"

definition sys_chdir :: "uint64 kop" where
  "sys_chdir =
     bind me (\<lambda>i.
     seq begin_op (
     bind (argstr 0 MAXPATH) (\<lambda>(n, path).
     bind (if sint n < 0 then ret None else namei path) (\<lambda>r.
     case r of None \<Rightarrow> seq end_op (ret (-1))
     | Some ip \<Rightarrow>
         seq (ilock r) (
         bind (ino_at ip) (\<lambda>v.
         if i_type v \<noteq> T_DIR then seq (iunlockput r) (seq end_op (ret (-1)))
         else
           seq (iunlock r) (
           bind (proc_at i) (\<lambda>p.
           seq (iput (p_cwd p)) (
           seq end_op (
           seq (set_proc i (\<lambda>p. p\<lparr>p_cwd := r\<rparr>)) (
           ret 0)))))))))))"

section \<open>exec and pipe\<close>

text \<open>
  The loop of \<^verbatim>\<open>sys_exec\<close> that fetches the argument pointers and strings. It leaves with the pages
  allocated so far and whether all is well; \<^verbatim>\<open>kalloc\<close> failing leaves a null entry behind them.
\<close>

definition exec_args_body :: "uint64 \<Rightarrow> nat \<times> addr list \<Rightarrow> ((nat \<times> addr list) + (bool \<times> addr list)) kop" where
  "exec_args_body uargv = (\<lambda>(i, argv).
     if i \<ge> MAXARG then ret (Inr (False, argv))
     else
       bind (fetchaddr (uargv + 8 * of_nat i)) (\<lambda>(r, uarg).
       if sint r < 0 then ret (Inr (False, argv))
       else if uarg = 0 then ret (Inr (True, argv))
       else
         bind kalloc (\<lambda>a.
         if a = 0 then ret (Inr (False, argv))
         else
           bind (fetchstr uarg 4096) (\<lambda>(n, str).
           if sint n < 0 then ret (Inr (False, argv @ [a]))
           else
             seq (write_page a 0 (str @ [0])) (
             ret (Inl (Suc i, argv @ [a])))))))"

definition sys_exec :: "uint64 kop" where
  "sys_exec =
     bind (argaddr 1) (\<lambda>uargv.
     bind (argstr 0 MAXPATH) (\<lambda>(n, path).
     if sint n < 0 then ret (-1)
     else
       bind (loopK (exec_args_body uargv) (0, [])) (\<lambda>(ok, argv).
       if ok then
         bind (exec path argv) (\<lambda>r.
         seq (for_each argv kfree) (
         ret (scast r)))
       else
         seq (for_each argv kfree) (
         ret (-1)))))"

definition sys_pipe :: "uint64 kop" where
  "sys_pipe = bind (argaddr 0) (\<lambda>fdarray. pipe_fds fdarray pipealloc)"

section \<open>getfilesize\<close>

text \<open>The user pointer is fetched as a 32-bit \<^verbatim>\<open>int\<close> and converted back to 64 bits.\<close>

definition sys_getfilesize :: "uint64 kop" where
  "sys_getfilesize =
     bind (argstr 1 MAXPATH) (\<lambda>(n, path).
     if sint n < 0 then ret (-1)
     else
       bind (argint 0) (\<lambda>size_ptr.
       bind (namei path) (\<lambda>r.
       case r of None \<Rightarrow> ret (-1)
       | Some ip \<Rightarrow>
           seq (ilock r) (
           bind (ino_at ip) (\<lambda>v.
           if i_type v \<noteq> T_FILE then seq (iunlockput r) (ret (-1))
           else
             bind mypagetable (\<lambda>pt.
             bind (copyout pt (scast size_ptr) (le_bytes 4 (i_size v))) (\<lambda>c.
             if sint c < 0 then seq (iunlockput r) (ret (-1))
             else
               seq (iunlockput r) (
               ret 0))))))))"

end
