(* ===== verification/Timer.thy ===== *)
theory Timer
  imports Syscall
begin

text \<open>
  Periodic tasks and CPU affinity, \<^verbatim>\<open>proj3/kernel/\<close>: \<^verbatim>\<open>timer.c\<close>, \<^verbatim>\<open>periodic_tasks.c\<close> and
  \<^verbatim>\<open>cpu_affinity.c\<close>, with \<^verbatim>\<open>clockintr\<close> of \<^verbatim>\<open>kernel/trap.c\<close>, which runs the timers. A timer occupies a page
  of its own.
\<close>

section \<open>The operations\<close>

definition as_timer :: "page \<Rightarrow> xv6timer_t option" where
  "as_timer pg = (case pg of PgTimer t \<Rightarrow> Some t | _ \<Rightarrow> None)"

definition timer_at :: "addr \<Rightarrow> xv6timer_t kop" where
  "timer_at a = (if a = 0 then fault else bind (gets (\<lambda>s. as_timer (phys s a))) need)"

definition upd_timer :: "addr \<Rightarrow> (xv6timer_t \<Rightarrow> xv6timer_t) \<Rightarrow> unit kop" where
  "upd_timer a f = bind (timer_at a) (\<lambda>t. modify (set_page a (PgTimer (f t))))"

definition xv6timer_init :: "addr \<Rightarrow> nat \<Rightarrow> unit kop" where
  "xv6timer_init t p =
     (if t = 0 then fault else
      modify (set_page t (PgTimer \<lparr>tm_expiry = 0, tm_next_tick = 0, tm_proc = Some p, tm_callback = None\<rparr>)))"

definition xv6timer_forward :: "addr \<Rightarrow> cint \<Rightarrow> unit kop" where
  "xv6timer_forward t expiry =
     seq (upd_timer t (\<lambda>v. v\<lparr>tm_expiry := expiry\<rparr>)) (
     bind (gets ticks) (\<lambda>tk.
     upd_timer t (\<lambda>v. v\<lparr>tm_next_tick := tk + expiry\<rparr>)))"

definition xv6timer_register_callback :: "addr \<Rightarrow> callback \<Rightarrow> unit kop" where
  "xv6timer_register_callback t cb = upd_timer t (\<lambda>v. v\<lparr>tm_callback := Some cb\<rparr>)"

definition period_callback :: "addr \<Rightarrow> unit kop" where
  "period_callback t =
     bind (timer_at t) (\<lambda>v.
     bind (need (tm_proc v)) (\<lambda>i.
     seq (acquire (LkProc i)) (
     bind (proc_at i) (\<lambda>p.
     seq (whenK (p_state p = SLEEPING) (set_proc i (\<lambda>p. p\<lparr>p_state := RUNNABLE\<rparr>))) (
     release (LkProc i))))))"

text \<open>A call through the function pointer.\<close>

definition call_callback :: "callback \<Rightarrow> addr \<Rightarrow> unit kop" where
  "call_callback cb t = (case cb of PeriodCallback \<Rightarrow> period_callback t)"

definition xv6timer_interrupt :: "addr \<Rightarrow> unit kop" where
  "xv6timer_interrupt t =
     bind (timer_at t) (\<lambda>v.
     bind (gets ticks) (\<lambda>tk.
     case tm_callback v of None \<Rightarrow> skip
     | Some cb \<Rightarrow>
         whenK (tk \<ge> tm_next_tick v) (
           seq (call_callback cb t) (
           bind (gets ticks) (\<lambda>tk.
           upd_timer t (\<lambda>v. v\<lparr>tm_next_tick := tk + tm_expiry v\<rparr>))))))"

definition sys_setperiod :: "uint64 kop" where
  "sys_setperiod =
     bind (argint 0) (\<lambda>period.
     if sint period < 1 then ret (-1)
     else
       bind me (\<lambda>i.
       bind (proc_at i) (\<lambda>p.
       bind (if p_timer p = 0 then
               bind kalloc (\<lambda>t.
               seq (set_proc i (\<lambda>p. p\<lparr>p_timer := t\<rparr>)) (
               if t = 0 then ret False
               else
                 seq (xv6timer_init t i) (
                 seq (xv6timer_register_callback t PeriodCallback) (
                 ret True))))
             else ret True) (\<lambda>ok.
       if \<not> ok then ret (-1)
       else
         bind (proc_at i) (\<lambda>p.
         seq (xv6timer_forward (p_timer p) period) (
         ret 0))))))"

definition sys_wait_until_next_period :: "uint64 kop" where
  "sys_wait_until_next_period =
     bind me (\<lambda>i.
     bind (proc_at i) (\<lambda>p.
     if p_timer p = 0 then ret (-1)
     else
       seq (acquire (LkProc i)) (
       seq (set_proc i (\<lambda>p. p\<lparr>p_state := SLEEPING\<rparr>)) (
       seq sched (
       seq (release (LkProc i)) (
       ret 0))))))"

definition sys_set_cpu_affinity :: "uint64 kop" where
  "sys_set_cpu_affinity =
     bind (argint 0) (\<lambda>mask.
     bind me (\<lambda>i.
     seq (acquire (LkProc i)) (
     seq (set_proc i (\<lambda>p. p\<lparr>p_cpu_mask := mask\<rparr>)) (
     seq (release (LkProc i)) (
     ret 0)))))"

section \<open>The clock interrupt\<close>

definition clock_body :: "nat \<Rightarrow> unit kop" where
  "clock_body i =
     bind (proc_at i) (\<lambda>p.
     whenK (p_state p \<noteq> UNUSED \<and> p_timer p \<noteq> 0) (
       bind (timer_at (p_timer p)) (\<lambda>v.
       bind (gets ticks) (\<lambda>tk.
       whenK (tk \<ge> tm_next_tick v) (
         case tm_callback v of None \<Rightarrow> skip
         | Some cb \<Rightarrow>
             seq (call_callback cb (p_timer p)) (
             upd_timer (p_timer p) (\<lambda>v. v\<lparr>tm_next_tick := tk + tm_expiry v\<rparr>)))))))"

definition clockintr :: "unit kop" where
  "clockintr =
     bind cpuid (\<lambda>c.
     seq (whenK (c = 0) (
       seq (acquire LkTicks) (
       seq (modify (\<lambda>s. s\<lparr>ticks := ticks s + 1\<rparr>)) (
       seq (for_each [0..<NPROC] clock_body) (
       seq (wakeup ChTicks) (
       release LkTicks)))))) (
     modify (\<lambda>s. s\<lparr>csr := (csr s)(Stimecmp := csr s Time + 1000000)\<rparr>)))"

end
