(* ===== verification/Virtio.thy ===== *)
theory Virtio
  imports Fs
begin

text \<open>
  \<^verbatim>\<open>kernel/virtio_disk.c\<close>: the driver of the virtio disk. The three areas shared with the device are
  pages; the addresses in descriptors name the request headers, the buffers' data and the status
  bytes. A memory-mapped register reads back what was last written to it, by the driver or by the
  device.
\<close>

section \<open>The operations\<close>

definition NUM :: nat where "NUM = 8"
definition VRING_DESC_F_NEXT :: cshort where "VRING_DESC_F_NEXT = 1"
definition VRING_DESC_F_WRITE :: cshort where "VRING_DESC_F_WRITE = 2"
definition VIRTIO_BLK_T_IN :: uint where "VIRTIO_BLK_T_IN = 0"
definition VIRTIO_BLK_T_OUT :: uint where "VIRTIO_BLK_T_OUT = 1"

definition r_mmio :: "uint64 \<Rightarrow> uint kop" where
  "r_mmio a = gets (\<lambda>s. mmio s a)"

definition w_mmio :: "uint64 \<Rightarrow> uint \<Rightarrow> unit kop" where
  "w_mmio a v = modify (\<lambda>s. s\<lparr>mmio := (mmio s)(a := v)\<rparr>)"

definition upd_vd :: "(vdisk_t \<Rightarrow> vdisk_t) \<Rightarrow> unit kop" where
  "upd_vd f = modify (\<lambda>s. s\<lparr>vdisk := f (vdisk s)\<rparr>)"

definition zero_desc :: virtq_desc where
  "zero_desc = \<lparr>vq_addr = VNone, vq_len = 0, vq_flags = 0, vq_next = 0\<rparr>"

text \<open>The shared areas; a zeroed page is an area of zeros.\<close>

definition as_desc :: "page \<Rightarrow> (nat \<Rightarrow> virtq_desc) option" where
  "as_desc pg = (case pg of PgDesc d \<Rightarrow> Some d | PgFill c \<Rightarrow> if c = 0 then Some (\<lambda>_. zero_desc) else None
     | _ \<Rightarrow> None)"

definition as_avail :: "page \<Rightarrow> virtq_avail option" where
  "as_avail pg = (case pg of PgAvail a \<Rightarrow> Some a
     | PgFill c \<Rightarrow> if c = 0 then Some \<lparr>va_idx = 0, va_ring = (\<lambda>_. 0)\<rparr> else None | _ \<Rightarrow> None)"

definition as_used :: "page \<Rightarrow> virtq_used option" where
  "as_used pg = (case pg of PgUsed u \<Rightarrow> Some u
     | PgFill c \<Rightarrow> if c = 0 then Some \<lparr>vu_idx = 0, vu_ring = (\<lambda>_. 0)\<rparr> else None | _ \<Rightarrow> None)"

definition desc_at :: "nat \<Rightarrow> virtq_desc kop" where
  "desc_at i = bind (gets (\<lambda>s. as_desc (phys s (vd_desc (vdisk s))))) (\<lambda>m. bind (need m) (\<lambda>d. ret (d i)))"

definition upd_desc :: "nat \<Rightarrow> (virtq_desc \<Rightarrow> virtq_desc) \<Rightarrow> unit kop" where
  "upd_desc i f =
     bind (gets (\<lambda>s. as_desc (phys s (vd_desc (vdisk s))))) (\<lambda>m.
     bind (need m) (\<lambda>d.
     modify (\<lambda>s. set_page (vd_desc (vdisk s)) (PgDesc (d(i := f (d i)))) s)))"

definition avail_at :: "virtq_avail kop" where
  "avail_at = bind (gets (\<lambda>s. as_avail (phys s (vd_avail (vdisk s))))) need"

definition upd_avail :: "(virtq_avail \<Rightarrow> virtq_avail) \<Rightarrow> unit kop" where
  "upd_avail f = bind avail_at (\<lambda>a. modify (\<lambda>s. set_page (vd_avail (vdisk s)) (PgAvail (f a)) s))"

definition used_at :: "virtq_used kop" where
  "used_at = bind (gets (\<lambda>s. as_used (phys s (vd_used (vdisk s))))) need"

text \<open>The registers, by their offsets from \<^verbatim>\<open>VIRTIO0\<close>.\<close>

definition virtio_disk_init :: "unit kop" where
  "virtio_disk_init =
     seq (initlock LkVdisk ''virtio_disk'') (
     bind (r_mmio (VIRTIO0 + 0x000)) (\<lambda>magic.
     bind (r_mmio (VIRTIO0 + 0x004)) (\<lambda>version.
     bind (r_mmio (VIRTIO0 + 0x008)) (\<lambda>device.
     bind (r_mmio (VIRTIO0 + 0x00c)) (\<lambda>vendor.
     seq (whenK (magic \<noteq> 0x74726976 \<or> version \<noteq> 2 \<or> device \<noteq> 2 \<or> vendor \<noteq> 0x554d4551)
       (panic ''could not find virtio disk'')) (
     seq (w_mmio (VIRTIO0 + 0x070) 0) (
     seq (w_mmio (VIRTIO0 + 0x070) 1) (
     seq (w_mmio (VIRTIO0 + 0x070) 3) (
     bind (r_mmio (VIRTIO0 + 0x010)) (\<lambda>features.
     seq (w_mmio (VIRTIO0 + 0x020) (features AND NOT (push_bit 5 1) AND NOT (push_bit 7 1)
            AND NOT (push_bit 11 1) AND NOT (push_bit 12 1) AND NOT (push_bit 27 1)
            AND NOT (push_bit 29 1) AND NOT (push_bit 28 1))) (
     seq (w_mmio (VIRTIO0 + 0x070) 11) (
     bind (r_mmio (VIRTIO0 + 0x070)) (\<lambda>status.
     seq (whenK (status AND 8 = 0) (panic ''virtio disk FEATURES_OK unset'')) (
     seq (w_mmio (VIRTIO0 + 0x030) 0) (
     bind (r_mmio (VIRTIO0 + 0x044)) (\<lambda>ready.
     seq (whenK (ready \<noteq> 0) (panic ''virtio disk should not be ready'')) (
     bind (r_mmio (VIRTIO0 + 0x034)) (\<lambda>mx.
     seq (whenK (mx = 0) (panic ''virtio disk has no queue 0'')) (
     seq (whenK (mx < of_nat NUM) (panic ''virtio disk max queue too short'')) (
     bind kalloc (\<lambda>d.
     seq (upd_vd (\<lambda>v. v\<lparr>vd_desc := d\<rparr>)) (
     bind kalloc (\<lambda>a.
     seq (upd_vd (\<lambda>v. v\<lparr>vd_avail := a\<rparr>)) (
     bind kalloc (\<lambda>u.
     seq (upd_vd (\<lambda>v. v\<lparr>vd_used := u\<rparr>)) (
     seq (whenK (d = 0 \<or> a = 0 \<or> u = 0) (panic ''virtio disk kalloc'')) (
     seq (memset_page d 0) (
     seq (memset_page a 0) (
     seq (memset_page u 0) (
     seq (w_mmio (VIRTIO0 + 0x038) (of_nat NUM)) (
     seq (w_mmio (VIRTIO0 + 0x080) (ucast d)) (
     seq (w_mmio (VIRTIO0 + 0x084) (ucast (drop_bit 32 d))) (
     seq (w_mmio (VIRTIO0 + 0x090) (ucast a)) (
     seq (w_mmio (VIRTIO0 + 0x094) (ucast (drop_bit 32 a))) (
     seq (w_mmio (VIRTIO0 + 0x0a0) (ucast u)) (
     seq (w_mmio (VIRTIO0 + 0x0a4) (ucast (drop_bit 32 u))) (
     seq (w_mmio (VIRTIO0 + 0x044) 1) (
     seq (for_each [0..<NUM] (\<lambda>i. upd_vd (\<lambda>v. v\<lparr>vd_free := (vd_free v)(i := True)\<rparr>))) (
     w_mmio (VIRTIO0 + 0x070) (status OR 4))))))))))))))))))))))))))))))))))))))))"

text \<open>-1 when no descriptor is free.\<close>

definition alloc_desc :: "int kop" where
  "alloc_desc =
     bind (forK [0..<NUM] (\<lambda>i.
       bind (gets vdisk) (\<lambda>v.
       if vd_free v i then
         seq (upd_vd (\<lambda>v. v\<lparr>vd_free := (vd_free v)(i := False)\<rparr>)) (ret (Some (int i)))
       else ret None))) (\<lambda>r.
     case r of Some i \<Rightarrow> ret i | None \<Rightarrow> ret (-1))"

definition free_desc :: "int \<Rightarrow> unit kop" where
  "free_desc k =
     seq (whenK (k \<ge> int NUM) (panic ''free_desc 1'')) (
     bind (gets vdisk) (\<lambda>v.
     seq (whenK (vd_free v (nat k)) (panic ''free_desc 2'')) (
     seq (upd_desc (nat k) (\<lambda>_. zero_desc)) (
     seq (upd_vd (\<lambda>v. v\<lparr>vd_free := (vd_free v)(nat k := True)\<rparr>)) (
     wakeup ChVFree)))))"

definition free_chain :: "int \<Rightarrow> unit kop" where
  "free_chain k =
     loopK (\<lambda>i.
       bind (desc_at (nat i)) (\<lambda>d.
       seq (free_desc i) (
       if vq_flags d AND VRING_DESC_F_NEXT \<noteq> 0 then ret (Inl (int (unat (vq_next d))))
       else ret (Inr ())))) k"

text \<open>The three indices, or \<open>None\<close> when there are not enough free descriptors (they are given back).\<close>

definition alloc3_desc :: "(int \<times> int \<times> int) option kop" where
  "alloc3_desc =
     bind alloc_desc (\<lambda>a.
     if a < 0 then ret None
     else
       bind alloc_desc (\<lambda>b.
       if b < 0 then seq (free_desc a) (ret None)
       else
         bind alloc_desc (\<lambda>c.
         if c < 0 then seq (free_desc a) (seq (free_desc b) (ret None))
         else ret (Some (a, b, c)))))"

definition rw_wait_desc :: "unit \<Rightarrow> (unit + (int \<times> int \<times> int)) kop" where
  "rw_wait_desc x =
     bind alloc3_desc (\<lambda>r.
     case r of Some t \<Rightarrow> ret (Inr t)
     | None \<Rightarrow> seq (sleep ChVFree LkVdisk) (ret (Inl ())))"

definition buf_chan :: "bufid \<Rightarrow> chan" where
  "buf_chan b = (case b of Buf i \<Rightarrow> ChBuf i | _ \<Rightarrow> ChNull)"

definition rw_wait_done :: "bufid \<Rightarrow> unit \<Rightarrow> (unit + unit) kop" where
  "rw_wait_done b x =
     bind (buf_at b) (\<lambda>v.
     if b_disk v then seq (sleep (buf_chan b) LkVdisk) (ret (Inl ())) else ret (Inr ()))"

definition virtio_disk_rw :: "bufid \<Rightarrow> bool \<Rightarrow> unit kop" where
  "virtio_disk_rw b wr =
     bind (buf_at b) (\<lambda>v.
     let sector = ucast (b_blockno v * 2) in
     seq (acquire LkVdisk) (
     bind (loopK rw_wait_desc ()) (\<lambda>(i0, i1, i2).
     seq (upd_vd (\<lambda>d. d\<lparr>vd_ops := (vd_ops d)(nat i0 :=
            \<lparr>rq_type = (if wr then VIRTIO_BLK_T_OUT else VIRTIO_BLK_T_IN), rq_reserved = 0, rq_sector = sector\<rparr>)\<rparr>)) (
     seq (upd_desc (nat i0) (\<lambda>_. \<lparr>vq_addr = VReq (nat i0), vq_len = 16, vq_flags = VRING_DESC_F_NEXT,
            vq_next = of_int i1\<rparr>)) (
     seq (upd_desc (nat i1) (\<lambda>_. \<lparr>vq_addr = VData b, vq_len = of_nat BSIZE,
            vq_flags = (if wr then 0 else VRING_DESC_F_WRITE) OR VRING_DESC_F_NEXT, vq_next = of_int i2\<rparr>)) (
     seq (upd_vd (\<lambda>d. d\<lparr>vd_status := (vd_status d)(nat i0 := 0xff)\<rparr>)) (
     seq (upd_desc (nat i2) (\<lambda>_. \<lparr>vq_addr = VStatus (nat i0), vq_len = 1, vq_flags = VRING_DESC_F_WRITE,
            vq_next = 0\<rparr>)) (
     seq (upd_buf b (\<lambda>v. v\<lparr>b_disk := True\<rparr>)) (
     seq (upd_vd (\<lambda>d. d\<lparr>vd_b := (vd_b d)(nat i0 := b)\<rparr>)) (
     seq (upd_avail (\<lambda>a. a\<lparr>va_ring := (va_ring a)(unat (va_idx a) mod NUM := of_int i0)\<rparr>)) (
     seq (upd_avail (\<lambda>a. a\<lparr>va_idx := va_idx a + 1\<rparr>)) (
     seq (w_mmio (VIRTIO0 + 0x050) 0) (
     seq (loopK (rw_wait_done b) ()) (
     seq (upd_vd (\<lambda>d. d\<lparr>vd_b := (vd_b d)(nat i0 := BNull)\<rparr>)) (
     seq (free_chain i0) (
     release LkVdisk))))))))))))))))"

definition intr_body :: "unit \<Rightarrow> (unit + unit) kop" where
  "intr_body x =
     bind (gets vdisk) (\<lambda>v.
     bind used_at (\<lambda>u.
     if vd_used_idx v \<noteq> vu_idx u then
       let id = unat (vu_ring u (unat (vd_used_idx v) mod NUM)) in
       seq (whenK (id \<ge> NUM) fault) (
       seq (whenK (vd_status v id \<noteq> 0) (panic ''virtio_disk_intr status'')) (
       seq (upd_buf (vd_b v id) (\<lambda>b. b\<lparr>b_disk := False\<rparr>)) (
       seq (wakeup (buf_chan (vd_b v id))) (
       seq (upd_vd (\<lambda>v. v\<lparr>vd_used_idx := vd_used_idx v + 1\<rparr>)) (
       ret (Inl ()))))))
     else ret (Inr ())))"

definition virtio_disk_intr :: "unit kop" where
  "virtio_disk_intr =
     seq (acquire LkVdisk) (
     bind (r_mmio (VIRTIO0 + 0x060)) (\<lambda>st.
     seq (w_mmio (VIRTIO0 + 0x064) (st AND 3)) (
     seq (loopK intr_body ()) (
     release LkVdisk))))"

end
