(* ===== verification/Trap.thy ===== *)
theory Trap
  imports Sysfile Timer Virtio
begin

text \<open>
  Traps and the system call dispatch: \<^verbatim>\<open>kernel/trap.c\<close>, \<^verbatim>\<open>kernel/plic.c\<close>, \<^verbatim>\<open>kernel/sysproc.c\<close>, the table of
  \<^verbatim>\<open>kernel/syscall.c\<close>, \<^verbatim>\<open>forkret\<close> of \<^verbatim>\<open>proc.c\<close>, and booting: \<^verbatim>\<open>kernel/main.c\<close> and \<^verbatim>\<open>kernel/start.c\<close>.
\<close>

section \<open>System calls on processes\<close>

definition sys_exit :: "uint64 kop" where
  "sys_exit = bind (argint 0) (\<lambda>n. exit n)"

definition sys_getpid :: "uint64 kop" where
  "sys_getpid = bind me (\<lambda>i. bind (proc_at i) (\<lambda>p. ret (scast (p_pid p))))"

definition sys_fork :: "uint64 kop" where
  "sys_fork = bind fork (\<lambda>r. ret (scast r))"

definition sys_wait :: "uint64 kop" where
  "sys_wait = bind (argaddr 0) (\<lambda>p. bind (wait p) (\<lambda>r. ret (scast r)))"

definition sys_sbrk :: "uint64 kop" where
  "sys_sbrk =
     bind (argint 0) (\<lambda>n.
     bind me (\<lambda>i.
     bind (proc_at i) (\<lambda>p.
     bind (growproc n) (\<lambda>r.
     if sint r < 0 then ret (-1) else ret (p_sz p)))))"

definition sleep_body :: "uint \<Rightarrow> cint \<Rightarrow> unit \<Rightarrow> (unit + uint64) kop" where
  "sleep_body ticks0 n u =
     bind (gets ticks) (\<lambda>tk.
     if tk - ticks0 < n then
       bind me (\<lambda>i.
       bind (killed i) (\<lambda>k.
       if k then seq (release LkTicks) (ret (Inr (-1)))
       else seq (sleep ChTicks LkTicks) (ret (Inl ()))))
     else
       seq (release LkTicks) (
       ret (Inr 0)))"

definition sys_sleep :: "uint64 kop" where
  "sys_sleep =
     bind (argint 0) (\<lambda>n0.
     let n = (if sint n0 < 0 then 0 else n0) in
     seq (acquire LkTicks) (
     bind (gets ticks) (\<lambda>ticks0.
     loopK (sleep_body ticks0 n) ())))"

definition sys_kill :: "uint64 kop" where
  "sys_kill = bind (argint 0) (\<lambda>pid. bind (kill pid) (\<lambda>r. ret (scast r)))"

definition sys_uptime :: "uint64 kop" where
  "sys_uptime =
     seq (acquire LkTicks) (
     bind (gets ticks) (\<lambda>xticks.
     seq (release LkTicks) (
     ret (ucast xticks))))"

section \<open>The dispatch\<close>

text \<open>The table \<^verbatim>\<open>syscalls[]\<close>, by the numbers of \<^verbatim>\<open>syscall.h\<close>.\<close>

definition syscalls :: "(nat \<times> uint64 kop) list" where
  "syscalls = [
     (1, sys_fork), (2, sys_exit), (3, sys_wait), (4, sys_pipe), (5, sys_read), (6, sys_kill),
     (7, sys_exec), (8, sys_fstat), (9, sys_chdir), (10, sys_dup), (11, sys_getpid), (12, sys_sbrk),
     (13, sys_sleep), (14, sys_uptime), (15, sys_open), (16, sys_write), (17, sys_mknod),
     (18, sys_unlink), (19, sys_link), (20, sys_mkdir), (21, sys_close), (22, sys_pipe_rt),
     (23, sys_set_cpu_affinity), (24, sys_setperiod), (25, sys_wait_until_next_period),
     (26, sys_show_vm_areas), (27, sys_getfilesize), (28, sys_shmget)]"

definition syscall :: "unit kop" where
  "syscall =
     bind me (\<lambda>i.
     bind (proc_at i) (\<lambda>p.
     bind (tf_at (p_trapframe p)) (\<lambda>f.
     let num = (ucast (regs f (R_a 7)) :: cint) in
     case (if 0 < sint num then map_of syscalls (nat (sint num)) else None) of
       Some call \<Rightarrow>
         bind call (\<lambda>r.
         bind (proc_at i) (\<lambda>p.
         upd_tf (p_trapframe p) (\<lambda>f. f\<lparr>regs := (regs f)(R_a 0 := r)\<rparr>)))
     | None \<Rightarrow>
         seq (kprintf ''%d %s: unknown sys call %d\<newline>'' [PInt (p_pid p), PStr (p_name p), PInt num]) (
         upd_tf (p_trapframe p) (\<lambda>f. f\<lparr>regs := (regs f)(R_a 0 := -1)\<rparr>)))))"

section \<open>Registers and the interrupt controller\<close>

definition SSTATUS_SPP :: uint64 where "SSTATUS_SPP = 0x100"
definition SSTATUS_SPIE :: uint64 where "SSTATUS_SPIE = 0x20"
definition SSTATUS_SIE :: uint64 where "SSTATUS_SIE = 0x2"

definition r_csr :: "csrname \<Rightarrow> uint64 kop" where
  "r_csr r = gets (\<lambda>s. csr s r)"

definition w_csr :: "csrname \<Rightarrow> uint64 \<Rightarrow> unit kop" where
  "w_csr r v = modify (\<lambda>s. s\<lparr>csr := (csr s)(r := v)\<rparr>)"

definition r_sstatus :: "uint64 kop" where
  "r_sstatus = gets (\<lambda>s. (csr s Sstatus AND NOT SSTATUS_SIE) OR (if sie (lkst s) then SSTATUS_SIE else 0))"

definition w_sstatus :: "uint64 \<Rightarrow> unit kop" where
  "w_sstatus x = modify (\<lambda>s. s\<lparr>csr := (csr s)(Sstatus := x), lkst := (lkst s)\<lparr>sie := x AND SSTATUS_SIE \<noteq> 0\<rparr>\<rparr>)"

definition UART0_IRQ :: uint where "UART0_IRQ = 10"
definition VIRTIO0_IRQ :: uint where "VIRTIO0_IRQ = 1"

definition plicinit :: "unit kop" where
  "plicinit =
     seq (w_mmio (PLIC + ucast UART0_IRQ * 4) 1) (
     w_mmio (PLIC + ucast VIRTIO0_IRQ * 4) 1)"

definition PLIC_SENABLE :: "nat \<Rightarrow> uint64" where "PLIC_SENABLE h = PLIC + 0x2080 + of_nat h * 0x100"
definition PLIC_SPRIORITY :: "nat \<Rightarrow> uint64" where "PLIC_SPRIORITY h = PLIC + 0x201000 + of_nat h * 0x2000"
definition PLIC_SCLAIM :: "nat \<Rightarrow> uint64" where "PLIC_SCLAIM h = PLIC + 0x201004 + of_nat h * 0x2000"

definition plicinithart :: "unit kop" where
  "plicinithart =
     bind cpuid (\<lambda>h.
     seq (w_mmio (PLIC_SENABLE h) (push_bit (unat UART0_IRQ) 1 OR push_bit (unat VIRTIO0_IRQ) 1)) (
     w_mmio (PLIC_SPRIORITY h) 0))"

text \<open>
  Reading the claim register takes the next pending interrupt, 0 if there is none; writing it
  completes the interrupt.
\<close>

definition plic_claim :: "uint kop" where
  "plic_claim =
     bind cpuid (\<lambda>h.
     bind (gets irqs) (\<lambda>q.
     case q of [] \<Rightarrow> ret 0
     | irq # r \<Rightarrow> seq (modify (\<lambda>s. s\<lparr>irqs := r\<rparr>)) (ret irq)))"

definition plic_complete :: "uint \<Rightarrow> unit kop" where
  "plic_complete irq = bind cpuid (\<lambda>h. w_mmio (PLIC_SCLAIM h) irq)"

section \<open>Traps\<close>

definition trapinit :: "unit kop" where
  "trapinit = initlock LkTicks ''time''"

definition trapinithart :: "unit kop" where
  "trapinithart = bind (gets (\<lambda>s. sym_kernelvec (syms s))) (\<lambda>a. w_csr Stvec a)"

definition devintr :: "cint kop" where
  "devintr =
     bind (r_csr Scause) (\<lambda>scause.
     if scause = 0x8000000000000009 then
       bind plic_claim (\<lambda>irq.
       seq (if irq = UART0_IRQ then uartintr
            else if irq = VIRTIO0_IRQ then virtio_disk_intr
            else whenK (irq \<noteq> 0) (kprintf ''unexpected interrupt irq=%d\<newline>'' [PInt irq])) (
       seq (whenK (irq \<noteq> 0) (plic_complete irq)) (
       ret 1)))
     else if scause = 0x8000000000000005 then seq clockintr (ret 2)
     else ret 0)"

text \<open>
  \<^verbatim>\<open>usertrapret\<close> ends with a jump to \<^verbatim>\<open>userret\<close> in the trampoline page; the model returns the address
  jumped to and its argument.
\<close>

definition usertrapret :: "(uint64 \<times> uint64) kop" where
  "usertrapret =
     bind me (\<lambda>i.
     seq intr_off (
     bind (gets syms) (\<lambda>sy.
     seq (w_csr Stvec (TRAMPOLINE + (sym_uservec sy - sym_trampoline sy))) (
     bind (proc_at i) (\<lambda>p.
     bind (gets satp) (\<lambda>sa.
     bind (gets (\<lambda>s. of_nat (hart (lkst s)))) (\<lambda>tp.
     seq (upd_tf (p_trapframe p) (\<lambda>f. f\<lparr>kernel_satp := sa, kernel_sp := p_kstack p + PGSIZE,
            kernel_trap := sym_usertrap sy, kernel_hartid := tp\<rparr>)) (
     bind r_sstatus (\<lambda>x.
     seq (w_sstatus ((x AND NOT SSTATUS_SPP) OR SSTATUS_SPIE)) (
     bind (tf_at (p_trapframe p)) (\<lambda>f.
     seq (w_csr Sepc (epc f)) (
     ret (TRAMPOLINE + (sym_userret sy - sym_trampoline sy), MAKE_SATP (p_pagetable p))))))))))))))"

definition usertrap :: "(uint64 \<times> uint64) kop" where
  "usertrap =
     bind r_sstatus (\<lambda>ss.
     seq (whenK (ss AND SSTATUS_SPP \<noteq> 0) (panic ''usertrap: not from user mode'')) (
     bind (gets (\<lambda>s. sym_kernelvec (syms s))) (\<lambda>kv.
     seq (w_csr Stvec kv) (
     bind me (\<lambda>i.
     bind (proc_at i) (\<lambda>p.
     bind (r_csr Sepc) (\<lambda>pc.
     seq (upd_tf (p_trapframe p) (\<lambda>f. f\<lparr>epc := pc\<rparr>)) (
     bind (r_csr Scause) (\<lambda>scause.
     bind (if scause = 8 then
             bind (killed i) (\<lambda>k.
             seq (whenK k (exit (-1))) (
             seq (upd_tf (p_trapframe p) (\<lambda>f. f\<lparr>epc := epc f + 4\<rparr>)) (
             seq intr_on (
             seq syscall (
             ret 0)))))
           else
             bind devintr (\<lambda>wd.
             seq (whenK (wd = 0) (
               bind (r_csr Stval) (\<lambda>tv.
               seq (kprintf ''usertrap(): unexpected scause 0x%lx pid=%d\<newline>'' [PLong scause, PInt (p_pid p)]) (
               seq (kprintf ''            sepc=0x%lx stval=0x%lx\<newline>'' [PLong pc, PLong tv]) (
               setkilled i))))) (
             ret wd))) (\<lambda>which_dev.
     bind (killed i) (\<lambda>k.
     seq (whenK k (exit (-1))) (
     seq (whenK (which_dev = 2) yield) (
     usertrapret)))))))))))))"

definition kerneltrap :: "unit kop" where
  "kerneltrap =
     bind (r_csr Sepc) (\<lambda>pc.
     bind r_sstatus (\<lambda>ss.
     bind (r_csr Scause) (\<lambda>scause.
     seq (whenK (ss AND SSTATUS_SPP = 0) (panic ''kerneltrap: not from supervisor mode'')) (
     bind intr_get (\<lambda>on.
     seq (whenK on (panic ''kerneltrap: interrupts enabled'')) (
     bind devintr (\<lambda>which_dev.
     seq (whenK (which_dev = 0) (
       bind (r_csr Stval) (\<lambda>tv.
       seq (kprintf ''scause=0x%lx sepc=0x%lx stval=0x%lx\<newline>'' [PLong scause, PLong pc, PLong tv]) (
       panic ''kerneltrap'')))) (
     bind myproc (\<lambda>mp.
     seq (whenK (which_dev = 2 \<and> mp \<noteq> None) yield) (
     seq (w_csr Sepc pc) (
     w_sstatus ss)))))))))))"

definition forkret :: "(uint64 \<times> uint64) kop" where
  "forkret =
     bind me (\<lambda>i.
     seq (release (LkProc i)) (
     bind (gets first_fork) (\<lambda>first.
     seq (whenK first (
       seq (fsinit ROOTDEV) (
       modify (\<lambda>s. s\<lparr>first_fork := False\<rparr>)))) (
     usertrapret))))"

section \<open>Booting\<close>

definition timerinit :: "unit kop" where
  "timerinit =
     bind (r_csr Mie) (\<lambda>m.
     seq (w_csr Mie (m OR 0x20)) (
     bind (r_csr Menvcfg) (\<lambda>e.
     seq (w_csr Menvcfg (e OR push_bit 63 1)) (
     bind (r_csr Mcounteren) (\<lambda>c.
     seq (w_csr Mcounteren (c OR 2)) (
     bind (r_csr Time) (\<lambda>t.
     w_csr Stimecmp (t + 1000000))))))))"

text \<open>\<^verbatim>\<open>start\<close> ends with \<^verbatim>\<open>mret\<close>, which continues at \<^verbatim>\<open>mepc\<close> in the mode that \<^verbatim>\<open>mstatus\<close> names.\<close>

definition start :: "unit kop" where
  "start =
     bind (r_csr Mstatus) (\<lambda>x.
     seq (w_csr Mstatus ((x AND NOT 0x1800) OR 0x800)) (
     bind (gets (\<lambda>s. sym_main (syms s))) (\<lambda>m.
     seq (w_csr Mepc m) (
     seq (modify (\<lambda>s. s\<lparr>satp := 0\<rparr>)) (
     seq (w_csr Medeleg 0xffff) (
     seq (w_csr Mideleg 0xffff) (
     bind (r_csr Sie) (\<lambda>x.
     seq (w_csr Sie (x OR 0x200 OR 0x20 OR 0x2)) (
     seq (w_csr Pmpaddr0 0x3fffffffffffff) (
     seq (w_csr Pmpcfg0 0xf) (
     seq timerinit (
     bind (r_csr Mhartid) (\<lambda>h.
     modify (\<lambda>s. s\<lparr>lkst := (lkst s)\<lparr>hart := unat (ucast h :: cint)\<rparr>\<rparr>))))))))))))))"

definition main :: "unit kop" where
  "main =
     bind cpuid (\<lambda>c.
     seq (if c = 0 then
       seq consoleinit (
       seq printfinit (
       seq (kprintf ''\<newline>'' []) (
       seq (kprintf ''xv6 kernel is booting\<newline>'' []) (
       seq (kprintf ''\<newline>'' []) (
       seq kinit (
       seq kvminit (
       seq kvminithart (
       seq procinit (
       seq trapinit (
       seq trapinithart (
       seq plicinit (
       seq plicinithart (
       seq binit (
       seq iinit (
       seq fileinit (
       seq virtio_disk_init (
       seq userinit (
       modify (\<lambda>s. s\<lparr>started := True\<rparr>)))))))))))))))))))
     else
       seq (loopK (\<lambda>_. bind (gets started) (\<lambda>st.
              if st then ret (Inr ()) else seq give_way (ret (Inl ())))) ()) (
       bind cpuid (\<lambda>h.
       seq (kprintf ''hart %d starting\<newline>'' [PInt (of_nat h)]) (
       seq kvminithart (
       seq trapinithart (
       plicinithart)))))) (
     scheduler))"

end
