(* ===== verification/VmProps.thy ===== *)
theory VmProps
  imports Sample
begin

text \<open>
  The properties of \<^verbatim>\<open>kernel/vm.c\<close> as a client sees them: what \<^verbatim>\<open>mappages\<close> maps, and what \<^verbatim>\<open>copyout\<close>,
  \<^verbatim>\<open>copyin\<close> and \<^verbatim>\<open>copyinstr\<close> transfer between a process and the kernel.
\<close>

text \<open>
  C10. \<^verbatim>\<open>mappages\<close> maps exactly the pages it is asked to map. Given a page table in order, \<open>n\<close>
  unmapped pages from an aligned address below \<^verbatim>\<open>MAXVA\<close>, it returns 0 with page \<open>i\<close> of the range
  mapped to page \<open>i\<close> of the physical range with the permissions, and every other address mapped
  as before; or it returns -1, which happens only when the allocator has run out of pages (and
  then fewer than \<open>2 n\<close> pages were free). It takes every new table page off the free list, and
  touches no memory but the tables.
\<close>

theorem mappages_maps_range:
  assumes "pt_env s pt xs" and "va mod PGSIZE = 0" and "0 < n" and "unat va + n * 4096 \<le> 2 ^ 38"
    and "\<And>v. v < MAXVA \<Longrightarrow> vpn va \<le> vpn v \<Longrightarrow> vpn v < vpn va + n \<Longrightarrow> aspace s pt v AND PTE_V = 0"
  shows "\<exists>r t zs ys. mappages pt va (of_nat n * PGSIZE) pa perm s e = Ok r t e \<and>
    xs = zs @ ys \<and> pt_env t pt ys \<and>
    (\<forall>b. b \<notin> pt_pages 2 (phys s) pt \<union> set zs \<longrightarrow> phys t b = phys s b) \<and>
    (if r = 0 then \<forall>v < MAXVA. aspace t pt v =
       (if vpn va \<le> vpn v \<and> vpn v < vpn va + n
        then PA2PTE (pa + of_nat (vpn v - vpn va) * PGSIZE) OR perm OR PTE_V else aspace s pt v)
     else r = -1 \<and> ys = [] \<and> length xs < 2 * n)"
proof -
  obtain r t zs ys where run: "mappages pt va (of_nat n * PGSIZE) pa perm s e = Ok r t e"
    and m: "maps n pt va pa perm s xs r t zs ys"
    using mappages_run [OF assms] by blast
  have g: "grown s pt xs t zs ys" using m by (simp add: maps_def)
  have "xs = zs @ ys" "\<forall>b. b \<notin> pt_pages 2 (phys s) pt \<union> set zs \<longrightarrow> phys t b = phys s b"
    using g unfolding grown_def by blast+
  moreover have "pt_env t pt ys" by (rule grown_env(1) [OF g assms(1)])
  moreover have "if r = 0 then \<forall>v < MAXVA. aspace t pt v =
       (if vpn va \<le> vpn v \<and> vpn v < vpn va + n
        then PA2PTE (pa + of_nat (vpn v - vpn va) * PGSIZE) OR perm OR PTE_V else aspace s pt v)
     else r = -1 \<and> ys = [] \<and> length xs < 2 * n"
    using m \<open>xs = zs @ ys\<close> unfolding maps_def mapped_def by (auto split: if_splits)
  ultimately show ?thesis using run by blast
qed

theorem mappages_maps_range_witness:
  "\<exists>t. mappages 0x80100000 0x3000 (of_nat 1 * PGSIZE) 0x80106000 PTE_R sample [] = Ok 0 t [] \<and>
     aspace t 0x80100000 0x3000 = PA2PTE 0x80106000 OR PTE_R OR PTE_V"
proof -
  have lt: "(0x3000 :: uint64) < MAXVA" by (simp add: MAXVA_def)
  have v3: "vpn 0x3000 = 3" by (simp add: vpn_def)
  have free: "aspace sample 0x80100000 v AND PTE_V = 0"
    if "v < MAXVA" "vpn 0x3000 \<le> vpn v" "vpn v < vpn 0x3000 + 1" for v
  proof -
    have "vpn v = vpn 0x3000" using that by linarith
    then have "aspace sample 0x80100000 v = aspace sample 0x80100000 0x3000"
      by (rule aspace_page [OF _ that(1)])
    also have "\<dots> = 0"
      using sample_tree(3) [of "0x3000"] sample_tables(3)
      by (simp add: aspace_def amap_def PX_def sample_leaf_def)
    finally show ?thesis by simp
  qed
  have "\<exists>r t zs ys. mappages 0x80100000 0x3000 (of_nat 1 * PGSIZE) 0x80106000 PTE_R sample [] = Ok r t [] \<and>
      [0x80200000, 0x80201000, 0x80202000, 0x80203000] = zs @ ys \<and> pt_env t 0x80100000 ys \<and>
      (\<forall>b. b \<notin> pt_pages 2 (phys sample) 0x80100000 \<union> set zs \<longrightarrow> phys t b = phys sample b) \<and>
      (if r = 0 then \<forall>v < MAXVA. aspace t 0x80100000 v =
         (if vpn 0x3000 \<le> vpn v \<and> vpn v < vpn 0x3000 + 1
          then PA2PTE (0x80106000 + of_nat (vpn v - vpn 0x3000) * PGSIZE) OR PTE_R OR PTE_V
          else aspace sample 0x80100000 v)
       else r = -1 \<and> ys = [] \<and>
         length [0x80200000 :: addr, 0x80201000, 0x80202000, 0x80203000] < 2 * 1)"
    by (rule mappages_maps_range [OF sample_env _ _ _ free]) (simp_all add: PGSIZE_def)
  then show ?thesis using lt v3 by (auto split: if_splits)
qed

text \<open>
  C11. \<^verbatim>\<open>copyout\<close> returns 0 exactly when every destination byte lies on a page that is valid, the
  user's and writable; then the process sees the source bytes there. Otherwise it returns -1,
  having written a prefix that stops before the first bad page. In both cases no other user
  byte, no mapping and no other kernel memory changes, and the loop ends.
\<close>

theorem copyout_writes:
  assumes "user_ok s pt" and "unat dst + length src < 2 ^ 64"
  shows "\<exists>r t k. copyout pt dst src s e = Ok r t e \<and> t = s\<lparr>phys := phys t\<rparr> \<and> user_ok t pt \<and>
    (if \<forall>i < length src. user_writable s pt (dst + of_nat i) then r = 0 \<and> k = length src
     else r = -1 \<and> k < length src) \<and>
    (\<forall>v. user_byte t pt v = (if unat dst \<le> unat v \<and> unat v < unat dst + k
       then Some (src ! (unat v - unat dst)) else user_byte s pt v)) \<and>
    (\<forall>v. aspace t pt v = aspace s pt v) \<and>
    (\<forall>a. phys t a = phys s a \<or> (\<exists>v. user_pa s pt v = Some a))"
proof -
  obtain r t k where run: "copyout pt dst src s e = Ok r t e"
    and w: "wrote pt (unat dst) (take k src) s t"
    and r: "if \<forall>i < length src. user_writable s pt (dst + of_nat i) then r = 0 \<and> k = length src
      else r = -1 \<and> k < length src"
    using copyout_loop [OF assms, of e] unfolding copyout_def by blast
  have "length (take k src) = k" using r by (auto split: if_splits)
  then have "\<forall>v. user_byte t pt v = (if unat dst \<le> unat v \<and> unat v < unat dst + k
       then Some (src ! (unat v - unat dst)) else user_byte s pt v)"
    using w unfolding wrote_def by (simp add: less_diff_conv2)
  then show ?thesis using run w r unfolding wrote_def by blast
qed

theorem copyout_writes_witness:
  "\<exists>t. copyout 0x80100000 0xFFE [7, 8, 9, 10] sample [] = Ok 0 t [] \<and>
     user_byte t 0x80100000 0xFFF = Some 8 \<and> user_byte t 0x80100000 0x1001 = Some 10"
proof -
  have "\<forall>i < 4. user_writable sample 0x80100000 (0xFFE + of_nat i)"
  proof (intro allI impI)
    fix i :: nat assume "i < 4"
    then have "unat (0xFFE + of_nat i :: uint64) = 0xFFE + i" by (subst unat_add_nat) auto
    with \<open>i < 4\<close> show "user_writable sample 0x80100000 (0xFFE + of_nat i)"
      by (intro sample_writable) (simp add: vpn_def)
  qed
  then show ?thesis
    using copyout_writes [OF sample_user_ok, of "0xFFE" "[7, 8, 9, 10]" "[]"] by fastforce
qed

text \<open>
  C12. What \<^verbatim>\<open>copyout\<close> has written, \<^verbatim>\<open>copyin\<close> reads back: after a successful \<^verbatim>\<open>copyout\<close> of \<open>src\<close> to
  \<open>dst\<close>, \<^verbatim>\<open>copyin\<close> of as many bytes from \<open>dst\<close> returns 0 with exactly \<open>src\<close> and changes nothing.
\<close>

theorem copyout_copyin_roundtrip:
  assumes "user_ok s pt" and "unat dst + length src < 2 ^ 64"
    and "\<And>i. i < length src \<Longrightarrow> user_writable s pt (dst + of_nat i)"
  shows "\<exists>t. copyout pt dst src s e = Ok 0 t e \<and>
    copyin pt dst (of_nat (length src)) t e = Ok (0, src) t e"
proof -
  obtain t where run: "copyout pt dst src s e = Ok 0 t e"
    and w: "wrote pt (unat dst) src s t"
    using copyout_loop [OF assms(1,2), of e] assms(3) unfolding copyout_def by auto
  have len: "unat (of_nat (length src) :: uint64) = length src"
    using assms(2) by (simp add: unat_of_nat)
  note rb = wrote_ubytes [OF w assms(2)]
  have "user_ok t pt" using w by (simp add: wrote_def)
  with rb have "copyin pt dst (of_nat (length src)) t e = Ok (0, src) t e"
    using copyin_loop [of t pt dst "of_nat (length src)" "[]" e] assms(2) len
    unfolding copyin_def by auto
  with run show ?thesis by blast
qed

theorem copyout_copyin_roundtrip_witness:
  "\<exists>t. copyout 0x80100000 0xFFE [7, 8, 9, 10] sample [] = Ok 0 t [] \<and>
     copyin 0x80100000 0xFFE (of_nat (length [7 :: uchar, 8, 9, 10])) t [] = Ok (0, [7, 8, 9, 10]) t []"
proof (rule copyout_copyin_roundtrip [OF sample_user_ok])
  fix i assume i: "i < length [7 :: uchar, 8, 9, 10]"
  then have "unat (0xFFE + of_nat i :: uint64) = 0xFFE + i" by (subst unat_add_nat) auto
  with i show "user_writable sample 0x80100000 (0xFFE + of_nat i)"
    by (intro sample_writable) (simp add: vpn_def)
qed simp

text \<open>
  C13. \<^verbatim>\<open>copyinstr\<close> fetches a string: when the bytes from \<open>va\<close> on, at most \<open>max\<close> of them, are the
  user's up to a null byte, it returns 0 with these bytes and the null byte; otherwise -1. It
  changes nothing and always returns.
\<close>

theorem copyinstr_fetches:
  assumes "user_ok s pt" and "unat va + unat mx < 2 ^ 64"
  shows "\<exists>ds. copyinstr pt va mx s e =
    Ok (case user_str s pt va (unat mx) of Some str \<Rightarrow> (0, str) | None \<Rightarrow> (-1, ds)) s e"
  using copyinstr_loop [OF assms, of "[]" e] by (simp add: copyinstr_def cong: option.case_cong)

theorem copyinstr_fetches_witness:
  "copyinstr 0x80100000 0x10 16 sample [] = Ok (0, [0]) sample []"
proof -
  have "user_byte sample 0x80100000 0x10 = Some 0"
    by (simp add: user_byte_def sample_user_pa vpn_def bytes_at_def sample_phys_def as_bytes_def)
  then have "user_str sample 0x80100000 0x10 (unat (16 :: uint64)) = Some [0]"
    using user_str.simps(2) [of sample "0x80100000" "0x10" 15] by simp
  then show ?thesis
    using copyinstr_fetches [OF sample_user_ok, of "0x10" 16 "[]"] by simp
qed

end
