(* ===== verification/Cache.thy ===== *)
theory Cache
  imports Log
begin

text \<open>
  Correctness of the buffer cache: the list of buffers stays a ring of all of them, no block is
  cached twice, and through the cache every block reads as what was last put into it. The promises
  of the operations are the laws of the locale \<open>block_cache\<close>, under which the log is verified.
\<close>

section \<open>The ring of buffers\<close>

primrec links :: "(bufid \<Rightarrow> buf) \<Rightarrow> bufid \<Rightarrow> bufid list \<Rightarrow> bufid \<Rightarrow> bool" where
  "links m a [] z \<longleftrightarrow> b_next (m a) = z \<and> b_prev (m z) = a"
| "links m a (x # xs) z \<longleftrightarrow> b_next (m a) = x \<and> b_prev (m x) = a \<and> links m x xs z"

definition ring :: "(bufid \<Rightarrow> buf) \<Rightarrow> nat list \<Rightarrow> bool" where
  "ring m xs \<longleftrightarrow> links m BHead (map Buf xs) BHead \<and> distinct xs"

lemma links_append: "links m a (xs @ y # ys) z \<longleftrightarrow> links m a xs y \<and> links m y ys z"
  by (induction xs arbitrary: a) auto

lemma links_ends:
  assumes "links m a xs z"
  shows "b_next (m a) = hd (xs @ [z])" and "b_prev (m z) = last (a # xs)"
  using assms by (induction xs arbitrary: a) auto

lemma links_cong:
  assumes "\<And>x. x \<in> set (a # xs) \<Longrightarrow> b_next (m' x) = b_next (m x)"
    and "\<And>x. x \<in> set (xs @ [z]) \<Longrightarrow> b_prev (m' x) = b_prev (m x)"
  shows "links m' a xs z = links m a xs z"
  using assms by (induction xs arbitrary: a) auto

text \<open>Taking a buffer out: the neighbours are joined.\<close>

definition set_prev :: "bufid \<Rightarrow> bufid \<Rightarrow> (bufid \<Rightarrow> buf) \<Rightarrow> bufid \<Rightarrow> buf" where
  "set_prev x v m = m(x := (m x)\<lparr>b_prev := v\<rparr>)"

definition set_next_buf :: "bufid \<Rightarrow> bufid \<Rightarrow> (bufid \<Rightarrow> buf) \<Rightarrow> bufid \<Rightarrow> buf" where
  "set_next_buf x v m = m(x := (m x)\<lparr>b_next := v\<rparr>)"

lemma set_ptr_simps [simp]:
  "b_prev (set_prev x v m y) = (if y = x then v else b_prev (m y))"
  "b_next (set_prev x v m y) = b_next (m y)"
  "b_next (set_next_buf x v m y) = (if y = x then v else b_next (m y))"
  "b_prev (set_next_buf x v m y) = b_prev (m y)"
  by (simp_all add: set_prev_def set_next_buf_def)

lemma set_ptr_fields [simp]:
  "b_valid (set_prev x v m y) = b_valid (m y)" "b_disk (set_prev x v m y) = b_disk (m y)"
  "b_dev (set_prev x v m y) = b_dev (m y)" "b_blockno (set_prev x v m y) = b_blockno (m y)"
  "b_refcnt (set_prev x v m y) = b_refcnt (m y)" "b_data (set_prev x v m y) = b_data (m y)"
  "b_valid (set_next_buf x v m y) = b_valid (m y)" "b_disk (set_next_buf x v m y) = b_disk (m y)"
  "b_dev (set_next_buf x v m y) = b_dev (m y)" "b_blockno (set_next_buf x v m y) = b_blockno (m y)"
  "b_refcnt (set_next_buf x v m y) = b_refcnt (m y)" "b_data (set_next_buf x v m y) = b_data (m y)"
  by (simp_all add: set_prev_def set_next_buf_def)

lemma links_join:
  assumes "links m a ys b" and "links m b zs z" and "distinct (a # ys @ zs)" and "z \<notin> set (ys @ zs)"
  shows "links (set_next_buf (last (a # ys)) (hd (zs @ [z])) (set_prev (hd (zs @ [z])) (last (a # ys)) m))
    a (ys @ zs) z"
  using assms
proof (induction ys arbitrary: a)
  case Nil
  show ?case
  proof (cases zs)
    case Nil
    then show ?thesis by simp
  next
    case (Cons x xs)
    have "links (set_next_buf a x (set_prev x a m)) x xs z = links m x xs z"
      using Nil.prems(3,4) Cons by (intro links_cong) auto
    with Nil.prems Cons show ?thesis by simp
  qed
next
  case (Cons y ys)
  have "hd (zs @ [z]) \<noteq> y" using Cons.prems(3,4) by (cases zs) auto
  with Cons show ?case by auto
qed

text \<open>Putting a buffer in front.\<close>

lemma links_front:
  assumes "links m a xs z" and "b \<notin> set (a # xs @ [z])" and "distinct (a # xs)" and "z \<notin> set xs"
  shows "links (set_next_buf a b (set_prev (hd (xs @ [z])) b
    (set_prev b a (set_next_buf b (hd (xs @ [z])) m)))) a (b # xs) z"
proof (cases xs)
  case Nil
  with assms show ?thesis by auto
next
  case (Cons x ys)
  let ?m = "set_next_buf a b (set_prev x b (set_prev b a (set_next_buf b x m)))"
  have "links ?m x ys z = links m x ys z"
    using assms(2-4) Cons by (intro links_cong) auto
  with assms Cons show ?thesis by auto
qed

text \<open>What \<^verbatim>\<open>brelse\<close> does to the pointers.\<close>

definition to_front :: "bufid \<Rightarrow> (bufid \<Rightarrow> buf) \<Rightarrow> bufid \<Rightarrow> buf" where
  "to_front b m =
     (let m1 = set_prev (b_next (m b)) (b_prev (m b)) m;
          m2 = set_next_buf (b_prev (m1 b)) (b_next (m1 b)) m1;
          m3 = set_next_buf b (b_next (m2 BHead)) m2;
          m4 = set_prev b BHead m3;
          m5 = set_prev (b_next (m4 BHead)) b m4
      in set_next_buf BHead b m5)"

lemma to_front_fields [simp]:
  "b_valid (to_front b m x) = b_valid (m x)" "b_disk (to_front b m x) = b_disk (m x)"
  "b_dev (to_front b m x) = b_dev (m x)" "b_blockno (to_front b m x) = b_blockno (m x)"
  "b_refcnt (to_front b m x) = b_refcnt (m x)" "b_data (to_front b m x) = b_data (m x)"
  unfolding to_front_def Let_def by (simp_all only: set_ptr_fields)

lemma ring_to_front:
  assumes "ring m (ys @ i # zs)"
  shows "ring (to_front (Buf i) m) (i # ys @ zs)"
proof -
  let ?b = "Buf i" and ?ys = "map Buf ys" and ?zs = "map Buf zs"
  have l: "links m BHead ?ys ?b" "links m ?b ?zs BHead" and d: "distinct (ys @ i # zs)"
    using assms by (simp_all add: ring_def links_append)
  have dB: "distinct (BHead # ?ys @ ?zs)" "BHead \<notin> set (?ys @ ?zs)" "?b \<notin> set (BHead # ?ys @ ?zs)"
    using d by (auto simp: distinct_map inj_on_def)
  let ?p = "last (BHead # ?ys)" and ?n = "hd (?zs @ [BHead])"
  have pn: "b_prev (m ?b) = ?p" "b_next (m ?b) = ?n"
    using links_ends [OF l(1)] links_ends [OF l(2)] by simp_all
  have nb: "?n \<noteq> ?b" using dB(3) by (cases zs) auto
  have m1: "b_prev (set_prev ?n ?p m ?b) = ?p" "b_next (set_prev ?n ?p m ?b) = ?n"
    using nb pn by simp_all
  define m2 where "m2 = set_next_buf ?p ?n (set_prev ?n ?p m)"
  have l2: "links m2 BHead (?ys @ ?zs) BHead"
    unfolding m2_def by (rule links_join [OF l dB(1,2)])
  define h where "h = hd ((?ys @ ?zs) @ [BHead])"
  have h2: "b_next (m2 BHead) = h"
    using links_ends(1) [OF l2] by (simp add: h_def)
  have "links (set_next_buf BHead ?b (set_prev h ?b (set_prev ?b BHead (set_next_buf ?b h m2))))
      BHead (?b # ?ys @ ?zs) BHead"
    unfolding h_def by (rule links_front [OF l2]) (use dB in auto)
  moreover have "to_front ?b m = set_next_buf BHead ?b (set_prev h ?b (set_prev ?b BHead (set_next_buf ?b h m2)))"
    unfolding to_front_def Let_def pn m1 m2_def [symmetric] h2 by (simp add: h2)
  ultimately show ?thesis using d by (auto simp: ring_def)
qed

section \<open>The state of the cache\<close>

text \<open>
  \<open>cached d s b i\<close>: buffer \<open>i\<close> is the one for block \<open>b\<close> of device \<open>d\<close>. The invariant \<open>cache_ok p d\<close>:
  process \<open>p\<close> runs with no spin lock taken; the buffers form a ring; the device is the only one in
  use (a buffer that was never used has device 0); no block has two buffers; and a buffer nobody
  uses is unlocked and, if valid, has the contents of its block.
\<close>

definition cached :: "uint \<Rightarrow> kernel \<Rightarrow> uint \<Rightarrow> nat \<Rightarrow> bool" where
  "cached d s b i \<longleftrightarrow> i < NBUF \<and> b_dev (bufs s (Buf i)) = d \<and> b_blockno (bufs s (Buf i)) = b"

definition cache_ok :: "nat \<Rightarrow> uint \<Rightarrow> kernel \<Rightarrow> bool" where
  "cache_ok p d s \<longleftrightarrow> calm p (lkst s) \<and> d \<noteq> 0 \<and>
     (\<exists>xs. ring (bufs s) xs \<and> set xs = {..<NBUF}) \<and>
     (\<forall>i < NBUF. b_dev (bufs s (Buf i)) = 0 \<or> b_dev (bufs s (Buf i)) = d) \<and>
     (\<forall>b i j. cached d s b i \<longrightarrow> cached d s b j \<longrightarrow> i = j) \<and>
     (\<forall>i < NBUF. b_refcnt (bufs s (Buf i)) = 0 \<longrightarrow> \<not> sl_locked (slocks s (SlBuf i)) \<and>
        (b_dev (bufs s (Buf i)) = d \<longrightarrow> b_valid (bufs s (Buf i)) \<longrightarrow>
           b_data (bufs s (Buf i)) = disk s (unat (b_blockno (bufs s (Buf i))))))"

definition slot :: "uint \<Rightarrow> kernel \<Rightarrow> uint \<Rightarrow> nat option" where
  "slot d s b = find (cached d s b) [0..<NBUF]"

text \<open>The contents of a block as the cache shows it, and how many users its buffer has.\<close>

definition content :: "uint \<Rightarrow> kernel \<Rightarrow> uint \<Rightarrow> block" where
  "content d s b = (case slot d s b of
       Some i \<Rightarrow> if b_valid (bufs s (Buf i)) then b_data (bufs s (Buf i)) else disk s (unat b)
     | None \<Rightarrow> disk s (unat b))"

definition users :: "uint \<Rightarrow> kernel \<Rightarrow> uint \<Rightarrow> nat" where
  "users d s b = (case slot d s b of Some i \<Rightarrow> unat (b_refcnt (bufs s (Buf i))) | None \<Rightarrow> 0)"

definition idle :: "uint \<Rightarrow> kernel \<Rightarrow> uint \<Rightarrow> bool" where
  "idle d s b \<longleftrightarrow> (\<forall>i. cached d s b i \<longrightarrow> \<not> sl_locked (slocks s (SlBuf i)))"

text \<open>Process \<open>p\<close> has the buffer \<open>i\<close> of block \<open>b\<close>.\<close>

definition has_buf :: "nat \<Rightarrow> uint \<Rightarrow> kernel \<Rightarrow> uint \<Rightarrow> bufid \<Rightarrow> bool" where
  "has_buf p d s b x \<longleftrightarrow> (\<exists>i. x = Buf i \<and> cached d s b i \<and> b_valid (bufs s (Buf i)) \<and> sl_held (SlBuf i) p s)"

definition room :: "kernel \<Rightarrow> bool" where
  "room s \<longleftrightarrow> (\<exists>i < NBUF. b_refcnt (bufs s (Buf i)) = 0)"

definition spares :: "kernel \<Rightarrow> nat" where
  "spares s = card {i. i < NBUF \<and> b_refcnt (bufs s (Buf i)) = 0}"

lemma room_spares: "room s \<longleftrightarrow> spares s > 0"
  unfolding room_def spares_def card_gt_0_iff by auto

text \<open>What the cache's operations leave alone.\<close>

definition only_cache :: "kernel \<Rightarrow> kernel \<Rightarrow> bool" where
  "only_cache s s' \<longleftrightarrow> s'\<lparr>procs := procs s, slocks := slocks s, bufs := bufs s, disk := disk s,
     dwrites := dwrites s\<rparr> = s \<and> (\<forall>i. p_pid (procs s' i) = p_pid (procs s i))"

lemma only_cacheD:
  assumes "only_cache s s'"
  shows "klogst s' = klogst s" and "lkst s' = lkst s" and "p_pid (procs s' i) = p_pid (procs s i)"
    and "sblk s' = sblk s" and "inodes s' = inodes s"
proof -
  have eq: "s'\<lparr>procs := procs s, slocks := slocks s, bufs := bufs s, disk := disk s,
     dwrites := dwrites s\<rparr> = s" (is "?s = s") and p: "\<forall>i. p_pid (procs s' i) = p_pid (procs s i)"
    using assms unfolding only_cache_def by blast+
  from p show "p_pid (procs s' i) = p_pid (procs s i)" by blast
  have "klogst ?s = klogst s'" "lkst ?s = lkst s'" "sblk ?s = sblk s'" "inodes ?s = inodes s'" by simp_all
  then show "klogst s' = klogst s" "lkst s' = lkst s" "sblk s' = sblk s" "inodes s' = inodes s"
    unfolding eq by simp_all
qed

lemma only_cache_refl: "only_cache s s"
  by (simp add: only_cache_def)

lemma only_cache_trans:
  assumes "only_cache s t" and "only_cache t u"
  shows "only_cache s u"
proof -
  let ?f = "\<lambda>s u :: kernel. u\<lparr>procs := procs s, slocks := slocks s, bufs := bufs s, disk := disk s,
     dwrites := dwrites s\<rparr>"
  have "?f s u = ?f s (?f t u)" by simp
  also have "\<dots> = ?f s t" using assms(2) unfolding only_cache_def by metis
  also have "\<dots> = s" using assms(1) unfolding only_cache_def by blast
  finally show ?thesis using assms unfolding only_cache_def by metis
qed

lemma slot_Some:
  assumes "cache_ok p d s"
  shows "slot d s b = Some i \<longleftrightarrow> cached d s b i"
proof
  assume "slot d s b = Some i"
  then show "cached d s b i" unfolding slot_def by (metis find_Some_iff)
next
  assume c: "cached d s b i"
  then have "slot d s b \<noteq> None"
    unfolding slot_def find_None_iff by (auto simp: cached_def)
  then obtain j where j: "slot d s b = Some j" by blast
  then have "cached d s b j" unfolding slot_def by (metis find_Some_iff)
  with c assms j show "slot d s b = Some i" unfolding cache_ok_def by blast
qed

lemma slot_None:
  assumes "cache_ok p d s"
  shows "slot d s b = None \<longleftrightarrow> (\<forall>i. \<not> cached d s b i)"
  by (auto simp flip: slot_Some [OF assms])

lemma content_cached:
  assumes "cache_ok p d s" and "cached d s b i"
  shows "content d s b = (if b_valid (bufs s (Buf i)) then b_data (bufs s (Buf i)) else disk s (unat b))"
    and "users d s b = unat (b_refcnt (bufs s (Buf i)))"
proof -
  have "slot d s b = Some i" using slot_Some [OF assms(1)] assms(2) by blast
  then show "content d s b = (if b_valid (bufs s (Buf i)) then b_data (bufs s (Buf i)) else disk s (unat b))"
    and "users d s b = unat (b_refcnt (bufs s (Buf i)))"
    by (simp_all add: content_def users_def)
qed

lemma content_uncached:
  assumes "cache_ok p d s" and "\<And>i. \<not> cached d s b i"
  shows "content d s b = disk s (unat b)" and "users d s b = 0"
proof -
  have "slot d s b = None" using slot_None [OF assms(1)] assms(2) by blast
  then show "content d s b = disk s (unat b)" and "users d s b = 0"
    by (simp_all add: content_def users_def)
qed

lemma unat_neq: "c \<noteq> b \<Longrightarrow> unat c \<noteq> unat (b :: uint)"
  using word_unat_eq_iff by blast

text \<open>
  Every operation changes one buffer \<open>i\<close>, which is or becomes that of block \<open>b\<close>. What follows from
  that for the invariant and for what the cache shows:
\<close>

definition one_buf :: "uint \<Rightarrow> uint \<Rightarrow> nat \<Rightarrow> kernel \<Rightarrow> kernel \<Rightarrow> bool" where
  "one_buf d b i s s' \<longleftrightarrow> lkst s' = lkst s \<and> (\<exists>xs. ring (bufs s') xs \<and> set xs = {..<NBUF}) \<and>
     (\<forall>j < NBUF. j \<noteq> i \<longrightarrow> b_dev (bufs s' (Buf j)) = b_dev (bufs s (Buf j)) \<and>
        b_blockno (bufs s' (Buf j)) = b_blockno (bufs s (Buf j)) \<and>
        b_valid (bufs s' (Buf j)) = b_valid (bufs s (Buf j)) \<and>
        b_data (bufs s' (Buf j)) = b_data (bufs s (Buf j)) \<and>
        b_refcnt (bufs s' (Buf j)) = b_refcnt (bufs s (Buf j)) \<and> slocks s' (SlBuf j) = slocks s (SlBuf j)) \<and>
     (\<forall>n. n \<noteq> unat b \<longrightarrow> disk s' n = disk s n) \<and> cached d s' b i \<and>
     (cached d s b i \<or> b_refcnt (bufs s (Buf i)) = 0 \<and> (\<forall>j. \<not> cached d s b j)) \<and>
     (b_refcnt (bufs s' (Buf i)) = 0 \<longrightarrow> \<not> sl_locked (slocks s' (SlBuf i)) \<and>
        (b_valid (bufs s' (Buf i)) \<longrightarrow> b_data (bufs s' (Buf i)) = disk s' (unat b)))"

lemma one_buf_cached:
  assumes "cache_ok p d s" and "one_buf d b i s s'"
  shows "cached d s' c j \<longleftrightarrow> (if j = i then c = b else cached d s c j)"
  using assms(2) unfolding one_buf_def cached_def by auto

lemma one_buf_unique:
  assumes "cache_ok p d s" and "one_buf d b i s s'" and "cached d s b j"
  shows "j = i"
  using assms unfolding one_buf_def cache_ok_def by blast

lemma one_buf_ok:
  assumes ok: "cache_ok p d s" and one: "one_buf d b i s s'"
  shows "cache_ok p d s'"
proof -
  have devs: "b_dev (bufs s' (Buf j)) = 0 \<or> b_dev (bufs s' (Buf j)) = d" if "j < NBUF" for j
    using ok one that unfolding one_buf_def cache_ok_def cached_def by (cases "j = i") auto
  have uniq: "j = k" if "cached d s' c j" "cached d s' c k" for c j k
  proof -
    have u: "\<And>j k. cached d s c j \<Longrightarrow> cached d s c k \<Longrightarrow> j = k" using ok unfolding cache_ok_def by blast
    show ?thesis
      using that one_buf_cached [OF assms] one_buf_unique [OF assms] u by (cases "j = i"; cases "k = i") auto
  qed
  have clean: "\<not> sl_locked (slocks s' (SlBuf j)) \<and> (b_dev (bufs s' (Buf j)) = d \<longrightarrow> b_valid (bufs s' (Buf j)) \<longrightarrow>
      b_data (bufs s' (Buf j)) = disk s' (unat (b_blockno (bufs s' (Buf j)))))"
    if "j < NBUF" "b_refcnt (bufs s' (Buf j)) = 0" for j
  proof (cases "j = i")
    case True
    with one that show ?thesis unfolding one_buf_def cached_def by blast
  next
    case False
    have "cached d s c j \<Longrightarrow> c \<noteq> b" for c using one_buf_unique [OF assms] False by blast
    then have "b_dev (bufs s (Buf j)) = d \<Longrightarrow> b_blockno (bufs s (Buf j)) \<noteq> b"
      using that unfolding cached_def by auto
    then have "b_dev (bufs s (Buf j)) = d \<Longrightarrow> disk s' (unat (b_blockno (bufs s (Buf j)))) =
        disk s (unat (b_blockno (bufs s (Buf j))))"
      using one unat_neq unfolding one_buf_def by metis
    moreover have "b_dev (bufs s' (Buf j)) = b_dev (bufs s (Buf j))"
      "b_blockno (bufs s' (Buf j)) = b_blockno (bufs s (Buf j))" "b_valid (bufs s' (Buf j)) = b_valid (bufs s (Buf j))"
      "b_data (bufs s' (Buf j)) = b_data (bufs s (Buf j))" "b_refcnt (bufs s' (Buf j)) = b_refcnt (bufs s (Buf j))"
      "slocks s' (SlBuf j) = slocks s (SlBuf j)"
      using one that(1) False unfolding one_buf_def by blast+
    ultimately show ?thesis using ok that unfolding cache_ok_def by simp
  qed
  have "calm p (lkst s')" "d \<noteq> 0" "\<exists>xs. ring (bufs s') xs \<and> set xs = {..<NBUF}"
    using ok one unfolding one_buf_def cache_ok_def by simp_all
  with devs uniq clean show ?thesis unfolding cache_ok_def by blast
qed

lemma one_buf_content:
  assumes ok: "cache_ok p d s" and one: "one_buf d b i s s'"
  shows "content d s' = (content d s)(b := if b_valid (bufs s' (Buf i)) then b_data (bufs s' (Buf i))
      else disk s' (unat b))"
    and "users d s' = (users d s)(b := unat (b_refcnt (bufs s' (Buf i))))"
proof -
  note ok' = one_buf_ok [OF assms]
  have c: "cached d s' b i" using one unfolding one_buf_def by blast
  have other: "content d s' c = content d s c \<and> users d s' c = users d s c" if cb: "c \<noteq> b" for c
  proof (cases "\<exists>j. j \<noteq> i \<and> cached d s c j")
    case True
    then obtain j where j: "j \<noteq> i" "cached d s c j" by blast
    then have j': "cached d s' c j" using one_buf_cached [OF assms] by simp
    have "disk s' (unat c) = disk s (unat c)" "j < NBUF"
      using one unat_neq [OF cb] j(2) unfolding one_buf_def cached_def by blast+
    then show ?thesis
      using content_cached [OF ok j(2)] content_cached [OF ok' j'] one j(1) unfolding one_buf_def by metis
  next
    case False
    then have "\<not> cached d s' c j" for j using one_buf_cached [OF assms] cb by auto
    note un' = content_uncached [OF ok' this]
    have dc: "disk s' (unat c) = disk s (unat c)" using one unat_neq [OF cb] unfolding one_buf_def by blast
    show ?thesis
    proof (cases "cached d s c i")
      case True
      then have "\<not> cached d s b i" using cb unfolding cached_def by blast
      then have r0: "b_refcnt (bufs s (Buf i)) = 0" using one unfolding one_buf_def by blast
      then have "b_valid (bufs s (Buf i)) \<Longrightarrow> b_data (bufs s (Buf i)) = disk s (unat c)"
        using ok True unfolding cache_ok_def cached_def by blast
      then show ?thesis using content_cached [OF ok True] un' dc r0 by simp
    next
      case not_i: False
      then have "\<not> cached d s c j" for j using False by metis
      then show ?thesis using content_uncached [OF ok] un' dc by metis
    qed
  qed
  show "content d s' = (content d s)(b := if b_valid (bufs s' (Buf i)) then b_data (bufs s' (Buf i))
      else disk s' (unat b))"
    using other content_cached(1) [OF ok' c] by auto
  show "users d s' = (users d s)(b := unat (b_refcnt (bufs s' (Buf i))))"
    using other content_cached(2) [OF ok' c] by auto
qed

lemma one_buf_spares:
  assumes "one_buf d b i s s'"
  shows "spares s' + (if b_refcnt (bufs s (Buf i)) = 0 then 1 else 0) =
    spares s + (if b_refcnt (bufs s' (Buf i)) = 0 then 1 else 0)"
proof -
  let ?A = "\<lambda>s. {j. j < NBUF \<and> b_refcnt (bufs s (Buf j)) = 0}"
  have i: "i < NBUF" using assms unfolding one_buf_def cached_def by blast
  have "?A s' - {i} = ?A s - {i}" using assms unfolding one_buf_def by auto
  then have eq: "card (?A s' - {i}) = card (?A s - {i})" by simp
  have c: "card (?A t) = card (?A t - {i}) + (if b_refcnt (bufs t (Buf i)) = 0 then 1 else 0)" for t
  proof (cases "b_refcnt (bufs t (Buf i)) = 0")
    case True
    with i have "i \<in> ?A t" by simp
    then show ?thesis using True card_Suc_Diff1 [of "?A t" i] by simp
  next
    case False
    then have "?A t - {i} = ?A t" by auto
    with False show ?thesis by simp
  qed
  show ?thesis unfolding spares_def c [of s] c [of s'] eq by simp
qed

lemma one_buf_others:
  assumes ok: "cache_ok p d s" and one: "one_buf d b i s s'" and pid: "only_cache s s'" and cb: "c \<noteq> b"
  shows "idle d s c \<Longrightarrow> idle d s' c" and "has_buf p d s c x \<Longrightarrow> has_buf p d s' c x"
proof -
  have same: "slocks s' (SlBuf j) = slocks s (SlBuf j) \<and> b_valid (bufs s' (Buf j)) = b_valid (bufs s (Buf j))"
    if "j < NBUF" "j \<noteq> i" for j using one that unfolding one_buf_def by blast
  show "idle d s' c" if "idle d s c"
    unfolding idle_def
  proof (intro allI impI)
    fix j assume j: "cached d s' c j"
    then have "j \<noteq> i" "cached d s c j" "j < NBUF"
      using one_buf_cached [OF ok one] cb by (auto split: if_splits simp: cached_def)
    with that same show "\<not> sl_locked (slocks s' (SlBuf j))" unfolding idle_def by metis
  qed
  show "has_buf p d s' c x" if "has_buf p d s c x"
  proof -
    obtain j where j: "x = Buf j" "cached d s c j" "b_valid (bufs s (Buf j))" "sl_held (SlBuf j) p s"
      using \<open>has_buf p d s c x\<close> unfolding has_buf_def by blast
    have jn: "j < NBUF" using j(2) unfolding cached_def by blast
    have "j \<noteq> i"
    proof
      assume "j = i"
      then have "\<not> cached d s b i" using j(2) cb unfolding cached_def by blast
      then have "b_refcnt (bufs s (Buf i)) = 0" using one unfolding one_buf_def by blast
      then have "\<not> sl_locked (slocks s (SlBuf i))" using ok jn \<open>j = i\<close> unfolding cache_ok_def by blast
      with j(4) \<open>j = i\<close> show False unfolding sl_held_def by blast
    qed
    then have "cached d s' c j" using j(2) one_buf_cached [OF ok one] by simp
    moreover have "b_valid (bufs s' (Buf j))" "sl_held (SlBuf j) p s'"
      using same [OF jn \<open>j \<noteq> i\<close>] j(3,4) only_cacheD(3) [OF pid] unfolding sl_held_def by simp_all
    ultimately show ?thesis using j(1) unfolding has_buf_def by blast
  qed
qed

section \<open>Running the operations\<close>

lemma buf_run [simp]:
  "b \<noteq> BNull \<Longrightarrow> buf_at b s e = Ok (bufs s b) s e"
  "b \<noteq> BNull \<Longrightarrow> upd_buf b f s e = Ok () (s\<lparr>bufs := (bufs s)(b := f (bufs s b))\<rparr>) e"
  by (simp_all add: buf_at_def upd_buf_def)

lemma with_lock_run [simp]: "with_lock (Buf i) f = f (SlBuf i)"
  by (rule ext, rule ext) (simp add: with_lock_def buf_lock_def bind_def)

abbreviation with_buf :: "nat \<Rightarrow> (buf \<Rightarrow> buf) \<Rightarrow> kernel \<Rightarrow> kernel" where
  "with_buf i f s \<equiv> s\<lparr>bufs := (bufs s)(Buf i := f (bufs s (Buf i)))\<rparr>"

text \<open>A buffer is chosen: it is changed by \<open>f\<close>, the list is unlocked, and the buffer locked.\<close>

lemma take_buf_run:
  assumes "calm p (lkst s)" and "\<not> sl_locked (slocks s (SlBuf i))"
  shows "seq (upd_buf (Buf i) f) (seq (release LkBcache) (seq (with_lock (Buf i) acquiresleep) (ret (Inr (Some (Buf i))))))
      (s\<lparr>lkst := enter LkBcache (lkst s)\<rparr>) e =
    Ok (Inr (Some (Buf i))) (acquiresleep_st (SlBuf i) p (with_buf i f s)) e"
  using assms calmD(1,2,3) [OF assms(1)] acquiresleep_run [of p "with_buf i f s" "SlBuf i" e]
  by (simp add: seq_def ksimps)

lemma bget_hit_run:
  assumes calm: "calm p (lkst s)" and "links (bufs s) a (map Buf xs) BHead"
    and "\<And>i. i \<in> set xs \<Longrightarrow> b_dev (bufs s (Buf i)) = dev \<Longrightarrow> b_blockno (bufs s (Buf i)) = bn \<Longrightarrow>
      \<not> sl_locked (slocks s (SlBuf i))"
  shows "loopK (bget_hit dev bn) (b_next (bufs s a)) (s\<lparr>lkst := enter LkBcache (lkst s)\<rparr>) e =
    (case find (\<lambda>i. b_dev (bufs s (Buf i)) = dev \<and> b_blockno (bufs s (Buf i)) = bn) xs of
       None \<Rightarrow> Ok None (s\<lparr>lkst := enter LkBcache (lkst s)\<rparr>) e
     | Some i \<Rightarrow> Ok (Some (Buf i)) (acquiresleep_st (SlBuf i) p
         (with_buf i (\<lambda>v. v\<lparr>b_refcnt := b_refcnt v + 1\<rparr>) s)) e)"
  using assms(2,3)
proof (induction xs arbitrary: a)
  case Nil
  then show ?case by (simp, subst loopK_done) (auto simp: bget_hit_def)
next
  case (Cons x xs)
  let ?s = "s\<lparr>lkst := enter LkBcache (lkst s)\<rparr>"
  show ?case
  proof (cases "b_dev (bufs s (Buf x)) = dev \<and> b_blockno (bufs s (Buf x)) = bn")
    case True
    have "bget_hit dev bn (Buf x) ?s e = Ok (Inr (Some (Buf x))) (acquiresleep_st (SlBuf x) p
        (with_buf x (\<lambda>v. v\<lparr>b_refcnt := b_refcnt v + 1\<rparr>) s)) e"
      using True Cons.prems(2) [of x] take_buf_run [OF calm, of x] by (simp add: bget_hit_def bind_def)
    from loopK_done [where body = "bget_hit dev bn", OF this] Cons.prems(1) True show ?thesis by simp
  next
    case False
    then have "bget_hit dev bn (Buf x) ?s e = Ok (Inl (b_next (bufs s (Buf x)))) ?s e"
      by (auto simp: bget_hit_def bind_def)
    from loopK_step [where body = "bget_hit dev bn", OF this] Cons False show ?thesis by auto
  qed
qed

lemma bget_recycle_run:
  assumes calm: "calm p (lkst s)" and "links (bufs s) BHead (map Buf xs) z"
    and "\<And>i. i \<in> set xs \<Longrightarrow> b_refcnt (bufs s (Buf i)) = 0 \<Longrightarrow> \<not> sl_locked (slocks s (SlBuf i))"
  shows "loopK (bget_recycle dev bn) (b_prev (bufs s z)) (s\<lparr>lkst := enter LkBcache (lkst s)\<rparr>) e =
    (case find (\<lambda>i. b_refcnt (bufs s (Buf i)) = 0) (rev xs) of
       None \<Rightarrow> Ok None (s\<lparr>lkst := enter LkBcache (lkst s)\<rparr>) e
     | Some i \<Rightarrow> Ok (Some (Buf i)) (acquiresleep_st (SlBuf i) p
         (with_buf i (\<lambda>v. v\<lparr>b_dev := dev, b_blockno := bn, b_valid := False, b_refcnt := 1\<rparr>) s)) e)"
  using assms(2,3)
proof (induction xs arbitrary: z rule: rev_induct)
  case Nil
  then show ?case by (simp, subst loopK_done) (auto simp: bget_recycle_def)
next
  case (snoc x xs)
  let ?s = "s\<lparr>lkst := enter LkBcache (lkst s)\<rparr>"
  have l: "b_prev (bufs s z) = Buf x" "links (bufs s) BHead (map Buf xs) (Buf x)"
    using snoc.prems(1) by (simp_all add: links_append)
  show ?case
  proof (cases "b_refcnt (bufs s (Buf x)) = 0")
    case True
    have "bget_recycle dev bn (Buf x) ?s e = Ok (Inr (Some (Buf x))) (acquiresleep_st (SlBuf x) p
        (with_buf x (\<lambda>v. v\<lparr>b_dev := dev, b_blockno := bn, b_valid := False, b_refcnt := 1\<rparr>) s)) e"
      using True snoc.prems(2) [of x] take_buf_run [OF calm, of x] by (simp add: bget_recycle_def bind_def)
    from loopK_done [where body = "bget_recycle dev bn", OF this] l True show ?thesis by simp
  next
    case False
    then have "bget_recycle dev bn (Buf x) ?s e = Ok (Inl (b_prev (bufs s (Buf x)))) ?s e"
      by (auto simp: bget_recycle_def bind_def)
    from loopK_step [where body = "bget_recycle dev bn", OF this] l snoc False show ?thesis by auto
  qed
qed

lemma ring_cong:
  assumes "\<And>x. b_next (m' x) = b_next (m x)" and "\<And>x. b_prev (m' x) = b_prev (m x)"
  shows "ring m' xs = ring m xs"
  unfolding ring_def using links_cong [where m = m and m' = m'] assms by blast

lemma acquiresleep_st_simps [simp]:
  "bufs (acquiresleep_st k p s) = bufs s" "disk (acquiresleep_st k p s) = disk s"
  "dwrites (acquiresleep_st k p s) = dwrites s" "lkst (acquiresleep_st k p s) = lkst s"
  "j \<noteq> k \<Longrightarrow> slocks (acquiresleep_st k p s) j = slocks s j" "sl_held k p (acquiresleep_st k p s)"
  by (simp_all add: acquiresleep_st_def sl_held_def)

lemma unat_inc: "unat (w :: uint) < 2 ^ 32 - 1 \<Longrightarrow> unat (w + 1) = unat w + 1"
  by (simp add: unat_word_ariths)

definition got_buf :: "nat \<Rightarrow> uint \<Rightarrow> uint \<Rightarrow> nat \<Rightarrow> kernel \<Rightarrow> kernel \<Rightarrow> bool" where
  "got_buf p d b i s s' \<longleftrightarrow> one_buf d b i s s' \<and> only_cache s s' \<and> sl_held (SlBuf i) p s' \<and>
     unat (b_refcnt (bufs s' (Buf i))) = users d s b + 1 \<and> disk s' = disk s \<and> dwrites s' = dwrites s \<and>
     content d s b = (if b_valid (bufs s' (Buf i)) then b_data (bufs s' (Buf i)) else disk s (unat b))"

lemma got_hit:
  assumes ok: "cache_ok p d s" and c: "cached d s b i" and "users d s b < 2 ^ 32 - 1"
  shows "got_buf p d b i s (acquiresleep_st (SlBuf i) p (with_buf i (\<lambda>v. v\<lparr>b_refcnt := b_refcnt v + 1\<rparr>) s))"
    (is "got_buf p d b i s ?s")
proof -
  have u: "unat (b_refcnt (bufs s (Buf i)) + 1) = users d s b + 1"
    using assms(3) content_cached(2) [OF ok c] by (simp add: unat_inc)
  then have "b_refcnt (bufs s (Buf i)) + 1 \<noteq> 0" by force
  moreover obtain xs where "ring (bufs s) xs" "set xs = {..<NBUF}" using ok unfolding cache_ok_def by blast
  moreover have "ring (bufs ?s) xs = ring (bufs s) xs" by (rule ring_cong) auto
  ultimately have "one_buf d b i s ?s" using c unfolding one_buf_def by (auto simp: cached_def)
  moreover have "only_cache s ?s" by (simp add: only_cache_def acquiresleep_st_def)
  ultimately show ?thesis
    using u content_cached(1) [OF ok c] unfolding got_buf_def by simp
qed

lemma got_recycled:
  assumes ok: "cache_ok p d s" and un: "\<And>j. \<not> cached d s b j" and i: "i < NBUF" "b_refcnt (bufs s (Buf i)) = 0"
  shows "got_buf p d b i s (acquiresleep_st (SlBuf i) p
     (with_buf i (\<lambda>v. v\<lparr>b_dev := d, b_blockno := b, b_valid := False, b_refcnt := 1\<rparr>) s))"
    (is "got_buf p d b i s ?s")
proof -
  obtain xs where "ring (bufs s) xs" "set xs = {..<NBUF}" using ok unfolding cache_ok_def by blast
  moreover have "ring (bufs ?s) xs = ring (bufs s) xs" by (rule ring_cong) auto
  ultimately have "one_buf d b i s ?s" using un i unfolding one_buf_def by (auto simp: cached_def)
  moreover have "only_cache s ?s" by (simp add: only_cache_def acquiresleep_st_def)
  ultimately show ?thesis
    using content_uncached [OF ok un] unfolding got_buf_def by simp
qed

lemma bget_miss_run:
  assumes ok: "cache_ok p d s" and xs: "ring (bufs s) xs" "set xs = {..<NBUF}" and un: "\<forall>j. \<not> cached d s b j"
  shows "bget d b s e = (case find (\<lambda>i. b_refcnt (bufs s (Buf i)) = 0) (rev xs) of
      None \<Rightarrow> Stop (Panic ''bget: no buffers'')
    | Some i \<Rightarrow> Ok (Buf i) (acquiresleep_st (SlBuf i) p
        (with_buf i (\<lambda>v. v\<lparr>b_dev := d, b_blockno := b, b_valid := False, b_refcnt := 1\<rparr>) s)) e)"
proof -
  let ?s = "s\<lparr>lkst := enter LkBcache (lkst s)\<rparr>"
  have calm: "calm p (lkst s)" and l: "links (bufs s) BHead (map Buf xs) BHead"
    using ok xs(1) unfolding cache_ok_def ring_def by blast+
  have no: "find (\<lambda>i. b_dev (bufs s (Buf i)) = d \<and> b_blockno (bufs s (Buf i)) = b) xs = None"
    using un xs(2) by (auto simp: find_None_iff cached_def)
  have "acquire LkBcache s e = Ok () ?s e" using calmD(3) [OF calm] by (simp add: ksimps)
  moreover have "loopK (bget_hit d b) (b_next (bufs s BHead)) ?s e = Ok None ?s e"
    by (subst bget_hit_run [OF calm l]) (use un xs(2) no in \<open>auto simp: cached_def\<close>)
  moreover have "loopK (bget_recycle d b) (b_prev (bufs s BHead)) ?s e =
     (case find (\<lambda>i. b_refcnt (bufs s (Buf i)) = 0) (rev xs) of None \<Rightarrow> Ok None ?s e
      | Some i \<Rightarrow> Ok (Some (Buf i)) (acquiresleep_st (SlBuf i) p
       (with_buf i (\<lambda>v. v\<lparr>b_dev := d, b_blockno := b, b_valid := False, b_refcnt := 1\<rparr>) s)) e)"
    by (rule bget_recycle_run [OF calm l]) (use ok xs(2) in \<open>auto simp: cache_ok_def\<close>)
  ultimately show ?thesis by (auto simp: bget_def bind_def seq_def panic_def halt_def split: option.split)
qed

lemma bget_run:
  assumes ok: "cache_ok p d s" and "idle d s b" and "users d s b < 2 ^ 32 - 1" and "users d s b > 0 \<or> room s"
  shows "\<exists>i s'. bget d b s e = Ok (Buf i) s' e \<and> got_buf p d b i s s'"
proof -
  obtain xs where rg: "ring (bufs s) xs" and xs: "links (bufs s) BHead (map Buf xs) BHead" "set xs = {..<NBUF}"
    and calm: "calm p (lkst s)"
    using ok unfolding cache_ok_def ring_def by blast
  let ?P = "\<lambda>i. b_dev (bufs s (Buf i)) = d \<and> b_blockno (bufs s (Buf i)) = b"
  let ?s = "s\<lparr>lkst := enter LkBcache (lkst s)\<rparr>"
  have acq: "acquire LkBcache s e = Ok () ?s e" using calmD(3) [OF calm] by (simp add: ksimps)
  have hit: "loopK (bget_hit d b) (b_next (bufs s BHead)) ?s e = (case find ?P xs of
       None \<Rightarrow> Ok None ?s e
     | Some i \<Rightarrow> Ok (Some (Buf i)) (acquiresleep_st (SlBuf i) p
         (with_buf i (\<lambda>v. v\<lparr>b_refcnt := b_refcnt v + 1\<rparr>) s)) e)"
    by (rule bget_hit_run [OF calm xs(1)]) (use assms(2) xs(2) in \<open>auto simp: idle_def cached_def\<close>)
  show ?thesis
  proof (cases "\<exists>i. cached d s b i")
    case True
    then obtain i where c: "cached d s b i" by blast
    have "find ?P xs = Some i"
    proof -
      have "find ?P xs \<noteq> None" using c xs(2) by (auto simp: find_None_iff cached_def)
      then obtain j where j: "find ?P xs = Some j" by blast
      then have "?P j" "j \<in> set xs" by (auto simp: find_Some_iff)
      then have "cached d s b j" using xs(2) by (auto simp: cached_def)
      with c ok j show ?thesis unfolding cache_ok_def by blast
    qed
    with hit have "bget d b s e = Ok (Buf i) (acquiresleep_st (SlBuf i) p
         (with_buf i (\<lambda>v. v\<lparr>b_refcnt := b_refcnt v + 1\<rparr>) s)) e"
      using acq by (simp add: bget_def bind_def seq_def)
    with got_hit [OF ok c assms(3)] show ?thesis by blast
  next
    case False
    then have un: "\<And>j. \<not> cached d s b j" by blast
    have "room s" using assms(4) content_uncached(2) [OF ok un] by simp
    then have "find (\<lambda>i. b_refcnt (bufs s (Buf i)) = 0) (rev xs) \<noteq> None"
      using xs(2) by (auto simp: find_None_iff room_def)
    then obtain i where i: "find (\<lambda>i. b_refcnt (bufs s (Buf i)) = 0) (rev xs) = Some i" by blast
    then have "bget d b s e = Ok (Buf i) (acquiresleep_st (SlBuf i) p
         (with_buf i (\<lambda>v. v\<lparr>b_dev := d, b_blockno := b, b_valid := False, b_refcnt := 1\<rparr>) s)) e"
      using bget_miss_run [OF ok rg xs(2)] False by simp
    moreover have "i < NBUF" "b_refcnt (bufs s (Buf i)) = 0"
      using i xs(2) by (auto simp: find_Some_iff) (metis length_rev lessThan_iff nth_mem set_rev)
    ultimately show ?thesis using got_recycled [OF ok un] by blast
  qed
qed

lemma got_fill:
  assumes g: "got_buf p d b i s t" and inv: "\<not> b_valid (bufs t (Buf i))"
  shows "got_buf p d b i s (with_buf i (\<lambda>v. v\<lparr>b_data := disk t (unat b), b_valid := True\<rparr>) t)"
    (is "got_buf p d b i s ?t")
proof -
  have one: "one_buf d b i s t" and dk: "disk t = disk s" using g unfolding got_buf_def by blast+
  obtain xs where "ring (bufs t) xs" "set xs = {..<NBUF}" using one unfolding one_buf_def by blast
  moreover have "ring (bufs ?t) xs = ring (bufs t) xs" by (rule ring_cong) auto
  ultimately have "\<exists>xs. ring (bufs ?t) xs \<and> set xs = {..<NBUF}" by blast
  moreover have "cached d ?t b i" using one unfolding one_buf_def cached_def by simp
  ultimately have "one_buf d b i s ?t" using one unfolding one_buf_def by simp
  moreover have "only_cache s ?t" using g unfolding got_buf_def only_cache_def by simp
  moreover have "sl_held (SlBuf i) p ?t" using g unfolding got_buf_def sl_held_def by simp
  ultimately show ?thesis using g inv unfolding got_buf_def by simp
qed

lemma bread_run:
  assumes ok: "cache_ok p d s" and "idle d s b" and "users d s b < 2 ^ 32 - 1" and "users d s b > 0 \<or> room s"
  shows "\<exists>i s'. bread d b s e = Ok (Buf i) s' e \<and> got_buf p d b i s s' \<and> b_valid (bufs s' (Buf i))"
proof -
  obtain i t where t: "bget d b s e = Ok (Buf i) t e" and g: "got_buf p d b i s t"
    using bget_run [OF assms] by blast
  show ?thesis
  proof (cases "b_valid (bufs t (Buf i))")
    case True
    with t have "bread d b s e = Ok (Buf i) t e" by (simp add: bread_def bind_def seq_def)
    with g True show ?thesis by blast
  next
    case False
    have "b_blockno (bufs t (Buf i)) = b"
      using g unfolding got_buf_def one_buf_def cached_def by blast
    with t False have "bread d b s e = Ok (Buf i) (with_buf i (\<lambda>v. v\<lparr>b_data := disk t (unat b), b_valid := True\<rparr>) t) e"
      by (simp add: bread_def disk_rw_def bind_def seq_def)
    with got_fill [OF g False] show ?thesis by force
  qed
qed

text \<open>The promises of the operations.\<close>

lemma bread_law:
  assumes "cache_ok p d s" and "idle d s b" and "users d s b < 2 ^ 32 - 1" and "users d s b > 0 \<or> spares s > 0"
  shows "\<exists>x s'. bread d b s e = Ok x s' e \<and> cache_ok p d s' \<and> has_buf p d s' b x \<and>
    content d s' = content d s \<and> users d s' = (users d s)(b := users d s b + 1) \<and>
    disk s' = disk s \<and> dwrites s' = dwrites s \<and> only_cache s s' \<and>
    spares s' = spares s - (if users d s b = 0 then 1 else 0) \<and>
    (\<forall>c. c \<noteq> b \<longrightarrow> idle d s c \<longrightarrow> idle d s' c) \<and> (\<forall>c y. c \<noteq> b \<longrightarrow> has_buf p d s c y \<longrightarrow> has_buf p d s' c y)"
proof -
  obtain i s' where run: "bread d b s e = Ok (Buf i) s' e" and g: "got_buf p d b i s s'"
    and v: "b_valid (bufs s' (Buf i))"
    using bread_run [OF assms(1-3)] assms(4) room_spares by blast
  have one: "one_buf d b i s s'" and oc: "only_cache s s'" using g unfolding got_buf_def by blast+
  have "has_buf p d s' b (Buf i)" using g v unfolding got_buf_def one_buf_def has_buf_def by blast
  moreover have "content d s b = b_data (bufs s' (Buf i))" using g v unfolding got_buf_def by simp
  then have "content d s' = content d s"
    unfolding one_buf_content(1) [OF assms(1) one] by (simp add: v fun_upd_idem)
  moreover have "users d s' = (users d s)(b := users d s b + 1)"
    using one_buf_content(2) [OF assms(1) one] g unfolding got_buf_def by simp
  moreover have "disk s' = disk s" "dwrites s' = dwrites s" using g unfolding got_buf_def by blast+
  moreover have "b_refcnt (bufs s (Buf i)) = 0 \<longleftrightarrow> users d s b = 0"
  proof (cases "cached d s b i")
    case True
    then show ?thesis using content_cached(2) [OF assms(1) True] by (simp add: unat_eq_0)
  next
    case False
    then have "b_refcnt (bufs s (Buf i)) = 0" "\<And>j. \<not> cached d s b j" using one unfolding one_buf_def by blast+
    then show ?thesis using content_uncached(2) [OF assms(1)] by simp
  qed
  then have "spares s' = spares s - (if users d s b = 0 then 1 else 0)"
    using one_buf_spares [OF one] g unfolding got_buf_def by (auto split: if_splits)
  ultimately show ?thesis
    using run one_buf_ok [OF assms(1) one] oc one_buf_others [OF assms(1) one oc] by blast
qed

lemma has_bufD:
  assumes "cache_ok p d s" and "has_buf p d s b x"
  obtains i where "x = Buf i" "cached d s b i" "b_valid (bufs s (Buf i))" "sl_held (SlBuf i) p s"
    "content d s b = b_data (bufs s (Buf i))" "users d s b = unat (b_refcnt (bufs s (Buf i)))"
    "b_refcnt (bufs s (Buf i)) \<noteq> 0"
proof -
  obtain i where i: "x = Buf i" "cached d s b i" "b_valid (bufs s (Buf i))" "sl_held (SlBuf i) p s"
    using assms(2) unfolding has_buf_def by blast
  moreover have "b_refcnt (bufs s (Buf i)) \<noteq> 0"
    using assms(1) i(2,4) unfolding cache_ok_def cached_def sl_held_def by blast
  ultimately show thesis using that content_cached [OF assms(1) i(2)] by simp
qed

lemma buf_at_law:
  assumes "cache_ok p d s" and "has_buf p d s b x"
  shows "\<exists>v. buf_at x s e = Ok v s e \<and> b_data v = content d s b \<and> b_blockno v = b"
proof -
  obtain i where "x = Buf i" "cached d s b i" "content d s b = b_data (bufs s (Buf i))"
    using has_bufD [OF assms] by metis
  then show ?thesis by (simp add: cached_def)
qed

text \<open>Changing the buffer one has: \<open>f\<close> leaves alone which block it is for and its place in the list.\<close>

lemma change_own:
  assumes ok: "cache_ok p d s" and h: "has_buf p d s b (Buf i)"
    and f: "\<And>v. b_dev (f v) = b_dev v" "\<And>v. b_blockno (f v) = b_blockno v" "\<And>v. b_valid (f v) = b_valid v"
      "\<And>v. b_next (f v) = b_next v" "\<And>v. b_prev (f v) = b_prev v"
    and r: "b_refcnt (f (bufs s (Buf i))) \<noteq> 0"
    and s': "s' = (with_buf i f s)\<lparr>disk := dk, dwrites := dw\<rparr>" and dk: "\<And>n. n \<noteq> unat b \<Longrightarrow> dk n = disk s n"
  shows "cache_ok p d s'" and "content d s' = (content d s)(b := b_data (f (bufs s (Buf i))))"
    and "users d s' = (users d s)(b := unat (b_refcnt (f (bufs s (Buf i)))))" and "only_cache s s'"
    and "has_buf p d s' b (Buf i)" and "c \<noteq> b \<Longrightarrow> idle d s c \<Longrightarrow> idle d s' c"
    and "has_buf p d s c y \<Longrightarrow> has_buf p d s' c y" and "spares s' = spares s"
proof -
  have r': "b_refcnt (bufs s (Buf i)) \<noteq> 0"
    using ok h unfolding cache_ok_def has_buf_def cached_def sl_held_def by auto
  have i: "cached d s b i" "b_valid (bufs s (Buf i))" "sl_held (SlBuf i) p s"
    using h unfolding has_buf_def by auto
  obtain xs where "ring (bufs s) xs" "set xs = {..<NBUF}" using ok unfolding cache_ok_def by blast
  moreover have "ring (bufs s') xs = ring (bufs s) xs" by (rule ring_cong) (auto simp: s' f)
  ultimately have one: "one_buf d b i s s'"
    using i(1) dk f r unfolding one_buf_def by (auto simp: cached_def s')
  show "spares s' = spares s" using one_buf_spares [OF one] r r' by (simp add: s')
  show oc: "only_cache s s'" by (simp add: only_cache_def s')
  show "cache_ok p d s'" by (rule one_buf_ok [OF ok one])
  show "content d s' = (content d s)(b := b_data (f (bufs s (Buf i))))"
    "users d s' = (users d s)(b := unat (b_refcnt (f (bufs s (Buf i)))))"
    using one_buf_content [OF ok one] i(2) f by (simp_all add: s')
  show h': "has_buf p d s' b (Buf i)"
    using i f unfolding has_buf_def cached_def sl_held_def by (simp add: s')
  show "c \<noteq> b \<Longrightarrow> idle d s c \<Longrightarrow> idle d s' c" by (rule one_buf_others(1) [OF ok one oc])
  show "has_buf p d s' c y" if "has_buf p d s c y"
  proof (cases "c = b")
    case True
    with that i(1) ok have "y = Buf i" unfolding has_buf_def cache_ok_def by blast
    with h' True show ?thesis by simp
  next
    case False
    from one_buf_others(2) [OF ok one oc this that] show ?thesis .
  qed
qed

lemma set_data_law:
  assumes ok: "cache_ok p d s" and h: "has_buf p d s b x"
  shows "\<exists>s'. set_data x f s e = Ok () s' e \<and> cache_ok p d s' \<and>
    content d s' = (content d s)(b := f (content d s b)) \<and> users d s' = users d s \<and>
    disk s' = disk s \<and> dwrites s' = dwrites s \<and> only_cache s s' \<and> spares s' = spares s \<and>
    (\<forall>c. c \<noteq> b \<longrightarrow> idle d s c \<longrightarrow> idle d s' c) \<and> (\<forall>c y. has_buf p d s c y \<longrightarrow> has_buf p d s' c y)"
proof -
  obtain i where x: "x = Buf i" and i: "content d s b = b_data (bufs s (Buf i))"
    "users d s b = unat (b_refcnt (bufs s (Buf i)))" "b_refcnt (bufs s (Buf i)) \<noteq> 0"
    using has_bufD [OF ok h] by metis
  let ?f = "\<lambda>v. v\<lparr>b_data := f (b_data v)\<rparr>"
  have run: "set_data x f s e = Ok () (with_buf i ?f s) e" by (simp add: set_data_def x)
  have eq: "with_buf i ?f s = (with_buf i ?f s)\<lparr>disk := disk s, dwrites := dwrites s\<rparr>" by simp
  note ch = change_own [OF ok h [unfolded x], of ?f, OF _ _ _ _ _ _ eq, simplified, OF i(3)]
  have "users d (with_buf i ?f s) = users d s" unfolding ch(3) by (simp add: fun_upd_idem i(2))
  then show ?thesis using run ch i(1) by (intro exI [of _ "with_buf i ?f s"]) auto
qed

lemma bwrite_law:
  assumes ok: "cache_ok p d s" and h: "has_buf p d s b x"
  shows "\<exists>s'. bwrite x s e = Ok () s' e \<and> cache_ok p d s' \<and> content d s' = content d s \<and>
    users d s' = users d s \<and> disk s' = (disk s)(unat b := content d s b) \<and>
    dwrites s' = dwrites s @ [(unat b, content d s b)] \<and> only_cache s s' \<and> spares s' = spares s \<and>
    (\<forall>c. c \<noteq> b \<longrightarrow> idle d s c \<longrightarrow> idle d s' c) \<and> (\<forall>c y. has_buf p d s c y \<longrightarrow> has_buf p d s' c y)"
proof -
  obtain i where x: "x = Buf i" and i: "cached d s b i" "sl_held (SlBuf i) p s" "content d s b = b_data (bufs s (Buf i))"
    "users d s b = unat (b_refcnt (bufs s (Buf i)))" "b_refcnt (bufs s (Buf i)) \<noteq> 0"
    using has_bufD [OF ok h] by metis
  let ?s = "s\<lparr>disk := (disk s)(unat b := content d s b), dwrites := dwrites s @ [(unat b, content d s b)]\<rparr>"
  have calm: "calm p (lkst s)" using ok unfolding cache_ok_def by blast
  have bn: "b_blockno (bufs s (Buf i)) = b" using i(1) unfolding cached_def by blast
  have run: "bwrite x s e = Ok () ?s e"
    using i(2,3) bn holdingsleep_run [OF calm, of "SlBuf i"]
    by (simp add: bwrite_def x bind_def seq_def disk_rw_def)
  have eq: "?s = (with_buf i (\<lambda>v. v) s)\<lparr>disk := (disk s)(unat b := content d s b),
      dwrites := dwrites s @ [(unat b, content d s b)]\<rparr>" by simp
  note ch = change_own [OF ok h [unfolded x], of "\<lambda>v. v", OF _ _ _ _ _ _ eq, simplified, OF i(5)]
  have "content d ?s = content d s" "users d ?s = users d s"
    unfolding ch(2,3) by (simp_all add: fun_upd_idem i(3,4))
  then show ?thesis using run ch by (intro exI [of _ ?s]) auto
qed

lemma unat_dec: "(w :: uint) \<noteq> 0 \<Longrightarrow> unat (w - 1) = unat w - 1"
  by (rule unat_minus_one)

lemma bunpin_law:
  assumes ok: "cache_ok p d s" and h: "has_buf p d s b x" and u: "users d s b > 1"
  shows "\<exists>s'. bunpin x s e = Ok () s' e \<and> cache_ok p d s' \<and> content d s' = content d s \<and>
    users d s' = (users d s)(b := users d s b - 1) \<and> disk s' = disk s \<and> dwrites s' = dwrites s \<and> only_cache s s' \<and> spares s' = spares s \<and>
    (\<forall>c. c \<noteq> b \<longrightarrow> idle d s c \<longrightarrow> idle d s' c) \<and> (\<forall>c y. has_buf p d s c y \<longrightarrow> has_buf p d s' c y)"
proof -
  obtain i where x: "x = Buf i" and i: "content d s b = b_data (bufs s (Buf i))"
    "users d s b = unat (b_refcnt (bufs s (Buf i)))" "b_refcnt (bufs s (Buf i)) \<noteq> 0"
    using has_bufD [OF ok h] by metis
  let ?f = "\<lambda>v. v\<lparr>b_refcnt := b_refcnt v - 1\<rparr>"
  have calm: "calm p (lkst s)" using ok unfolding cache_ok_def by blast
  have run: "bunpin x s e = Ok () (with_buf i ?f s) e"
    using calmD(1,3) [OF calm] by (simp add: bunpin_def x seq_def ksimps)
  have r: "unat (b_refcnt (bufs s (Buf i)) - 1) = users d s b - 1" using i(2,3) by (simp add: unat_dec)
  have r0: "b_refcnt (bufs s (Buf i)) \<noteq> 1" using u i(2) by auto
  have eq: "with_buf i ?f s = (with_buf i ?f s)\<lparr>disk := disk s, dwrites := dwrites s\<rparr>" by simp
  note ch = change_own [OF ok h [unfolded x], of ?f, OF _ _ _ _ _ _ eq, simplified, OF r0]
  have "content d (with_buf i ?f s) = content d s" unfolding ch(2) by (simp add: fun_upd_idem i(1))
  then show ?thesis using run ch r by (intro exI [of _ "with_buf i ?f s"]) auto
qed

text \<open>The pointer updates of \<^verbatim>\<open>brelse\<close>.\<close>

lemma ring_ptrs:
  assumes "ring m xs" and "i \<in> set xs"
  shows "b_next (m (Buf i)) \<noteq> BNull" and "b_prev (m (Buf i)) \<noteq> BNull" and "b_next (m BHead) \<noteq> BNull"
    and "b_next (m (Buf i)) \<noteq> Buf i"
proof -
  obtain ys zs where xs: "xs = ys @ i # zs" using split_list [OF assms(2)] by blast
  then have l: "links m BHead (map Buf ys) (Buf i)" "links m (Buf i) (map Buf zs) BHead" "i \<notin> set zs"
    using assms(1) by (simp_all add: ring_def links_append)
  show "b_next (m (Buf i)) \<noteq> BNull" "b_next (m (Buf i)) \<noteq> Buf i"
    unfolding links_ends(1) [OF l(2)] using l(3) by (cases zs; auto)+
  show "b_prev (m (Buf i)) \<noteq> BNull"
    unfolding links_ends(2) [OF l(1)] by (cases ys rule: rev_cases) auto
  show "b_next (m BHead) \<noteq> BNull"
    unfolding links_ends(1) [OF l(1)] by (cases ys) auto
qed

lemma upd_ptr_run:
  "x \<noteq> BNull \<Longrightarrow> upd_buf x (\<lambda>w. w\<lparr>b_prev := v\<rparr>) s e = Ok () (s\<lparr>bufs := set_prev x v (bufs s)\<rparr>) e"
  "x \<noteq> BNull \<Longrightarrow> upd_buf x (\<lambda>w. w\<lparr>b_next := v\<rparr>) s e = Ok () (s\<lparr>bufs := set_next_buf x v (bufs s)\<rparr>) e"
  by (simp_all add: set_prev_def set_next_buf_def)

lemma to_front_run:
  assumes "ring (bufs s) xs" and "i \<in> set xs"
  shows "(seq (upd_buf (b_next (bufs s (Buf i))) (\<lambda>w. w\<lparr>b_prev := b_prev (bufs s (Buf i))\<rparr>)) (
       bind (buf_at (Buf i)) (\<lambda>v.
       seq (upd_buf (b_prev v) (\<lambda>w. w\<lparr>b_next := b_next v\<rparr>)) (
       bind (buf_at BHead) (\<lambda>h.
       seq (upd_buf (Buf i) (\<lambda>w. w\<lparr>b_next := b_next h\<rparr>)) (
       seq (upd_buf (Buf i) (\<lambda>w. w\<lparr>b_prev := BHead\<rparr>)) (
       bind (buf_at BHead) (\<lambda>h.
       seq (upd_buf (b_next h) (\<lambda>w. w\<lparr>b_prev := Buf i\<rparr>)) (
       upd_buf BHead (\<lambda>w. w\<lparr>b_next := Buf i\<rparr>)))))))))) s e =
    Ok () (s\<lparr>bufs := to_front (Buf i) (bufs s)\<rparr>) e"
proof -
  let ?m = "bufs s" and ?b = "Buf i"
  note p = ring_ptrs [OF assms]
  define m1 where "m1 = set_prev (b_next (?m ?b)) (b_prev (?m ?b)) ?m"
  define m2 where "m2 = set_next_buf (b_prev (m1 ?b)) (b_next (m1 ?b)) m1"
  define m3 where "m3 = set_next_buf ?b (b_next (m2 BHead)) m2"
  define m4 where "m4 = set_prev ?b BHead m3"
  define m5 where "m5 = set_prev (b_next (m4 BHead)) ?b m4"
  have upd: "upd_buf x (\<lambda>w. w\<lparr>b_prev := v\<rparr>) (s\<lparr>bufs := m\<rparr>) e = Ok () (s\<lparr>bufs := set_prev x v m\<rparr>) e"
    "upd_buf x (\<lambda>w. w\<lparr>b_next := v\<rparr>) (s\<lparr>bufs := m\<rparr>) e = Ok () (s\<lparr>bufs := set_next_buf x v m\<rparr>) e"
    if "x \<noteq> BNull" for x v m
    using that by (simp_all add: set_prev_def set_next_buf_def)
  have at: "buf_at x (s\<lparr>bufs := m\<rparr>) e = Ok (m x) (s\<lparr>bufs := m\<rparr>) e" if "x \<noteq> BNull" for x m
    using that by simp
  have m1p: "b_prev (m1 ?b) \<noteq> BNull" using p by (simp add: m1_def)
  have h: "b_next (m4 BHead) = b_next (m2 BHead)" by (simp add: m4_def m3_def)
  have h2: "b_next (m2 BHead) \<noteq> BNull" using p by (simp add: m2_def m1_def)
  have s0: "s = s\<lparr>bufs := ?m\<rparr>" by simp
  have u1: "upd_buf (b_next (?m ?b)) (\<lambda>w. w\<lparr>b_prev := b_prev (?m ?b)\<rparr>) s e = Ok () (s\<lparr>bufs := m1\<rparr>) e"
    using upd(1) [OF p(1), of "b_prev (?m ?b)" ?m] by (simp add: m1_def)
  have u2: "upd_buf (b_prev (m1 ?b)) (\<lambda>w. w\<lparr>b_next := b_next (m1 ?b)\<rparr>) (s\<lparr>bufs := m1\<rparr>) e = Ok () (s\<lparr>bufs := m2\<rparr>) e"
    unfolding m2_def by (rule upd(2) [OF m1p])
  have u3: "upd_buf ?b (\<lambda>w. w\<lparr>b_next := b_next (m2 BHead)\<rparr>) (s\<lparr>bufs := m2\<rparr>) e = Ok () (s\<lparr>bufs := m3\<rparr>) e"
    unfolding m3_def by (rule upd(2)) simp
  have u4: "upd_buf ?b (\<lambda>w. w\<lparr>b_prev := BHead\<rparr>) (s\<lparr>bufs := m3\<rparr>) e = Ok () (s\<lparr>bufs := m4\<rparr>) e"
    unfolding m4_def by (rule upd(1)) simp
  have u5: "upd_buf (b_next (m4 BHead)) (\<lambda>w. w\<lparr>b_prev := ?b\<rparr>) (s\<lparr>bufs := m4\<rparr>) e = Ok () (s\<lparr>bufs := m5\<rparr>) e"
    unfolding m5_def by (rule upd(1)) (simp only: h h2 not_False_eq_True)
  have u6: "upd_buf BHead (\<lambda>w. w\<lparr>b_next := ?b\<rparr>) (s\<lparr>bufs := m5\<rparr>) e = Ok () (s\<lparr>bufs := set_next_buf BHead ?b m5\<rparr>) e"
    by (rule upd(2)) simp
  have "to_front ?b ?m = set_next_buf BHead ?b m5"
    unfolding to_front_def Let_def m1_def [symmetric] m2_def [symmetric] m3_def [symmetric] m4_def [symmetric]
      m5_def [symmetric] ..
  then show ?thesis
    by (simp only: seq_def bind_def u1 u2 u3 u4 u5 u6 at bufid.distinct not_False_eq_True outcome.case if_False)
qed

lemma releasesleep_st_simps [simp]:
  "bufs (releasesleep_st k s) = bufs s" "disk (releasesleep_st k s) = disk s"
  "dwrites (releasesleep_st k s) = dwrites s" "lkst (releasesleep_st k s) = lkst s"
  "slocks (releasesleep_st k s) = (slocks s)(k := (slocks s k)\<lparr>sl_locked := False, sl_pid := 0\<rparr>)"
  "p_pid (procs (releasesleep_st k s) i) = p_pid (procs s i)"
  by (simp_all add: releasesleep_st_def)

definition released :: "nat \<Rightarrow> kernel \<Rightarrow> kernel" where
  "released i s =
     (let t = with_buf i (\<lambda>v. v\<lparr>b_refcnt := b_refcnt v - 1\<rparr>) (releasesleep_st (SlBuf i) s)
      in if b_refcnt (bufs t (Buf i)) = 0 then t\<lparr>bufs := to_front (Buf i) (bufs t)\<rparr> else t)"

lemma brelse_run:
  assumes "calm p (lkst s)" and "ring (bufs s) xs" and "i \<in> set xs" and "sl_held (SlBuf i) p s"
  shows "brelse (Buf i) s e = Ok () (released i s) e"
proof -
  let ?t = "with_buf i (\<lambda>v. v\<lparr>b_refcnt := b_refcnt v - 1\<rparr>) (releasesleep_st (SlBuf i) s)"
  let ?l = "\<lambda>t. t\<lparr>lkst := enter LkBcache (lkst t)\<rparr>"
  have r: "ring (bufs (?l ?t)) xs" using assms(2) by (subst ring_cong [where m = "bufs s"]) auto
  note tf = to_front_run [OF r assms(3), of e]
  have h1: "with_lock (Buf i) holdingsleep s e = Ok True s e"
    using assms(4) holdingsleep_run [OF assms(1), of "SlBuf i"] by simp
  have h2: "seq (whenK (\<not> True) (panic ''brelse'')) (seq (with_lock (Buf i) releasesleep) m) s e =
      m (releasesleep_st (SlBuf i) s) e" for m :: "unit kop"
    using releasesleep_run [OF assms(1), of "SlBuf i"] by (simp add: seq_def)
  have h3: "acquire LkBcache (releasesleep_st (SlBuf i) s) e = Ok () (?l (releasesleep_st (SlBuf i) s)) e"
    using calmD(3) [OF assms(1)] by (simp add: ksimps)
  have h4: "upd_buf (Buf i) (\<lambda>v. v\<lparr>b_refcnt := b_refcnt v - 1\<rparr>) (?l (releasesleep_st (SlBuf i) s)) e = Ok () (?l ?t) e"
    by simp
  have h5: "buf_at (Buf i) (?l ?t) e = Ok (bufs (?l ?t) (Buf i)) (?l ?t) e" by simp
  have c: "bufs (?l ?t) = bufs ?t" by simp
  note pre = brelse_def bind_Ok [where m = "with_lock (Buf i) holdingsleep", OF h1] h2
    seq_Ok [where m = "acquire LkBcache", OF h3] seq_Ok [where m = "upd_buf (Buf i) f" for f, OF h4]
    bind_Ok [where m = "buf_at (Buf i)", OF h5]
  show ?thesis
  proof (cases "b_refcnt (bufs ?t (Buf i)) = 0")
    case True
    have rel: "release LkBcache ((?l ?t)\<lparr>bufs := to_front (Buf i) (bufs (?l ?t))\<rparr>) e =
        Ok () (?t\<lparr>bufs := to_front (Buf i) (bufs ?t)\<rparr>) e"
      using calmD(1,3) [OF assms(1)] by (simp add: ksimps)
    show ?thesis
      unfolding pre unfolding whenK_def if_P [OF True [folded c]] seq_Ok [where m = "seq a b" for a b, OF tf] rel
      unfolding released_def Let_def if_P [OF True] ..
  next
    case False
    have rel: "release LkBcache (?l ?t) e = Ok () ?t e"
      using calmD(1,3) [OF assms(1)] by (simp add: ksimps)
    show ?thesis
      unfolding pre unfolding whenK_def if_not_P [OF False [folded c]] seq_Ok [where m = skip, OF skip_run] rel
      unfolding released_def Let_def if_not_P [OF False] ..
  qed
qed

lemma released_buf:
  "b_dev (bufs (released i s) y) = b_dev (bufs s y)" "b_blockno (bufs (released i s) y) = b_blockno (bufs s y)"
  "b_valid (bufs (released i s) y) = b_valid (bufs s y)" "b_data (bufs (released i s) y) = b_data (bufs s y)"
  "b_refcnt (bufs (released i s) y) = (if y = Buf i then b_refcnt (bufs s y) - 1 else b_refcnt (bufs s y))"
  by (simp_all add: released_def Let_def)

lemma released_rest:
  "disk (released i s) = disk s" "dwrites (released i s) = dwrites s" "lkst (released i s) = lkst s"
  "slocks (released i s) = (slocks s)(SlBuf i := (slocks s (SlBuf i))\<lparr>sl_locked := False, sl_pid := 0\<rparr>)"
  "only_cache s (released i s)"
  by (simp_all add: released_def Let_def only_cache_def releasesleep_st_def wakeup_st_def woken_def)

lemma released_ring:
  assumes "ring (bufs s) xs" and "i \<in> set xs"
  shows "\<exists>ys. ring (bufs (released i s)) ys \<and> set ys = set xs"
proof -
  let ?t = "with_buf i (\<lambda>v. v\<lparr>b_refcnt := b_refcnt v - 1\<rparr>) (releasesleep_st (SlBuf i) s)"
  have r: "ring (bufs ?t) xs" using assms(1) by (subst ring_cong [where m = "bufs s"]) auto
  obtain ys zs where xs: "xs = ys @ i # zs" using split_list [OF assms(2)] by blast
  have f: "ring (to_front (Buf i) (bufs ?t)) (i # ys @ zs)" using ring_to_front r unfolding xs by blast
  show ?thesis
  proof (cases "b_refcnt (bufs ?t (Buf i)) = 0")
    case True
    then have "bufs (released i s) = to_front (Buf i) (bufs ?t)" unfolding released_def Let_def by simp
    with f show ?thesis by (intro exI [of _ "i # ys @ zs"]) (auto simp: xs)
  next
    case False
    then have "bufs (released i s) = bufs ?t" unfolding released_def Let_def by simp
    with r show ?thesis by (intro exI [of _ xs]) simp
  qed
qed

lemma brelse_law:
  assumes ok: "cache_ok p d s" and h: "has_buf p d s b x"
    and clean: "users d s b = 1 \<Longrightarrow> content d s b = disk s (unat b)"
  shows "\<exists>s'. brelse x s e = Ok () s' e \<and> cache_ok p d s' \<and> content d s' = content d s \<and>
    users d s' = (users d s)(b := users d s b - 1) \<and> disk s' = disk s \<and> dwrites s' = dwrites s \<and> only_cache s s' \<and>
    (\<forall>c. c \<noteq> b \<longrightarrow> idle d s c \<longrightarrow> idle d s' c) \<and> idle d s' b \<and>
    (\<forall>c y. c \<noteq> b \<longrightarrow> has_buf p d s c y \<longrightarrow> has_buf p d s' c y) \<and> spares s' = spares s + (if users d s b = 1 then 1 else 0)"
proof -
  obtain i where x: "x = Buf i" and i: "cached d s b i" "b_valid (bufs s (Buf i))" "sl_held (SlBuf i) p s"
    "content d s b = b_data (bufs s (Buf i))" "users d s b = unat (b_refcnt (bufs s (Buf i)))"
    "b_refcnt (bufs s (Buf i)) \<noteq> 0"
    using has_bufD [OF ok h] by metis
  obtain xs where xs: "ring (bufs s) xs" "set xs = {..<NBUF}" and calm: "calm p (lkst s)"
    using ok unfolding cache_ok_def by blast
  have ix: "i \<in> set xs" using i(1) xs(2) unfolding cached_def by simp
  let ?s = "released i s"
  have run: "brelse x s e = Ok () ?s e" unfolding x by (rule brelse_run [OF calm xs(1) ix i(3)])
  have r: "unat (b_refcnt (bufs ?s (Buf i))) = users d s b - 1" using i(5,6) by (simp add: released_buf unat_dec)
  have "b_refcnt (bufs ?s (Buf i)) = 0 \<Longrightarrow> users d s b = 1" using i(5) by (auto simp: released_buf)
  then have one: "one_buf d b i s ?s"
    using i(1,4) clean released_ring [OF xs(1) ix] xs(2)
    unfolding one_buf_def cached_def by (simp add: released_buf released_rest(1-4))
  have "content d ?s = content d s" "users d ?s = (users d s)(b := users d s b - 1)"
    using one_buf_content [OF ok one] i(2,4) r by (simp_all add: released_buf fun_upd_idem)
  moreover have "idle d ?s b"
    using one_buf_cached [OF ok one, of b] one_buf_unique [OF ok one]
    unfolding idle_def by (auto simp: released_rest(4) split: if_splits)
  moreover have "spares ?s = spares s + (if users d s b = 1 then 1 else 0)"
  proof -
    have "users d s b > 0" using i(5,6) by (simp add: unat_gt_0)
    with r have "b_refcnt (bufs ?s (Buf i)) = 0 \<longleftrightarrow> users d s b = 1" by (auto simp flip: unat_eq_0)
    then show ?thesis using one_buf_spares [OF one] i(6) by simp
  qed
  ultimately show ?thesis
    using run one_buf_ok [OF ok one] released_rest(1,2) [of i s] released_rest(5) [of s i]
      one_buf_others [OF ok one released_rest(5)] by (intro exI [of _ ?s]) blast
qed

section \<open>The contract\<close>

text \<open>
  What the cache promises to its clients: \<open>cont s b\<close> is what block \<open>b\<close> reads as, \<open>usr s b\<close> how many
  references to it there are, \<open>has s b x\<close> says that the running process has locked \<open>x\<close>, the buffer of
  \<open>b\<close>, and \<open>idl s b\<close> that nobody has it. Reading, changing, writing and releasing a buffer act on one block;
  only \<open>bwrite\<close> changes the disk.
\<close>

locale block_cache =
  fixes dev :: uint
    and inv :: "kernel \<Rightarrow> bool"
    and cont :: "kernel \<Rightarrow> uint \<Rightarrow> block"
    and usr :: "kernel \<Rightarrow> uint \<Rightarrow> nat"
    and idl :: "kernel \<Rightarrow> uint \<Rightarrow> bool"
    and has :: "kernel \<Rightarrow> uint \<Rightarrow> bufid \<Rightarrow> bool"
    and spare :: "kernel \<Rightarrow> nat"
  assumes unused_clean: "inv s \<Longrightarrow> usr s b = 0 \<Longrightarrow> cont s b = disk s (unat b)"
    and inv_log: "inv (s\<lparr>klogst := l\<rparr>) = inv s" "cont (s\<lparr>klogst := l\<rparr>) = cont s" "usr (s\<lparr>klogst := l\<rparr>) = usr s"
      "idl (s\<lparr>klogst := l\<rparr>) = idl s" "has (s\<lparr>klogst := l\<rparr>) = has s" "spare (s\<lparr>klogst := l\<rparr>) = spare s"
    and read: "inv s \<Longrightarrow> idl s b \<Longrightarrow> usr s b < 2 ^ 32 - 1 \<Longrightarrow> usr s b > 0 \<or> spare s > 0 \<Longrightarrow>
      \<exists>x s'. bread dev b s e = Ok x s' e \<and> inv s' \<and> has s' b x \<and> cont s' = cont s \<and>
        usr s' = (usr s)(b := usr s b + 1) \<and> disk s' = disk s \<and> dwrites s' = dwrites s \<and> only_cache s s' \<and>
        spare s' = spare s - (if usr s b = 0 then 1 else 0) \<and>
        (\<forall>c. c \<noteq> b \<longrightarrow> idl s c \<longrightarrow> idl s' c) \<and> (\<forall>c y. c \<noteq> b \<longrightarrow> has s c y \<longrightarrow> has s' c y)"
    and look: "inv s \<Longrightarrow> has s b x \<Longrightarrow>
      \<exists>v. buf_at x s e = Ok v s e \<and> b_data v = cont s b \<and> b_blockno v = b"
    and change: "inv s \<Longrightarrow> has s b x \<Longrightarrow>
      \<exists>s'. set_data x f s e = Ok () s' e \<and> inv s' \<and> cont s' = (cont s)(b := f (cont s b)) \<and> usr s' = usr s \<and>
        disk s' = disk s \<and> dwrites s' = dwrites s \<and> only_cache s s' \<and> spare s' = spare s \<and>
        (\<forall>c. c \<noteq> b \<longrightarrow> idl s c \<longrightarrow> idl s' c) \<and> (\<forall>c y. has s c y \<longrightarrow> has s' c y)"
    and store: "inv s \<Longrightarrow> has s b x \<Longrightarrow>
      \<exists>s'. bwrite x s e = Ok () s' e \<and> inv s' \<and> cont s' = cont s \<and> usr s' = usr s \<and>
        disk s' = (disk s)(unat b := cont s b) \<and> dwrites s' = dwrites s @ [(unat b, cont s b)] \<and> only_cache s s' \<and>
        spare s' = spare s \<and>
        (\<forall>c. c \<noteq> b \<longrightarrow> idl s c \<longrightarrow> idl s' c) \<and> (\<forall>c y. has s c y \<longrightarrow> has s' c y)"
    and unpin: "inv s \<Longrightarrow> has s b x \<Longrightarrow> usr s b > 1 \<Longrightarrow>
      \<exists>s'. bunpin x s e = Ok () s' e \<and> inv s' \<and> cont s' = cont s \<and> usr s' = (usr s)(b := usr s b - 1) \<and>
        disk s' = disk s \<and> dwrites s' = dwrites s \<and> only_cache s s' \<and> spare s' = spare s \<and>
        (\<forall>c. c \<noteq> b \<longrightarrow> idl s c \<longrightarrow> idl s' c) \<and> (\<forall>c y. has s c y \<longrightarrow> has s' c y)"
    and drop: "inv s \<Longrightarrow> has s b x \<Longrightarrow> usr s b = 1 \<longrightarrow> cont s b = disk s (unat b) \<Longrightarrow>
      \<exists>s'. brelse x s e = Ok () s' e \<and> inv s' \<and> cont s' = cont s \<and> usr s' = (usr s)(b := usr s b - 1) \<and>
        disk s' = disk s \<and> dwrites s' = dwrites s \<and> only_cache s s' \<and>
        (\<forall>c. c \<noteq> b \<longrightarrow> idl s c \<longrightarrow> idl s' c) \<and> idl s' b \<and> (\<forall>c y. c \<noteq> b \<longrightarrow> has s c y \<longrightarrow> has s' c y) \<and>
        spare s' = spare s + (if usr s b = 1 then 1 else 0)"

lemma unused_clean_law:
  assumes "cache_ok p d s" and "users d s b = 0"
  shows "content d s b = disk s (unat b)"
proof (cases "\<exists>i. cached d s b i")
  case True
  then obtain i where i: "cached d s b i" by blast
  have "b_refcnt (bufs s (Buf i)) = 0" using content_cached(2) [OF assms(1) i] assms(2) by (simp add: unat_eq_0)
  then show ?thesis using content_cached(1) [OF assms(1) i] assms(1) i unfolding cache_ok_def cached_def by auto
next
  case False
  then show ?thesis using content_uncached(1) [OF assms(1)] by blast
qed

lemma cache_log [simp]:
  "cached d (s\<lparr>klogst := l\<rparr>) = cached d s" "slot d (s\<lparr>klogst := l\<rparr>) = slot d s"
  "cache_ok p d (s\<lparr>klogst := l\<rparr>) = cache_ok p d s" "content d (s\<lparr>klogst := l\<rparr>) = content d s"
  "users d (s\<lparr>klogst := l\<rparr>) = users d s" "idle d (s\<lparr>klogst := l\<rparr>) = idle d s"
  "has_buf p d (s\<lparr>klogst := l\<rparr>) = has_buf p d s" "spares (s\<lparr>klogst := l\<rparr>) = spares s"
proof -
  show c: "cached d (s\<lparr>klogst := l\<rparr>) = cached d s" by (intro ext) (simp add: cached_def)
  show sl: "slot d (s\<lparr>klogst := l\<rparr>) = slot d s" by (intro ext) (simp add: slot_def c)
  show "cache_ok p d (s\<lparr>klogst := l\<rparr>) = cache_ok p d s" unfolding cache_ok_def c by simp
  show "content d (s\<lparr>klogst := l\<rparr>) = content d s" by (rule ext) (simp add: content_def sl split: option.splits)
  show "users d (s\<lparr>klogst := l\<rparr>) = users d s" by (rule ext) (simp add: users_def sl split: option.splits)
  show "idle d (s\<lparr>klogst := l\<rparr>) = idle d s" by (intro ext) (simp add: idle_def c)
  show "has_buf p d (s\<lparr>klogst := l\<rparr>) = has_buf p d s" by (intro ext) (simp add: has_buf_def c sl_held_def)
  show "spares (s\<lparr>klogst := l\<rparr>) = spares s" by (simp add: spares_def)
qed

interpretation bcache: block_cache d "cache_ok p d" "content d" "users d" "idle d" "has_buf p d" spares for p d
proof (unfold_locales, goal_cases)
  case (1 s b)
  then show ?case by (rule unused_clean_law)
next
  case (8 s b e)
  then show ?case by (rule bread_law)
next
  case (9 s b x e)
  then show ?case by (rule buf_at_law)
next
  case (10 s b x f e)
  then show ?case by (rule set_data_law)
next
  case (11 s b x e)
  then show ?case by (rule bwrite_law)
next
  case (12 s b x e)
  then show ?case by (rule bunpin_law)
next
  case (13 s b x e)
  then show ?case by (intro brelse_law) auto
qed simp_all

section \<open>Setting up\<close>

text \<open>The cache after \<^verbatim>\<open>binit\<close>: all buffers in the list, none in use.\<close>

definition fresh_cache :: "kernel \<Rightarrow> bool" where
  "fresh_cache s \<longleftrightarrow> (\<exists>xs. ring (bufs s) xs \<and> set xs = {..<NBUF}) \<and>
     (\<forall>i < NBUF. b_dev (bufs s (Buf i)) = 0 \<and> \<not> b_valid (bufs s (Buf i)) \<and> b_refcnt (bufs s (Buf i)) = 0 \<and>
        \<not> sl_locked (slocks s (SlBuf i)))"

lemma fresh_cache_ok:
  assumes "fresh_cache s" and "calm p (lkst s)" and "d \<noteq> 0"
  shows "cache_ok p d s" and "content d s b = disk s (unat b)" and "users d s b = 0" and "idle d s b"
    and "spares s = NBUF"
proof -
  have un: "\<not> cached d s c i" for c i using assms(1,3) unfolding fresh_cache_def cached_def by auto
  show ok: "cache_ok p d s"
    using assms un unfolding fresh_cache_def cache_ok_def by auto
  show "content d s b = disk s (unat b)" "users d s b = 0" using content_uncached [OF ok un] by simp_all
  show "idle d s b" using un unfolding idle_def by blast
  have "{i. i < NBUF \<and> b_refcnt (bufs s (Buf i)) = 0} = {..<NBUF}"
    using assms(1) unfolding fresh_cache_def by auto
  then show "spares s = NBUF" by (simp add: spares_def)
qed

lemma calm_initlock: "calm p l \<Longrightarrow> calm p (l\<lparr>lks := (lks l)(k := (lks l k)\<lparr>lname := nm, locked := False, lcpu := None\<rparr>)\<rparr>)"
  by (simp add: calm_def lk_free_def irq_ok_def)

lemma binit_loop:
  assumes "links (bufs s) BHead [] BHead" and "k \<le> NBUF"
  shows "\<exists>t. for_each [0..<k] binit_body s e = Ok () t e \<and> ring (bufs t) (rev [0..<k]) \<and>
    (\<forall>x. b_dev (bufs t x) = b_dev (bufs s x) \<and> b_valid (bufs t x) = b_valid (bufs s x) \<and>
       b_refcnt (bufs t x) = b_refcnt (bufs s x)) \<and>
    (\<forall>i < k. \<not> sl_locked (slocks t (SlBuf i))) \<and> (\<forall>p. calm p (lkst s) \<longrightarrow> calm p (lkst t)) \<and>
    t\<lparr>lkst := lkst s, slocks := slocks s, bufs := bufs s\<rparr> = s"
  using assms(2)
proof (induction k)
  case 0
  then show ?case using assms(1) by (simp add: ring_def)
next
  case (Suc k)
  then obtain t where t: "for_each [0..<k] binit_body s e = Ok () t e" "ring (bufs t) (rev [0..<k])"
    "\<forall>x. b_dev (bufs t x) = b_dev (bufs s x) \<and> b_valid (bufs t x) = b_valid (bufs s x) \<and>
       b_refcnt (bufs t x) = b_refcnt (bufs s x)"
    "\<forall>i < k. \<not> sl_locked (slocks t (SlBuf i))" "\<forall>p. calm p (lkst s) \<longrightarrow> calm p (lkst t)"
    "t\<lparr>lkst := lkst s, slocks := slocks s, bufs := bufs s\<rparr> = s"
    by auto
  let ?xs = "map Buf (rev [0..<k])" and ?b = "Buf k"
  have l: "links (bufs t) BHead ?xs BHead" using t(2) unfolding ring_def by blast
  define h where "h = hd (?xs @ [BHead])"
  have h: "b_next (bufs t BHead) = h" unfolding h_def by (rule links_ends(1) [OF l])
  have hn: "h \<noteq> BNull" unfolding h_def by (cases "rev [0..<k]") auto
  let ?m = "set_next_buf BHead ?b (set_prev h ?b (set_prev ?b BHead (set_next_buf ?b h (bufs t))))"
  let ?l = "(lkst t)\<lparr>lks := (lks (lkst t))(LkSleep (SlBuf k) :=
    (lks (lkst t) (LkSleep (SlBuf k)))\<lparr>lname := ''sleep lock'', locked := False, lcpu := None\<rparr>)\<rparr>"
  let ?u = "t\<lparr>lkst := ?l, slocks := (slocks t)(SlBuf k :=
    (slocks t (SlBuf k))\<lparr>sl_name := ''buffer'', sl_locked := False, sl_pid := 0\<rparr>), bufs := ?m\<rparr>"
  have "links ?m BHead (?b # ?xs) BHead"
    unfolding h_def by (rule links_front [OF l]) (auto simp: distinct_map inj_on_def)
  then have r: "ring ?m (rev [0..<Suc k])" by (simp add: ring_def)
  have "binit_body k t e = Ok () ?u e"
    using h hn
    by (simp add: binit_body_def bind_def seq_def initsleeplock_def initlock_def upd_lock_def
        upd_ptr_run del: buf_run(2))
  then have "for_each [0..<Suc k] binit_body s e = Ok () ?u e" using t(1) by (simp add: for_each_append seq_def)
  moreover have "?u\<lparr>lkst := lkst s, slocks := slocks s, bufs := bufs s\<rparr> = s" using t(6) by simp
  moreover have "\<forall>p. calm p (lkst s) \<longrightarrow> calm p (lkst ?u)" using t(5) calm_initlock by simp
  ultimately show ?case using r t(3,4) by (intro exI [of _ ?u]) (simp add: less_Suc_eq)
qed

lemma binit_fresh:
  assumes "bufs s = (\<lambda>_. zero_buf)"
  shows "\<exists>t. binit s e = Ok () t e \<and> fresh_cache t \<and> (\<forall>p. calm p (lkst s) \<longrightarrow> calm p (lkst t)) \<and>
    t\<lparr>lkst := lkst s, slocks := slocks s, bufs := bufs s\<rparr> = s"
proof -
  let ?l = "(lkst s)\<lparr>lks := (lks (lkst s))(LkBcache :=
    (lks (lkst s) LkBcache)\<lparr>lname := ''bcache'', locked := False, lcpu := None\<rparr>)\<rparr>"
  let ?s = "s\<lparr>lkst := ?l, bufs := set_next_buf BHead BHead (set_prev BHead BHead (bufs s))\<rparr>"
  have "links (bufs ?s) BHead [] BHead" by simp
  from binit_loop [OF this order.refl, of e] obtain t where
    t: "for_each [0..<NBUF] binit_body ?s e = Ok () t e" "ring (bufs t) (rev [0..<NBUF])"
    "\<forall>x. b_dev (bufs t x) = b_dev (bufs ?s x) \<and> b_valid (bufs t x) = b_valid (bufs ?s x) \<and>
       b_refcnt (bufs t x) = b_refcnt (bufs ?s x)"
    "\<forall>i < NBUF. \<not> sl_locked (slocks t (SlBuf i))" "\<forall>p. calm p (lkst ?s) \<longrightarrow> calm p (lkst t)"
    "t\<lparr>lkst := lkst ?s, slocks := slocks ?s, bufs := bufs ?s\<rparr> = ?s"
    by blast
  have "binit s e = Ok () t e"
    using t(1) by (simp add: binit_def seq_def initlock_def upd_lock_def upd_ptr_run del: buf_run(2))
  moreover have "fresh_cache t"
    using t(2,3,4) assms unfolding fresh_cache_def
    by (auto simp: zero_buf_def intro!: exI [of _ "rev [0..<NBUF]"])
  moreover have "t\<lparr>lkst := lkst s, slocks := slocks s, bufs := bufs s\<rparr> = s"
    using arg_cong [OF t(6), of "\<lambda>t. t\<lparr>lkst := lkst s, slocks := slocks s, bufs := bufs s\<rparr>"] by simp
  ultimately show ?thesis using t(5) calm_initlock by simp
qed

lemma boot_cache:
  "\<exists>r. binit ((boot_kernel sample_syms)\<lparr>lkst := proc0_runs\<rparr>) [] = Ok () r [] \<and> fresh_cache r \<and> calm 0 (lkst r) \<and>
     disk r = disk (boot_kernel sample_syms)"
proof -
  have "calm 0 proc0_runs" by (simp add: calm_def irq_ok_def proc0_runs_def net_defs zero_defs)
  moreover have "bufs ((boot_kernel sample_syms)\<lparr>lkst := proc0_runs\<rparr>) = (\<lambda>_. zero_buf)" by (simp add: boot_kernel_def)
  note binit_fresh [OF this, of "[]"]
  ultimately show ?thesis by (auto dest: arg_cong [where f = disk])
qed

section \<open>Properties\<close>

text \<open>C24. \<^verbatim>\<open>bread\<close> hands out the block. If the block is in use or some buffer is unused, the caller gets a locked
  valid buffer with the block's current contents, what every block reads as is unchanged, the block has one more
  user, nothing is written to disk and the cache invariant holds; otherwise it panics with "bget: no buffers".\<close>

theorem bread_block:
  assumes "cache_ok p d s" and "idle d s b" and "users d s b < 2 ^ 32 - 1"
  shows "if users d s b > 0 \<or> spares s > 0
    then \<exists>i s'. bread d b s e = Ok (Buf i) s' e \<and> cache_ok p d s' \<and> has_buf p d s' b (Buf i) \<and>
      b_data (bufs s' (Buf i)) = content d s b \<and> content d s' = content d s \<and>
      users d s' = (users d s)(b := users d s b + 1) \<and> disk s' = disk s \<and> dwrites s' = dwrites s
    else bread d b s e = Stop (Panic ''bget: no buffers'')"
proof (cases "users d s b > 0 \<or> spares s > 0")
  case True
  from bread_law [OF assms this, of e] obtain x s' where s': "bread d b s e = Ok x s' e" "cache_ok p d s'"
    "has_buf p d s' b x" "content d s' = content d s" "users d s' = (users d s)(b := users d s b + 1)"
    "disk s' = disk s" "dwrites s' = dwrites s" by blast
  from has_bufD [OF s'(2,3)] obtain i where "x = Buf i" "content d s' b = b_data (bufs s' (Buf i))" by metis
  with s' True show ?thesis by auto
next
  case False
  have un: "\<forall>j. \<not> cached d s b j"
  proof (intro allI notI)
    fix j assume j: "cached d s b j"
    then have "b_refcnt (bufs s (Buf j)) = 0" using content_cached(2) [OF assms(1) j] False by (simp add: unat_eq_0)
    with j have "room s" unfolding room_def cached_def by blast
    with False show False by (simp add: room_spares)
  qed
  obtain xs where xs: "ring (bufs s) xs" "set xs = {..<NBUF}" using assms(1) unfolding cache_ok_def by blast
  have "find (\<lambda>i. b_refcnt (bufs s (Buf i)) = 0) (rev xs) = None"
    using False xs(2) room_spares [of s] by (auto simp: find_None_iff room_def)
  with bget_miss_run [OF assms(1) xs un, of e] False show ?thesis by (simp add: bread_def bind_def)
qed

theorem bread_block_witness:
  "\<exists>r i s'. binit ((boot_kernel sample_syms)\<lparr>lkst := proc0_runs\<rparr>) [] = Ok () r [] \<and>
     bread 1 40 r [] = Ok (Buf i) s' [] \<and> b_data (bufs s' (Buf i)) = (\<lambda>_. 0)"
proof -
  obtain r where r: "binit ((boot_kernel sample_syms)\<lparr>lkst := proc0_runs\<rparr>) [] = Ok () r []" "fresh_cache r"
    "calm 0 (lkst r)" "disk r = disk (boot_kernel sample_syms)" using boot_cache by blast
  note ok = fresh_cache_ok [OF r(2,3), of 1, simplified]
  have "users 1 r 40 < 2 ^ 32 - 1" using ok(3) by simp
  from bread_block [OF ok(1) ok(4) this, of "[]"] r(1,4) ok(2,5) show ?thesis
    by (auto simp: boot_kernel_def NBUF_def MAXOPBLOCKS_def)
qed

text \<open>C25. Buffers are recycled in least-recently-used order. The cache is a ring \<open>xs\<close> of all buffers; releasing the
  last reference to a buffer moves it to the front, and a block that is not cached gets the unused buffer nearest
  to the back, with the order kept.\<close>

theorem bcache_lru:
  assumes "cache_ok p d s" and "ring (bufs s) xs" and "set xs = {..<NBUF}"
  shows "(i < NBUF \<longrightarrow> sl_held (SlBuf i) p s \<longrightarrow> b_refcnt (bufs s (Buf i)) = 1 \<longrightarrow>
      (\<exists>s'. brelse (Buf i) s e = Ok () s' e \<and> ring (bufs s') (i # remove1 i xs) \<and> b_refcnt (bufs s' (Buf i)) = 0)) \<and>
    ((\<forall>j. \<not> cached d s b j) \<longrightarrow> (case find (\<lambda>i. b_refcnt (bufs s (Buf i)) = 0) (rev xs) of
       None \<Rightarrow> bget d b s e = Stop (Panic ''bget: no buffers'')
     | Some k \<Rightarrow> \<exists>s'. bget d b s e = Ok (Buf k) s' e \<and> ring (bufs s') xs \<and> cached d s' b k \<and> sl_held (SlBuf k) p s'))"
proof (intro conjI impI)
  assume i: "i < NBUF" "sl_held (SlBuf i) p s" "b_refcnt (bufs s (Buf i)) = 1"
  have calm: "calm p (lkst s)" using assms(1) unfolding cache_ok_def by blast
  obtain ys zs where xs: "xs = ys @ i # zs" using i(1) assms(3) split_list [of i xs] by auto
  have "distinct xs" using assms(2) unfolding ring_def by blast
  then have "remove1 i xs = ys @ zs" unfolding xs by (simp add: remove1_append)
  moreover let ?t = "with_buf i (\<lambda>v. v\<lparr>b_refcnt := b_refcnt v - 1\<rparr>) (releasesleep_st (SlBuf i) s)"
  have "ring (bufs ?t) (ys @ i # zs)" using assms(2) xs by (subst ring_cong [where m = "bufs s"]) auto
  note ring_to_front [OF this]
  moreover have "released i s = ?t\<lparr>bufs := to_front (Buf i) (bufs ?t)\<rparr>"
    using i(3) by (simp add: released_def Let_def)
  ultimately show "\<exists>s'. brelse (Buf i) s e = Ok () s' e \<and> ring (bufs s') (i # remove1 i xs) \<and> b_refcnt (bufs s' (Buf i)) = 0"
    using brelse_run [OF calm assms(2) _ i(2), of e] i(1,3) assms(3) by simp
next
  assume un: "\<forall>j. \<not> cached d s b j"
  show "case find (\<lambda>i. b_refcnt (bufs s (Buf i)) = 0) (rev xs) of
       None \<Rightarrow> bget d b s e = Stop (Panic ''bget: no buffers'')
     | Some k \<Rightarrow> \<exists>s'. bget d b s e = Ok (Buf k) s' e \<and> ring (bufs s') xs \<and> cached d s' b k \<and> sl_held (SlBuf k) p s'"
  proof (cases "find (\<lambda>i. b_refcnt (bufs s (Buf i)) = 0) (rev xs)")
    case None
    with bget_miss_run [OF assms un] show ?thesis by simp
  next
    case (Some k)
    then have "k < NBUF" using assms(3) by (auto simp: find_Some_iff) (metis length_rev lessThan_iff nth_mem set_rev)
    moreover have "ring (bufs (with_buf k (\<lambda>v. v\<lparr>b_dev := d, b_blockno := b, b_valid := False, b_refcnt := 1\<rparr>) s)) xs"
      using assms(2) by (subst ring_cong [where m = "bufs s"]) auto
    ultimately show ?thesis using Some bget_miss_run [OF assms un, of e]
      by (simp add: cached_def acquiresleep_st_def sl_held_def)
  qed
qed

theorem bcache_lru_witness:
  "\<exists>r xs k s'. binit ((boot_kernel sample_syms)\<lparr>lkst := proc0_runs\<rparr>) [] = Ok () r [] \<and> ring (bufs r) xs \<and>
     k = last xs \<and> bget 1 40 r [] = Ok (Buf k) s' [] \<and> ring (bufs s') xs"
proof -
  obtain r where r: "binit ((boot_kernel sample_syms)\<lparr>lkst := proc0_runs\<rparr>) [] = Ok () r []" "fresh_cache r"
    "calm 0 (lkst r)" using boot_cache by blast
  note ok = fresh_cache_ok [OF r(2,3), of 1, simplified]
  obtain xs where xs: "ring (bufs r) xs" "set xs = {..<NBUF}" using r(2) unfolding fresh_cache_def by blast
  have "0 \<in> set xs" using xs(2) by (simp add: NBUF_def MAXOPBLOCKS_def)
  then have "xs \<noteq> []" by auto
  then obtain ys k where k: "xs = ys @ [k]" by (cases xs rule: rev_cases) auto
  then have "b_refcnt (bufs r (Buf k)) = 0" using r(2) xs(2) unfolding fresh_cache_def by auto
  then have "find (\<lambda>i. b_refcnt (bufs r (Buf i)) = 0) (rev xs) = Some k" using k by simp
  moreover have "\<forall>j. \<not> cached 1 r 40 j" using r(2) unfolding fresh_cache_def cached_def by auto
  moreover note bcache_lru [OF ok(1) xs, of 0 "[]" 40, THEN conjunct2]
  ultimately obtain s' where "bget 1 40 r [] = Ok (Buf k) s' []" "ring (bufs s') xs" by (simp only: option.case) blast
  moreover have "k = last xs" using k by simp
  ultimately show ?thesis using r(1) xs(1) by blast
qed

end
