(* ===== verification/LogCommit.thy ===== *)
theory LogCommit
  imports Cache
begin

text \<open>
  The log commits all or nothing. Under the contract of the buffer cache: the writes that \<^verbatim>\<open>commit\<close>
  makes, in their order; what \<^verbatim>\<open>recover_from_log\<close> does to a disk; and that recovery after a crash
  between any two of the writes of a commit leaves either every block of the transaction as it was
  before or every block as it was committed.
\<close>

section \<open>Headers and sequences of writes\<close>

lemma get32_put32 [simp]: "get32 (put32 off w d) off = w"
proof -
  have "map (put32 off w d) [off..<off + 4] = le_bytes 4 w"
    by (rule nth_equalityI) (auto simp: put32_def put_bytes_def)
  then show ?thesis by (simp add: get32_def)
qed

lemma get32_put32_other:
  assumes "off + 4 \<le> o' \<or> o' + 4 \<le> off"
  shows "get32 (put32 off w d) o' = get32 d o'"
proof -
  have "map (put32 off w d) [o'..<o' + 4] = map d [o'..<o' + 4]"
    using assms by (auto simp: put32_def put_bytes_def)
  then show ?thesis by (simp only: get32_def)
qed

text \<open>A header block: the count \<open>n\<close> and then the numbers.\<close>

definition header :: "nat \<Rightarrow> (nat \<Rightarrow> uint) \<Rightarrow> block \<Rightarrow> bool" where
  "header n bn h \<longleftrightarrow> get32 h 0 = of_nat n \<and> (\<forall>i < n. get32 h (4 + 4 * i) = bn i)"

definition put_header :: "nat \<Rightarrow> (nat \<Rightarrow> uint) \<Rightarrow> block \<Rightarrow> block" where
  "put_header n bn h = fold (\<lambda>i. put32 (4 + 4 * i) (bn i)) [0..<n] (put32 0 (of_nat n) h)"

lemma header_put: "header n bn (put_header n bn h)"
proof -
  have "get32 (fold (\<lambda>i. put32 (4 + 4 * i) (bn i)) [0..<k] g) 0 = get32 g 0 \<and>
      (\<forall>i < k. get32 (fold (\<lambda>i. put32 (4 + 4 * i) (bn i)) [0..<k] g) (4 + 4 * i) = bn i)" for k g
    by (induction k) (auto simp: get32_put32_other less_Suc_eq)
  then show ?thesis by (simp add: header_def put_header_def)
qed

definition writes :: "(nat \<times> block) list \<Rightarrow> (nat \<Rightarrow> block) \<Rightarrow> nat \<Rightarrow> block" where
  "writes ws d = fold (\<lambda>(n, v) d. d(n := v)) ws d"

lemma writes_simps [simp]:
  "writes [] d = d" "writes ((n, v) # ws) d = writes ws (d(n := v))"
  "writes (ws @ vs) d = writes vs (writes ws d)"
  by (simp_all add: writes_def)

lemma writes_other: "n \<notin> fst ` set ws \<Longrightarrow> writes ws d n = d n"
  by (induction ws arbitrary: d) auto

lemma writes_map:
  assumes "inj_on a {..<k}" and "i < k"
  shows "writes (map (\<lambda>i. (a i, v i)) [0..<k]) d (a i) = v i"
  using assms
proof (induction k)
  case (Suc k)
  show ?case
  proof (cases "i = k")
    case False
    then have "i < k" using Suc.prems(2) by simp
    moreover have "a i \<noteq> a k" using inj_onD [OF Suc.prems(1), of i k] Suc.prems(2) False by auto
    moreover have "inj_on a {..<k}" using Suc.prems(1) by (rule inj_on_subset) auto
    ultimately show ?thesis using Suc.IH by simp
  qed simp
qed simp

section \<open>The blocks of a transaction\<close>

definition log_block :: "uint \<Rightarrow> nat \<Rightarrow> uint" where
  "log_block st i = st + of_nat i + 1"

text \<open>\<open>n\<close> blocks, all different, none of them in the log, and room in the log for them.\<close>

definition log_wf :: "uint \<Rightarrow> (nat \<Rightarrow> uint) \<Rightarrow> nat \<Rightarrow> bool" where
  "log_wf st bn n \<longleftrightarrow> n \<le> LOGSIZE \<and> inj_on bn {..<n} \<and>
     (\<forall>i < n. bn i \<noteq> st \<and> (\<forall>j < n. bn i \<noteq> log_block st j))"

lemma unat_small: "i \<le> 31 \<Longrightarrow> unat (of_nat i :: uint) = i"
  by (simp add: unat_of_nat)

lemma sint_of_nat_small: "i \<le> 31 \<Longrightarrow> sint (of_nat i :: uint) = int i"
  by (simp add: sint_uint uint_nat unat_small signed_take_bit_int_eq_self)

lemma log_block_inj:
  assumes "i \<le> LOGSIZE" and "j \<le> LOGSIZE"
  shows "log_block st i = log_block st j \<longleftrightarrow> i = j"
proof
  assume "log_block st i = log_block st j"
  then have "unat (of_nat i :: uint) = unat (of_nat j :: uint)" by (simp add: log_block_def)
  with assms show "i = j" by (simp add: unat_small LOGSIZE_def MAXOPBLOCKS_def)
qed simp

lemma log_block_start: "i \<le> LOGSIZE \<Longrightarrow> log_block st i \<noteq> st"
proof
  assume "i \<le> LOGSIZE" and "log_block st i = st"
  then have "of_nat (Suc i) = (0 :: uint)" by (simp add: log_block_def algebra_simps)
  then have "unat (of_nat (Suc i) :: uint) = 0" by simp
  moreover have "unat (of_nat (Suc i) :: uint) = Suc i"
    using \<open>i \<le> LOGSIZE\<close> by (intro unat_small) (simp add: LOGSIZE_def MAXOPBLOCKS_def)
  ultimately show False by simp
qed

text \<open>
  The writes of a commit of \<open>n\<close> blocks: the new contents \<open>dat\<close> into the log, the header, the contents to
  their places, and a header that empties the log.
\<close>

definition commit_writes ::
  "uint \<Rightarrow> (nat \<Rightarrow> uint) \<Rightarrow> nat \<Rightarrow> (nat \<Rightarrow> block) \<Rightarrow> block \<Rightarrow> block \<Rightarrow> (nat \<times> block) list" where
  "commit_writes st bn n dat h1 h2 =
     map (\<lambda>i. (unat (log_block st i), dat i)) [0..<n] @ [(unat st, h1)] @
     map (\<lambda>i. (unat (bn i), dat i)) [0..<n] @ [(unat st, h2)]"

section \<open>Steps of a commit\<close>

context block_cache
begin

text \<open>Both loops read a block \<open>L\<close> of the log and a block \<open>H\<close> outside it.\<close>

lemma read_two:
  assumes i0: "inv s" and LH: "L \<noteq> H" and idL: "idl s L" and idH: "idl s H" and uL: "usr s L = 0"
    and uH: "usr s H < 2 ^ 32 - 1" and sp: "spare s \<ge> 1" "usr s H \<ge> 1 \<or> spare s \<ge> 2"
  shows "\<exists>x1 s1 x2 s2. bread dev L s e = Ok x1 s1 e \<and> bread dev H s1 e = Ok x2 s2 e \<and> klogst s1 = klogst s \<and>
    inv s2 \<and> has s2 L x1 \<and> has s2 H x2 \<and> cont s2 = cont s \<and> usr s2 = (usr s)(L := 1, H := usr s H + 1) \<and>
    disk s2 = disk s \<and> dwrites s2 = dwrites s \<and> only_cache s s2 \<and>
    spare s2 = spare s - 1 - (if usr s H = 0 then 1 else 0) \<and> (\<forall>c. c \<noteq> L \<longrightarrow> c \<noteq> H \<longrightarrow> idl s c \<longrightarrow> idl s2 c)"
proof -
  obtain x1 s1 where r1: "bread dev L s e = Ok x1 s1 e" and i1: "inv s1" "has s1 L x1" "cont s1 = cont s"
    "usr s1 = (usr s)(L := 1)" "disk s1 = disk s" "dwrites s1 = dwrites s" "only_cache s s1" "spare s1 = spare s - 1"
    "\<forall>c. c \<noteq> L \<longrightarrow> idl s c \<longrightarrow> idl s1 c"
    using read [OF i0 idL, of e] uL sp(1) by force
  have uH1: "usr s1 H = usr s H" using i1(4) LH by simp
  then have "usr s1 H > 0 \<or> spare s1 > 0" using i1(8) sp by auto
  then obtain x2 s2 where r2: "bread dev H s1 e = Ok x2 s2 e" and i2: "inv s2" "has s2 H x2" "cont s2 = cont s"
    "usr s2 = (usr s1)(H := usr s H + 1)" "disk s2 = disk s" "dwrites s2 = dwrites s" "only_cache s1 s2"
    "spare s2 = spare s1 - (if usr s H = 0 then 1 else 0)"
    "\<forall>c. c \<noteq> H \<longrightarrow> idl s1 c \<longrightarrow> idl s2 c" "has s2 L x1"
    using read [OF i1(1), of H e] i1(2,3,5,6,9) idH uH uH1 LH by force
  have "klogst s1 = klogst s" by (rule only_cacheD(1) [OF i1(7)])
  moreover have "only_cache s s2" by (rule only_cache_trans [OF i1(7) i2(7)])
  ultimately show ?thesis using r1 r2 i1 i2
    by (intro exI [of _ x1] exI [of _ s1] exI [of _ x2] exI [of _ s2]) auto
qed

lemma install_step:
  assumes i0: "inv s" and dv: "lg_dev (klogst s) = dev"
    and L: "L = log_block (lg_start (klogst s)) t" and H: "H = lh_block (klogst s) t" and LH: "L \<noteq> H"
    and idL: "idl s L" and idH: "idl s H" and uL: "usr s L = 0" and uH: "usr s H < 2 ^ 32 - 1"
    and sp: "spare s \<ge> 1" "recovering \<Longrightarrow> spare s \<ge> 2" and pin: "\<not> recovering \<Longrightarrow> usr s H \<ge> 1"
  shows "\<exists>s'. install_body recovering t s e = Ok () s' e \<and> inv s' \<and> cont s' = (cont s)(H := cont s L) \<and>
    usr s' = (usr s)(H := usr s H - (if recovering then 0 else 1)) \<and> disk s' = (disk s)(unat H := cont s L) \<and>
    dwrites s' = dwrites s @ [(unat H, cont s L)] \<and> only_cache s s' \<and> (\<forall>c. idl s c \<longrightarrow> idl s' c) \<and>
    spare s' \<ge> spare s"
proof -
  have "usr s H \<ge> 1 \<or> spare s \<ge> 2" using sp(2) pin by blast
  from read_two [OF i0 LH idL idH uL uH sp(1) this, of e] obtain x1 s1 x2 s2 where
    r: "bread dev L s e = Ok x1 s1 e" "bread dev H s1 e = Ok x2 s2 e" "klogst s1 = klogst s"
    and i2: "inv s2" "has s2 L x1" "has s2 H x2" "cont s2 = cont s" "usr s2 = (usr s)(L := 1, H := usr s H + 1)"
    "disk s2 = disk s" "dwrites s2 = dwrites s" "only_cache s s2"
    "spare s2 = spare s - 1 - (if usr s H = 0 then 1 else 0)" "\<forall>c. c \<noteq> L \<longrightarrow> c \<noteq> H \<longrightarrow> idl s c \<longrightarrow> idl s2 c"
    by blast
  obtain v where v: "buf_at x1 s2 e = Ok v s2 e" "b_data v = cont s L"
    using look [OF i2(1,2), of e] i2(4) by auto
  obtain s3 where r3: "set_data x2 (\<lambda>_. b_data v) s2 e = Ok () s3 e" and i3: "inv s3"
    "cont s3 = (cont s)(H := cont s L)" "usr s3 = usr s2" "disk s3 = disk s" "dwrites s3 = dwrites s" "only_cache s2 s3"
    "spare s3 = spare s2" "\<forall>c. c \<noteq> H \<longrightarrow> idl s2 c \<longrightarrow> idl s3 c" "has s3 H x2" "has s3 L x1"
    using change [OF i2(1,3), of "\<lambda>_. b_data v" e] v(2) i2 by auto
  obtain s4 where r4: "bwrite x2 s3 e = Ok () s4 e" and i4: "inv s4" "cont s4 = cont s3" "usr s4 = usr s2"
    "disk s4 = (disk s)(unat H := cont s L)" "dwrites s4 = dwrites s @ [(unat H, cont s L)]" "only_cache s3 s4"
    "spare s4 = spare s2" "\<forall>c. c \<noteq> H \<longrightarrow> idl s3 c \<longrightarrow> idl s4 c" "has s4 H x2" "has s4 L x1"
    using store [OF i3(1,9), of e] i3 by auto
  have u4: "usr s4 H = usr s H + 1" "usr s4 L = 1" using i4(3) i2(5) LH by simp_all
  let ?k = "usr s H + 1 - (if recovering then 0 else 1)"
  obtain s5 where r5: "whenK (\<not> recovering) (bunpin x2) s4 e = Ok () s5 e" and i5: "inv s5" "cont s5 = cont s3"
    "usr s5 = (usr s4)(H := ?k)" "disk s5 = disk s4" "dwrites s5 = dwrites s4" "only_cache s4 s5"
    "spare s5 = spare s2" "\<forall>c. c \<noteq> H \<longrightarrow> idl s4 c \<longrightarrow> idl s5 c" "has s5 H x2" "has s5 L x1"
  proof (cases recovering)
    case True
    then show ?thesis using that [of s4] i4 u4 by (simp add: only_cache_refl fun_upd_idem)
  next
    case False
    then have "usr s4 H > 1" using pin u4 by simp
    from unpin [OF i4(1,9) this, of e] that i4 u4 False show ?thesis by auto
  qed
  have uL5: "usr s5 L = 1" using i5(3) u4(2) LH by simp
  have "disk s5 (unat L) = disk s (unat L)" using i5(4) i4(4) unat_neq [OF LH] by simp
  then have "usr s5 L = 1 \<longrightarrow> cont s5 L = disk s5 (unat L)"
    using i5(2) i3(2) LH unused_clean [OF i0 uL] by simp
  from drop [OF i5(1,10) this, of e] obtain s6 where r6: "brelse x1 s5 e = Ok () s6 e" and i6: "inv s6"
    "cont s6 = cont s3" "usr s6 = (usr s5)(L := 0)" "disk s6 = disk s4" "dwrites s6 = dwrites s4" "only_cache s5 s6"
    "\<forall>c. c \<noteq> L \<longrightarrow> idl s5 c \<longrightarrow> idl s6 c" "idl s6 L" "has s6 H x2" "spare s6 = spare s2 + 1"
    using i5 uL5 LH by auto
  have "cont s6 H = disk s6 (unat H)" using i6(2,4) i3(2) i4(4) by simp
  then obtain s7 where r7: "brelse x2 s6 e = Ok () s7 e" and i7: "inv s7" "cont s7 = cont s3"
    "usr s7 = (usr s6)(H := ?k - 1)" "disk s7 = disk s4" "dwrites s7 = dwrites s4" "only_cache s6 s7"
    "\<forall>c. c \<noteq> H \<longrightarrow> idl s6 c \<longrightarrow> idl s7 c" "idl s7 H" "spare s7 = spare s6 + (if ?k = 1 then 1 else 0)"
    using drop [OF i6(1,9), of e] i6 i5(3) LH by auto
  have "install_body recovering t s e = Ok () s7 e"
    using r v(1) r3 r4 r5 r6 r7 dv L H
    by (simp add: install_body_def bind_def seq_def log_block_def add.assoc)
  moreover have "usr s7 = (usr s)(H := usr s H - (if recovering then 0 else 1))"
    using i7(3) i6(3) i5(3) i4(3) i2(5) uL LH by (auto simp: fun_eq_iff)
  moreover have "only_cache s s7"
    using only_cache_trans i2(8) i3(6) i4(6) i5(6) i6(6) i7(6) by meson
  moreover have "\<forall>c. idl s c \<longrightarrow> idl s7 c"
    using i2(10) i3(8) i4(8) i5(8) i6(7,8) i7(7,8) LH by metis
  moreover have "spare s7 \<ge> spare s"
    using i7(9) i6(10) i2(9) pin sp by (cases recovering) auto
  ultimately show ?thesis using i7 i3(2) i4(4,5) by auto
qed

lemma write_log_step:
  assumes i0: "inv s" and dv: "lg_dev (klogst s) = dev"
    and L: "L = log_block (lg_start (klogst s)) t" and H: "H = lh_block (klogst s) t" and LH: "L \<noteq> H"
    and idL: "idl s L" and idH: "idl s H" and uL: "usr s L = 0" and uH: "usr s H < 2 ^ 32 - 1"
    and sp: "spare s \<ge> 1" and pin: "usr s H \<ge> 1"
  shows "\<exists>s'. write_log_body t s e = Ok () s' e \<and> inv s' \<and> cont s' = (cont s)(L := cont s H) \<and>
    usr s' = usr s \<and> disk s' = (disk s)(unat L := cont s H) \<and>
    dwrites s' = dwrites s @ [(unat L, cont s H)] \<and> only_cache s s' \<and> (\<forall>c. idl s c \<longrightarrow> idl s' c) \<and>
    spare s' \<ge> spare s"
proof -
  have "usr s H \<ge> 1 \<or> spare s \<ge> 2" using pin by blast
  from read_two [OF i0 LH idL idH uL uH sp this, of e] obtain x1 s1 x2 s2 where
    r: "bread dev L s e = Ok x1 s1 e" "bread dev H s1 e = Ok x2 s2 e" "klogst s1 = klogst s"
    and i2: "inv s2" "has s2 L x1" "has s2 H x2" "cont s2 = cont s" "usr s2 = (usr s)(L := 1, H := usr s H + 1)"
    "disk s2 = disk s" "dwrites s2 = dwrites s" "only_cache s s2"
    "spare s2 = spare s - 1 - (if usr s H = 0 then 1 else 0)" "\<forall>c. c \<noteq> L \<longrightarrow> c \<noteq> H \<longrightarrow> idl s c \<longrightarrow> idl s2 c"
    by blast
  obtain v where v: "buf_at x2 s2 e = Ok v s2 e" "b_data v = cont s H"
    using look [OF i2(1,3), of e] i2(4) by auto
  obtain s3 where r3: "set_data x1 (\<lambda>_. b_data v) s2 e = Ok () s3 e" and i3: "inv s3"
    "cont s3 = (cont s)(L := cont s H)" "usr s3 = usr s2" "disk s3 = disk s" "dwrites s3 = dwrites s" "only_cache s2 s3"
    "spare s3 = spare s2" "\<forall>c. c \<noteq> L \<longrightarrow> idl s2 c \<longrightarrow> idl s3 c" "has s3 H x2" "has s3 L x1"
    using change [OF i2(1,2), of "\<lambda>_. b_data v" e] v(2) i2 by auto
  obtain s4 where r4: "bwrite x1 s3 e = Ok () s4 e" and i4: "inv s4" "cont s4 = cont s3" "usr s4 = usr s2"
    "disk s4 = (disk s)(unat L := cont s H)" "dwrites s4 = dwrites s @ [(unat L, cont s H)]" "only_cache s3 s4"
    "spare s4 = spare s2" "\<forall>c. c \<noteq> L \<longrightarrow> idl s3 c \<longrightarrow> idl s4 c" "has s4 H x2" "has s4 L x1"
    using store [OF i3(1,10), of e] i3 by auto
  have u4: "usr s4 H = usr s H + 1" "usr s4 L = 1" using i4(3) i2(5) LH by simp_all
  then have "usr s4 H \<noteq> 1" using pin by simp
  then obtain s5 where r5: "brelse x2 s4 e = Ok () s5 e" and i5: "inv s5"
    "cont s5 = cont s3" "usr s5 = (usr s4)(H := usr s H)" "disk s5 = disk s4" "dwrites s5 = dwrites s4" "only_cache s4 s5"
    "\<forall>c. c \<noteq> H \<longrightarrow> idl s4 c \<longrightarrow> idl s5 c" "idl s5 H" "has s5 L x1" "spare s5 = spare s2"
    using drop [OF i4(1,9), of e] i4 u4 LH by auto
  have "cont s5 L = disk s5 (unat L)" using i5(2,4) i3(2) i4(4) by simp
  then obtain s6 where r6: "brelse x1 s5 e = Ok () s6 e" and i6: "inv s6" "cont s6 = cont s3"
    "usr s6 = (usr s5)(L := 0)" "disk s6 = disk s4" "dwrites s6 = dwrites s4" "only_cache s5 s6"
    "\<forall>c. c \<noteq> L \<longrightarrow> idl s5 c \<longrightarrow> idl s6 c" "idl s6 L" "spare s6 = spare s2 + 1"
    using drop [OF i5(1,9), of e] i5 u4 LH by auto
  have "write_log_body t s e = Ok () s6 e"
    using r v(1) r3 r4 r5 r6 dv L H
    by (simp add: write_log_body_def bind_def seq_def log_block_def add.assoc)
  moreover have "usr s6 = usr s"
    using i6(3) i5(3) i4(3) i2(5) uL LH by (auto simp: fun_eq_iff)
  moreover have "only_cache s s6"
    using only_cache_trans i2(8) i3(6) i4(6) i5(6) i6(6) by meson
  moreover have "\<forall>c. idl s c \<longrightarrow> idl s6 c"
    using i2(10) i3(8) i4(8) i5(7,8) i6(7,8) LH by metis
  moreover have "spare s6 \<ge> spare s" using i6(9) i2(9) pin sp by auto
  ultimately show ?thesis using i6 i3(2) i4(4,5) by auto
qed

lemma write_log_run:
  assumes i0: "inv s" and dv: "lg_dev (klogst s) = dev"
    and lw: "log_wf (lg_start (klogst s)) (lh_block (klogst s)) n" and idle: "\<And>c. idl s c"
    and uL: "\<And>i. i < n \<Longrightarrow> usr s (log_block (lg_start (klogst s)) i) = 0"
    and uH: "\<And>i. i < n \<Longrightarrow> 1 \<le> usr s (lh_block (klogst s) i) \<and> usr s (lh_block (klogst s) i) < 2 ^ 32 - 1"
    and sp: "spare s \<ge> 1" and k: "k \<le> n"
  defines "ws \<equiv> map (\<lambda>i. (unat (log_block (lg_start (klogst s)) i), cont s (lh_block (klogst s) i))) [0..<k]"
  shows "\<exists>s'. for_each [0..<k] write_log_body s e = Ok () s' e \<and> inv s' \<and> usr s' = usr s \<and> (\<forall>c. idl s' c) \<and>
    only_cache s s' \<and> spare s' \<ge> spare s \<and> disk s' = writes ws (disk s) \<and> dwrites s' = dwrites s @ ws \<and>
    (\<forall>b. (\<forall>i < k. b \<noteq> log_block (lg_start (klogst s)) i) \<longrightarrow> cont s' b = cont s b)"
  using k unfolding ws_def
proof (induction k)
  case 0
  then show ?case using i0 idle by (auto simp: only_cache_refl)
next
  case (Suc k)
  let ?L = "log_block (lg_start (klogst s))" and ?H = "lh_block (klogst s)"
  let ?ws = "map (\<lambda>i. (unat (?L i), cont s (?H i))) [0..<k]"
  have kn: "k < n" using Suc.prems by simp
  obtain t where t: "for_each [0..<k] write_log_body s e = Ok () t e" "inv t" "usr t = usr s" "\<forall>c. idl t c"
    "only_cache s t" "spare t \<ge> spare s" "disk t = writes ?ws (disk s)" "dwrites t = dwrites s @ ?ws"
    "\<forall>b. (\<forall>i < k. b \<noteq> ?L i) \<longrightarrow> cont t b = cont s b"
    using Suc.IH kn by auto
  have kt: "klogst t = klogst s" by (rule only_cacheD(1) [OF t(5)])
  have LH: "?L i \<noteq> ?H k" if "i < n" for i using lw kn that unfolding log_wf_def by metis
  have H: "cont t (?H k) = cont s (?H k)" using t(9) LH kn by (metis order.strict_trans)
  obtain u where u: "write_log_body k t e = Ok () u e" "inv u" "cont u = (cont t)(?L k := cont s (?H k))"
    "usr u = usr s" "disk u = (disk t)(unat (?L k) := cont s (?H k))"
    "dwrites u = dwrites t @ [(unat (?L k), cont s (?H k))]" "only_cache t u" "\<forall>c. idl t c \<longrightarrow> idl u c" "spare u \<ge> spare t"
  proof -
    have "lg_dev (klogst t) = dev" "?L k = log_block (lg_start (klogst t)) k" "?H k = lh_block (klogst t) k"
      "idl t (?L k)" "idl t (?H k)" "usr t (?L k) = 0" "usr t (?H k) < 2 ^ 32 - 1" "spare t \<ge> 1" "usr t (?H k) \<ge> 1"
      using dv t(3,4,6) uL [OF kn] uH [OF kn] sp by (simp_all add: kt)
    from write_log_step [OF t(2) this(1-3) LH [OF kn] this(4-), of e] show thesis
      unfolding H t(3) using that by blast
  qed
  have "for_each [0..<Suc k] write_log_body s e = Ok () u e"
    using t(1) u(1) by (simp add: for_each_append seq_def)
  moreover have "only_cache s u" by (rule only_cache_trans [OF t(5) u(7)])
  ultimately show ?case using t u by (intro exI [of _ u]) auto
qed

lemma install_run:
  assumes i0: "inv s" and dv: "lg_dev (klogst s) = dev"
    and lw: "log_wf (lg_start (klogst s)) (lh_block (klogst s)) n" and idle: "\<And>c. idl s c"
    and uL: "\<And>i. i < n \<Longrightarrow> usr s (log_block (lg_start (klogst s)) i) = 0"
    and uH: "\<And>i. i < n \<Longrightarrow> usr s (lh_block (klogst s) i) < 2 ^ 32 - 1"
    and sp: "spare s \<ge> 1" "recovering \<Longrightarrow> spare s \<ge> 2"
    and pin: "\<And>i. \<not> recovering \<Longrightarrow> i < n \<Longrightarrow> 1 \<le> usr s (lh_block (klogst s) i)" and k: "k \<le> n"
  defines "ws \<equiv> map (\<lambda>i. (unat (lh_block (klogst s) i), cont s (log_block (lg_start (klogst s)) i))) [0..<k]"
  shows "\<exists>s'. for_each [0..<k] (install_body recovering) s e = Ok () s' e \<and> inv s' \<and>
    usr s' = (\<lambda>b. usr s b - (if \<not> recovering \<and> b \<in> lh_block (klogst s) ` {..<k} then 1 else 0)) \<and>
    (\<forall>c. idl s' c) \<and> only_cache s s' \<and> spare s' \<ge> spare s \<and> disk s' = writes ws (disk s) \<and>
    dwrites s' = dwrites s @ ws \<and> (\<forall>b. b \<notin> lh_block (klogst s) ` {..<k} \<longrightarrow> cont s' b = cont s b)"
  using k unfolding ws_def
proof (induction k)
  case 0
  then show ?case using i0 idle by (auto simp: only_cache_refl)
next
  case (Suc k)
  let ?L = "log_block (lg_start (klogst s))" and ?H = "lh_block (klogst s)"
  let ?ws = "map (\<lambda>i. (unat (?H i), cont s (?L i))) [0..<k]"
  let ?u = "\<lambda>k b. usr s b - (if \<not> recovering \<and> b \<in> ?H ` {..<k} then 1 else 0)"
  have kn: "k < n" using Suc.prems by simp
  obtain t where t: "for_each [0..<k] (install_body recovering) s e = Ok () t e" "inv t" "usr t = ?u k"
    "\<forall>c. idl t c" "only_cache s t" "spare t \<ge> spare s" "disk t = writes ?ws (disk s)" "dwrites t = dwrites s @ ?ws"
    "\<forall>b. b \<notin> ?H ` {..<k} \<longrightarrow> cont t b = cont s b"
    using Suc.IH kn by auto
  have kt: "klogst t = klogst s" by (rule only_cacheD(1) [OF t(5)])
  have HH: "?H k \<notin> ?H ` {..<k}" 
  proof
    assume "?H k \<in> ?H ` {..<k}"
    then obtain i where "i < k" "?H k = ?H i" by auto
    then show False using lw kn inj_onD [of ?H "{..<n}" k i] unfolding log_wf_def by auto
  qed
  have LH: "?L k \<noteq> ?H i" if "i < n" for i using lw kn that unfolding log_wf_def by metis
  have L: "cont t (?L k) = cont s (?L k)" using t(9) LH kn by (auto simp: image_iff)
  have uH': "usr t (?H k) = usr s (?H k)" "usr t (?L k) = 0" using t(3) HH uL [OF kn] by simp_all
  obtain u where u: "install_body recovering k t e = Ok () u e" "inv u" "cont u = (cont t)(?H k := cont s (?L k))"
    "usr u = (usr t)(?H k := usr s (?H k) - (if recovering then 0 else 1))" "disk u = (disk t)(unat (?H k) := cont s (?L k))"
    "dwrites u = dwrites t @ [(unat (?H k), cont s (?L k))]" "only_cache t u" "\<forall>c. idl t c \<longrightarrow> idl u c" "spare u \<ge> spare t"
  proof -
    have "lg_dev (klogst t) = dev" "?L k = log_block (lg_start (klogst t)) k" "?H k = lh_block (klogst t) k"
      "idl t (?L k)" "idl t (?H k)" "usr t (?H k) < 2 ^ 32 - 1" "spare t \<ge> 1"
      using dv t(4,6) uH' uH [OF kn] sp(1) by (simp_all add: kt)
    moreover have "spare t \<ge> 2" if recovering using sp(2) [OF that] t(6) by simp
    moreover have "usr t (?H k) \<ge> 1" if "\<not> recovering" using pin [OF that kn] uH' by simp
    ultimately show thesis
      using install_step [OF t(2), of "?L k" k "?H k" recovering e] LH [OF kn] uH'(2) that
      unfolding L uH'(1) by blast
  qed
  have "for_each [0..<Suc k] (install_body recovering) s e = Ok () u e"
    using t(1) u(1) by (simp add: for_each_append seq_def)
  moreover have "only_cache s u" by (rule only_cache_trans [OF t(5) u(7)])
  moreover have "usr u = ?u (Suc k)" unfolding u(4) t(3) by (auto simp: fun_eq_iff lessThan_Suc)
  ultimately show ?case using t u by (intro exI [of _ u]) (auto simp: lessThan_Suc)
qed

lemma set_data_run:
  assumes "inv s" and "has s b x"
  shows "\<exists>s'. for_each is (\<lambda>i. set_data x (f i)) s e = Ok () s' e \<and> inv s' \<and>
    cont s' = (cont s)(b := fold f is (cont s b)) \<and> usr s' = usr s \<and> disk s' = disk s \<and> dwrites s' = dwrites s \<and>
    only_cache s s' \<and> spare s' = spare s \<and> (\<forall>c. c \<noteq> b \<longrightarrow> idl s c \<longrightarrow> idl s' c) \<and> has s' b x"
  using assms
proof (induction "is" arbitrary: s)
  case Nil
  then show ?case by (simp add: only_cache_refl fun_upd_idem)
next
  case (Cons i js)
  obtain t where t: "set_data x (f i) s e = Ok () t e" "inv t" "cont t = (cont s)(b := f i (cont s b))"
    "usr t = usr s" "disk t = disk s" "dwrites t = dwrites s" "only_cache s t" "spare t = spare s"
    "\<forall>c. c \<noteq> b \<longrightarrow> idl s c \<longrightarrow> idl t c" "has t b x"
    using change [OF Cons.prems, of "f i" e] Cons.prems(2) by blast
  obtain u where u: "for_each js (\<lambda>i. set_data x (f i)) t e = Ok () u e" "inv u"
    "cont u = (cont t)(b := fold f js (cont t b))" "usr u = usr t" "disk u = disk t" "dwrites u = dwrites t"
    "only_cache t u" "spare u = spare t" "\<forall>c. c \<noteq> b \<longrightarrow> idl t c \<longrightarrow> idl u c" "has u b x"
    using Cons.IH [OF t(2,10)] by blast
  have "only_cache s u" by (rule only_cache_trans [OF t(7) u(7)])
  with t u show ?case by (intro exI [of _ u]) (simp add: seq_def)
qed

lemma write_head_run:
  assumes i0: "inv s" and dv: "lg_dev (klogst s) = dev" and n: "lh_n (klogst s) = int n"
    and idle: "\<And>c. idl s c" and u0: "usr s (lg_start (klogst s)) = 0" and sp: "spare s \<ge> 1"
  defines "h \<equiv> put_header n (lh_block (klogst s)) (cont s (lg_start (klogst s)))"
  shows "\<exists>s'. write_head s e = Ok () s' e \<and> inv s' \<and> cont s' = (cont s)(lg_start (klogst s) := h) \<and> usr s' = usr s \<and>
    disk s' = (disk s)(unat (lg_start (klogst s)) := h) \<and> dwrites s' = dwrites s @ [(unat (lg_start (klogst s)), h)] \<and>
    only_cache s s' \<and> spare s' \<ge> spare s \<and> (\<forall>c. idl s' c)"
proof -
  let ?b = "lg_start (klogst s)" and ?bn = "lh_block (klogst s)"
  obtain x s1 where r1: "bread dev ?b s e = Ok x s1 e" and i1: "inv s1" "has s1 ?b x" "cont s1 = cont s"
    "usr s1 = (usr s)(?b := 1)" "disk s1 = disk s" "dwrites s1 = dwrites s" "only_cache s s1" "spare s1 = spare s - 1"
    "\<forall>c. c \<noteq> ?b \<longrightarrow> idl s c \<longrightarrow> idl s1 c"
    using read [OF i0 idle, of ?b e] u0 sp by force
  have k1: "klogst s1 = klogst s" by (rule only_cacheD(1) [OF i1(7)])
  obtain s2 where r2: "set_data x (put32 0 (of_nat n)) s1 e = Ok () s2 e" and i2: "inv s2" "has s2 ?b x"
    "cont s2 = (cont s)(?b := put32 0 (of_nat n) (cont s ?b))" "usr s2 = usr s1" "disk s2 = disk s" "dwrites s2 = dwrites s"
    "only_cache s1 s2" "spare s2 = spare s1" "\<forall>c. c \<noteq> ?b \<longrightarrow> idl s1 c \<longrightarrow> idl s2 c"
    using change [OF i1(1,2), of "put32 0 (of_nat n)" e] i1 by auto
  obtain s3 where r3: "for_each [0..<n] (\<lambda>i. set_data x (put32 (4 + 4 * i) (?bn i))) s2 e = Ok () s3 e"
    and i3: "inv s3" "cont s3 = (cont s)(?b := h)" "usr s3 = usr s1" "disk s3 = disk s"
    "dwrites s3 = dwrites s" "only_cache s2 s3" "spare s3 = spare s1" "\<forall>c. c \<noteq> ?b \<longrightarrow> idl s2 c \<longrightarrow> idl s3 c" "has s3 ?b x"
    using set_data_run [OF i2(1,2), of "[0..<n]" "\<lambda>i. put32 (4 + 4 * i) (?bn i)" e] i2
    by (auto simp: h_def put_header_def)
  obtain s4 where r4: "bwrite x s3 e = Ok () s4 e" and i4: "inv s4" "cont s4 = cont s3" "usr s4 = usr s1"
    "disk s4 = (disk s)(unat ?b := h)" "dwrites s4 = dwrites s @ [(unat ?b, h)]" "only_cache s3 s4" "spare s4 = spare s1"
    "\<forall>c. c \<noteq> ?b \<longrightarrow> idl s3 c \<longrightarrow> idl s4 c" "has s4 ?b x"
    using store [OF i3(1,9), of e] i3 by auto
  have "cont s4 ?b = disk s4 (unat ?b)" using i4(2,4) i3(2) by simp
  then obtain s5 where r5: "brelse x s4 e = Ok () s5 e" and i5: "inv s5" "cont s5 = cont s3"
    "usr s5 = (usr s4)(?b := 0)" "disk s5 = disk s4" "dwrites s5 = dwrites s4" "only_cache s4 s5"
    "\<forall>c. c \<noteq> ?b \<longrightarrow> idl s4 c \<longrightarrow> idl s5 c" "idl s5 ?b" "spare s5 = spare s1 + 1"
    using drop [OF i4(1,9), of e] i4 i1(4) by auto
  have "write_head s e = Ok () s5 e"
    using r1 r2 r3 r4 r5 dv k1 n by (simp add: write_head_def bind_def seq_def)
  moreover have "usr s5 = usr s" using i5(3) i4(3) i1(4) u0 by (auto simp: fun_eq_iff)
  moreover have "only_cache s s5" using only_cache_trans i1(7) i2(7) i3(6) i4(6) i5(6) by meson
  moreover have "\<forall>c. idl s5 c" using idle i1(9) i2(9) i3(8) i4(8) i5(7,8) by metis
  moreover have "spare s5 \<ge> spare s" using i5(9) i1(8) sp by simp
  ultimately show ?thesis using i5 i3(2) i4(4,5) by auto
qed

lemma commit_run:
  assumes i0: "inv s" and dv: "lg_dev (klogst s) = dev" and n: "lh_n (klogst s) = int n" "n > 0"
    and lw: "log_wf (lg_start (klogst s)) (lh_block (klogst s)) n" and idle: "\<And>c. idl s c"
    and uL: "\<And>i. i < n \<Longrightarrow> usr s (log_block (lg_start (klogst s)) i) = 0"
    and u0: "usr s (lg_start (klogst s)) = 0"
    and uH: "\<And>i. i < n \<Longrightarrow> 1 \<le> usr s (lh_block (klogst s) i) \<and> usr s (lh_block (klogst s) i) < 2 ^ 32 - 1"
    and sp: "spare s \<ge> 1"
  defines "st \<equiv> lg_start (klogst s)" and "bn \<equiv> lh_block (klogst s)"
  shows "\<exists>s' h1 h2. commit s e = Ok () s' e \<and> inv s' \<and> klogst s' = (klogst s)\<lparr>lh_n := 0\<rparr> \<and>
    header n bn h1 \<and> header 0 bn h2 \<and> (\<forall>c. idl s' c) \<and>
    usr s' = (\<lambda>b. usr s b - (if b \<in> bn ` {..<n} then 1 else 0)) \<and>
    disk s' = writes (commit_writes st bn n (\<lambda>i. cont s (bn i)) h1 h2) (disk s) \<and>
    dwrites s' = dwrites s @ commit_writes st bn n (\<lambda>i. cont s (bn i)) h1 h2"
proof -
  have nL: "n \<le> LOGSIZE" using lw unfolding log_wf_def by blast
  have bst: "bn i \<noteq> st" "bn i \<noteq> log_block st j" if "i < n" "j < n" for i j
    using lw that unfolding log_wf_def bn_def st_def by blast+
  let ?w1 = "map (\<lambda>i. (unat (log_block st i), cont s (bn i))) [0..<n]"
  let ?w2 = "map (\<lambda>i. (unat (bn i), cont s (bn i))) [0..<n]"
  from write_log_run [OF i0 dv lw idle uL uH sp order.refl, of e, folded st_def bn_def]
  obtain s1 where s1: "for_each [0..<n] write_log_body s e = Ok () s1 e" "inv s1" "usr s1 = usr s" "\<forall>c. idl s1 c"
    "only_cache s s1" "spare s1 \<ge> spare s" "disk s1 = writes ?w1 (disk s)" "dwrites s1 = dwrites s @ ?w1"
    by blast
  have k1: "klogst s1 = klogst s" by (rule only_cacheD(1) [OF s1(5)])
  define h1 where "h1 = put_header n bn (cont s1 st)"
  have "lg_dev (klogst s1) = dev" "lh_n (klogst s1) = int n" "\<And>c. idl s1 c" "usr s1 (lg_start (klogst s1)) = 0"
    "spare s1 \<ge> 1"
    using dv n(1) s1(3,4,6) u0 sp by (simp_all add: k1)
  from write_head_run [OF s1(2) this, of e, unfolded k1, folded st_def bn_def, folded h1_def]
  obtain s2 where s2: "write_head s1 e = Ok () s2 e" "inv s2" "cont s2 = (cont s1)(st := h1)" "usr s2 = usr s"
    "disk s2 = (disk s1)(unat st := h1)" "dwrites s2 = dwrites s1 @ [(unat st, h1)]" "only_cache s1 s2"
    "spare s2 \<ge> spare s1" "\<forall>c. idl s2 c"
    unfolding s1(3) by blast
  have k2: "klogst s2 = klogst s" using only_cacheD(1) [OF s2(7)] k1 by simp
  have cL: "cont s2 (log_block st i) = cont s (bn i)" if i: "i < n" for i
  proof -
    have "inj_on (\<lambda>i. unat (log_block st i)) {..<n}"
      using nL log_block_inj by (auto intro!: inj_onI simp flip: word_unat_eq_iff)
    then have "disk s1 (unat (log_block st i)) = cont s (bn i)"
      unfolding s1(7) by (rule writes_map [OF _ i])
    moreover have "cont s1 (log_block st i) = disk s1 (unat (log_block st i))"
      using unused_clean [OF s1(2)] s1(3) uL [OF i] by (simp add: st_def)
    ultimately show ?thesis using s2(3) log_block_start [of i st] i nL by simp
  qed
  have w2: "map (\<lambda>i. (unat (bn i), cont s2 (log_block st i))) [0..<n] = ?w2" using cL by simp
  have "lg_dev (klogst s2) = dev" "log_wf (lg_start (klogst s2)) (lh_block (klogst s2)) n" "\<And>c. idl s2 c"
    "\<And>i. i < n \<Longrightarrow> usr s2 (log_block (lg_start (klogst s2)) i) = 0"
    "\<And>i. i < n \<Longrightarrow> usr s2 (lh_block (klogst s2) i) < 2 ^ 32 - 1" "spare s2 \<ge> 1" "False \<Longrightarrow> spare s2 \<ge> 2"
    "\<And>i. \<not> False \<Longrightarrow> i < n \<Longrightarrow> 1 \<le> usr s2 (lh_block (klogst s2) i)"
    using dv lw s2(4,8,9) s1(6) uL uH sp by (simp_all add: k2)
  from install_run [where recovering = False and e = e, OF s2(2) this order.refl, unfolded k2, folded st_def bn_def, unfolded w2]
  obtain s3 where s3: "for_each [0..<n] (install_body False) s2 e = Ok () s3 e" "inv s3"
    "usr s3 = (\<lambda>b. usr s b - (if b \<in> bn ` {..<n} then 1 else 0))" "\<forall>c. idl s3 c" "only_cache s2 s3"
    "spare s3 \<ge> spare s2" "disk s3 = writes ?w2 (disk s2)" "dwrites s3 = dwrites s2 @ ?w2"
    unfolding s2(4) simp_thms by blast
  have k3: "klogst s3 = klogst s" using only_cacheD(1) [OF s3(5)] k2 by simp
  let ?s4 = "s3\<lparr>klogst := (klogst s)\<lparr>lh_n := 0\<rparr>\<rparr>"
  define h2 where "h2 = put_header 0 bn (cont s3 st)"
  have i4: "inv ?s4" "lg_dev (klogst ?s4) = dev" "lh_n (klogst ?s4) = int 0" "\<And>c. idl ?s4 c"
    "usr ?s4 (lg_start (klogst ?s4)) = 0" "spare ?s4 \<ge> 1"
    using s3(2,3,4,6) s2(8) s1(6) sp u0 dv by (simp_all add: inv_log)
  have k4: "lg_start (klogst ?s4) = st" "lh_block (klogst ?s4) = bn" by (simp_all add: st_def bn_def)
  from write_head_run [OF i4, of e, unfolded k4 inv_log, folded h2_def]
  obtain s5 where s5: "write_head ?s4 e = Ok () s5 e" "inv s5" "usr s5 = usr s3"
    "disk s5 = (disk s3)(unat st := h2)" "dwrites s5 = dwrites s3 @ [(unat st, h2)]" "only_cache ?s4 s5" "\<forall>c. idl s5 c"
    by auto
  have "commit s e = Ok () s5 e"
    using s1(1) s2(1) s3(1) s5(1) n k1 k2 k3
    by (simp add: commit_def bind_def seq_def write_log_def install_trans_def upd_log_def)
  moreover have "klogst s5 = (klogst s)\<lparr>lh_n := 0\<rparr>" using only_cacheD(1) [OF s5(6)] by simp
  moreover have "disk s5 = writes (commit_writes st bn n (\<lambda>i. cont s (bn i)) h1 h2) (disk s)"
    unfolding s5(4) s3(7) s2(5) s1(7) commit_writes_def by simp
  moreover have "dwrites s5 = dwrites s @ commit_writes st bn n (\<lambda>i. cont s (bn i)) h1 h2"
    unfolding s5(5) s3(8) s2(6) s1(8) commit_writes_def by simp
  moreover have "header n bn h1" "header 0 bn h2" unfolding h1_def h2_def by (rule header_put)+
  ultimately show ?thesis
    using s5(2,3,7) s3(3) by (intro exI [of _ s5] exI [of _ h1] exI [of _ h2]) simp
qed

lemma read_head_loop:
  assumes "m \<le> LOGSIZE"
  shows "for_each [0..<m] (\<lambda>i. if i \<ge> LOGSIZE then fault else
      upd_log (\<lambda>l. l\<lparr>lh_block := (lh_block l)(i := get32 h (4 + 4 * i))\<rparr>)) s e =
    Ok () (s\<lparr>klogst := (klogst s)\<lparr>lh_block := (\<lambda>i. if i < m then get32 h (4 + 4 * i) else lh_block (klogst s) i)\<rparr>\<rparr>) e"
  using assms
proof (induction m)
  case 0
  then show ?case by simp
next
  case (Suc m)
  then show ?case by (auto simp: for_each_append seq_def upd_log_def fun_eq_iff less_Suc_eq intro!: arg_cong)
qed

lemma read_head_run:
  assumes i0: "inv s" and dv: "lg_dev (klogst s) = dev" and idle: "\<And>c. idl s c" and u0: "\<And>b. usr s b = 0"
    and sp: "spare s \<ge> 2" and hd: "header n bn (disk s (unat (lg_start (klogst s))))" and n: "n \<le> LOGSIZE"
  shows "\<exists>s' bn'. read_head s e = Ok () s' e \<and> inv s' \<and> cont s' = cont s \<and> usr s' = usr s \<and> disk s' = disk s \<and>
    dwrites s' = dwrites s \<and> spare s' = spare s \<and> (\<forall>c. idl s' c) \<and>
    klogst s' = (klogst s)\<lparr>lh_n := int n, lh_block := bn'\<rparr> \<and> (\<forall>i < n. bn' i = bn i)"
proof -
  let ?b = "lg_start (klogst s)"
  obtain x s1 where r1: "bread dev ?b s e = Ok x s1 e" and i1: "inv s1" "has s1 ?b x" "cont s1 = cont s"
    "usr s1 = (usr s)(?b := 1)" "disk s1 = disk s" "dwrites s1 = dwrites s" "only_cache s s1" "spare s1 = spare s - 1"
    "\<forall>c. c \<noteq> ?b \<longrightarrow> idl s c \<longrightarrow> idl s1 c"
    using read [OF i0 idle, of ?b e] u0 [of ?b] sp by force
  have k1: "klogst s1 = klogst s" by (rule only_cacheD(1) [OF i1(7)])
  obtain v where v: "buf_at x s1 e = Ok v s1 e" "b_data v = disk s (unat ?b)"
    using look [OF i1(1,2), of e] i1(3) unused_clean [OF i0 u0] by auto
  have hn: "sint (get32 (b_data v) 0) = int n"
    using hd n unfolding v(2) header_def LOGSIZE_def MAXOPBLOCKS_def by (simp add: sint_of_nat_small)
  let ?bn = "\<lambda>i. if i < n then get32 (b_data v) (4 + 4 * i) else lh_block (klogst s) i"
  let ?s2 = "s1\<lparr>klogst := (klogst s)\<lparr>lh_n := int n, lh_block := ?bn\<rparr>\<rparr>"
  have loop: "for_each [0..<n] (\<lambda>i. if i \<ge> LOGSIZE then fault else
      upd_log (\<lambda>l. l\<lparr>lh_block := (lh_block l)(i := get32 (b_data v) (4 + 4 * i))\<rparr>))
      (s1\<lparr>klogst := (klogst s)\<lparr>lh_n := int n\<rparr>\<rparr>) e = Ok () ?s2 e"
    unfolding read_head_loop [OF n] by (simp cong: if_cong)
  have i2: "inv ?s2" "has ?s2 ?b x" "usr ?s2 ?b = 1 \<longrightarrow> cont ?s2 ?b = disk ?s2 (unat ?b)"
    using i1(1,2,3,5) unused_clean [OF i0 u0] by (simp_all add: inv_log)
  from drop [OF i2, of e, unfolded inv_log]
  obtain s3 where r3: "brelse x ?s2 e = Ok () s3 e" and i3: "inv s3" "cont s3 = cont s1" "usr s3 = (usr s1)(?b := usr s1 ?b - 1)"
    "disk s3 = disk ?s2" "dwrites s3 = dwrites ?s2" "only_cache ?s2 s3" "\<forall>c. c \<noteq> ?b \<longrightarrow> idl s1 c \<longrightarrow> idl s3 c" "idl s3 ?b"
    "spare s3 = spare s1 + (if usr s1 ?b = 1 then 1 else 0)"
    by blast
  have "read_head s e = Ok () s3 e"
    using r1 v(1) r3 loop hn dv k1 by (simp add: read_head_def bind_def seq_def upd_log_def)
  moreover have "klogst s3 = (klogst s)\<lparr>lh_n := int n, lh_block := ?bn\<rparr>" using only_cacheD(1) [OF i3(6)] by simp
  moreover have "\<forall>i < n. ?bn i = bn i" using hd unfolding v(2) header_def by simp
  moreover have "usr s3 = usr s" using i3(3) i1(4) u0 by (auto simp: fun_eq_iff)
  moreover have "\<forall>c. idl s3 c" using i3(7,8) i1(9) idle by metis
  moreover have "spare s3 = spare s" using i3(9) i1(4,8) sp by simp
  ultimately show ?thesis
    using i3 i1 by (intro exI [of _ s3] exI [of _ ?bn]) simp
qed

lemma recover_run:
  assumes i0: "inv s" and dv: "lg_dev (klogst s) = dev" and idle: "\<And>c. idl s c" and u0: "\<And>b. usr s b = 0"
    and sp: "spare s \<ge> 2" and hd: "header n bn (disk s (unat (lg_start (klogst s))))"
    and lw: "log_wf (lg_start (klogst s)) bn n"
  defines "st \<equiv> lg_start (klogst s)"
  shows "\<exists>s' h. recover_from_log s e = Ok () s' e \<and> inv s' \<and> lh_n (klogst s') = 0 \<and> header 0 bn h \<and>
    disk s' = (writes (map (\<lambda>i. (unat (bn i), disk s (unat (log_block st i)))) [0..<n]) (disk s))(unat st := h)"
proof -
  have n: "n \<le> LOGSIZE" using lw unfolding log_wf_def by blast
  from read_head_run [OF i0 dv idle u0 sp hd n, of e]
  obtain s1 bn' where s1: "read_head s e = Ok () s1 e" "inv s1" "cont s1 = cont s" "usr s1 = usr s" "disk s1 = disk s"
    "spare s1 = spare s" "\<forall>c. idl s1 c" "klogst s1 = (klogst s)\<lparr>lh_n := int n, lh_block := bn'\<rparr>"
    and bn': "\<forall>i < n. bn' i = bn i"
    by blast
  have k1: "lg_start (klogst s1) = st" "lh_block (klogst s1) = bn'" by (simp_all add: s1(8) st_def)
  have lw': "log_wf st bn' n" using lw bn' unfolding log_wf_def st_def inj_on_def by simp
  let ?w = "map (\<lambda>i. (unat (bn i), disk s (unat (log_block st i)))) [0..<n]"
  have w: "map (\<lambda>i. (unat (bn' i), cont s1 (log_block st i))) [0..<n] = ?w"
    using bn' s1(3) unused_clean [OF i0 u0] by simp
  have "lg_dev (klogst s1) = dev" "log_wf (lg_start (klogst s1)) (lh_block (klogst s1)) n" "\<And>c. idl s1 c"
    "\<And>i. i < n \<Longrightarrow> usr s1 (log_block (lg_start (klogst s1)) i) = 0"
    "\<And>i. i < n \<Longrightarrow> usr s1 (lh_block (klogst s1) i) < 2 ^ 32 - 1" "spare s1 \<ge> 1" "True \<Longrightarrow> spare s1 \<ge> 2"
    "\<And>i. \<not> True \<Longrightarrow> i < n \<Longrightarrow> 1 \<le> usr s1 (lh_block (klogst s1) i)"
    unfolding k1 using dv lw' s1(4,6,7) u0 sp by (simp_all add: s1(8))
  from install_run [where recovering = True and e = e, OF s1(2) this order.refl, unfolded k1, unfolded w]
  obtain s2 where s2: "for_each [0..<n] (install_body True) s1 e = Ok () s2 e" "inv s2" "usr s2 = usr s"
    "\<forall>c. idl s2 c" "only_cache s1 s2" "spare s2 \<ge> spare s" "disk s2 = writes ?w (disk s)"
    using s1(4,5,6) by auto
  have k2: "klogst s2 = klogst s1" by (rule only_cacheD(1) [OF s2(5)])
  let ?s3 = "s2\<lparr>klogst := (klogst s1)\<lparr>lh_n := 0\<rparr>\<rparr>"
  have i3: "inv ?s3" "lg_dev (klogst ?s3) = dev" "lh_n (klogst ?s3) = int 0" "\<And>c. idl ?s3 c"
    "usr ?s3 (lg_start (klogst ?s3)) = 0" "spare ?s3 \<ge> 1"
    using s2(2,3,4,6) sp u0 dv by (simp_all add: inv_log s1(8))
  have k3: "lg_start (klogst ?s3) = st" using k1(1) by simp
  from write_head_run [OF i3, of e, unfolded k3 inv_log]
  obtain s4 h where s4: "write_head ?s3 e = Ok () s4 e" "inv s4" "disk s4 = (disk s2)(unat st := h)" "only_cache ?s3 s4"
    and h: "h = put_header 0 bn' (cont s2 st)"
    using k1(2) by auto
  have "recover_from_log s e = Ok () s4 e"
    using s1(1) s2(1) s4(1) k2
    by (simp add: recover_from_log_def bind_def seq_def install_trans_def upd_log_def s1(8))
  moreover have "lh_n (klogst s4) = 0" using only_cacheD(1) [OF s4(4)] by simp
  moreover have "header 0 bn h" using header_put [of 0 bn' "cont s2 st"] unfolding h header_def by simp
  ultimately show ?thesis using s4(2,3) s2(7) by auto
qed

end

section \<open>All or nothing\<close>

text \<open>The state in which \<^verbatim>\<open>end_op\<close> calls \<^verbatim>\<open>commit\<close>: \<open>n\<close> blocks are in the transaction and pinned in the cache.\<close>

definition committing :: "nat \<Rightarrow> uint \<Rightarrow> kernel \<Rightarrow> nat \<Rightarrow> bool" where
  "committing p d s n \<longleftrightarrow> cache_ok p d s \<and> lg_dev (klogst s) = d \<and> lh_n (klogst s) = int n \<and>
     log_wf (lg_start (klogst s)) (lh_block (klogst s)) n \<and> (\<forall>b. idle d s b) \<and>
     (\<forall>i < n. users d s (log_block (lg_start (klogst s)) i) = 0) \<and> users d s (lg_start (klogst s)) = 0 \<and>
     (\<forall>i < n. 1 \<le> users d s (lh_block (klogst s) i) \<and> users d s (lh_block (klogst s) i) < 2 ^ 32 - 1) \<and>
     spares s \<ge> 1"

lemma committing_run:
  assumes "committing p d s n" and "n > 0"
  shows "\<exists>s' h1 h2. commit s e = Ok () s' e \<and> cache_ok p d s' \<and> klogst s' = (klogst s)\<lparr>lh_n := 0\<rparr> \<and>
    header n (lh_block (klogst s)) h1 \<and> header 0 (lh_block (klogst s)) h2 \<and> (\<forall>c. idle d s' c) \<and>
    users d s' = (\<lambda>b. users d s b - (if b \<in> lh_block (klogst s) ` {..<n} then 1 else 0)) \<and>
    disk s' = writes (commit_writes (lg_start (klogst s)) (lh_block (klogst s)) n
      (\<lambda>i. content d s (lh_block (klogst s) i)) h1 h2) (disk s) \<and>
    dwrites s' = dwrites s @ commit_writes (lg_start (klogst s)) (lh_block (klogst s)) n
      (\<lambda>i. content d s (lh_block (klogst s) i)) h1 h2"
proof -
  have "cache_ok p d s" "lg_dev (klogst s) = d" "lh_n (klogst s) = int n"
    "log_wf (lg_start (klogst s)) (lh_block (klogst s)) n" "\<And>b. idle d s b"
    "\<And>i. i < n \<Longrightarrow> users d s (log_block (lg_start (klogst s)) i) = 0" "users d s (lg_start (klogst s)) = 0"
    "\<And>i. i < n \<Longrightarrow> 1 \<le> users d s (lh_block (klogst s) i) \<and> users d s (lh_block (klogst s) i) < 2 ^ 32 - 1"
    "spares s \<ge> 1"
    using assms(1) unfolding committing_def by simp_all
  from bcache.commit_run [OF this(1-3) assms(2) this(4-)] show ?thesis .
qed

text \<open>Start-up after a crash: \<^verbatim>\<open>initlog\<close> on an empty cache.\<close>

lemma initlog_run:
  assumes fresh: "fresh_cache r" and calm: "calm q (lkst r)" and d: "d \<noteq> 0"
    and hd: "header n bn (disk r (unat (sb_logstart sb)))" and lw: "log_wf (sb_logstart sb) bn n"
  shows "\<exists>r' h. initlog d sb r e = Ok () r' e \<and> disk r' = (writes (map (\<lambda>i. (unat (bn i),
    disk r (unat (log_block (sb_logstart sb) i)))) [0..<n]) (disk r))(unat (sb_logstart sb) := h)"
proof -
  let ?l = "(lkst r)\<lparr>lks := (lks (lkst r))(LkLog := (lks (lkst r) LkLog)\<lparr>lname := ''log'', locked := False, lcpu := None\<rparr>)\<rparr>"
  let ?r = "r\<lparr>lkst := ?l, klogst := (klogst r)\<lparr>lg_start := sb_logstart sb, lg_size := sint (sb_nlog sb), lg_dev := d\<rparr>\<rparr>"
  have run: "initlog d sb r e = recover_from_log ?r e"
    by (simp add: initlog_def seq_def initlock_def upd_lock_def upd_log_def LOGSIZE_def MAXOPBLOCKS_def)
  have f: "fresh_cache ?r" using fresh by (simp add: fresh_cache_def)
  have c: "calm q (lkst ?r)" using calm calm_initlock by simp
  note ok = fresh_cache_ok [OF f c d]
  have "spares ?r \<ge> 2" using ok(5) by (simp add: NBUF_def MAXOPBLOCKS_def)
  moreover have "header n bn (disk ?r (unat (lg_start (klogst ?r))))" "log_wf (lg_start (klogst ?r)) bn n"
    "lg_dev (klogst ?r) = d"
    using hd lw by simp_all
  ultimately show ?thesis
    using bcache.recover_run [OF ok(1) _ ok(4) ok(3), of n bn e] unfolding run by auto
qed

text \<open>The disk after the first \<open>k\<close> writes of a commit.\<close>

lemma commit_writes_take:
  assumes "log_wf st bn n" and "k \<le> length (commit_writes st bn n dat h1 h2)"
    and "header n bn h1" and "header 0 bn h2" and "get32 (d (unat st)) 0 = 0"
  defines "dk \<equiv> writes (take k (commit_writes st bn n dat h1 h2)) d"
  shows "\<exists>m. header m bn (dk (unat st)) \<and> (m = 0 \<or> m = n) \<and>
    (\<forall>b. b \<noteq> unat st \<longrightarrow> (\<forall>i < n. b \<noteq> unat (log_block st i)) \<longrightarrow>
      writes (map (\<lambda>i. (unat (bn i), dk (unat (log_block st i)))) [0..<m]) dk b =
        (if k \<le> n then d b else writes (commit_writes st bn n dat h1 h2) d b))"
proof -
  let ?w1 = "map (\<lambda>i. (unat (log_block st i), dat i)) [0..<n]"
  let ?w2 = "map (\<lambda>i. (unat (bn i), dat i)) [0..<n]"
  let ?out = "\<lambda>b. b \<noteq> unat st \<and> (\<forall>i < n. b \<noteq> unat (log_block st i))"
  have n: "n \<le> LOGSIZE" and ib: "inj_on (\<lambda>i. unat (bn i)) {..<n}"
    using assms(1) unfolding log_wf_def inj_on_def by (auto simp flip: word_unat_eq_iff)
  have lst: "unat (log_block st i) \<noteq> unat st" if "i < n" for i
    using log_block_start [of i st] that n by (simp flip: word_unat_eq_iff)
  have il: "inj_on (\<lambda>i. unat (log_block st i)) {..<n}"
    using n log_block_inj by (auto intro!: inj_onI simp flip: word_unat_eq_iff)
  have full: "writes (commit_writes st bn n dat h1 h2) d b = writes ?w2 d b" if "?out b" for b
  proof -
    have "writes ?w2 (\<lambda>n. if n = unat st then h1 else writes ?w1 d n) b = writes ?w2 d b"
    proof (cases "b \<in> fst ` set ?w2")
      case True
      then obtain i where "b = unat (bn i)" "i < n" by auto
      then show ?thesis using writes_map [OF ib, of i] by simp
    next
      case False
      then show ?thesis using that by (simp add: writes_other) (subst writes_other; auto)
    qed
    then show ?thesis using that by (simp add: commit_writes_def fun_upd_def)
  qed
  have "k \<le> 2 * n + 2" using assms(2) by (simp add: commit_writes_def)
  then consider "k \<le> n" | "n < k" "k - (n + 1) \<le> n" | "k = n + 1 + (n + 1)" by linarith
  then show ?thesis
  proof cases
    case 1
    then have dk: "dk = writes (take k ?w1) d" unfolding dk_def commit_writes_def by simp
    have "fst ` set (take k ?w1) \<subseteq> (\<lambda>i. unat (log_block st i)) ` {..<n}"
      by (auto dest!: in_set_takeD)
    then have out: "dk b = d b" if "\<forall>i < n. b \<noteq> unat (log_block st i)" for b
      unfolding dk using that by (intro writes_other) auto
    have "dk (unat st) = d (unat st)" by (rule out) (use lst in metis)
    then have "header 0 bn (dk (unat st))" using assms(5) unfolding header_def by simp
    with 1 out show ?thesis by (intro exI [of _ 0]) auto
  next
    case 2
    define j where "j = k - (n + 1)"
    have kj: "k = n + 1 + j" "j \<le> n" using 2 by (simp_all add: j_def)
    then have dk: "dk = writes (take j ?w2) ((writes ?w1 d)(unat st := h1))"
      unfolding dk_def commit_writes_def by simp
    have sub: "fst ` set (take j ?w2) \<subseteq> fst ` set ?w2" by (meson image_mono set_take_subset)
    have "unat st \<notin> fst ` set ?w2"
      using assms(1) unfolding log_wf_def by (auto simp flip: word_unat_eq_iff)
    then have "dk (unat st) = h1"
      unfolding dk using sub by (subst writes_other) auto
    moreover have l: "dk (unat (log_block st i)) = dat i" if i: "i < n" for i
    proof -
      have nb: "\<forall>x < n. log_block st i \<noteq> bn x" using assms(1) i unfolding log_wf_def by metis
      have "unat (log_block st i) \<notin> fst ` set ?w2"
        using nb by (auto simp flip: word_unat_eq_iff)
      then have "dk (unat (log_block st i)) = ((writes ?w1 d)(unat st := h1)) (unat (log_block st i))"
        unfolding dk using sub by (intro writes_other) blast
      then show ?thesis using lst [OF i] writes_map [OF il i, of dat d] by simp
    qed
    moreover have "writes ?w2 dk b = writes ?w2 d b" if "?out b" for b
    proof (cases "b \<in> fst ` set ?w2")
      case True
      then obtain i where "b = unat (bn i)" "i < n" by auto
      then show ?thesis using writes_map [OF ib, of i] by simp
    next
      case False
      then have "dk b = ((writes ?w1 d)(unat st := h1)) b"
        unfolding dk using sub by (intro writes_other) blast
      moreover have "writes ?w1 d b = d b" using that by (intro writes_other) auto
      ultimately show ?thesis using that False by (simp add: writes_other)
    qed
    moreover have m: "map (\<lambda>i. (unat (bn i), dk (unat (log_block st i)))) [0..<n] = ?w2"
      by (rule map_cong [OF refl]) (use l in simp)
    ultimately show ?thesis using kj(1) assms(3) full by (intro exI [of _ n]) (simp only: m, simp)
  next
    case 3
    then have dk: "dk = writes (commit_writes st bn n dat h1 h2) d"
      unfolding dk_def by (simp add: commit_writes_def)
    moreover from this have "dk (unat st) = h2" by (simp add: commit_writes_def)
    ultimately show ?thesis using 3 assms(4) by (intro exI [of _ 0]) simp
  qed
qed

lemma commit_writes_home:
  assumes "log_wf st bn n" and "i < n"
  shows "writes (commit_writes st bn n dat h1 h2) d (unat (bn i)) = dat i"
proof -
  have "inj_on (\<lambda>i. unat (bn i)) {..<n}" "bn i \<noteq> st"
    using assms unfolding log_wf_def inj_on_def by (auto simp flip: word_unat_eq_iff)
  then show ?thesis using writes_map [of "\<lambda>i. unat (bn i)" n i dat] assms(2)
    by (simp add: commit_writes_def flip: word_unat_eq_iff)
qed

text \<open>The blocks of the log itself: the header and the \<open>n\<close> slots behind it.\<close>

definition in_log :: "uint \<Rightarrow> nat \<Rightarrow> nat \<Rightarrow> bool" where
  "in_log st n b \<longleftrightarrow> b = unat st \<or> (\<exists>i < n. b = unat (log_block st i))"

lemma log_wf_upto: "log_wf st bn n \<Longrightarrow> m \<le> n \<Longrightarrow> log_wf st bn m"
  unfolding log_wf_def by (auto intro: inj_on_subset)

lemma recover_prefix:
  assumes wf: "log_wf st bn n" and k: "k \<le> length (commit_writes st bn n dat h1 h2)"
    and h: "header n bn h1" "header 0 bn h2" "get32 (dk (unat st)) 0 = 0"
    and r: "fresh_cache r" "calm q (lkst r)" "d \<noteq> 0" "sb_logstart sb = st"
  shows "\<exists>r'. initlog d sb (r\<lparr>disk := writes (take k (commit_writes st bn n dat h1 h2)) dk\<rparr>) e = Ok () r' e \<and>
    (\<forall>b. \<not> in_log st n b \<longrightarrow> disk r' b = (if k \<le> n then dk b else writes (commit_writes st bn n dat h1 h2) dk b))"
proof -
  let ?d = "writes (take k (commit_writes st bn n dat h1 h2)) dk"
  from commit_writes_take [where d = dk, OF wf k h] obtain m where m: "header m bn (?d (unat st))" "m = 0 \<or> m = n"
    "\<And>b. \<not> in_log st n b \<Longrightarrow> writes (map (\<lambda>i. (unat (bn i), ?d (unat (log_block st i)))) [0..<m]) ?d b =
      (if k \<le> n then dk b else writes (commit_writes st bn n dat h1 h2) dk b)"
    unfolding in_log_def by blast
  have f: "fresh_cache (r\<lparr>disk := ?d\<rparr>)" "calm q (lkst (r\<lparr>disk := ?d\<rparr>))" "log_wf (sb_logstart sb) bn m"
    using r m(2) log_wf_upto [OF wf, of m] by (auto simp: fresh_cache_def)
  from initlog_run [OF f(1,2) r(3) _ f(3), of e] m(1) r(4) obtain r' g where r':
    "initlog d sb (r\<lparr>disk := ?d\<rparr>) e = Ok () r' e"
    "disk r' = (writes (map (\<lambda>i. (unat (bn i), ?d (unat (log_block st i)))) [0..<m]) ?d)(unat st := g)"
    by auto
  show ?thesis
    by (intro exI [of _ r'] conjI allI impI) (use r' m(3) in \<open>auto simp: in_log_def\<close>)
qed

text \<open>C24. A commit is atomic under crashes. \<^verbatim>\<open>commit\<close> issues a sequence \<open>ws\<close> of disk writes and leaves every
  block of the transaction with its cached contents on disk. If the machine stops after any \<open>k\<close> of these
  writes and boots again with an empty buffer cache, \<^verbatim>\<open>initlog\<close> recovers: outside the log area the disk is
  the one before the transaction if the header had not been written (the first \<open>n\<close> writes are the log slots),
  and the one after the whole transaction from then on; no mixture of the two is ever seen.\<close>

theorem commit_crash_atomic:
  assumes "committing p d s n" and "n > 0" and "get32 (disk s (unat (lg_start (klogst s)))) 0 = 0"
    and "fresh_cache r" and "calm q (lkst r)" and "sb_logstart sb = lg_start (klogst s)"
  shows "\<exists>s' ws. commit s e = Ok () s' e \<and> dwrites s' = dwrites s @ ws \<and> length ws = 2 * n + 2 \<and>
    disk s' = writes ws (disk s) \<and>
    (\<forall>i < n. disk s' (unat (lh_block (klogst s) i)) = content d s (lh_block (klogst s) i)) \<and>
    (\<forall>k \<le> length ws. \<exists>r'. initlog d sb (r\<lparr>disk := writes (take k ws) (disk s)\<rparr>) e' = Ok () r' e' \<and>
       (\<forall>b. \<not> in_log (lg_start (klogst s)) n b \<longrightarrow> disk r' b = (if k \<le> n then disk s b else disk s' b)))"
proof -
  let ?st = "lg_start (klogst s)" and ?bn = "lh_block (klogst s)"
  have wf: "log_wf ?st ?bn n" and d: "d \<noteq> 0"
    using assms(1) unfolding committing_def cache_ok_def by auto
  obtain s' h1 h2 where run: "commit s e = Ok () s' e"
    and h: "header n ?bn h1" "header 0 ?bn h2"
    and disk: "disk s' = writes (commit_writes ?st ?bn n (\<lambda>i. content d s (?bn i)) h1 h2) (disk s)"
      "dwrites s' = dwrites s @ commit_writes ?st ?bn n (\<lambda>i. content d s (?bn i)) h1 h2"
    using committing_run [OF assms(1,2), of e] by blast
  define ws where "ws = commit_writes ?st ?bn n (\<lambda>i. content d s (?bn i)) h1 h2"
  have "disk s' (unat (?bn i)) = content d s (?bn i)" if "i < n" for i
    unfolding disk(1) by (rule commit_writes_home [OF wf that])
  moreover have "length ws = 2 * n + 2" by (simp add: ws_def commit_writes_def)
  moreover have "\<exists>r'. initlog d sb (r\<lparr>disk := writes (take k ws) (disk s)\<rparr>) e' = Ok () r' e' \<and>
      (\<forall>b. \<not> in_log ?st n b \<longrightarrow> disk r' b = (if k \<le> n then disk s b else disk s' b))" if "k \<le> length ws" for k
    unfolding disk(1) ws_def
    by (rule recover_prefix [where dk = "disk s", OF wf _ h assms(3-5) d assms(6)]) (use that in \<open>simp add: ws_def\<close>)
  ultimately show ?thesis
    using run disk [folded ws_def] by (intro exI [of _ s'] exI [of _ ws]) simp
qed

text \<open>One block, number 40, in the cache and in the transaction.\<close>

definition one_pinned :: "kernel \<Rightarrow> kernel" where
  "one_pinned r = (with_buf 0 (\<lambda>v. v\<lparr>b_dev := 1, b_blockno := 40, b_valid := True, b_refcnt := 1\<rparr>) r)
     \<lparr>klogst := (klogst r)\<lparr>lg_dev := 1, lg_start := 2, lh_n := 1, lh_block := (\<lambda>_. 0)(0 := 40)\<rparr>\<rparr>"

lemma one_pinned_committing:
  assumes fresh: "fresh_cache r" and calm: "calm p (lkst r)"
  shows "committing p 1 (one_pinned r) 1"
proof -
  let ?s = "one_pinned r"
  have c: "cached 1 ?s b i \<longleftrightarrow> i = 0 \<and> b = 40" for b i
    using fresh unfolding fresh_cache_def cached_def one_pinned_def by (auto simp: NBUF_def MAXOPBLOCKS_def)
  have "{i. i < NBUF \<and> b_refcnt (bufs ?s (Buf i)) = 0} = {..<NBUF} - {0}"
    using fresh unfolding fresh_cache_def one_pinned_def by auto
  then have sp: "spares ?s = 29" unfolding spares_def by (simp add: NBUF_def MAXOPBLOCKS_def)
  have ring: "ring (bufs ?s) xs = ring (bufs r) xs" for xs
    by (rule ring_cong) (simp_all add: one_pinned_def)
  have fr: "\<exists>xs. ring (bufs ?s) xs \<and> set xs = {..<NBUF}"
    "\<And>i. i < NBUF \<Longrightarrow> i \<noteq> 0 \<Longrightarrow> b_dev (bufs ?s (Buf i)) = 0" "\<And>i. i < NBUF \<Longrightarrow> \<not> sl_locked (slocks ?s (SlBuf i))"
    "b_dev (bufs ?s (Buf 0)) = 1" "b_refcnt (bufs ?s (Buf 0)) = 1" "lkst ?s = lkst r"
    using fresh unfolding fresh_cache_def ring by (simp_all add: one_pinned_def)
  have ok: "cache_ok p 1 ?s"
    unfolding cache_ok_def c using fr calm by auto (metis fr(2) one_neq_zero)
  have u: "users 1 ?s b = (if b = 40 then 1 else 0)" for b
  proof -
    have "slot 1 ?s b = (if b = 40 then Some 0 else None)"
      using slot_Some [OF ok] slot_None [OF ok] c by auto
    then show ?thesis using fr(5) by (simp add: users_def)
  qed
  have idle: "\<forall>b. idle 1 ?s b"
    using fresh unfolding idle_def c by (simp add: fresh_cache_def one_pinned_def NBUF_def MAXOPBLOCKS_def)
  have "klogst ?s = (klogst r)\<lparr>lg_dev := 1, lg_start := 2, lh_n := 1, lh_block := (\<lambda>_. 0)(0 := 40)\<rparr>"
    by (simp add: one_pinned_def)
  then show ?thesis
    unfolding committing_def using ok idle sp
    by (simp add: u LOGSIZE_def MAXOPBLOCKS_def log_wf_def log_block_def inj_on_def)
qed

theorem commit_crash_atomic_witness:
  "\<exists>r s' ws. binit ((boot_kernel sample_syms)\<lparr>lkst := proc0_runs\<rparr>) [] = Ok () r [] \<and>
     commit (one_pinned r) [] = Ok () s' [] \<and> length ws = 4 \<and>
     (\<forall>k \<le> 4. \<exists>r'. initlog 1 (zero_superblock\<lparr>sb_logstart := 2\<rparr>) (r\<lparr>disk := writes (take k ws) (disk (one_pinned r))\<rparr>) [] = Ok () r' [] \<and>
        disk r' 40 = (if k \<le> 1 then disk (one_pinned r) 40 else disk s' 40))"
proof -
  obtain r where r: "binit ((boot_kernel sample_syms)\<lparr>lkst := proc0_runs\<rparr>) [] = Ok () r []" "fresh_cache r"
    "calm 0 (lkst r)" "disk r = disk (boot_kernel sample_syms)" using boot_cache by blast
  have d0: "get32 (disk (one_pinned r) (unat (lg_start (klogst (one_pinned r))))) 0 = 0"
    using r(4) by (simp add: one_pinned_def boot_kernel_def get32_def upt_rec)
  have out: "\<not> in_log (lg_start (klogst (one_pinned r))) 1 40" by (simp add: in_log_def log_block_def one_pinned_def)
  have st: "sb_logstart (zero_superblock\<lparr>sb_logstart := 2\<rparr>) = lg_start (klogst (one_pinned r))" by (simp add: one_pinned_def)
  from commit_crash_atomic [where e = "[]" and e' = "[]", OF one_pinned_committing [OF r(2,3)] zero_less_one d0 r(2,3) st]
  obtain s' ws where "commit (one_pinned r) [] = Ok () s' []" and l: "length ws = 4"
    and k: "\<And>k. k \<le> length ws \<Longrightarrow> \<exists>r'. initlog 1 (zero_superblock\<lparr>sb_logstart := 2\<rparr>)
         (r\<lparr>disk := writes (take k ws) (disk (one_pinned r))\<rparr>) [] = Ok () r' [] \<and>
       (\<forall>b. \<not> in_log (lg_start (klogst (one_pinned r))) 1 b \<longrightarrow>
         disk r' b = (if k \<le> 1 then disk (one_pinned r) b else disk s' b))" by auto
  moreover have "\<exists>r'. initlog 1 (zero_superblock\<lparr>sb_logstart := 2\<rparr>)
      (r\<lparr>disk := writes (take k ws) (disk (one_pinned r))\<rparr>) [] = Ok () r' [] \<and>
      disk r' 40 = (if k \<le> 1 then disk (one_pinned r) 40 else disk s' 40)" if "k \<le> 4" for k
    using k [of k] that l out by metis
  ultimately show ?thesis using r(1) by blast
qed

end
