(* ===== verification/LogOps.thy ===== *)
theory LogOps
  imports LogCommit
begin

text \<open>
  Transactions of concurrent system calls (\<^verbatim>\<open>kernel/log.c\<close>): what \<^verbatim>\<open>begin_op\<close>, \<^verbatim>\<open>log_write\<close> and
  \<^verbatim>\<open>end_op\<close> do to the log, the step relation of interleaved calls, and the reservation of log space.
\<close>

section \<open>The three operations\<close>

lemma bpin_run:
  assumes "lk_avail LkBcache (lkst s)"
  shows "bpin (Buf i) s e = Ok () (with_buf i (\<lambda>v. v\<lparr>b_refcnt := b_refcnt v + 1\<rparr>) s) e"
  using assms by (simp add: bpin_def seq_def ksimps lk_avail_def)

definition log_room :: "klog \<Rightarrow> bool" where
  "log_room lg \<longleftrightarrow> \<not> lg_committing lg \<and> lh_n lg + (lg_outstanding lg + 1) * int MAXOPBLOCKS \<le> int LOGSIZE"

lemma begin_op_run:
  assumes "calm p (lkst s)" and "log_room (klogst s)"
  shows "begin_op s e = Ok () (s\<lparr>klogst := (klogst s)\<lparr>lg_outstanding := lg_outstanding (klogst s) + 1\<rparr>\<rparr>) e"
proof -
  let ?s = "s\<lparr>lkst := enter LkLog (lkst s)\<rparr>"
  have "begin_op_body () ?s e =
      Ok (Inr ()) (s\<lparr>klogst := (klogst s)\<lparr>lg_outstanding := lg_outstanding (klogst s) + 1\<rparr>\<rparr>) e"
    using assms calmD(1,3) [OF assms(1)]
    by (simp add: begin_op_body_def log_room_def bind_def seq_def upd_log_def ksimps)
  from loopK_done [where body = begin_op_body, OF this] show ?thesis
    using calmD(3) [OF assms(1)] by (simp add: begin_op_def seq_def ksimps)
qed

lemma begin_op_blocks:
  assumes "calm p (lkst s)" and "noff (cpus (lkst s) (hart (lkst s))) = 0" and "\<not> log_room (klogst s)"
  shows "begin_op s [] = Stop (Blocked (asleep_st p ChLog (lkst s) (s\<lparr>lkst := enter LkLog (lkst s)\<rparr>)))"
proof -
  let ?s = "s\<lparr>lkst := enter LkLog (lkst s)\<rparr>"
  have rest: "at_rest p LkLog (lkst s)" using assms(1,2) by (simp add: at_rest_def calm_def)
  have "begin_op_body () ?s [] = Stop (Blocked (asleep_st p ChLog (lkst s) ?s))"
    using assms(3) sleep_blocks [OF rest, of ?s ChLog] by (auto simp: begin_op_body_def log_room_def bind_def seq_def)
  then have "loopK begin_op_body () ?s [] = Stop (Blocked (asleep_st p ChLog (lkst s) ?s))" by (rule loopK_stop)
  then show ?thesis using calmD(3) [OF assms(1)] by (simp add: begin_op_def seq_def ksimps)
qed

text \<open>What a successful \<^verbatim>\<open>log_write\<close> of block \<open>b\<close> makes of the log: a block that is already in it is absorbed.\<close>

definition log_add :: "uint \<Rightarrow> klog \<Rightarrow> klog" where
  "log_add b lg = (let i = log_slot lg b in
     lg\<lparr>lh_block := (lh_block lg)(i := b), lh_n := (if int i = lh_n lg then lh_n lg + 1 else lh_n lg)\<rparr>)"

lemma log_write_run:
  assumes "calm p (lkst s)" and "lh_n (klogst s) < int LOGSIZE" and "lh_n (klogst s) < lg_size (klogst s) - 1"
    and "lg_outstanding (klogst s) \<ge> 1"
  shows "log_write (Buf k) s e = Ok () ((if int (log_slot (klogst s) (b_blockno (bufs s (Buf k)))) = lh_n (klogst s)
      then with_buf k (\<lambda>v. v\<lparr>b_refcnt := b_refcnt v + 1\<rparr>) s else s)
    \<lparr>klogst := log_add (b_blockno (bufs s (Buf k))) (klogst s)\<rparr>) e"
  using assms calmD(1,3) [OF assms(1)] calm_enter [OF assms(1), of LkLog LkBcache]
  by (simp add: log_write_def bind_def seq_def upd_log_def ksimps Let_def whenK_def bpin_run log_add_def)

lemma log_write_full:
  assumes "calm p (lkst s)" and "lh_n (klogst s) \<ge> int LOGSIZE \<or> lh_n (klogst s) \<ge> lg_size (klogst s) - 1"
  shows "log_write b s e = Stop (Panic ''too big a transaction'')"
  using assms calmD(3) [OF assms(1)]
  by (auto simp: log_write_def bind_def seq_def ksimps whenK_def panic_def halt_def)

lemma committing_flags [simp]:
  "committing p d (s\<lparr>klogst := (klogst s)\<lparr>lg_outstanding := a, lg_committing := b\<rparr>\<rparr>) n = committing p d s n"
  by (simp add: committing_def cache_ok_def cached_def [abs_def] idle_def users_def slot_def spares_def)

lemma end_op_run:
  assumes calm: "calm p (lkst s)" and nc: "\<not> lg_committing (klogst s)"
    and last: "lg_outstanding (klogst s) = 1 \<Longrightarrow> committing p d s n"
  shows "\<exists>s'. end_op s e = Ok () s' e \<and> klogst s' = (klogst s)\<lparr>lg_outstanding := lg_outstanding (klogst s) - 1,
    lh_n := (if lg_outstanding (klogst s) = 1 then 0 else lh_n (klogst s))\<rparr>"
proof (cases "lg_outstanding (klogst s) = 1")
  case False
  let ?t = "s\<lparr>klogst := (klogst s)\<lparr>lg_outstanding := lg_outstanding (klogst s) - 1\<rparr>\<rparr>"
  have "end_op s e = Ok () (wakeup_st ChLog ?t) e"
    using False nc calmD(1-3) [OF calm] calmD(5) [OF calm, of LkLog]
    by (simp add: end_op_def bind_def seq_def upd_log_def ksimps whenK_def wakeup_run wakeup_st_in)
  with False show ?thesis by simp
next
  case True
  let ?t = "s\<lparr>klogst := (klogst s)\<lparr>lg_outstanding := 0, lg_committing := True\<rparr>\<rparr>"
  have t: "committing p d ?t n" using last [OF True] by simp
  obtain u where u: "commit ?t e = Ok () u e" "calm p (lkst u)" "klogst u = (klogst ?t)\<lparr>lh_n := 0\<rparr>"
  proof (cases "n = 0")
    case True
    then have "lh_n (klogst ?t) = 0" using t by (simp add: committing_def)
    then show ?thesis using calm by (intro that [of ?t]) (simp_all add: commit_def bind_def whenK_def)
  next
    case False
    with committing_run [OF t, of e] show ?thesis by (auto simp: cache_ok_def intro: that)
  qed
  have "end_op s e = Ok () (wakeup_st ChLog (u\<lparr>klogst := (klogst u)\<lparr>lg_committing := False\<rparr>\<rparr>)) e"
    using True nc u(1) calmD(1-3) [OF calm] calmD(1-3) [OF u(2)] calmD(5) [OF u(2), of LkLog]
    by (simp add: end_op_def bind_def seq_def upd_log_def ksimps whenK_def wakeup_run wakeup_st_in)
  with True nc u(3) show ?thesis by (intro exI conjI) (assumption, cases "klogst s", simp)
qed

section \<open>Interleaved transactions\<close>

text \<open>
  \<open>log_reach s0 s u\<close>: from \<open>s0\<close>, calls of the three operations by any processes lead to \<open>s\<close>, where \<open>u\<close> has an
  entry for every transaction under way: the number of blocks it has written so far, at most \<^verbatim>\<open>MAXOPBLOCKS\<close>. Every
  operation runs under the lock of the log, so that whole calls interleave; in between the rest of the kernel
  changes the state as it likes, except for the log. A call of \<^verbatim>\<open>begin_op\<close> that has to wait is one that starts
  anew when the process wakes up; the last \<^verbatim>\<open>end_op\<close> commits what the log and the cache then hold.
\<close>

inductive log_reach :: "kernel \<Rightarrow> kernel \<Rightarrow> nat list \<Rightarrow> bool" for s0 where
  start: "log_reach s0 s0 []"
| other: "log_reach s0 s u \<Longrightarrow> klogst s' = klogst s \<Longrightarrow> log_reach s0 s' u"
| opened: "log_reach s0 s u \<Longrightarrow> calm p (lkst s) \<Longrightarrow> noff (cpus (lkst s) (hart (lkst s))) = 0 \<Longrightarrow>
    begin_op s [] = Ok () s' [] \<Longrightarrow> log_reach s0 s' (0 # u)"
| put: "log_reach s0 s u \<Longrightarrow> calm p (lkst s) \<Longrightarrow> i < length u \<Longrightarrow> u ! i < MAXOPBLOCKS \<Longrightarrow>
    log_write (Buf k) s [] = Ok () s' [] \<Longrightarrow> log_reach s0 s' (u[i := u ! i + 1])"
| finish: "log_reach s0 s u \<Longrightarrow> calm p (lkst s) \<Longrightarrow> i < length u \<Longrightarrow> (length u = 1 \<Longrightarrow> committing p d s n) \<Longrightarrow>
    end_op s [] = Ok () s' [] \<Longrightarrow> log_reach s0 s' (take i u @ drop (i + 1) u)"

definition log_empty :: "klog \<Rightarrow> bool" where
  "log_empty lg \<longleftrightarrow> \<not> lg_committing lg \<and> lg_outstanding lg = 0 \<and> lh_n lg = 0"

text \<open>The blocks in the log and those the transactions under way may still add fit into the header.\<close>

definition reserved :: "klog \<Rightarrow> nat list \<Rightarrow> bool" where
  "reserved lg u \<longleftrightarrow> \<not> lg_committing lg \<and> lg_outstanding lg = int (length u) \<and> 0 \<le> lh_n lg \<and>
     (\<forall>x \<in> set u. x \<le> MAXOPBLOCKS) \<and>
     lh_n lg + int (sum_list (map (\<lambda>x. MAXOPBLOCKS - x) u)) \<le> int LOGSIZE \<and>
     inj_on (lh_block lg) {..<nat (lh_n lg)}"

lemma log_slot_cases:
  assumes "0 \<le> lh_n lg"
  obtains "log_slot lg b = nat (lh_n lg)" "\<forall>j < nat (lh_n lg). lh_block lg j \<noteq> b"
  | "log_slot lg b < nat (lh_n lg)" "lh_block lg (log_slot lg b) = b"
proof (cases "find (\<lambda>i. lh_block lg i = b) [0..<nat (lh_n lg)]")
  case None
  then have "\<forall>j < nat (lh_n lg). lh_block lg j \<noteq> b" by (simp add: find_None_iff)
  moreover have "log_slot lg b = nat (lh_n lg)" using None by (simp add: log_slot_def)
  ultimately show thesis by (intro that(1))
next
  case (Some i)
  then have "i < nat (lh_n lg)" "lh_block lg i = b" by (auto simp: find_Some_iff)
  moreover have "log_slot lg b = i" using Some by (simp add: log_slot_def)
  ultimately show thesis by (intro that(2)) simp_all
qed

lemma log_add_simps [simp]:
  "lg_committing (log_add b lg) = lg_committing lg" "lg_outstanding (log_add b lg) = lg_outstanding lg"
  "lg_size (log_add b lg) = lg_size lg"
  by (simp_all add: log_add_def Let_def)

lemma log_add_bounds:
  assumes "0 \<le> lh_n lg"
  shows "0 \<le> lh_n (log_add b lg)" and "lh_n (log_add b lg) \<le> lh_n lg + 1"
  using assms by (simp_all add: log_add_def Let_def)

lemma log_add_inj:
  assumes "0 \<le> lh_n lg" and "inj_on (lh_block lg) {..<nat (lh_n lg)}"
  shows "inj_on (lh_block (log_add b lg)) {..<nat (lh_n (log_add b lg))}"
proof (cases rule: log_slot_cases [OF assms(1), of b])
  case 1
  then have "inj_on ((lh_block lg)(nat (lh_n lg) := b)) (insert (nat (lh_n lg)) {..<nat (lh_n lg)})"
    using assms(2) by (auto simp: inj_on_def)
  moreover have "{..<nat (lh_n lg + 1)} = insert (nat (lh_n lg)) {..<nat (lh_n lg)}" using assms(1) by auto
  ultimately show ?thesis using 1(1) assms(1) by (simp add: log_add_def Let_def)
next
  case 2
  then have "(lh_block lg)(log_slot lg b := b) = lh_block lg" by (intro fun_upd_idem)
  with 2(1) assms(2) show ?thesis by (simp add: log_add_def Let_def)
qed

lemma sum_list_budget:
  fixes u :: "nat list"
  assumes "i < length u"
  shows "u ! i < m \<Longrightarrow> sum_list (map (\<lambda>x. m - x) (u[i := u ! i + 1])) + 1 = sum_list (map (\<lambda>x. m - x) u)"
    and "sum_list (map (\<lambda>x. m - x) (take i u @ drop (i + 1) u)) + (m - u ! i) = sum_list (map (\<lambda>x. m - x) u)"
proof -
  define xs ys y where "xs = take i u" and "ys = drop (i + 1) u" and "y = u ! i"
  have u: "u = xs @ y # ys" "length xs = i"
    using id_take_nth_drop [OF assms] assms by (simp_all add: xs_def ys_def y_def)
  show "u ! i < m \<Longrightarrow> sum_list (map (\<lambda>x. m - x) (u[i := u ! i + 1])) + 1 = sum_list (map (\<lambda>x. m - x) u)"
    unfolding u(1) u(2) [symmetric] by simp
  show "sum_list (map (\<lambda>x. m - x) (take i u @ drop (i + 1) u)) + (m - u ! i) = sum_list (map (\<lambda>x. m - x) u)"
    unfolding u(1) u(2) [symmetric] by simp
qed

lemma budget_upd:
  fixes u :: "nat list"
  shows "i < length u \<Longrightarrow> u ! i < m \<Longrightarrow> int (sum_list (map (\<lambda>x. m - x) (u[i := u ! i + 1]))) = int (sum_list (map (\<lambda>x. m - x) u)) - 1"
  using sum_list_budget(1) [of i u m] by linarith

lemma reserved_reach:
  assumes "log_reach s0 s u" and "log_empty (klogst s0)"
  shows "reserved (klogst s) u \<and> lg_size (klogst s) = lg_size (klogst s0)"
  using assms
proof (induction rule: log_reach.induct)
  case start
  then show ?case by (simp add: log_empty_def reserved_def)
next
  case (other s u s')
  then show ?case by simp
next
  case (opened s u p s')
  then have r: "log_room (klogst s)" using begin_op_blocks by fastforce
  with opened have "s' = s\<lparr>klogst := (klogst s)\<lparr>lg_outstanding := lg_outstanding (klogst s) + 1\<rparr>\<rparr>"
    using begin_op_run by fastforce
  moreover have "int (sum_list (map (\<lambda>x. MAXOPBLOCKS - x) u)) \<le> int MAXOPBLOCKS * int (length u)"
    by (induction u) (auto simp: algebra_simps)
  ultimately show ?case using r opened.IH opened.prems
    by (auto simp: reserved_def log_room_def algebra_simps)
next
  case (put s u p i k s')
  then have r: "reserved (klogst s) u" by simp
  then have n: "lh_n (klogst s) < int LOGSIZE" "lg_outstanding (klogst s) \<ge> 1"
    using put(3,4) sum_list_budget(2) [of i u MAXOPBLOCKS] by (auto simp: reserved_def)
  then have sz: "lh_n (klogst s) < lg_size (klogst s) - 1" using put(5) log_write_full [OF put(2)] by force
  have "klogst s' = log_add (b_blockno (bufs s (Buf k))) (klogst s)"
    using log_write_run [OF put(2) n(1) sz n(2)] put(5) by auto
  then show ?case
    using r put log_add_bounds [of "klogst s"] log_add_inj [of "klogst s"] budget_upd [of i u MAXOPBLOCKS]
    by (auto simp: reserved_def dest!: set_update_subset_insert [THEN subsetD]) (smt (verit))
next
  case (finish s u p i d n s')
  then have r: "reserved (klogst s) u" by simp
  then have "klogst s' = (klogst s)\<lparr>lg_outstanding := int (length u) - 1,
      lh_n := (if length u = 1 then 0 else lh_n (klogst s))\<rparr>"
    using end_op_run [OF finish(2), of d n "[]"] finish(4,5) by (auto simp: reserved_def)
  moreover have "int (sum_list (map (\<lambda>x. MAXOPBLOCKS - x) (take i u @ drop (i + 1) u))) \<le>
      int (sum_list (map (\<lambda>x. MAXOPBLOCKS - x) u))"
    using sum_list_budget(2) [OF finish(3), of MAXOPBLOCKS] by linarith
  ultimately show ?case
    using r finish
    by (auto simp: reserved_def dest: in_set_takeD in_set_dropD)
qed

section \<open>Properties\<close>

text \<open>C24. Reserved log space suffices. Start with an empty log whose area has more than \<^verbatim>\<open>LOGSIZE\<close> blocks and let any
  processes run \<^verbatim>\<open>begin_op\<close>, \<^verbatim>\<open>log_write\<close> and \<^verbatim>\<open>end_op\<close> in any order. A transaction that has written fewer than
  \<^verbatim>\<open>MAXOPBLOCKS\<close> blocks can always write one more: \<^verbatim>\<open>log_write\<close> does not panic, the header does not
  overflow, and no block is in the log twice.\<close>

theorem log_space_suffices:
  assumes "log_reach s0 s u" and "log_empty (klogst s0)" and "lg_size (klogst s0) > int LOGSIZE"
    and "calm p (lkst s)" and "i < length u" and "u ! i < MAXOPBLOCKS"
  shows "\<exists>s'. log_write (Buf k) s e = Ok () s' e \<and> lh_n (klogst s') \<le> int LOGSIZE \<and>
    (\<exists>j. int j < lh_n (klogst s') \<and> lh_block (klogst s') j = b_blockno (bufs s (Buf k))) \<and>
    inj_on (lh_block (klogst s')) {..<nat (lh_n (klogst s'))}"
proof -
  let ?b = "b_blockno (bufs s (Buf k))" and ?l = "klogst s"
  have r: "reserved ?l u" "lg_size ?l > int LOGSIZE" using reserved_reach [OF assms(1,2)] assms(3) by auto
  then have n: "0 \<le> lh_n ?l" "lh_n ?l < int LOGSIZE" "lh_n ?l < lg_size ?l - 1" "lg_outstanding ?l \<ge> 1"
    using assms(5,6) sum_list_budget(2) [of i u MAXOPBLOCKS] by (auto simp: reserved_def)
  have "\<exists>j. int j < lh_n (log_add ?b ?l) \<and> lh_block (log_add ?b ?l) j = ?b"
    by (cases rule: log_slot_cases [OF n(1), of ?b]; intro exI [of _ "log_slot ?l ?b"]) (use n(1) in \<open>auto simp: log_add_def Let_def\<close>)
  then show ?thesis
    using log_write_run [OF assms(4) n(2-4), of k e] log_add_bounds(2) [OF n(1), of ?b] n(2) r(1)
      log_add_inj [OF n(1), of ?b] by (simp add: reserved_def)
qed

text \<open>Three transactions under way that have together logged \<open>m\<close> different blocks.\<close>

definition shares :: "nat \<Rightarrow> nat list" where
  "shares m = [min 10 m, min 10 (m - 10), min 10 (m - 20)]"

lemma shares_step:
  "m < 30 \<Longrightarrow> m div 10 < length (shares m) \<and> shares m ! (m div 10) < MAXOPBLOCKS \<and>
     shares (Suc m) = (shares m)[m div 10 := shares m ! (m div 10) + 1]"
proof -
  assume "m < 30"
  then consider "m < 10" | "10 \<le> m" "m < 20" | "20 \<le> m" "m < 30" by linarith
  then show ?thesis
  proof cases
    case 1
    then show ?thesis by (simp add: shares_def MAXOPBLOCKS_def)
  next
    case 2
    then have "m div 10 = 1" by linarith
    with 2 show ?thesis by (simp add: shares_def MAXOPBLOCKS_def) arith
  next
    case 3
    then have "m div 10 = 2" by linarith
    with 3 show ?thesis by (simp add: shares_def MAXOPBLOCKS_def) arith
  qed
qed

lemma three_begin:
  assumes "log_empty (klogst s0)" and "calm p (lkst s0)" and "noff (cpus (lkst s0) (hart (lkst s0))) = 0"
  shows "log_reach s0 (s0\<lparr>klogst := (klogst s0)\<lparr>lg_outstanding := 3\<rparr>\<rparr>) [0, 0, 0]"
proof -
  let ?s = "\<lambda>k. s0\<lparr>klogst := (klogst s0)\<lparr>lg_outstanding := k\<rparr>\<rparr>"
  have "?s 0 = s0" using assms(1) by (simp add: log_empty_def)
  then have "log_reach s0 (?s 0) []" using log_reach.start [of s0] by simp
  moreover have "begin_op (?s k) [] = Ok () (?s (k + 1)) []" if "k \<le> 2" for k
    using begin_op_run [of p "?s k" "[]"] that assms(1,2)
    by (simp add: log_room_def log_empty_def MAXOPBLOCKS_def LOGSIZE_def)
  note this [of 0] this [of 1] this [of 2]
  ultimately show ?thesis using assms(2,3) log_reach.opened [of s0 "?s 0" "[]" p "?s 1"]
      log_reach.opened [of s0 "?s 1" "[0]" p "?s 2"] log_reach.opened [of s0 "?s 2" "[0, 0]" p "?s 3"] by simp
qed

lemma fill_log:
  assumes e: "log_empty (klogst s0)" and c: "calm p (lkst s0)" and n: "noff (cpus (lkst s0) (hart (lkst s0))) = 0"
    and sz: "lg_size (klogst s0) \<ge> int LOGSIZE" and "m \<le> 29"
  shows "\<exists>s. log_reach s0 s (shares m) \<and> lh_n (klogst s) = int m \<and> lkst s = lkst s0"
proof -
  have "\<exists>s. log_reach s0 s (shares m) \<and> lh_n (klogst s) = int m \<and> lkst s = lkst s0 \<and>
    (\<forall>j < m. lh_block (klogst s) j = of_nat j) \<and> lg_outstanding (klogst s) = 3 \<and> lg_size (klogst s) = lg_size (klogst s0)"
    using \<open>m \<le> 29\<close>
  proof (induction m)
    case 0
    then show ?case using three_begin [OF e c n] e
      by (intro exI [of _ "s0\<lparr>klogst := (klogst s0)\<lparr>lg_outstanding := 3\<rparr>\<rparr>"]) (simp add: shares_def log_empty_def)
  next
    case (Suc m)
    then obtain s where s: "log_reach s0 s (shares m)" "lh_n (klogst s) = int m" "lkst s = lkst s0"
      "\<forall>j < m. lh_block (klogst s) j = of_nat j" "lg_outstanding (klogst s) = 3" "lg_size (klogst s) = lg_size (klogst s0)"
      by auto
    let ?t = "with_buf 0 (\<lambda>v. v\<lparr>b_blockno := of_nat m\<rparr>) s"
    have t: "log_reach s0 ?t (shares m)" by (rule log_reach.other [OF s(1)]) simp
    have new: "\<forall>j < m. lh_block (klogst s) j \<noteq> of_nat m"
    proof (intro allI impI notI)
      fix j assume j: "j < m" "lh_block (klogst s) j = of_nat m"
      then have "unat (of_nat j :: uint) = unat (of_nat m :: uint)" using s(4) by simp
      then show False using j(1) Suc.prems by (simp add: unat_small)
    qed
    have slot: "log_slot (klogst s) (of_nat m) = m"
      by (rule log_slot_cases [of "klogst s" "of_nat m"]) (use s(2) new in auto)
    have "calm p (lkst ?t)" using c s(3) by simp
    from log_write_run [OF this, of 0 "[]"] obtain s' where s': "log_write (Buf 0) ?t [] = Ok () s' []"
      "klogst s' = log_add (of_nat m) (klogst s)" "lkst s' = lkst s0"
      using s sz Suc.prems by (simp add: LOGSIZE_def MAXOPBLOCKS_def)
    have "log_reach s0 s' (shares (Suc m))"
      using log_reach.put [OF t _ _ _ s'(1), of p "m div 10"] shares_step [of m] Suc.prems c s(3) by simp
    with s s' slot show ?case by (intro exI [of _ s']) (auto simp: log_add_def Let_def less_Suc_eq)
  qed
  then show ?thesis by blast
qed


definition log_of_size :: "int \<Rightarrow> kernel" where
  "log_of_size n = (boot_kernel sample_syms)\<lparr>lkst := proc0_runs, klogst := zero_klog\<lparr>lg_size := n\<rparr>\<rparr>"

lemma log_of_size:
  "log_empty (klogst (log_of_size n))" "calm 0 (lkst (log_of_size n))"
  "noff (cpus (lkst (log_of_size n)) (hart (lkst (log_of_size n)))) = 0" "lg_size (klogst (log_of_size n)) = n"
  by (simp_all add: log_of_size_def log_empty_def calm_def proc0_runs_def net_defs zero_defs)


theorem log_space_suffices_witness:
  "\<exists>s s'. log_reach (log_of_size 31) s [10, 10, 9] \<and> log_write (Buf 0) s [] = Ok () s' [] \<and> lh_n (klogst s') \<le> 30"
proof -
  obtain s where s: "log_reach (log_of_size 31) s (shares 29)" "lkst s = lkst (log_of_size 31)"
    using fill_log [OF log_of_size(1-3), of 31 29] log_of_size(4) by (auto simp: LOGSIZE_def MAXOPBLOCKS_def)
  have "lg_size (klogst (log_of_size 31)) > int LOGSIZE" "calm 0 (lkst s)"
    using log_of_size(2) s(2) by (simp_all add: log_of_size LOGSIZE_def MAXOPBLOCKS_def)
  from log_space_suffices [OF s(1) log_of_size(1) this, of 2 0 "[]"] s(1) show ?thesis
    by (auto simp: shares_def MAXOPBLOCKS_def LOGSIZE_def)
qed

end
