(* ===== verification/Ring.thy ===== *)
theory Ring
  imports Prelude
begin

text \<open>
  Ring buffers with free-running counters: the pipe (\<^verbatim>\<open>kernel/pipe.c\<close>), the console's input (\<^verbatim>\<open>kernel/console.c\<close>)
  and the serial port's output (\<^verbatim>\<open>kernel/uart.c\<close>) all keep an array, a read counter and a write counter,
  unsigned words that only count up and wrap around, and reduce them modulo the size on every access.
  The size divides the number of values of a counter, and that is all that is needed.
\<close>

text \<open>The number of elements between the counters, and the elements in order.\<close>

definition ring_len :: "'w::len word \<Rightarrow> 'w word \<Rightarrow> nat" where
  "ring_len r w = unat (w - r)"

definition ring_queue :: "nat \<Rightarrow> (nat \<Rightarrow> 'a) \<Rightarrow> 'w::len word \<Rightarrow> 'w word \<Rightarrow> 'a list" where
  "ring_queue n d r w = map (\<lambda>k. d (unat (r + of_nat k) mod n)) [0..<ring_len r w]"

lemma length_ring_queue [simp]: "length (ring_queue n d r w) = ring_len r w"
  by (simp add: ring_queue_def)

lemma ring_len_0 [simp]: "ring_len r w = 0 \<longleftrightarrow> r = w"
  by (auto simp: ring_len_def unat_eq_0)

lemma ring_queue_empty [simp]: "ring_queue n d r w = [] \<longleftrightarrow> r = w"
  by (metis length_0_conv length_ring_queue ring_len_0)

lemma ring_queue_refl [simp]: "ring_queue n d r r = []"
  by simp

locale ring_buffer =
  fixes n :: nat and word_size :: "'w::len itself"
  assumes pos: "0 < n" and small: "n < 2 ^ LENGTH('w)" and divides: "n dvd 2 ^ LENGTH('w)"
begin

lemma index_add: "unat (r + of_nat k :: 'w word) mod n = (unat r + k) mod n"
  using divides by (simp add: unat_word_ariths unat_of_nat mod_mod_cancel mod_add_right_eq)

lemma ring_len_Suc: "ring_len r w < n \<Longrightarrow> ring_len r (w + 1 :: 'w word) = Suc (ring_len r w)"
proof -
  assume "ring_len r w < n"
  then have "unat (w - r) + 1 < 2 ^ LENGTH('w)" using small by (simp add: ring_len_def)
  then have "unat (w - r + 1) = unat (w - r) + 1" by (simp add: unat_word_ariths(1))
  then show ?thesis by (simp add: ring_len_def diff_add_eq)
qed

lemma ring_len_get: "r \<noteq> w \<Longrightarrow> Suc (ring_len (r + 1 :: 'w word) w) = ring_len r w"
proof -
  assume "r \<noteq> w"
  then have "unat (w - r - 1) = unat (w - r) - 1" "unat (w - r) \<noteq> 0"
    by (simp_all add: unat_minus_one unat_eq_0)
  then show ?thesis by (simp add: ring_len_def diff_diff_eq)
qed

text \<open>Two positions less than \<open>n\<close> apart are different.\<close>

lemma index_neq: "i < n \<Longrightarrow> j < n \<Longrightarrow> i \<noteq> j \<Longrightarrow> (a + i) mod n \<noteq> (a + j) mod n"
  using mod_eq_dvd_iff_nat [of "a + i" "a + j" n] mod_eq_dvd_iff_nat [of "a + j" "a + i" n]
  by (metis add_diff_cancel_left diff_is_0_eq' dvd_imp_le less_imp_diff_less linorder_not_less nat_le_linear nat_less_le zero_less_diff)

lemma at_end: "(unat r + ring_len r w) mod n = unat (w :: 'w word) mod n"
  using index_add [of r "ring_len r w"] by (simp add: ring_len_def)

lemma put:
  assumes "ring_len r w < n"
  shows "ring_queue n (d(unat (w :: 'w word) mod n := c)) r (w + 1) = ring_queue n d r w @ [c]"
proof -
  have "unat (r + of_nat k) mod n \<noteq> unat w mod n" if "k < ring_len r w" for k
    using index_neq [of k "ring_len r w" "unat r"] that assms at_end [of r w] by (simp add: index_add)
  moreover have "unat (r + of_nat (ring_len r w)) mod n = unat w mod n"
    by (simp add: ring_len_def)
  ultimately show ?thesis by (simp add: ring_queue_def ring_len_Suc [OF assms])
qed

lemma get:
  assumes "r \<noteq> w"
  shows "ring_queue n d r w = d (unat (r :: 'w word) mod n) # ring_queue n d (r + 1) w"
proof -
  have "[0..<ring_len r w] = 0 # map Suc [0..<ring_len (r + 1) w]"
    using ring_len_get [OF assms] by (metis map_Suc_upt upt_conv_Cons zero_less_Suc)
  then show ?thesis by (simp add: ring_queue_def add.assoc)
qed

text \<open>Taking the last element back.\<close>

lemma unput:
  assumes "r \<noteq> w"
  shows "ring_queue n d r w = ring_queue n d r (w - 1) @ [d (unat (w - 1 :: 'w word) mod n)]"
proof -
  have "unat (w - 1 - r) = unat (w - r) - 1"
    unfolding diff_diff_eq add.commute [of 1 r] unfolding diff_diff_eq [symmetric]
    by (rule unat_minus_one) (use assms in simp)
  moreover have "unat (w - r) \<noteq> 0" using assms by (simp add: unat_eq_0)
  ultimately have "ring_len r w = Suc (ring_len r (w - 1))" by (simp add: ring_len_def)
  moreover have "r + of_nat (ring_len r (w - 1)) = w - 1" by (simp add: ring_len_def)
  ultimately show ?thesis by (simp add: ring_queue_def)
qed

lemma full: "ring_len r w \<le> n \<Longrightarrow> w = r + of_nat n \<longleftrightarrow> ring_len r (w :: 'w word) = n"
proof
  assume "w = r + of_nat n"
  then show "ring_len r w = n" using small by (simp add: ring_len_def unat_of_nat)
next
  assume "ring_len r w = n"
  then have "of_nat n = w - r" by (auto simp: ring_len_def)
  then show "w = r + of_nat n" by simp
qed

end

end
