(* ===== verification/PipeProps.thy ===== *)
theory PipeProps
  imports Pipe Ring Sleeplock
begin

text \<open>
  The pipe of \<^verbatim>\<open>kernel/pipe.c\<close> as a queue of at most 512 bytes: writing appends, reading takes from the front,
  and the 32-bit counters may wrap around at any time.
\<close>

interpretation pipe_ring: ring_buffer PIPESIZE "TYPE(32)"
  by unfold_locales (simp_all add: PIPESIZE_def)

text \<open>The bytes in a pipe, and a pipe at an address.\<close>

definition pipe_queue :: "pipe \<Rightarrow> uchar list" where
  "pipe_queue v = ring_queue PIPESIZE (pi_data v) (pi_nread v) (pi_nwrite v)"

definition pipe_ok :: "kernel \<Rightarrow> addr \<Rightarrow> pipe \<Rightarrow> bool" where
  "pipe_ok s pi v \<longleftrightarrow> pi \<noteq> 0 \<and> phys s pi = PgPipe v \<and> length (pipe_queue v) \<le> PIPESIZE"

definition pipe_put :: "uchar \<Rightarrow> pipe \<Rightarrow> pipe" where
  "pipe_put c v = v\<lparr>pi_data := (pi_data v)(unat (pi_nwrite v) mod PIPESIZE := c), pi_nwrite := pi_nwrite v + 1\<rparr>"

definition pipe_get :: "pipe \<Rightarrow> pipe" where
  "pipe_get v = v\<lparr>pi_nread := pi_nread v + 1\<rparr>"

lemma pipe_queue_put: "length (pipe_queue v) < PIPESIZE \<Longrightarrow> pipe_queue (pipe_put c v) = pipe_queue v @ [c]"
  using pipe_ring.put by (simp add: pipe_queue_def pipe_put_def)

lemma pipe_queue_get:
  "pi_nread v \<noteq> pi_nwrite v \<Longrightarrow> pipe_queue v = pi_data v (unat (pi_nread v) mod PIPESIZE) # pipe_queue (pipe_get v)"
  using pipe_ring.get by (simp add: pipe_queue_def pipe_get_def)

lemma pipe_full:
  "length (pipe_queue v) \<le> PIPESIZE \<Longrightarrow> pi_nwrite v = pi_nread v + of_nat PIPESIZE \<longleftrightarrow> length (pipe_queue v) = PIPESIZE"
  using pipe_ring.full by (simp add: pipe_queue_def)

lemma pipe_empty: "pipe_queue v = [] \<longleftrightarrow> pi_nread v = pi_nwrite v"
  by (simp add: pipe_queue_def)

lemma pipe_flags [simp]:
  "pi_readopen (pipe_put c v) = pi_readopen v" "pi_writeopen (pipe_put c v) = pi_writeopen v"
  "pi_readopen (pipe_get v) = pi_readopen v" "pi_writeopen (pipe_get v) = pi_writeopen v"
  by (simp_all add: pipe_put_def pipe_get_def)

lemma as_pipe_simps [simp]: "as_pipe (PgPipe v) = Some v"
  by (simp add: as_pipe_def)

lemma pipe_at_run [simp]: "phys s pi = PgPipe v \<Longrightarrow> pi \<noteq> 0 \<Longrightarrow> pipe_at pi s e = Ok v s e"
  by (simp add: pipe_at_def bind_def)

lemma upd_pipe_run [simp]:
  "phys s pi = PgPipe v \<Longrightarrow> pi \<noteq> 0 \<Longrightarrow> upd_pipe pi f s e = Ok () (set_page pi (PgPipe (f v)) s) e"
  by (simp add: upd_pipe_def bind_def)

text \<open>A pipe is no page of a process.\<close>

lemma pipe_user_frame:
  assumes "user_ok s pt" and "phys s pi = PgPipe v"
  shows "user_ok (set_page pi (PgPipe w) s) pt" and "user_byte (set_page pi (PgPipe w) s) pt a = user_byte s pt a"
    and "user_writable (set_page pi (PgPipe w) s) pt a = user_writable s pt a"
proof -
  have same: "phys (set_page pi (PgPipe w) s) b = phys s b" if "b \<in> user_pages s pt" for b
    using user_pages_typed [OF assms(1) that] assms(2) by auto
  note uf = user_frame [OF assms(1) same]
  show "user_ok (set_page pi (PgPipe w) s) pt" "user_byte (set_page pi (PgPipe w) s) pt a = user_byte s pt a"
    "user_writable (set_page pi (PgPipe w) s) pt a = user_writable s pt a" using uf by blast+
qed

section \<open>Writing\<close>

text \<open>The caller \<open>pr\<close> of \<^verbatim>\<open>pipewrite\<close> and \<^verbatim>\<open>piperead\<close>: no lock is taken, its page table is \<open>pt\<close>, and \<open>n\<close> bytes at \<open>addr\<close> do not
  wrap around.\<close>

definition pipe_caller :: "kernel \<Rightarrow> nat \<Rightarrow> addr \<Rightarrow> uint64 \<Rightarrow> cint \<Rightarrow> bool" where
  "pipe_caller s pr pt addr n \<longleftrightarrow> calm pr (lkst s) \<and> p_pagetable (procs s pr) = pt \<and> user_ok s pt \<and>
     unat addr + nat (sint n) < 2 ^ 64"

definition in_pipe :: "addr \<Rightarrow> pipe \<Rightarrow> kernel \<Rightarrow> kernel" where
  "in_pipe pi v s = (set_page pi (PgPipe v) s)\<lparr>lkst := enter (LkPipe pi) (lkst s)\<rparr>"

lemma pipewrite_round:
  assumes c: "pipe_caller s pr pt addr n" and ok: "pipe_ok s pi v0" and i: "int i < sint n"
    and v: "pi_readopen v" "length (pipe_queue v) \<le> PIPESIZE"
  shows "pipewrite_body pi pr addr n i (in_pipe pi v s) e =
    (if p_killed (procs s pr) then Ok (Inr None) (set_page pi (PgPipe v) s) e
     else if length (pipe_queue v) = PIPESIZE then
       seq (wakeup (ChPipeRead pi)) (seq (sleep (ChPipeWrite pi) (LkPipe pi)) (ret (Inl i))) (in_pipe pi v s) e
     else case user_byte s pt (addr + of_nat i) of
       None \<Rightarrow> Ok (Inr (Some i)) (in_pipe pi v s) e
     | Some b \<Rightarrow> Ok (Inl (Suc i)) (in_pipe pi (pipe_put b v) s) e)"
proof -
  let ?s = "in_pipe pi v s"
  have calm: "calm pr (lkst s)" and pt: "p_pagetable (procs s pr) = pt" and uo: "user_ok s pt"
    and small: "unat addr + nat (sint n) < 2 ^ 64" using c by (simp_all add: pipe_caller_def)
  have p: "pi \<noteq> 0" "phys s pi = PgPipe v0" using ok by (simp_all add: pipe_ok_def)
  have k: "killed pr ?s e = Ok (p_killed (procs s pr)) ?s e"
    using killed_run [of pr ?s e] calm_enter(1) [OF calm, of "LkPipe pi" "LkProc pr"] by (simp add: in_pipe_def)
  have uo': "user_ok (set_page pi (PgPipe v) s) pt" "\<And>a. user_byte (set_page pi (PgPipe v) s) pt a = user_byte s pt a"
    using pipe_user_frame [OF uo p(2)] by blast+
  have same: "user_ok ?s pt" "user_byte ?s pt a = user_byte s pt a" for a
    using user_frame(1,4) [OF uo'(1), of ?s] uo'(2) by (auto simp: in_pipe_def)
  have "unat (addr + of_nat i) + 1 < 2 ^ 64" using small i unat_add_nat [of addr i] by simp
  from copyin_run [OF same(1), of "addr + of_nat i" 1 e] this same(2)
  have cin: "\<exists>bs. copyin pt (addr + of_nat i) 1 ?s e =
    Ok (case user_byte s pt (addr + of_nat i) of None \<Rightarrow> (- 1, bs) | Some b \<Rightarrow> (0, [b])) ?s e"
    by (auto simp: readable_def ubytes_def split: option.splits if_splits)
  show ?thesis
    using i v k cin pt p pipe_full [OF v(2)] calmD(1,3) [OF calm]
    unfolding in_pipe_def by (auto simp: pipewrite_body_def bind_def seq_def pipe_put_def ksimps split: option.splits)
qed

lemma pipewrite_loop:
  assumes c: "pipe_caller s pr pt addr n" and ok: "pipe_ok s pi v0" and nk: "\<not> p_killed (procs s pr)"
    and "pi_readopen v" and "length (pipe_queue v) + k \<le> PIPESIZE" and "int (i + k) \<le> sint n"
    and "\<And>j. i \<le> j \<Longrightarrow> j < i + k \<Longrightarrow> user_byte s pt (addr + of_nat j) \<noteq> None"
  shows "\<exists>w. loopK (pipewrite_body pi pr addr n) i (in_pipe pi v s) e =
      loopK (pipewrite_body pi pr addr n) (i + k) (in_pipe pi w s) e \<and>
    pipe_queue w = pipe_queue v @ ubytes s pt (addr + of_nat i) k \<and>
    pi_readopen w = pi_readopen v \<and> pi_writeopen w = pi_writeopen v"
  using assms(4-)
proof (induction k arbitrary: i v)
  case 0
  then show ?case by auto
next
  case (Suc k)
  obtain b where b: "user_byte s pt (addr + of_nat i) = Some b" using Suc.prems(4) [of i] by auto
  have "pipewrite_body pi pr addr n i (in_pipe pi v s) e = Ok (Inl (Suc i)) (in_pipe pi (pipe_put b v) s) e"
    using pipewrite_round [OF c ok _ Suc.prems(1), of i e] Suc.prems(2,3) nk b by simp
  note step = loopK_step [where body = "pipewrite_body pi pr addr n", OF this]
  have q: "pipe_queue (pipe_put b v) = pipe_queue v @ [b]" using Suc.prems(2) by (intro pipe_queue_put) simp
  have "user_byte s pt (addr + of_nat j) \<noteq> None" if "Suc i \<le> j" "j < Suc i + k" for j
    using that by (intro Suc.prems(4)) auto
  with Suc.IH [of "pipe_put b v" "Suc i"] Suc.prems(1-3) q obtain w where w:
    "loopK (pipewrite_body pi pr addr n) (Suc i) (in_pipe pi (pipe_put b v) s) e =
      loopK (pipewrite_body pi pr addr n) (Suc i + k) (in_pipe pi w s) e"
    "pipe_queue w = pipe_queue v @ b # ubytes s pt (addr + of_nat (Suc i)) k"
    "pi_readopen w = pi_readopen v" "pi_writeopen w = pi_writeopen v" by auto
  moreover have "ubytes s pt (addr + of_nat i) (Suc k) = b # ubytes s pt (addr + of_nat (Suc i)) k"
    using ubytes_add [of s pt "addr + of_nat i" 1 k] b by (simp add: ubytes_def ac_simps)
  ultimately show ?case using step by (intro exI [of _ w]) simp
qed

lemma in_pipe_out: "(in_pipe pi v s)\<lparr>lkst := lkst s\<rparr> = set_page pi (PgPipe v) s"
  by (simp add: in_pipe_def)

lemma in_pipe_frame [simp]:
  "lkst (in_pipe pi v s) = enter (LkPipe pi) (lkst s)" "procs (in_pipe pi v s) = procs s"
  "phys (in_pipe pi v s) = (phys s)(pi := PgPipe v)"
  by (simp_all add: in_pipe_def)

lemma in_pipe_self: "pipe_ok s pi v \<Longrightarrow> in_pipe pi v s = s\<lparr>lkst := enter (LkPipe pi) (lkst s)\<rparr>"
  by (simp add: in_pipe_def pipe_ok_def fun_upd_idem)

text \<open>Waking the other side and leaving.\<close>

lemma pipe_leave:
  assumes calm: "calm pr l" and x: "lkst x = enter (LkPipe pi) l"
  shows "seq (wakeup ch) (seq (release (LkPipe pi)) (ret r)) x e = Ok r (wakeup_st ch (x\<lparr>lkst := l\<rparr>)) e"
  using x calmD(1,3) [OF calm] calmD(5) [OF calm, of "LkPipe pi"] wakeup_st_in [of l x ch]
  by (simp add: seq_def wakeup_run ksimps)

lemma pipewrite_start:
  assumes "calm pr (lkst s)" and "pipe_ok s pi v"
  shows "pipewrite pi addr n s e = bind (loopK (pipewrite_body pi pr addr n) 0) (\<lambda>r.
     case r of None \<Rightarrow> ret (-1)
     | Some i \<Rightarrow>
         seq (wakeup (ChPipeRead pi)) (
         seq (release (LkPipe pi)) (
         ret (of_nat i)))) (in_pipe pi v s) e"
  using calmD(1-3) [OF assms(1)] in_pipe_self [OF assms(2)]
  by (simp add: pipewrite_def bind_def seq_def ksimps)

lemma pipewrite_appends:
  assumes c: "pipe_caller s pr pt addr n" and ok: "pipe_ok s pi v" and op: "pi_readopen v"
    and nk: "\<not> p_killed (procs s pr)" and r: "r \<le> nat (sint n)" "length (pipe_queue v) + r \<le> PIPESIZE"
    and rd: "\<And>j. j < r \<Longrightarrow> user_byte s pt (addr + of_nat j) \<noteq> None"
    and stop: "r < nat (sint n) \<Longrightarrow> user_byte s pt (addr + of_nat r) = None \<and> length (pipe_queue v) + r < PIPESIZE"
  shows "\<exists>u w. pipewrite pi addr n s e = Ok (of_nat r) u e \<and> pipe_ok u pi w \<and>
    pipe_queue w = pipe_queue v @ ubytes s pt addr r \<and> pi_readopen w \<and> pi_writeopen w = pi_writeopen v \<and>
    u = wakeup_st (ChPipeRead pi) (set_page pi (PgPipe w) s)"
proof -
  have calm: "calm pr (lkst s)" using c by (simp add: pipe_caller_def)
  have pi: "pi \<noteq> 0" "length (pipe_queue v) \<le> PIPESIZE" using ok by (simp_all add: pipe_ok_def)
  obtain w where w: "loopK (pipewrite_body pi pr addr n) 0 (in_pipe pi v s) e =
      loopK (pipewrite_body pi pr addr n) r (in_pipe pi w s) e"
    "pipe_queue w = pipe_queue v @ ubytes s pt addr r" "pi_readopen w" "pi_writeopen w = pi_writeopen v"
  proof (cases "r = 0")
    case True
    then show ?thesis using op by (intro that [of v]) simp_all
  next
    case False
    then have "int (0 + r) \<le> sint n" using r(1) by linarith
    with pipewrite_loop [OF c ok nk op r(2) this] rd op show ?thesis by (auto intro: that)
  qed
  have lw: "length (pipe_queue w) = length (pipe_queue v) + r" using w(2) by simp
  have "pipewrite_body pi pr addr n r (in_pipe pi w s) e = Ok (Inr (Some r)) (in_pipe pi w s) e"
  proof (cases "r < nat (sint n)")
    case True
    then show ?thesis using pipewrite_round [OF c ok _ w(3), of r e] nk stop [OF True] lw by simp
  next
    case False
    then have "\<not> int r < sint n" by linarith
    then show ?thesis by (simp add: pipewrite_body_def)
  qed
  from loopK_done [where body = "pipewrite_body pi pr addr n", OF this]
  have "pipewrite pi addr n s e = Ok (of_nat r) (wakeup_st (ChPipeRead pi) (set_page pi (PgPipe w) s)) e"
    using pipewrite_start [OF calm ok, of addr n e] w(1) pipe_leave [OF calm, of "in_pipe pi w s" pi "ChPipeRead pi" "of_nat r" e]
    by (simp add: bind_def in_pipe_out)
  moreover have "pipe_ok (wakeup_st (ChPipeRead pi) (set_page pi (PgPipe w) s)) pi w"
    using pi r(2) lw by (simp add: pipe_ok_def)
  ultimately show ?thesis using w by blast
qed

lemma pipewrite_blocks:
  assumes c: "pipe_caller s pr pt addr n" and ok: "pipe_ok s pi v" and op: "pi_readopen v"
    and nk: "\<not> p_killed (procs s pr)" and idle: "noff (cpus (lkst s) (hart (lkst s))) = 0"
    and r: "r < nat (sint n)" "length (pipe_queue v) + r = PIPESIZE"
    and rd: "\<And>j. j < r \<Longrightarrow> user_byte s pt (addr + of_nat j) \<noteq> None"
  shows "\<exists>u w. pipewrite pi addr n s [] = Stop (Blocked u) \<and> pipe_ok u pi w \<and>
    pipe_queue w = pipe_queue v @ ubytes s pt addr r \<and> p_state (procs u pr) = SLEEPING \<and>
    p_chan (procs u pr) = ChPipeWrite pi \<and> lk_free (LkPipe pi) (lkst u)"
proof -
  have calm: "calm pr (lkst s)" using c by (simp add: pipe_caller_def)
  have pi: "pi \<noteq> 0" "length (pipe_queue v) \<le> PIPESIZE" using ok by (simp_all add: pipe_ok_def)
  have rest: "at_rest pr (LkPipe pi) (lkst s)" using calm idle by (simp add: at_rest_def calm_def)
  have rn: "int (0 + r) \<le> sint n" "int r < sint n" using r(1) by linarith+
  obtain w where w: "loopK (pipewrite_body pi pr addr n) 0 (in_pipe pi v s) [] =
      loopK (pipewrite_body pi pr addr n) r (in_pipe pi w s) []"
    "pipe_queue w = pipe_queue v @ ubytes s pt addr r" "pi_readopen w" "pi_writeopen w = pi_writeopen v"
    using pipewrite_loop [OF c ok nk op _ rn(1), of "[]"] r(2) rd op by auto
  have lw: "length (pipe_queue w) = PIPESIZE" using w(2) r(2) by simp
  let ?u = "asleep_st pr (ChPipeWrite pi) (lkst s) (wakeup_st (ChPipeRead pi) (in_pipe pi w s))"
  have "pipewrite_body pi pr addr n r (in_pipe pi w s) [] = Stop (Blocked ?u)"
    using pipewrite_round [OF c ok _ w(3), of r "[]"] nk lw rn(2)
      calmD(5) [OF calm, of "LkPipe pi"] sleep_blocks [OF rest, of "wakeup_st (ChPipeRead pi) (in_pipe pi w s)"]
    by (simp add: seq_def wakeup_run)
  from loopK_stop [where body = "pipewrite_body pi pr addr n", OF this]
  have "pipewrite pi addr n s [] = Stop (Blocked ?u)"
    using pipewrite_start [OF calm ok, of addr n "[]"] w(1) by (simp add: bind_def)
  moreover have "pipe_ok ?u pi w" using pi lw by (simp add: pipe_ok_def asleep_st_def)
  moreover have "lk_free (LkPipe pi) (lkst ?u)" using calmD(6) [OF calm] by (simp add: asleep_st_def)
  ultimately show ?thesis using w by (auto simp: asleep_st_def)
qed

lemma pipewrite_refused:
  assumes c: "pipe_caller s pr pt addr n" and ok: "pipe_ok s pi v" and n: "0 < sint n"
    and no: "\<not> pi_readopen v \<or> p_killed (procs s pr)"
  shows "pipewrite pi addr n s e = Ok (- 1) s e"
proof -
  have calm: "calm pr (lkst s)" using c by (simp add: pipe_caller_def)
  have self: "set_page pi (PgPipe v) s = s" using ok by (simp add: pipe_ok_def fun_upd_idem)
  have "pipewrite_body pi pr addr n 0 (in_pipe pi v s) e = Ok (Inr None) s e"
  proof (cases "pi_readopen v")
    case True
    then show ?thesis using pipewrite_round [OF c ok, of 0 v e] no n ok self by (simp add: pipe_ok_def)
  next
    case False
    then show ?thesis using n ok self calmD(1,3) [OF calm]
      by (simp add: pipewrite_body_def bind_def seq_def pipe_ok_def ksimps in_pipe_out)
  qed
  from loopK_done [where body = "pipewrite_body pi pr addr n", OF this]
  show ?thesis using pipewrite_start [OF calm ok, of addr n e] by (simp add: bind_def)
qed

section \<open>Reading\<close>

lemma piperead_start:
  assumes "calm pr (lkst s)" and "pipe_ok s pi v"
  shows "piperead pi addr n s e = bind (loopK (piperead_wait pi pr) ()) (\<lambda>go.
     if \<not> go then ret (-1)
     else
       bind (loopK (piperead_copy pi pr addr n) 0) (\<lambda>i.
       seq (wakeup (ChPipeWrite pi)) (
       seq (release (LkPipe pi)) (
       ret (of_nat i))))) (in_pipe pi v s) e"
  using calmD(1-3) [OF assms(1)] in_pipe_self [OF assms(2)]
  by (simp add: piperead_def bind_def seq_def ksimps)

lemma piperead_wait_run:
  assumes calm: "calm pr (lkst s)" and ok: "pipe_ok s pi v"
  shows "piperead_wait pi pr () (in_pipe pi v s) e =
    (if pipe_queue v = [] \<and> pi_writeopen v then
       if p_killed (procs s pr) then Ok (Inr False) s e
       else seq (sleep (ChPipeRead pi) (LkPipe pi)) (ret (Inl ())) (in_pipe pi v s) e
     else Ok (Inr True) (in_pipe pi v s) e)"
proof -
  have self: "set_page pi (PgPipe v) s = s" using ok by (simp add: pipe_ok_def fun_upd_idem)
  have "killed pr (in_pipe pi v s) e = Ok (p_killed (procs s pr)) (in_pipe pi v s) e"
    using killed_run [of pr "in_pipe pi v s" e] calm_enter(1) [OF calm, of "LkPipe pi" "LkProc pr"] by simp
  then show ?thesis
    using ok self calmD(1,3) [OF calm]
    by (simp add: piperead_wait_def pipe_empty pipe_ok_def bind_def seq_def ksimps in_pipe_out)
qed

lemma wrote_frame:
  assumes "wrote pt dst bs s t"
  shows "procs t = procs s" and "lkst t = lkst s" and "user_ok t pt"
proof -
  have t: "t = s\<lparr>phys := phys t\<rparr>" using assms by (simp add: wrote_def)
  show "procs t = procs s" "lkst t = lkst s" by (subst t, simp)+
  show "user_ok t pt" using assms by (simp add: wrote_def)
qed

text \<open>A copy to user memory leaves a pipe alone.\<close>

lemma wrote_set_pipe:
  assumes ok: "user_ok s pt" and w: "wrote pt dst bs s t" and p: "phys s pi = PgPipe v"
  shows "wrote pt dst bs (set_page pi (PgPipe x) s) (set_page pi (PgPipe x) t)" and "phys t pi = PgPipe v"
proof -
  have tu: "user_ok t pt" and t: "t = s\<lparr>phys := phys t\<rparr>" using w by (simp_all add: wrote_def)
  have "phys t pi = phys s pi \<or> (\<exists>v. user_pa s pt v = Some pi)" using w unfolding wrote_def by blast
  then show tp: "phys t pi = PgPipe v" using user_pa_page_typed [OF ok, of _ pi] p by auto
  have ss: "phys (set_page pi (PgPipe x) s) b = phys s b" if "b \<in> user_pages s pt" for b
    using user_pages_typed [OF ok that] p by auto
  have tt: "phys (set_page pi (PgPipe x) t) b = phys t b" if "b \<in> user_pages t pt" for b
    using user_pages_typed [OF tu that] tp by auto
  have us: "aspace (set_page pi (PgPipe x) s) pt y = aspace s pt y" "user_pa (set_page pi (PgPipe x) s) pt y = user_pa s pt y"
    "user_byte (set_page pi (PgPipe x) s) pt y = user_byte s pt y" for y
    using user_frame(2-4) [OF ok, of "set_page pi (PgPipe x) s"] ss by blast+
  have ut: "aspace (set_page pi (PgPipe x) t) pt y = aspace t pt y" "user_ok (set_page pi (PgPipe x) t) pt"
    "user_byte (set_page pi (PgPipe x) t) pt y = user_byte t pt y" for y
    using user_frame(1,2,4) [OF tu, of "set_page pi (PgPipe x) t"] tt by blast+
  have pg: "pt_pages 2 (phys (set_page pi (PgPipe x) s)) pt = pt_pages 2 (phys s) pt"
    by (rule pt_frame(1)) (use ss in \<open>simp add: user_pages_def\<close>)
  have pg': "pt_pages 2 (phys (set_page pi (PgPipe x) t)) pt = pt_pages 2 (phys t) pt"
    by (rule pt_frame(1)) (use tt in \<open>simp add: user_pages_def\<close>)
  have "set_page pi (PgPipe x) t = (set_page pi (PgPipe x) s)\<lparr>phys := phys (set_page pi (PgPipe x) t)\<rparr>"
    by (subst t) simp
  moreover have "phys (set_page pi (PgPipe x) t) b = phys (set_page pi (PgPipe x) s) b \<or> (\<exists>v. user_pa s pt v = Some b)" for b
    using w by (auto simp: wrote_def)
  ultimately show "wrote pt dst bs (set_page pi (PgPipe x) s) (set_page pi (PgPipe x) t)"
    using w ut(2) unfolding wrote_def us ut pg pg' by blast
qed

text \<open>One byte is taken and copied out; if the copy fails the byte is gone.\<close>

lemma piperead_round:
  assumes uo: "user_ok t pt" and pt: "p_pagetable (procs t pr) = pt" and p: "pi \<noteq> 0" "phys t pi = PgPipe v"
    and i: "int i < sint n" and small: "unat addr + nat (sint n) < 2 ^ 64" and ne: "pipe_queue v \<noteq> []"
  shows "if user_writable t pt (addr + of_nat i) then \<exists>u. piperead_copy pi pr addr n i t e = Ok (Inl (Suc i)) u e \<and>
      wrote pt (unat addr + i) [hd (pipe_queue v)] (set_page pi (PgPipe (pipe_get v)) t) u
    else piperead_copy pi pr addr n i t e = Ok (Inr i) (set_page pi (PgPipe (pipe_get v)) t) e"
proof -
  let ?t = "set_page pi (PgPipe (pipe_get v)) t"
  let ?c = "pi_data v (unat (pi_nread v) mod PIPESIZE)" and ?a = "addr + of_nat i"
  have hd: "hd (pipe_queue v) = ?c" using ne pipe_queue_get [of v] by (simp add: pipe_empty)
  have ua: "unat ?a = unat addr + i" using small i by (intro unat_add_nat) linarith
  then have a: "unat ?a + length [?c] < 2 ^ 64" using small i by simp
  have uo': "user_ok ?t pt" and wr: "user_writable ?t pt ?a = user_writable t pt ?a"
    using pipe_user_frame(1,3) [OF uo p(2)] by blast+
  have run: "piperead_copy pi pr addr n i t e =
      bind (copyout pt ?a [?c]) (\<lambda>c. if c = -1 then ret (Inr i) else ret (Inl (Suc i))) ?t e"
    using i ne p pt by (simp add: piperead_copy_def bind_def seq_def pipe_empty pipe_get_def Let_def)
  show ?thesis
  proof (cases "user_writable t pt ?a")
    case True
    with copyout_run [OF uo' a, of e] wr obtain u where "copyout pt ?a [?c] ?t e = Ok 0 u e" "wrote pt (unat ?a) [?c] ?t u"
      by auto
    with True run hd ua show ?thesis by (auto simp: bind_def)
  next
    case False
    have "copyout pt ?a [?c] ?t e = Ok (- 1) ?t e"
      unfolding copyout_def using False wr uo'
      by (intro loopK_done copyout_body_fail) (simp_all add: user_ok_def)
    with False run show ?thesis by (simp add: bind_def)
  qed
qed

lemma piperead_loop:
  assumes uo: "user_ok t pt" and pt: "p_pagetable (procs t pr) = pt" and p: "pi \<noteq> 0" "phys t pi = PgPipe v"
    and small: "unat addr + nat (sint n) < 2 ^ 64"
    and "k \<le> nat (sint n)" and "k \<le> length (pipe_queue v)" and "\<And>j. j < k \<Longrightarrow> user_writable t pt (addr + of_nat j)"
  shows "\<exists>u w. loopK (piperead_copy pi pr addr n) 0 t e = loopK (piperead_copy pi pr addr n) k u e \<and>
    pipe_queue w = drop k (pipe_queue v) \<and> pi_readopen w = pi_readopen v \<and> pi_writeopen w = pi_writeopen v \<and>
    wrote pt (unat addr) (take k (pipe_queue v)) (set_page pi (PgPipe w) t) u \<and> phys u pi = PgPipe w"
  using assms(6-)
proof (induction k)
  case 0
  have eq: "set_page pi (PgPipe v) t = t" using p(2) by (simp add: fun_upd_idem)
  have "wrote pt (unat addr) (take 0 (pipe_queue v)) (set_page pi (PgPipe v) t) t"
    unfolding eq take_0 by (rule wrote_refl [OF uo])
  then show ?case using p(2) by (intro exI [of _ t] exI [of _ v] conjI) (assumption | simp)+
next
  case (Suc k)
  then obtain u w where u: "loopK (piperead_copy pi pr addr n) 0 t e = loopK (piperead_copy pi pr addr n) k u e"
    "pipe_queue w = drop k (pipe_queue v)" "pi_readopen w = pi_readopen v" "pi_writeopen w = pi_writeopen v"
    "wrote pt (unat addr) (take k (pipe_queue v)) (set_page pi (PgPipe w) t) u" "phys u pi = PgPipe w"
    using Suc_leD [OF Suc.prems(1)] Suc_leD [OF Suc.prems(2)] less_SucI by metis
  have ne: "pipe_queue w \<noteq> []" using u(2) Suc.prems(2) by simp
  have uu: "user_ok u pt" "p_pagetable (procs u pr) = pt"
    using wrote_frame [OF u(5)] pt by simp_all
  have asp: "aspace u pt y = aspace (set_page pi (PgPipe w) t) pt y" for y using u(5) by (simp add: wrote_def)
  have "user_writable u pt y = user_writable (set_page pi (PgPipe w) t) pt y" for y
    by (simp add: user_writable_def user_pa_def asp)
  then have wr: "user_writable u pt (addr + of_nat k)" using pipe_user_frame(3) [OF uo p(2)] Suc.prems(3) [of k] by simp
  have "int k < sint n" using Suc.prems(1) by linarith
  from piperead_round [OF uu p(1) u(6) this small ne, of e] wr obtain u' where
    u': "piperead_copy pi pr addr n k u e = Ok (Inl (Suc k)) u' e"
    "wrote pt (unat addr + k) [hd (pipe_queue w)] (set_page pi (PgPipe (pipe_get w)) u) u'" by (metis (full_types))
  have "wrote pt (unat addr) (take k (pipe_queue v)) (set_page pi (PgPipe (pipe_get w)) t) (set_page pi (PgPipe (pipe_get w)) u)"
    using wrote_set_pipe(1) [OF pipe_user_frame(1) [OF uo p(2)] u(5), of pi w "pipe_get w"] by simp
  moreover have "take (Suc k) (pipe_queue v) = take k (pipe_queue v) @ [hd (pipe_queue w)]"
    using u(2) Suc.prems(2) by (simp add: take_hd_drop)
  ultimately have "wrote pt (unat addr) (take (Suc k) (pipe_queue v)) (set_page pi (PgPipe (pipe_get w)) t) u'"
    using wrote_trans [of pt "unat addr" "take k (pipe_queue v)"] u'(2) Suc.prems(2) by simp
  moreover have "phys u' pi = PgPipe (pipe_get w)"
    using wrote_set_pipe(2) [OF pipe_user_frame(1) [OF uu(1) u(6)] u'(2)] by simp
  moreover have "pipe_queue (pipe_get w) = drop (Suc k) (pipe_queue v)"
  proof -
    have "pipe_queue (pipe_get w) = tl (pipe_queue w)" using pipe_queue_get [of w] ne by (simp add: pipe_empty)
    then show ?thesis using u(2) by (simp add: drop_Suc drop_tl)
  qed
  ultimately show ?case
    using u(1,3,4) loopK_step [where body = "piperead_copy pi pr addr n", OF u'(1)]
    by (intro exI [of _ u'] exI [of _ "pipe_get w"] conjI) (assumption | simp)+
qed

text \<open>What the process sees in its memory depends on its pages only.\<close>

lemma ubytes_phys:
  assumes "user_ok s pt" and "\<And>a. a \<in> user_pages s pt \<Longrightarrow> phys t a = phys s a"
  shows "readable t pt a k = readable s pt a k" and "ubytes t pt a k = ubytes s pt a k"
  using user_frame(4) [OF assms] by (simp_all add: readable_def ubytes_def)

lemma piperead_last:
  assumes uo: "user_ok t pt" and pt: "p_pagetable (procs t pr) = pt" and p: "pi \<noteq> 0" "phys t pi = PgPipe v"
    and small: "unat addr + nat (sint n) < 2 ^ 64" and k: "k \<le> nat (sint n)"
    and stop: "k = nat (sint n) \<or> pipe_queue v = [] \<or> \<not> user_writable t pt (addr + of_nat k)"
  shows "\<exists>w. piperead_copy pi pr addr n k t e = Ok (Inr k) (set_page pi (PgPipe w) t) e \<and>
    pipe_queue w = drop (if k = nat (sint n) then 0 else 1) (pipe_queue v) \<and>
    pi_readopen w = pi_readopen v \<and> pi_writeopen w = pi_writeopen v"
proof (cases "k = nat (sint n) \<or> pipe_queue v = []")
  case True
  then have "\<not> int k < sint n \<or> pipe_queue v = []" by linarith
  then have "piperead_copy pi pr addr n k t e = Ok (Inr k) t e"
    using p by (auto simp: piperead_copy_def bind_def pipe_empty)
  moreover have "t = set_page pi (PgPipe v) t" using p(2) by (simp add: fun_upd_idem)
  ultimately have "piperead_copy pi pr addr n k t e = Ok (Inr k) (set_page pi (PgPipe v) t) e" by simp
  with True show ?thesis by (intro exI [of _ v]) auto
next
  case False
  then have "int k < sint n" using k by linarith
  from piperead_round [OF uo pt p this small] False stop
  have "piperead_copy pi pr addr n k t e = Ok (Inr k) (set_page pi (PgPipe (pipe_get v)) t) e" by auto
  moreover have "pipe_queue (pipe_get v) = drop 1 (pipe_queue v)"
    using pipe_queue_get [of v] False by (simp add: pipe_empty)
  ultimately show ?thesis using False by auto
qed

lemma piperead_takes:
  assumes c: "pipe_caller s pr pt addr n" and ok: "pipe_ok s pi v" and go: "pipe_queue v \<noteq> [] \<or> \<not> pi_writeopen v"
    and k: "k \<le> nat (sint n)" "k \<le> length (pipe_queue v)" and wr: "\<And>j. j < k \<Longrightarrow> user_writable s pt (addr + of_nat j)"
    and stop: "k = nat (sint n) \<or> k = length (pipe_queue v) \<or> \<not> user_writable s pt (addr + of_nat k)"
  shows "\<exists>u w. piperead pi addr n s e = Ok (of_nat k) u e \<and> pipe_ok u pi w \<and>
    pipe_queue w = drop (if k = nat (sint n) then k else k + 1) (pipe_queue v) \<and>
    pi_readopen w = pi_readopen v \<and> pi_writeopen w = pi_writeopen v \<and>
    readable u pt addr k \<and> ubytes u pt addr k = take k (pipe_queue v) \<and>
    procs u = procs (wakeup_st (ChPipeWrite pi) s) \<and> lkst u = lkst s"
proof -
  have calm: "calm pr (lkst s)" and pt: "p_pagetable (procs s pr) = pt" and uo: "user_ok s pt"
    and small: "unat addr + nat (sint n) < 2 ^ 64" using c by (simp_all add: pipe_caller_def)
  have p: "pi \<noteq> 0" "phys s pi = PgPipe v" using ok by (simp_all add: pipe_ok_def)
  let ?t = "in_pipe pi v s" and ?body = "piperead_copy pi pr addr n"
  have "phys ?t b = phys s b" for b using p(2) by simp
  then have ut: "user_ok ?t pt" "user_writable ?t pt a = user_writable s pt a" for a
    using user_frame(1,6) [OF uo, of ?t] by blast+
  have tt: "p_pagetable (procs ?t pr) = pt" "phys ?t pi = PgPipe v" using pt by simp_all
  obtain u w where u: "loopK ?body 0 ?t e = loopK ?body k u e" "pipe_queue w = drop k (pipe_queue v)"
    "pi_readopen w = pi_readopen v" "pi_writeopen w = pi_writeopen v"
    "wrote pt (unat addr) (take k (pipe_queue v)) (set_page pi (PgPipe w) ?t) u" "phys u pi = PgPipe w"
    using piperead_loop [OF ut(1) tt(1) p(1) tt(2) small k, of e] wr ut(2) by metis
  obtain u' w' where u': "?body k u e = Ok (Inr k) u' e" "u' = set_page pi (PgPipe w') u"
    "pipe_queue w' = drop (if k = nat (sint n) then k else k + 1) (pipe_queue v)"
    "pi_readopen w' = pi_readopen v" "pi_writeopen w' = pi_writeopen v"
  proof -
    have asp: "aspace u pt y = aspace (set_page pi (PgPipe w) ?t) pt y" for y using u(5) by (simp add: wrote_def)
    have "user_writable u pt y = user_writable (set_page pi (PgPipe w) ?t) pt y" for y
      by (simp add: user_writable_def user_pa_def asp)
    then have "user_writable u pt y = user_writable s pt y" for y
      using pipe_user_frame(3) [OF ut(1) tt(2)] ut(2) by blast
    then have st: "k = nat (sint n) \<or> pipe_queue w = [] \<or> \<not> user_writable u pt (addr + of_nat k)"
      using stop u(2) k(2) by auto
    have "p_pagetable (procs u pr) = pt" using wrote_frame(1) [OF u(5)] tt(1) by simp
    from piperead_last [OF wrote_frame(3) [OF u(5)] this p(1) u(6) small k(1) st, of e] u(2-4)
    show ?thesis by (auto intro: that)
  qed
  have fr: "procs u' = procs s" "lkst u' = enter (LkPipe pi) (lkst s)" "user_ok u pt"
    using wrote_frame [OF u(5)] u'(2) by simp_all
  let ?z = "wakeup_st (ChPipeWrite pi) (u'\<lparr>lkst := lkst s\<rparr>)"
  have "piperead pi addr n s e = Ok (of_nat k) ?z e"
    using piperead_start [OF calm ok, of addr n e] piperead_wait_run [OF calm ok, of e] go u(1)
      loopK_done [where body = "piperead_wait pi pr"] loopK_done [where body = ?body, OF u'(1)]
      pipe_leave [OF calm fr(2), of "ChPipeWrite pi" "of_nat k" e]
    by (auto simp: bind_def)
  moreover have "readable u pt addr k" "ubytes u pt addr k = take k (pipe_queue v)"
    using wrote_ubytes [OF u(5)] k small by simp_all
  moreover have same: "phys ?z b = phys u b" if "b \<in> user_pages u pt" for b
    using user_pages_typed [OF fr(3) that] u(6) u'(2) by auto
  have "readable ?z pt addr k = readable u pt addr k" "ubytes ?z pt addr k = ubytes u pt addr k"
    by (rule ubytes_phys [OF fr(3) same], assumption)+
  moreover have "length (pipe_queue w') \<le> PIPESIZE" using u'(3) ok by (auto simp: pipe_ok_def)
  then have "pipe_ok ?z pi w'" using p(1) u'(2) by (simp add: pipe_ok_def)
  moreover have "procs ?z = procs (wakeup_st (ChPipeWrite pi) s)" using fr(1) by (simp add: wakeup_st_def fun_eq_iff)
  ultimately show ?thesis using u'(3-5) by auto
qed

lemma piperead_waits:
  assumes c: "pipe_caller s pr pt addr n" and ok: "pipe_ok s pi v" and e: "pipe_queue v = []" "pi_writeopen v"
  shows "p_killed (procs s pr) \<Longrightarrow> piperead pi addr n s ev = Ok (- 1) s ev"
    and "\<not> p_killed (procs s pr) \<Longrightarrow> noff (cpus (lkst s) (hart (lkst s))) = 0 \<Longrightarrow>
      \<exists>u. piperead pi addr n s [] = Stop (Blocked u) \<and> pipe_ok u pi v \<and> p_state (procs u pr) = SLEEPING \<and>
        p_chan (procs u pr) = ChPipeRead pi \<and> lk_free (LkPipe pi) (lkst u)"
proof -
  have calm: "calm pr (lkst s)" using c by (simp add: pipe_caller_def)
  show "piperead pi addr n s ev = Ok (- 1) s ev" if k: "p_killed (procs s pr)"
  proof -
    have "piperead_wait pi pr () (in_pipe pi v s) ev = Ok (Inr False) s ev"
      using piperead_wait_run [OF calm ok, of ev] e k by simp
    from loopK_done [where body = "piperead_wait pi pr", OF this]
    show ?thesis using piperead_start [OF calm ok, of addr n ev] by (simp add: bind_def)
  qed
  assume k: "\<not> p_killed (procs s pr)" and idle: "noff (cpus (lkst s) (hart (lkst s))) = 0"
  have rest: "at_rest pr (LkPipe pi) (lkst s)" using calm idle by (simp add: at_rest_def calm_def)
  let ?u = "asleep_st pr (ChPipeRead pi) (lkst s) (in_pipe pi v s)"
  have "piperead_wait pi pr () (in_pipe pi v s) [] = Stop (Blocked ?u)"
    using piperead_wait_run [OF calm ok, of "[]"] e k sleep_blocks [OF rest, of "in_pipe pi v s" "ChPipeRead pi"]
    by (simp add: seq_def)
  from loopK_stop [where body = "piperead_wait pi pr", OF this]
  have "piperead pi addr n s [] = Stop (Blocked ?u)"
    using piperead_start [OF calm ok, of addr n "[]"] by (simp add: bind_def)
  moreover have "pipe_ok ?u pi v" using ok by (simp add: pipe_ok_def asleep_st_def)
  ultimately show "\<exists>u. piperead pi addr n s [] = Stop (Blocked u) \<and> pipe_ok u pi v \<and> p_state (procs u pr) = SLEEPING \<and>
      p_chan (procs u pr) = ChPipeRead pi \<and> lk_free (LkPipe pi) (lkst u)"
    using calmD(6) [OF calm] by (intro exI [of _ ?u]) (simp add: asleep_st_def)
qed

section \<open>Properties\<close>

text \<open>C24. A pipe is a bounded queue of bytes for its writers. Let \<open>r\<close> be the length of the readable part of the \<open>n\<close> bytes
  at \<open>addr\<close>. If these bytes fit, \<^verbatim>\<open>pipewrite\<close> appends them, wakes the readers and returns \<open>r\<close>. Otherwise it fills the pipe to
  its 512 bytes and sleeps, with the lock of the pipe free. The 32-bit counters may be anywhere.\<close>

theorem pipewrite_queue:
  assumes "pipe_caller s pr pt addr n" and "pipe_ok s pi v" and "pi_readopen v" and "\<not> p_killed (procs s pr)"
    and "r \<le> nat (sint n)" and "\<And>j. j < r \<Longrightarrow> user_byte s pt (addr + of_nat j) \<noteq> None"
    and "r < nat (sint n) \<Longrightarrow> user_byte s pt (addr + of_nat r) = None"
  shows "if length (pipe_queue v) + r < PIPESIZE \<or> r = nat (sint n) \<and> length (pipe_queue v) + r = PIPESIZE then
      \<exists>u w. pipewrite pi addr n s e = Ok (of_nat r) u e \<and> pipe_ok u pi w \<and>
        pipe_queue w = pipe_queue v @ ubytes s pt addr r \<and> pi_readopen w \<and> pi_writeopen w = pi_writeopen v \<and>
        u = wakeup_st (ChPipeRead pi) (set_page pi (PgPipe w) s)
    else noff (cpus (lkst s) (hart (lkst s))) = 0 \<longrightarrow>
      (\<exists>u w. pipewrite pi addr n s [] = Stop (Blocked u) \<and> pipe_ok u pi w \<and>
        pipe_queue w = pipe_queue v @ ubytes s pt addr (PIPESIZE - length (pipe_queue v)) \<and>
        p_state (procs u pr) = SLEEPING \<and> p_chan (procs u pr) = ChPipeWrite pi \<and> lk_free (LkPipe pi) (lkst u))"
proof (cases "length (pipe_queue v) + r < PIPESIZE \<or> r = nat (sint n) \<and> length (pipe_queue v) + r = PIPESIZE")
  case True
  with pipewrite_appends [OF assms(1-5) _ assms(6)] assms(7) show ?thesis by auto
next
  case False
  let ?k = "PIPESIZE - length (pipe_queue v)"
  have "length (pipe_queue v) \<le> PIPESIZE" using assms(2) by (simp add: pipe_ok_def)
  then have "length (pipe_queue v) + ?k = PIPESIZE" "?k \<le> r" "?k < nat (sint n)"
    using False assms(5) by linarith+
  with pipewrite_blocks [OF assms(1-4), of ?k] assms(6) False show ?thesis by auto
qed

text \<open>C25. A pipe is a queue of bytes for its readers. With bytes in the pipe, or with no writer left, \<^verbatim>\<open>piperead\<close> hands the first
  \<open>k\<close> bytes to the process, as many as there are, are wanted and can be stored, and wakes the writers; a byte that
  cannot be stored is taken out of the pipe all the same. On an empty pipe with a writer it returns -1 to a killed process, with
  nothing changed, and sleeps otherwise, with the lock of the pipe free.\<close>

theorem piperead_queue:
  assumes "pipe_caller s pr pt addr n" and "pipe_ok s pi v"
    and "k \<le> nat (sint n)" and "k \<le> length (pipe_queue v)" and "\<And>j. j < k \<Longrightarrow> user_writable s pt (addr + of_nat j)"
    and "k = nat (sint n) \<or> k = length (pipe_queue v) \<or> \<not> user_writable s pt (addr + of_nat k)"
  shows "if pipe_queue v \<noteq> [] \<or> \<not> pi_writeopen v then
      \<exists>u w. piperead pi addr n s e = Ok (of_nat k) u e \<and> pipe_ok u pi w \<and>
        pipe_queue w = drop (if k = nat (sint n) then k else k + 1) (pipe_queue v) \<and>
        pi_readopen w = pi_readopen v \<and> pi_writeopen w = pi_writeopen v \<and>
        readable u pt addr k \<and> ubytes u pt addr k = take k (pipe_queue v) \<and>
        procs u = procs (wakeup_st (ChPipeWrite pi) s) \<and> lkst u = lkst s
    else if p_killed (procs s pr) then piperead pi addr n s e = Ok (- 1) s e
    else noff (cpus (lkst s) (hart (lkst s))) = 0 \<longrightarrow>
      (\<exists>u. piperead pi addr n s [] = Stop (Blocked u) \<and> pipe_ok u pi v \<and> p_state (procs u pr) = SLEEPING \<and>
        p_chan (procs u pr) = ChPipeRead pi \<and> lk_free (LkPipe pi) (lkst u))"
  using piperead_takes [OF assms(1,2) _ assms(3-)] piperead_waits [OF assms(1,2)] by auto


text \<open>A pipe with two bytes whose counters are about to wrap around.\<close>

definition wrap_pipe :: pipe where
  "wrap_pipe = \<lparr>pi_data = (\<lambda>_. 0)(511 := 7, 0 := 8), pi_nread = 0xFFFFFFFF, pi_nwrite = 1,
     pi_readopen = True, pi_writeopen = True\<rparr>"

definition with_pipe :: "pipe \<Rightarrow> kernel" where
  "with_pipe v = sample\<lparr>phys := sample_phys(0x80106000 := PgPipe v)\<rparr>"

lemma with_pipe_caller: "unat a + nat (sint n) < 2 ^ 64 \<Longrightarrow> pipe_caller (with_pipe v) 0 0x80100000 a n"
proof -
  assume a: "unat a + nat (sint n) < 2 ^ 64"
  have "user_ok (with_pipe v) 0x80100000" by (rule sample_user_frame(1)) (auto simp: with_pipe_def)
  with a show ?thesis
    by (simp add: pipe_caller_def with_pipe_def sample_def)
       (simp add: calm_def proc0_runs_def net_defs zero_defs)
qed

lemma with_pipe_user:
  "user_byte (with_pipe v) 0x80100000 a = user_byte sample 0x80100000 a"
  "user_writable (with_pipe v) 0x80100000 a = user_writable sample 0x80100000 a"
proof -
  show "user_byte (with_pipe v) 0x80100000 a = user_byte sample 0x80100000 a"
    by (rule sample_user_frame(2)) (auto simp: with_pipe_def)
  show "user_writable (with_pipe v) 0x80100000 a = user_writable sample 0x80100000 a"
    by (rule sample_user_frame(3)) (auto simp: with_pipe_def)
qed

lemma with_pipe_ok: "length (pipe_queue v) \<le> PIPESIZE \<Longrightarrow> pipe_ok (with_pipe v) 0x80106000 v"
  by (simp add: pipe_ok_def with_pipe_def)

lemma wrap_pipe_queue: "pipe_queue wrap_pipe = [7, 8]"
  by (simp add: pipe_queue_def ring_queue_def ring_len_def wrap_pipe_def PIPESIZE_def upt_rec)

lemma with_pipe_simps: "\<not> p_killed (procs (with_pipe v) 0)" "pi_readopen wrap_pipe"
  by (simp_all add: with_pipe_def sample_def zero_proc_def wrap_pipe_def)

theorem pipewrite_queue_witness:
  "\<exists>u w. pipewrite 0x80106000 0xFFF 2 (with_pipe wrap_pipe) [] = Ok 2 u [] \<and>
     pipe_ok u 0x80106000 w \<and> pipe_queue w = [7, 8, 0, 0]"
proof -
  note rw = sample_rw [of "0xFFF" 2]
  have r2: "replicate 2 (0 :: uchar) = [0, 0]" by (simp add: numeral_2_eq_2)
  have u: "ubytes (with_pipe wrap_pipe) 0x80100000 0xFFF 2 = [0, 0]"
    using rw(3) ubytes_frame(1) [of "with_pipe wrap_pipe" "0x80100000" sample] with_pipe_user(1) by (simp add: r2)
  have "user_byte (with_pipe wrap_pipe) 0x80100000 (0xFFF + of_nat j) \<noteq> None" if "j < 2" for j
    using rw(1) that by (auto simp: with_pipe_user readable_def)
  with pipewrite_queue [OF with_pipe_caller [of "0xFFF" 2 wrap_pipe] with_pipe_ok [of wrap_pipe], of 2 "[]"] u
  show ?thesis by (auto simp: wrap_pipe_queue PIPESIZE_def with_pipe_simps)
qed

theorem piperead_queue_witness:
  "\<exists>u w. piperead 0x80106000 0xFFF 5 (with_pipe wrap_pipe) [] = Ok 2 u [] \<and>
     pipe_ok u 0x80106000 w \<and> pipe_queue w = [] \<and> ubytes u 0x80100000 0xFFF 2 = [7, 8]"
proof -
  have "user_writable (with_pipe wrap_pipe) 0x80100000 (0xFFF + of_nat j)" if "j < 2" for j
    using sample_rw(2) [of "0xFFF" 2 j] that by (simp add: with_pipe_user)
  with piperead_queue [OF with_pipe_caller [of "0xFFF" 5 wrap_pipe] with_pipe_ok [of wrap_pipe], of 2 "[]"]
  show ?thesis by (auto simp: wrap_pipe_queue PIPESIZE_def)
qed


end
