(* ===== verification/ULib.thy ===== *)
theory ULib
  imports Prelude "HOL-Library.Char_ord"
begin

text \<open>
  The C library of the user programs: \<^verbatim>\<open>user/ulib.c\<close> and \<^verbatim>\<open>user/printf.c\<close>.

  A user program is a function of the execution monad over a world \<open>'w\<close>. Its system calls (\<^verbatim>\<open>user/user.h\<close>, stubs
  that \<^verbatim>\<open>user/usys.pl\<close> generates) are the parameter \<open>sys\<close>: what they return and do to the world is up to
  the world. A C string is the list of its characters without the final 0. \<^verbatim>\<open>char\<close> is unsigned on RISC-V.
\<close>

section \<open>System calls\<close>

record 'w syscalls =
  sc_fork :: "('w, int) K"
  sc_exit :: "int \<Rightarrow> 'w \<Rightarrow> 'w"
  sc_wait :: "('w, int) K"
  sc_pipe :: "('w, int \<times> int \<times> int) K"
  sc_write :: "int \<Rightarrow> string \<Rightarrow> ('w, int) K"
  sc_read :: "int \<Rightarrow> nat \<Rightarrow> ('w, int \<times> string) K"
  sc_close :: "int \<Rightarrow> ('w, int) K"
  sc_kill :: "int \<Rightarrow> ('w, int) K"
  sc_exec :: "string \<Rightarrow> string list \<Rightarrow> ('w, int) K"
  sc_open :: "string \<Rightarrow> int \<Rightarrow> ('w, int) K"
  sc_mknod :: "string \<Rightarrow> int \<Rightarrow> int \<Rightarrow> ('w, int) K"
  sc_unlink :: "string \<Rightarrow> ('w, int) K"
  sc_fstat :: "int \<Rightarrow> ('w, int \<times> (int \<times> int \<times> int)) K"
  sc_link :: "string \<Rightarrow> string \<Rightarrow> ('w, int) K"
  sc_mkdir :: "string \<Rightarrow> ('w, int) K"
  sc_chdir :: "string \<Rightarrow> ('w, int) K"
  sc_dup :: "int \<Rightarrow> ('w, int) K"
  sc_sleep :: "int \<Rightarrow> ('w, int) K"
  sc_sbrk :: "int \<Rightarrow> ('w, 64 word) K"
  sc_uptime :: "('w, int) K"
  sc_set_cpu_affinity :: "int \<Rightarrow> ('w, int) K"
  sc_setperiod :: "int \<Rightarrow> ('w, int) K"
  sc_wait_until_next_period :: "('w, int) K"
  sc_show_vm_areas :: "('w, int) K"
  sc_getfilesize :: "string \<Rightarrow> ('w, int \<times> int) K"
  sc_shmget :: "int \<Rightarrow> 64 word \<Rightarrow> ('w, 64 word) K"

definition exit_u :: "'w syscalls \<Rightarrow> int \<Rightarrow> ('w, 'a) K" where
  "exit_u sys st w e = Stop (Exited (sc_exit sys st w))"

definition O_RDONLY_u :: int where "O_RDONLY_u = 0x000"
definition O_WRONLY_u :: int where "O_WRONLY_u = 0x001"
definition O_RDWR_u :: int where "O_RDWR_u = 0x002"
definition O_CREATE_u :: int where "O_CREATE_u = 0x100"
definition O_TRUNC_u :: int where "O_TRUNC_u = 0x200"
definition O_APPEND_u :: int where "O_APPEND_u = 0x400"

section \<open>ulib.c\<close>

abbreviation NUL :: char where "NUL \<equiv> CHR 0x00"

abbreviation LF :: char where "LF \<equiv> CHR 0x0A"

text \<open>The character a pointer into a string points at.\<close>

definition ch :: "string \<Rightarrow> char" where
  "ch s = (case s of [] \<Rightarrow> NUL | c # _ \<Rightarrow> c)"

lemma ch_simps [simp]: "ch [] = NUL" "ch (c # s) = c"
  by (simp_all add: ch_def)

primrec strcpy_u :: "string \<Rightarrow> string" where
  "strcpy_u [] = []"
| "strcpy_u (c # t) = (if c \<noteq> NUL then c # strcpy_u t else [])"

fun strcmp_u :: "string \<Rightarrow> string \<Rightarrow> int" where
  "strcmp_u (a # p) (b # q) =
     (if a \<noteq> NUL \<and> a = b then strcmp_u p q else int (of_char a) - int (of_char b))"
| "strcmp_u p q = int (of_char (ch p)) - int (of_char (ch q))"

primrec strlen_u :: "string \<Rightarrow> nat" where
  "strlen_u [] = 0"
| "strlen_u (c # s) = (if c \<noteq> NUL then strlen_u s + 1 else 0)"

text \<open>The position of the first \<open>c\<close>, as the rest of the string from there on; looking for 0 finds nothing.\<close>

primrec strchr_u :: "string \<Rightarrow> char \<Rightarrow> string option" where
  "strchr_u [] c = None"
| "strchr_u (a # s) c = (if a \<noteq> NUL then if a = c then Some (a # s) else strchr_u s c else None)"

text \<open>\<^verbatim>\<open>memset\<close>, \<^verbatim>\<open>memmove\<close> and \<^verbatim>\<open>memcmp\<close> on a byte memory.\<close>

type_synonym cmem = "nat \<Rightarrow> char"

definition memset_u :: "nat \<Rightarrow> char \<Rightarrow> nat \<Rightarrow> cmem \<Rightarrow> cmem" where
  "memset_u dst c n m = fold (\<lambda>i m. m(dst + i := c)) [0..<n] m"

fun copy_up :: "nat \<Rightarrow> nat \<Rightarrow> nat \<Rightarrow> cmem \<Rightarrow> cmem" where
  "copy_up d s 0 m = m"
| "copy_up d s (Suc n) m = copy_up (d + 1) (s + 1) n (m(d := m s))"

fun copy_down :: "nat \<Rightarrow> nat \<Rightarrow> nat \<Rightarrow> cmem \<Rightarrow> cmem" where
  "copy_down d s 0 m = m"
| "copy_down d s (Suc n) m = copy_down (d - 1) (s - 1) n (m(d - 1 := m (s - 1)))"

definition memmove_u :: "nat \<Rightarrow> nat \<Rightarrow> int \<Rightarrow> cmem \<Rightarrow> cmem" where
  "memmove_u dst src n m =
     (if src > dst then copy_up dst src (nat n) m
      else copy_down (dst + nat n) (src + nat n) (nat n) m)"

fun memcmp_u :: "nat \<Rightarrow> nat \<Rightarrow> nat \<Rightarrow> cmem \<Rightarrow> int" where
  "memcmp_u s1 s2 0 m = 0"
| "memcmp_u s1 s2 (Suc n) m =
     (if m s1 \<noteq> m s2 then int (of_char (m s1)) - int (of_char (m s2)) else memcmp_u (s1 + 1) (s2 + 1) n m)"

definition memcpy_u :: "nat \<Rightarrow> nat \<Rightarrow> nat \<Rightarrow> cmem \<Rightarrow> cmem" where
  "memcpy_u dst src n m = memmove_u dst src (int n) m"

text \<open>\<^verbatim>\<open>gets\<close>: the line read, at most \<open>max - 1\<close> characters.\<close>

definition gets_body :: "'w syscalls \<Rightarrow> int \<Rightarrow> string \<Rightarrow> ('w, string + string) K" where
  "gets_body sys mx buf =
     (if int (length buf) + 1 < mx then
        bind (sc_read sys 0 1) (\<lambda>(cc, cs).
        if cc < 1 then ret (Inr buf)
        else if hd cs = LF \<or> hd cs = CHR 0x0D then ret (Inr (buf @ [hd cs]))
        else ret (Inl (buf @ [hd cs])))
      else ret (Inr buf))"

definition gets_u :: "'w syscalls \<Rightarrow> int \<Rightarrow> ('w, string) K" where
  "gets_u sys mx = loopK (gets_body sys mx) []"

definition stat_u :: "'w syscalls \<Rightarrow> string \<Rightarrow> ('w, int \<times> (int \<times> int \<times> int)) K" where
  "stat_u sys n =
     bind (sc_open sys n O_RDONLY_u) (\<lambda>fd.
     if fd < 0 then ret (-1, (0, 0, 0))
     else
       bind (sc_fstat sys fd) (\<lambda>r.
       seq (sc_close sys fd) (
       ret r)))"

text \<open>\<^verbatim>\<open>n\<close> is an \<^verbatim>\<open>int\<close> and wraps around.\<close>

primrec atoi_from :: "string \<Rightarrow> 32 word \<Rightarrow> 32 word" where
  "atoi_from [] n = n"
| "atoi_from (c # s) n =
     (if CHR ''0'' \<le> c \<and> c \<le> CHR ''9'' then atoi_from s (n * 10 + of_char c - 48) else n)"

definition atoi_u :: "string \<Rightarrow> 32 word" where
  "atoi_u s = atoi_from s 0"

section \<open>printf.c\<close>

datatype uarg = UInt "32 word" | ULong "64 word" | UStr string | UNull

definition digits_u :: string where "digits_u = ''0123456789ABCDEF''"

definition putc_u :: "'w syscalls \<Rightarrow> int \<Rightarrow> char \<Rightarrow> ('w, unit) K" where
  "putc_u sys fd c = seq (sc_write sys fd [c]) skip"

text \<open>The digits that the \<^verbatim>\<open>do\<close>-\<^verbatim>\<open>while\<close> loop of \<^verbatim>\<open>printint\<close> puts into \<^verbatim>\<open>buf\<close>, the last digit first. It is called with
  the bases 10 and 16.\<close>

function digs :: "nat \<Rightarrow> nat \<Rightarrow> string" where
  "digs base x =
     (if 2 \<le> base \<and> x div base \<noteq> 0 then digits_u ! (x mod base) # digs base (x div base)
      else [digits_u ! (x mod base)])"
  by pat_completeness auto
termination
proof (relation "measure snd")
  fix base x :: nat
  assume "2 \<le> base \<and> x div base \<noteq> 0"
  then have "0 < x" "1 < base" by (cases "x = 0", auto)
  then show "((base, x div base), base, x) \<in> measure snd" by simp
qed simp

declare digs.simps [simp del]

definition printint_u :: "'w syscalls \<Rightarrow> int \<Rightarrow> 32 word \<Rightarrow> nat \<Rightarrow> bool \<Rightarrow> ('w, unit) K" where
  "printint_u sys fd xx base sg =
     (let neg = (sg \<and> sint xx < 0);
          x = (if neg then - xx else xx);
          buf = digs base (unat x) @ (if neg then ''-'' else []) in
      if length buf > 16 then fault
      else for_each (rev buf) (putc_u sys fd))"

definition printptr_u :: "'w syscalls \<Rightarrow> int \<Rightarrow> 64 word \<Rightarrow> ('w, unit) K" where
  "printptr_u sys fd x =
     seq (putc_u sys fd (CHR ''0'')) (
     seq (putc_u sys fd (CHR ''x'')) (
     for_each [0..<16] (\<lambda>i. putc_u sys fd (digits_u ! unat (drop_bit 60 (push_bit (4 * i) x))))))"

definition arg_int :: "uarg list \<Rightarrow> (32 word \<times> uarg list) option" where
  "arg_int ap = (case ap of UInt w # r \<Rightarrow> Some (w, r) | _ \<Rightarrow> None)"

text \<open>A 64-bit argument; \<^verbatim>\<open>printint\<close> takes an \<^verbatim>\<open>int\<close>, so only its low half is printed.\<close>

definition arg_long :: "uarg list \<Rightarrow> (64 word \<times> uarg list) option" where
  "arg_long ap = (case ap of ULong w # r \<Rightarrow> Some (w, r) | _ \<Rightarrow> None)"

definition arg_str :: "uarg list \<Rightarrow> (string \<times> uarg list) option" where
  "arg_str ap = (case ap of UStr s # r \<Rightarrow> Some (s, r) | UNull # r \<Rightarrow> Some (''(null)'', r) | _ \<Rightarrow> None)"

text \<open>The loop over the format. In state \<open>%\<close> the next characters are \<open>c0\<close>, \<open>c1\<close>, \<open>c2\<close>.\<close>

fun vprintf_loop :: "'w syscalls \<Rightarrow> int \<Rightarrow> string \<Rightarrow> uarg list \<Rightarrow> ('w, unit) K" where
  "vprintf_loop sys fd [] ap = skip"
| "vprintf_loop sys fd (c # r) ap =
     (if c \<noteq> CHR ''%'' then seq (putc_u sys fd c) (vprintf_loop sys fd r ap)
      else
        let c0 = ch r; c1 = ch (tl r); c2 = ch (tl (tl r)) in
        if c0 = NUL then skip
        else if c0 = CHR ''d'' then
          bind (need (arg_int ap)) (\<lambda>(w, ap'). seq (printint_u sys fd w 10 True) (vprintf_loop sys fd (tl r) ap'))
        else if c0 = CHR ''l'' \<and> c1 = CHR ''d'' then
          bind (need (arg_long ap)) (\<lambda>(w, ap'). seq (printint_u sys fd (ucast w) 10 True) (vprintf_loop sys fd (drop 2 r) ap'))
        else if c0 = CHR ''l'' \<and> c1 = CHR ''l'' \<and> c2 = CHR ''d'' then
          bind (need (arg_long ap)) (\<lambda>(w, ap'). seq (printint_u sys fd (ucast w) 10 True) (vprintf_loop sys fd (drop 3 r) ap'))
        else if c0 = CHR ''u'' then
          bind (need (arg_int ap)) (\<lambda>(w, ap'). seq (printint_u sys fd w 10 False) (vprintf_loop sys fd (tl r) ap'))
        else if c0 = CHR ''l'' \<and> c1 = CHR ''u'' then
          bind (need (arg_long ap)) (\<lambda>(w, ap'). seq (printint_u sys fd (ucast w) 10 False) (vprintf_loop sys fd (drop 2 r) ap'))
        else if c0 = CHR ''l'' \<and> c1 = CHR ''l'' \<and> c2 = CHR ''u'' then
          bind (need (arg_long ap)) (\<lambda>(w, ap'). seq (printint_u sys fd (ucast w) 10 False) (vprintf_loop sys fd (drop 3 r) ap'))
        else if c0 = CHR ''x'' then
          bind (need (arg_int ap)) (\<lambda>(w, ap'). seq (printint_u sys fd w 16 False) (vprintf_loop sys fd (tl r) ap'))
        else if c0 = CHR ''l'' \<and> c1 = CHR ''x'' then
          bind (need (arg_long ap)) (\<lambda>(w, ap'). seq (printint_u sys fd (ucast w) 16 False) (vprintf_loop sys fd (drop 2 r) ap'))
        else if c0 = CHR ''l'' \<and> c1 = CHR ''l'' \<and> c2 = CHR ''x'' then
          bind (need (arg_long ap)) (\<lambda>(w, ap'). seq (printint_u sys fd (ucast w) 16 False) (vprintf_loop sys fd (drop 3 r) ap'))
        else if c0 = CHR ''p'' then
          bind (need (arg_long ap)) (\<lambda>(w, ap'). seq (printptr_u sys fd w) (vprintf_loop sys fd (tl r) ap'))
        else if c0 = CHR ''s'' then
          bind (need (arg_str ap)) (\<lambda>(s, ap'). seq (for_each s (putc_u sys fd)) (vprintf_loop sys fd (tl r) ap'))
        else if c0 = CHR ''%'' then seq (putc_u sys fd (CHR ''%'')) (vprintf_loop sys fd (tl r) ap)
        else seq (putc_u sys fd (CHR ''%'')) (seq (putc_u sys fd c0) (vprintf_loop sys fd (tl r) ap)))"

definition fprintf_u :: "'w syscalls \<Rightarrow> int \<Rightarrow> string \<Rightarrow> uarg list \<Rightarrow> ('w, unit) K" where
  "fprintf_u sys fd fmt ap = vprintf_loop sys fd fmt ap"

definition printf_u :: "'w syscalls \<Rightarrow> string \<Rightarrow> uarg list \<Rightarrow> ('w, unit) K" where
  "printf_u sys fmt ap = vprintf_loop sys 1 fmt ap"

section \<open>Reading a file and writing\<close>

text \<open>Input and output as a program sees them: \<open>inp\<close> is what is left to read of the file \<open>fd\<close>, \<open>out\<close> what has been
  written to descriptor 1. A read returns some of the next characters, and nothing only at the end of the file (or when nothing
  is asked for); a write takes everything.\<close>

definition file_io :: "'w syscalls \<Rightarrow> int \<Rightarrow> ('w \<Rightarrow> string) \<Rightarrow> ('w \<Rightarrow> string) \<Rightarrow> bool" where
  "file_io sys fd inp out \<longleftrightarrow>
     (\<forall>k w e. \<exists>cs w'. sc_read sys fd k w e = Ok (int (length cs), cs) w' e \<and> length cs \<le> k \<and>
        inp w = cs @ inp w' \<and> out w' = out w \<and> (cs = [] \<longrightarrow> k = 0 \<or> inp w = [])) \<and>
     (\<forall>s w e. \<exists>w'. sc_write sys 1 s w e = Ok (int (length s)) w' e \<and> inp w' = inp w \<and> out w' = out w @ s)"

text \<open>A world with a text to read, in pieces of at most three characters, and a text written.\<close>

definition no_sys :: "'w syscalls" where
  "no_sys = \<lparr>sc_fork = ret (- 1), sc_exit = (\<lambda>_. id), sc_wait = ret (- 1), sc_pipe = ret (- 1, 0, 0),
     sc_write = (\<lambda>_ _. ret (- 1)), sc_read = (\<lambda>_ _. ret (- 1, [])), sc_close = (\<lambda>_. ret (- 1)), sc_kill = (\<lambda>_. ret (- 1)),
     sc_exec = (\<lambda>_ _. ret (- 1)), sc_open = (\<lambda>_ _. ret (- 1)), sc_mknod = (\<lambda>_ _ _. ret (- 1)), sc_unlink = (\<lambda>_. ret (- 1)),
     sc_fstat = (\<lambda>_. ret (- 1, 0, 0, 0)), sc_link = (\<lambda>_ _. ret (- 1)), sc_mkdir = (\<lambda>_. ret (- 1)), sc_chdir = (\<lambda>_. ret (- 1)),
     sc_dup = (\<lambda>_. ret (- 1)), sc_sleep = (\<lambda>_. ret (- 1)), sc_sbrk = (\<lambda>_. ret (- 1)), sc_uptime = ret 0,
     sc_set_cpu_affinity = (\<lambda>_. ret (- 1)), sc_setperiod = (\<lambda>_. ret (- 1)), sc_wait_until_next_period = ret (- 1),
     sc_show_vm_areas = ret (- 1), sc_getfilesize = (\<lambda>_. ret (- 1, 0)), sc_shmget = (\<lambda>_ _. ret (- 1))\<rparr>"

definition pieces :: "(string \<times> string) syscalls" where
  "pieces = no_sys\<lparr>sc_read := (\<lambda>fd k (i, out) e. Ok (int (length (take (min k 3) i)), take (min k 3) i) (drop (min k 3) i, out) e),
     sc_write := (\<lambda>fd s (i, out) e. Ok (int (length s)) (i, out @ s) e)\<rparr>"

lemma pieces_io: "file_io pieces fd fst snd"
  by (auto simp: file_io_def pieces_def min_def)

end
