(* ===== verification/Grep.thy ===== *)
theory Grep
  imports ULib
begin

text \<open>
  \<^verbatim>\<open>user/grep.c\<close>: the regular expression matcher, the loop over the lines of a file in a buffer of 1024
  bytes, and the main program.
\<close>

section \<open>The program\<close>

lemma ch_nonempty: "ch s \<noteq> NUL \<Longrightarrow> s \<noteq> []"
  by auto

text \<open>\<^verbatim>\<open>matchhere\<close>: search for \<open>re\<close> at the beginning of the string. \<^verbatim>\<open>matchstar\<close>: search for \<open>c*re\<close> there.\<close>

function (sequential) matchhere :: "string \<Rightarrow> string \<Rightarrow> bool"
  and matchstar :: "char \<Rightarrow> string \<Rightarrow> string \<Rightarrow> bool" where
  "matchhere re tx =
     (if ch re = NUL then True
      else if ch (tl re) = CHR ''*'' then matchstar (ch re) (tl (tl re)) tx
      else if ch re = CHR ''$'' \<and> ch (tl re) = NUL then ch tx = NUL
      else if ch tx \<noteq> NUL \<and> (ch re = CHR ''.'' \<or> ch re = ch tx) then matchhere (tl re) (tl tx)
      else False)"
| "matchstar c re tx =
     (if matchhere re tx then True
      else if ch tx \<noteq> NUL \<and> (ch tx = c \<or> c = CHR ''.'') then matchstar c re (tl tx)
      else False)"
  by pat_completeness auto
termination
proof (relation "measures [\<lambda>x. case x of Inl (re, t) \<Rightarrow> length re | Inr (c, re, t) \<Rightarrow> length re,
    \<lambda>x. case x of Inl (re, t) \<Rightarrow> length t | Inr (c, re, t) \<Rightarrow> length t, \<lambda>x. case x of Inl _ \<Rightarrow> 0 | Inr _ \<Rightarrow> 1]", goal_cases)
  case 1
  then show ?case by simp
next
  case (2 re tx)
  then show ?case by (cases re) auto
next
  case (3 re tx)
  then show ?case by (cases re) auto
next
  case (4 c re tx)
  then show ?case by simp
next
  case (5 c re tx)
  then show ?case by (cases tx) auto
qed

declare matchhere.simps [simp del] matchstar.simps [simp del]

text \<open>The \<^verbatim>\<open>do\<close>-\<^verbatim>\<open>while\<close> loop of \<^verbatim>\<open>match\<close>.\<close>

fun match_from :: "string \<Rightarrow> string \<Rightarrow> bool" where
  "match_from re [] = matchhere re []"
| "match_from re (c # tx) =
     (if matchhere re (c # tx) then True else if c \<noteq> NUL then match_from re tx else False)"

definition match :: "string \<Rightarrow> string \<Rightarrow> bool" where
  "match re tx = (if ch re = CHR ''^'' then matchhere (tl re) tx else match_from re tx)"

text \<open>The loop over the lines in the buffer: \<open>p\<close> is the rest of the buffer.\<close>

definition grep_line :: "'w syscalls \<Rightarrow> string \<Rightarrow> string \<Rightarrow> ('w, string + string) K" where
  "grep_line sys pattern p =
     (case strchr_u p LF of
        None \<Rightarrow> ret (Inr p)
      | Some q \<Rightarrow>
          let line = take (length p - length q) p in
          seq (whenK (match pattern line) (seq (sc_write sys 1 (line @ [LF])) skip)) (
          ret (Inl (tl q))))"

text \<open>The loop that fills the buffer: \<open>buf\<close> is the incomplete line at its start, of length \<^verbatim>\<open>m\<close>.\<close>

definition grep_body :: "'w syscalls \<Rightarrow> string \<Rightarrow> int \<Rightarrow> string \<Rightarrow> ('w, string + unit) K" where
  "grep_body sys pattern fd buf =
     bind (sc_read sys fd (1024 - length buf - 1)) (\<lambda>(n, cs).
     if n > 0 then
       bind (loopK (grep_line sys pattern) (buf @ take (nat n) cs)) (\<lambda>p.
       ret (Inl p))
     else ret (Inr ()))"

definition grep :: "'w syscalls \<Rightarrow> string \<Rightarrow> int \<Rightarrow> ('w, unit) K" where
  "grep sys pattern fd = loopK (grep_body sys pattern fd) []"

definition grep_file :: "'w syscalls \<Rightarrow> string \<Rightarrow> string \<Rightarrow> ('w, unit) K" where
  "grep_file sys pattern name =
     bind (sc_open sys name O_RDONLY_u) (\<lambda>fd.
     seq (whenK (fd < 0) (
       seq (printf_u sys (''grep: cannot open %s'' @ [LF]) [UStr name]) (
       exit_u sys 1))) (
     seq (grep sys pattern fd) (
     seq (sc_close sys fd) skip)))"

definition grep_main :: "'w syscalls \<Rightarrow> string list \<Rightarrow> ('w, unit) K" where
  "grep_main sys argv =
     (if length argv \<le> 1 then
        seq (fprintf_u sys 2 (''usage: grep pattern [file ...]'' @ [LF]) []) (
        exit_u sys 1)
      else if length argv \<le> 2 then
        seq (grep sys (argv ! 1) 0) (
        exit_u sys 0)
      else
        seq (for_each (drop 2 argv) (grep_file sys (argv ! 1))) (
        exit_u sys 0))"

section \<open>What a pattern means\<close>

text \<open>
  A pattern is a sequence of characters and starred characters, where \<^verbatim>\<open>.\<close> stands for any character, possibly
  anchored to the end of the line by a final \<^verbatim>\<open>$\<close> (and to its start by \<^verbatim>\<open>^\<close>, which \<^verbatim>\<open>match\<close> handles).
\<close>

datatype atom = Lit char | Star char

fun atoms :: "string \<Rightarrow> atom list \<times> bool" where
  "atoms [] = ([], False)"
| "atoms [c] = (if c = CHR ''$'' then ([], True) else ([Lit c], False))"
| "atoms (c # d # re) =
     (if d = CHR ''*'' then apfst ((#) (Star c)) (atoms re) else apfst ((#) (Lit c)) (atoms (d # re)))"

definition accepts :: "char \<Rightarrow> char \<Rightarrow> bool" where
  "accepts c x \<longleftrightarrow> c = CHR ''.'' \<or> x = c"

text \<open>The language of a sequence of atoms.\<close>

fun lang :: "atom list \<Rightarrow> string set" where
  "lang [] = {[]}"
| "lang (Lit c # as) = {x # s | x s. accepts c x \<and> s \<in> lang as}"
| "lang (Star c # as) = {u @ s | u s. list_all (accepts c) u \<and> s \<in> lang as}"

definition prefix_in :: "atom list \<times> bool \<Rightarrow> string \<Rightarrow> bool" where
  "prefix_in p t \<longleftrightarrow> (\<exists>u v. t = u @ v \<and> u \<in> lang (fst p) \<and> (snd p \<longrightarrow> v = []))"

abbreviation no_nul :: "string \<Rightarrow> bool" where
  "no_nul s \<equiv> NUL \<notin> set s"

lemma ch_nul: "no_nul s \<Longrightarrow> ch s = NUL \<longleftrightarrow> s = []"
  by (cases s) auto

lemma ex_split_Cons: "(\<exists>u v. x # t = u @ v \<and> P u v) \<longleftrightarrow> P [] (x # t) \<or> (\<exists>u v. t = u @ v \<and> P (x # u) v)"
  by (auto simp: Cons_eq_append_conv)

lemma matchstar_eq:
  "no_nul t \<Longrightarrow> matchstar c re t \<longleftrightarrow> (\<exists>u v. t = u @ v \<and> list_all (accepts c) u \<and> matchhere re v)"
proof (induction t)
  case Nil
  then show ?case by (subst matchstar.simps) auto
next
  case (Cons x t)
  then have IH: "matchstar c re t \<longleftrightarrow> (\<exists>u v. t = u @ v \<and> list_all (accepts c) u \<and> matchhere re v)" by simp
  have "matchstar c re (x # t) \<longleftrightarrow> matchhere re (x # t) \<or> accepts c x \<and> matchstar c re t"
    using Cons.prems by (subst matchstar.simps) (auto simp: accepts_def)
  also have "\<dots> \<longleftrightarrow> (\<exists>u v. x # t = u @ v \<and> list_all (accepts c) u \<and> matchhere re v)"
    unfolding IH ex_split_Cons by auto
  finally show ?case .
qed

lemma prefix_in_Star:
  "prefix_in (apfst ((#) (Star c)) p) t \<longleftrightarrow> (\<exists>u v. t = u @ v \<and> list_all (accepts c) u \<and> prefix_in p v)"
proof
  assume "prefix_in (apfst ((#) (Star c)) p) t"
  then obtain u v where u: "t = u @ v" "u \<in> lang (Star c # fst p)" "snd p \<longrightarrow> v = []"
    by (auto simp: prefix_in_def simp del: lang.simps)
  then obtain a s where "t = (a @ s) @ v" "list_all (accepts c) a" "s \<in> lang (fst p)" by auto
  with u(3) show "\<exists>u v. t = u @ v \<and> list_all (accepts c) u \<and> prefix_in p v"
    unfolding prefix_in_def by (intro exI [of _ a] exI [of _ "s @ v"]) auto
next
  assume "\<exists>u v. t = u @ v \<and> list_all (accepts c) u \<and> prefix_in p v"
  then obtain a s v where "t = a @ s @ v" "list_all (accepts c) a" "s \<in> lang (fst p)" "snd p \<longrightarrow> v = []"
    unfolding prefix_in_def by blast
  then show "prefix_in (apfst ((#) (Star c)) p) t"
    unfolding prefix_in_def by (intro exI [of _ "a @ s"] exI [of _ v]) auto
qed

lemma prefix_in_Lit:
  "prefix_in (apfst ((#) (Lit c)) p) t \<longleftrightarrow> (\<exists>x s. t = x # s \<and> accepts c x \<and> prefix_in p s)"
proof
  assume "prefix_in (apfst ((#) (Lit c)) p) t"
  then obtain u v where u: "t = u @ v" "u \<in> lang (Lit c # fst p)" "snd p \<longrightarrow> v = []"
    by (auto simp: prefix_in_def simp del: lang.simps)
  then obtain x s where "t = (x # s) @ v" "accepts c x" "s \<in> lang (fst p)" by auto
  with u(3) show "\<exists>x s. t = x # s \<and> accepts c x \<and> prefix_in p s"
    unfolding prefix_in_def by (intro exI [of _ x] exI [of _ "s @ v"]) auto
next
  assume "\<exists>x s. t = x # s \<and> accepts c x \<and> prefix_in p s"
  then obtain x s v where "t = x # s @ v" "accepts c x" "s \<in> lang (fst p)" "snd p \<longrightarrow> v = []"
    unfolding prefix_in_def by blast
  then show "prefix_in (apfst ((#) (Lit c)) p) t"
    unfolding prefix_in_def by (intro exI [of _ "x # s"] exI [of _ v]) auto
qed

lemma matchhere_eq: "no_nul re \<Longrightarrow> no_nul t \<Longrightarrow> matchhere re t \<longleftrightarrow> prefix_in (atoms re) t"
proof (induction re arbitrary: t rule: atoms.induct)
  case 1
  then show ?case by (subst matchhere.simps) (auto simp: prefix_in_def)
next
  case (2 c)
  have e: "matchhere [] v" for v by (subst matchhere.simps) simp
  show ?case
  proof (cases "c = CHR ''$''")
    case True
    then show ?thesis using 2 ch_nul [of t] by (subst matchhere.simps) (simp add: prefix_in_def)
  next
    case False
    then have "matchhere [c] t \<longleftrightarrow> (\<exists>x s. t = x # s \<and> accepts c x)"
      using 2 e by (subst matchhere.simps, cases t) (auto simp: accepts_def)
    with False show ?thesis using prefix_in_Lit [of c "([], False)" t] by (simp add: prefix_in_def)
  qed
next
  case (3 c d re)
  show ?case
  proof (cases "d = CHR ''*''")
    case True
    then have "matchhere (c # d # re) t \<longleftrightarrow> matchstar c re t"
      using 3 by (subst matchhere.simps) auto
    also have "\<dots> \<longleftrightarrow> (\<exists>u v. t = u @ v \<and> list_all (accepts c) u \<and> prefix_in (atoms re) v)"
    proof -
      have "matchhere re v \<longleftrightarrow> prefix_in (atoms re) v" if "t = u @ v" for u v
        using 3 True that by auto
      then show ?thesis using matchstar_eq [OF 3(4), of c re] by blast
    qed
    finally show ?thesis using True by (simp add: prefix_in_Star)
  next
    case False
    then have "matchhere (c # d # re) t \<longleftrightarrow> (\<exists>x s. t = x # s \<and> accepts c x \<and> matchhere (d # re) s)"
      using 3 by (subst matchhere.simps, cases t) (auto simp: accepts_def)
    also have "\<dots> \<longleftrightarrow> (\<exists>x s. t = x # s \<and> accepts c x \<and> prefix_in (atoms (d # re)) s)"
    proof -
      have "matchhere (d # re) s \<longleftrightarrow> prefix_in (atoms (d # re)) s" if "t = x # s" for x s
        using 3 False that by auto
      then show ?thesis by blast
    qed
    finally show ?thesis using False by (simp add: prefix_in_Lit)
  qed
qed

lemma match_from_eq: "match_from re t \<longleftrightarrow> (\<exists>u v. t = u @ v \<and> matchhere re v)" if "no_nul t"
  using that by (induction t) (auto simp: ex_split_Cons)

text \<open>C24. \<^verbatim>\<open>match\<close> decides the language of the pattern: the line has a part that is in the language of the pattern's
  characters and stars, at the start of the line if the pattern begins with \<^verbatim>\<open>^\<close> and at its end if the pattern
  ends with \<^verbatim>\<open>$\<close>. The search always ends.\<close>

theorem grep_match_lang:
  assumes "no_nul re" and "no_nul t"
  shows "match re t \<longleftrightarrow> (\<exists>pre u post. t = pre @ u @ post \<and>
    (if ch re = CHR ''^'' then pre = [] \<and> u \<in> lang (fst (atoms (tl re))) \<and> (snd (atoms (tl re)) \<longrightarrow> post = [])
     else u \<in> lang (fst (atoms re)) \<and> (snd (atoms re) \<longrightarrow> post = [])))"
proof (cases "ch re = CHR ''^''")
  case True
  then have "no_nul (tl re)" using assms(1) by (cases re) auto
  with True assms show ?thesis by (simp add: match_def matchhere_eq prefix_in_def)
next
  case False
  have "matchhere re v \<longleftrightarrow> prefix_in (atoms re) v" if "t = u @ v" for u v
    using assms that by (intro matchhere_eq) auto
  then have "match re t \<longleftrightarrow> (\<exists>pre v. t = pre @ v \<and> prefix_in (atoms re) v)"
    using False assms(2) unfolding match_def by (simp add: match_from_eq) blast
  then show ?thesis using False unfolding prefix_in_def by simp blast
qed

theorem grep_match_lang_witness:
  "match ''^a.*c$'' ''abbc'' \<and> (\<exists>pre u post. ''abbc'' = pre @ u @ post \<and>
    pre = [] \<and> u \<in> lang [Lit (CHR ''a''), Star (CHR ''.''), Lit (CHR ''c'')] \<and> post = [])"
proof -
  have "match ''^a.*c$'' ''abbc''" by code_simp
  with grep_match_lang [of "''^a.*c$''" "''abbc''"] show ?thesis by simp
qed

section \<open>Lines\<close>

lemma after_LF_shorter: "LF \<in> set s \<Longrightarrow> length (tl (dropWhile (\<lambda>c. c \<noteq> LF) s)) < length s"
  by (induction s) (auto simp: less_Suc_eq)

text \<open>The lines of a file that end in a line feed, and what follows the last line feed.\<close>

function complete_lines :: "string \<Rightarrow> string list" where
  "complete_lines s = (if LF \<in> set s then takeWhile (\<lambda>c. c \<noteq> LF) s # complete_lines (tl (dropWhile (\<lambda>c. c \<noteq> LF) s)) else [])"
  by pat_completeness auto
termination by (relation "measure length") (simp_all only: wf_measure in_measure after_LF_shorter)

function after_lines :: "string \<Rightarrow> string" where
  "after_lines s = (if LF \<in> set s then after_lines (tl (dropWhile (\<lambda>c. c \<noteq> LF) s)) else s)"
  by pat_completeness auto
termination by (relation "measure length") (simp_all only: wf_measure in_measure after_LF_shorter)

declare complete_lines.simps [simp del] after_lines.simps [simp del]

lemma no_LF [simp]: "LF \<notin> set s \<Longrightarrow> complete_lines s = []" "LF \<notin> set s \<Longrightarrow> after_lines s = s"
  by (subst complete_lines.simps, simp) (subst after_lines.simps, simp)

lemma one_line [simp]:
  "LF \<notin> set l \<Longrightarrow> complete_lines (l @ LF # s) = l # complete_lines s"
  "LF \<notin> set l \<Longrightarrow> after_lines (l @ LF # s) = after_lines s"
proof -
  assume "LF \<notin> set l"
  then have w: "takeWhile (\<lambda>c. c \<noteq> LF) (l @ LF # s) = l \<and> dropWhile (\<lambda>c. c \<noteq> LF) (l @ LF # s) = LF # s"
    by (induction l) auto
  show "complete_lines (l @ LF # s) = l # complete_lines s" by (subst complete_lines.simps) (simp add: w)
  show "after_lines (l @ LF # s) = after_lines s" by (subst after_lines.simps) (simp add: w)
qed

text \<open>Induction over the lines of a text.\<close>

lemma lines_induct [case_names rest line]:
  assumes "\<And>s. LF \<notin> set s \<Longrightarrow> P s" and "\<And>l s. LF \<notin> set l \<Longrightarrow> P s \<Longrightarrow> P (l @ LF # s)"
  shows "P s"
proof (induction s rule: length_induct)
  case (1 s)
  show ?case
  proof (cases "LF \<in> set s")
    case True
    then obtain l r where s: "s = l @ LF # r" "LF \<notin> set l" by (metis split_list_first)
    with 1 have "P r" by simp
    with s assms(2) show ?thesis by blast
  qed (rule assms(1))
qed

lemma after_lines_no_LF: "LF \<notin> set (after_lines s)"
  by (induction s rule: lines_induct) auto

lemma lines_append:
  "complete_lines (b @ s) = complete_lines b @ complete_lines (after_lines b @ s)"
  "after_lines (b @ s) = after_lines (after_lines b @ s)"
  by (induction b rule: lines_induct) auto

lemma after_lines_suffix: "set (after_lines s) \<subseteq> set s"
  by (induction s rule: lines_induct) auto

text \<open>What \<^verbatim>\<open>grep\<close> should print.\<close>

definition matching_lines :: "string \<Rightarrow> string \<Rightarrow> string" where
  "matching_lines pattern s = concat (map (\<lambda>l. l @ [LF]) (filter (match pattern) (complete_lines s)))"

text \<open>No line, complete or not, is longer than the buffer allows.\<close>

definition short_lines :: "string \<Rightarrow> bool" where
  "short_lines s \<longleftrightarrow> (\<forall>l \<in> set (after_lines s # complete_lines s). length l < 1023)"

lemma short_lines_append: "short_lines (b @ s) \<Longrightarrow> short_lines (after_lines b @ s)"
  by (simp add: short_lines_def lines_append [of b s])

lemma short_lines_start: "short_lines (b @ s) \<Longrightarrow> LF \<notin> set b \<Longrightarrow> length b < 1023"
proof (cases "LF \<in> set s")
  case True
  assume "short_lines (b @ s)" "LF \<notin> set b"
  moreover obtain l r where "s = l @ LF # r" "LF \<notin> set l" using True by (metis split_list_first)
  ultimately show ?thesis using one_line(1) [of "b @ l" r] by (simp add: short_lines_def)
qed (simp add: short_lines_def)

lemma strchr_none: "no_nul s \<Longrightarrow> LF \<notin> set s \<Longrightarrow> strchr_u s LF = None"
  by (induction s) auto

lemma strchr_some: "no_nul l \<Longrightarrow> LF \<notin> set l \<Longrightarrow> strchr_u (l @ LF # s) LF = Some (LF # s)"
  by (induction l) auto

lemmas strchr_LF = strchr_none strchr_some

lemma grep_lines_run:
  assumes io: "file_io sys fd inp out" and "no_nul p"
  shows "\<exists>w'. loopK (grep_line sys pattern) p w e = Ok (after_lines p) w' e \<and> inp w' = inp w \<and>
    out w' = out w @ matching_lines pattern p"
  using assms(2)
proof (induction p arbitrary: w rule: lines_induct)
  case (rest s)
  then have "grep_line sys pattern s w e = Ok (Inr s) w e" by (simp add: grep_line_def strchr_LF)
  from loopK_done [where body = "grep_line sys pattern", OF this] rest show ?case
    by (auto simp: matching_lines_def)
next
  case (line l s)
  obtain v where v: "grep_line sys pattern (l @ LF # s) w e = Ok (Inl s) v e" "inp v = inp w"
    "out v = out w @ (if match pattern l then l @ [LF] else [])"
  proof (cases "match pattern l")
    case True
    obtain v where "sc_write sys 1 (l @ [LF]) w e = Ok (int (length (l @ [LF]))) v e" "inp v = inp w" "out v = out w @ l @ [LF]"
      using io unfolding file_io_def by blast
    with True line show ?thesis by (intro that [of v]) (auto simp: grep_line_def strchr_LF seq_def)
  next
    case False
    with line show ?thesis by (intro that [of w]) (auto simp: grep_line_def strchr_LF seq_def)
  qed
  from line.IH [of v] line.prems obtain w' where "loopK (grep_line sys pattern) s v e = Ok (after_lines s) w' e"
    "inp w' = inp v" "out w' = out v @ matching_lines pattern s" by auto
  with v loopK_step [where body = "grep_line sys pattern", OF v(1)] line.hyps show ?case
    by (auto simp: matching_lines_def)
qed

lemma grep_run:
  assumes io: "file_io sys fd inp out"
  shows "no_nul (buf @ inp w) \<Longrightarrow> LF \<notin> set buf \<Longrightarrow> short_lines (buf @ inp w) \<Longrightarrow>
    \<exists>w'. loopK (grep_body sys pattern fd) buf w e = Ok () w' e \<and> inp w' = [] \<and>
      out w' = out w @ matching_lines pattern (buf @ inp w)"
proof (induction "length (inp w)" arbitrary: buf w rule: less_induct)
  case less
  have short: "length buf < 1023" using short_lines_start [OF less.prems(3,2)] .
  obtain cs v where v: "sc_read sys fd (1024 - length buf - 1) w e = Ok (int (length cs), cs) v e"
    "inp w = cs @ inp v" "out v = out w" "cs = [] \<longrightarrow> inp w = []"
  proof -
    have "1024 - length buf - 1 \<noteq> 0" using short by simp
    moreover obtain cs v where "sc_read sys fd (1024 - length buf - 1) w e = Ok (int (length cs), cs) v e"
      "inp w = cs @ inp v" "out v = out w" "cs = [] \<longrightarrow> 1024 - length buf - 1 = 0 \<or> inp w = []"
      using io unfolding file_io_def by metis
    ultimately show ?thesis by (intro that [of cs v]) blast+
  qed
  show ?case
  proof (cases "cs = []")
    case True
    then have "grep_body sys pattern fd buf w e = Ok (Inr ()) v e" using v(1) by (simp add: grep_body_def bind_def)
    from loopK_done [where body = "grep_body sys pattern fd", OF this] v True less.prems(2) show ?thesis
      by (auto simp: matching_lines_def)
  next
    case False
    obtain u where u: "loopK (grep_line sys pattern) (buf @ cs) v e = Ok (after_lines (buf @ cs)) u e" "inp u = inp v"
      "out u = out v @ matching_lines pattern (buf @ cs)"
      using grep_lines_run [OF io, of "buf @ cs" pattern v e] less.prems(1) v(2) by auto
    have "grep_body sys pattern fd buf w e = Ok (Inl (after_lines (buf @ cs))) u e"
      using v(1) u(1) False by (simp add: grep_body_def bind_def)
    note step = loopK_step [where body = "grep_body sys pattern fd", OF this]
    have "no_nul (after_lines (buf @ cs) @ inp u)" "LF \<notin> set (after_lines (buf @ cs))"
      "short_lines (after_lines (buf @ cs) @ inp u)"
      using less.prems v(2) u(2) after_lines_suffix [of "buf @ cs"] after_lines_no_LF [of "buf @ cs"]
        short_lines_append [of "buf @ cs" "inp u"] by auto
    from less.hyps [OF _ this] obtain w' where "loopK (grep_body sys pattern fd) (after_lines (buf @ cs)) u e = Ok () w' e"
      "inp w' = []" "out w' = out u @ matching_lines pattern (after_lines (buf @ cs) @ inp u)"
      using v(2) u(2) False by auto
    with step u v(2,3) lines_append(1) [of "buf @ cs" "inp v"] show ?thesis by (simp add: matching_lines_def)
  qed
qed

text \<open>C25. \<^verbatim>\<open>grep\<close> prints exactly the matching lines of the file, in order, however many characters each read returns, and
  ends at the end of the file. This needs lines that fit the buffer (1022 characters; a longer one ends the loop early), without
  0 bytes, and what follows the last line feed is never printed.\<close>

theorem grep_prints_lines:
  assumes "file_io sys fd inp out" and "no_nul (inp w)" and "short_lines (inp w)"
  shows "\<exists>w'. grep sys pattern fd w e = Ok () w' e \<and> inp w' = [] \<and>
    out w' = out w @ concat (map (\<lambda>l. l @ [LF]) (filter (match pattern) (complete_lines (inp w))))"
  using grep_run [OF assms(1), of "[]" w pattern e] assms(2,3) by (simp add: grep_def matching_lines_def)

theorem grep_prints_lines_witness:
  "\<exists>w'. grep pieces ''b'' 0 (''abc'' @ [LF] @ ''xyz'' @ [LF] @ ''bb'' @ [LF] @ ''b'', []) [] = Ok () w' [] \<and>
     snd w' = ''abc'' @ [LF] @ ''bb'' @ [LF]"
proof -
  let ?s = "''abc'' @ [LF] @ ''xyz'' @ [LF] @ ''bb'' @ [LF] @ ''b''"
  have "complete_lines ?s = [''abc'', ''xyz'', ''bb'']" "after_lines ?s = ''b''"
    using one_line [of "''abc''"] one_line [of "''xyz''"] one_line [of "''bb''"] by simp_all
  moreover have "match ''b'' ''abc''" "\<not> match ''b'' ''xyz''" "match ''b'' ''bb''" by code_simp+
  ultimately show ?thesis
    using grep_prints_lines [OF pieces_io, of "(?s, [])" "''b''" 0 "[]"] by (simp add: short_lines_def)
qed

end
