(* ===== verification/Shell.thy ===== *)
theory Shell
  imports ULib
begin

text \<open>
  \<^verbatim>\<open>user/sh.c\<close>: parsing a command line, running a command, and the main loop of the shell.

  A pointer into the line is the rest of the line from there on; the end of the line \<^verbatim>\<open>es\<close> is the empty rest.
  The structures for parsed commands live in a store, a list that \<^verbatim>\<open>malloc\<close> (which is taken to succeed) extends: pointer
  \<open>p > 0\<close> is entry \<open>p - 1\<close>, and 0 is the null pointer.
\<close>

section \<open>Commands\<close>

definition MAXARGS :: nat where "MAXARGS = 10"

type_synonym cptr = nat

text \<open>The arguments of a simple command, and the file of a redirection, are given by their start and end.\<close>

datatype cmd =
    EXEC "(string \<times> string) list"
  | REDIR cptr string string int int
  | PIPE cptr cptr
  | LIST cptr cptr
  | BACK cptr

definition cmd_at :: "cmd list \<Rightarrow> cptr \<Rightarrow> cmd option" where
  "cmd_at cs p = (if 0 < p \<and> p \<le> length cs then Some (cs ! (p - 1)) else None)"

text \<open>The constructors allocate a structure and fill it in.\<close>

definition new_cmd :: "cmd \<Rightarrow> cmd list \<Rightarrow> cptr \<times> cmd list" where
  "new_cmd c cs = (length cs + 1, cs @ [c])"

definition execcmd :: "cmd list \<Rightarrow> cptr \<times> cmd list" where
  "execcmd cs = new_cmd (EXEC []) cs"

definition redircmd :: "cptr \<Rightarrow> string \<Rightarrow> string \<Rightarrow> int \<Rightarrow> int \<Rightarrow> cmd list \<Rightarrow> cptr \<times> cmd list" where
  "redircmd subcmd file efile mode fd cs = new_cmd (REDIR subcmd file efile mode fd) cs"

definition pipecmd :: "cptr \<Rightarrow> cptr \<Rightarrow> cmd list \<Rightarrow> cptr \<times> cmd list" where
  "pipecmd left right cs = new_cmd (PIPE left right) cs"

definition listcmd :: "cptr \<Rightarrow> cptr \<Rightarrow> cmd list \<Rightarrow> cptr \<times> cmd list" where
  "listcmd left right cs = new_cmd (LIST left right) cs"

definition backcmd :: "cptr \<Rightarrow> cmd list \<Rightarrow> cptr \<times> cmd list" where
  "backcmd subcmd cs = new_cmd (BACK subcmd) cs"

section \<open>Tokens\<close>

definition whitespace :: string where
  "whitespace = [CHR '' '', CHR 0x09, CHR 0x0D, CHR 0x0A, CHR 0x0B]"

definition symbols :: string where "symbols = ''<|>&;()''"

definition is_ws :: "char \<Rightarrow> bool" where "is_ws c \<longleftrightarrow> strchr_u whitespace c \<noteq> None"

definition is_sym :: "char \<Rightarrow> bool" where "is_sym c \<longleftrightarrow> strchr_u symbols c \<noteq> None"

primrec skip_ws :: "string \<Rightarrow> string" where
  "skip_ws [] = []"
| "skip_ws (c # s) = (if is_ws c then skip_ws s else c # s)"

primrec skip_word :: "string \<Rightarrow> string" where
  "skip_word [] = []"
| "skip_word (c # s) = (if \<not> is_ws c \<and> \<not> is_sym c then skip_word s else c # s)"

text \<open>The result is the kind of the token, its start and end, and the rest of the line.\<close>

definition gettoken :: "string \<Rightarrow> char \<times> string \<times> string \<times> string" where
  "gettoken ps =
     (let q = skip_ws ps;
          (r, eq) =
            (if ch q = NUL then (NUL, q)
             else if ch q \<in> {CHR ''|'', CHR ''('', CHR '')'', CHR '';'', CHR ''&'', CHR ''<''} then (ch q, tl q)
             else if ch q = CHR ''>'' then
               if ch (tl q) = CHR ''>'' then (CHR ''+'', tl (tl q)) else (ch q, tl q)
             else (CHR ''a'', skip_word q)) in
      (r, q, eq, skip_ws eq))"

definition peek :: "string \<Rightarrow> string \<Rightarrow> bool \<times> string" where
  "peek ps toks = (let s = skip_ws ps in (ch s \<noteq> NUL \<and> strchr_u toks (ch s) \<noteq> None, s))"

section \<open>Parsing\<close>

text \<open>A parsing function returns its result, the rest of the line and the store; or it calls \<^verbatim>\<open>panic\<close>.\<close>

datatype 'a parsed = Done 'a string "cmd list" | Panics string | NoFuel

definition andthen :: "'a parsed \<Rightarrow> ('a \<Rightarrow> string \<Rightarrow> cmd list \<Rightarrow> 'b parsed) \<Rightarrow> 'b parsed" where
  "andthen x f = (case x of Done a s cs \<Rightarrow> f a s cs | Panics m \<Rightarrow> Panics m | NoFuel \<Rightarrow> NoFuel)"

text \<open>The loops end because every round takes a token off the line.\<close>

lemma skip_ws_le: "length (skip_ws s) \<le> length s"
  by (induction s) auto

lemma skip_word_le: "length (skip_word s) \<le> length s"
  by (induction s) auto

lemma gettoken_le: "gettoken s = (r, q, eq, s') \<Longrightarrow> length s' \<le> length s"
proof -
  assume g: "gettoken s = (r, q, eq, s')"
  have "length eq \<le> length (skip_ws s)"
    using g skip_word_le [of "skip_ws s"] by (auto simp: gettoken_def Let_def split: if_splits)
  moreover have "length s' \<le> length eq" using g skip_ws_le by (auto simp: gettoken_def Let_def split: prod.splits)
  ultimately show ?thesis using skip_ws_le [of s] by linarith
qed

lemma peek_le: "peek s toks = (b, s') \<Longrightarrow> length s' \<le> length s"
  by (auto simp: peek_def Let_def skip_ws_le)

lemma skip_ws_not_ws: "skip_ws s = [] \<or> \<not> is_ws (ch (skip_ws s))"
  by (induction s) auto

lemma sym_cases:
  "is_sym c \<longleftrightarrow> c \<in> {CHR ''|'', CHR ''('', CHR '')'', CHR '';'', CHR ''&'', CHR ''<'', CHR ''>''}"
  by (auto simp: is_sym_def symbols_def)

lemma gettoken_less:
  assumes g: "gettoken s = (r, q, eq, s')" and r: "r \<noteq> NUL"
  shows "length s' < length s"
proof -
  let ?q = "skip_ws s"
  have ne: "ch ?q \<noteq> NUL" using g r by (auto simp: gettoken_def Let_def)
  then obtain c t where q: "?q = c # t" by (cases ?q) auto
  have "length eq < length ?q"
  proof (cases "is_sym c")
    case True
    then show ?thesis using g q by (auto simp: gettoken_def Let_def sym_cases split: if_splits)
  next
    case False
    moreover have "\<not> is_ws c" using skip_ws_not_ws [of s] q by simp
    ultimately have "length (skip_word ?q) < length ?q" using q skip_word_le [of t] by simp
    moreover have "eq = skip_word ?q" using g False ne by (auto simp: gettoken_def Let_def sym_cases q)
    ultimately show ?thesis by simp
  qed
  moreover have "length s' \<le> length eq" using g skip_ws_le by (auto simp: gettoken_def Let_def split: prod.splits)
  ultimately show ?thesis using skip_ws_le [of s] by linarith
qed

lemma skip_ws_idem [simp]: "skip_ws (skip_ws s) = skip_ws s"
  by (induction s) auto

lemma gettoken_kind: "gettoken s = (r, q, eq, s') \<Longrightarrow> r = NUL \<longleftrightarrow> ch (skip_ws s) = NUL"
  by (auto simp: gettoken_def Let_def split: if_splits)

lemma peek_gettoken_less:
  assumes "peek ps toks = (True, s)" and "gettoken s = (r, q, eq, s')"
  shows "length s' < length ps"
proof -
  have s: "s = skip_ws ps" "ch s \<noteq> NUL" using assms(1) by (auto simp: peek_def Let_def)
  then have "r \<noteq> NUL" using gettoken_kind [OF assms(2)] by simp
  from gettoken_less [OF assms(2) this] show ?thesis using s(1) skip_ws_le [of ps] by simp
qed

text \<open>The \<^verbatim>\<open>switch\<close> of \<^verbatim>\<open>parseredirs\<close>.\<close>

definition redirect :: "char \<Rightarrow> cptr \<Rightarrow> string \<Rightarrow> string \<Rightarrow> cmd list \<Rightarrow> cptr \<times> cmd list" where
  "redirect tok cmd q eq cs =
     (if tok = CHR ''<'' then redircmd cmd q eq O_RDONLY_u 0 cs
      else if tok = CHR ''>'' then redircmd cmd q eq (or (or O_WRONLY_u O_CREATE_u) O_TRUNC_u) 1 cs
      else if tok = CHR ''+'' then redircmd cmd q eq (or O_WRONLY_u O_CREATE_u) 1 cs
      else (cmd, cs))"

function parseredirs :: "cptr \<Rightarrow> string \<Rightarrow> cmd list \<Rightarrow> cptr parsed" where
  "parseredirs cmd ps cs =
     (let (go, s) = peek ps ''<>'' in
      if go then
        let (tok, _, _, s1) = gettoken s; (r, q, eq, s2) = gettoken s1 in
        if r \<noteq> CHR ''a'' then Panics ''missing file for redirection''
        else let (cmd', cs') = redirect tok cmd q eq cs in parseredirs cmd' s2 cs'
      else Done cmd s cs)"
  by pat_completeness auto
termination
proof (relation "measure (\<lambda>(cmd, ps, cs). length ps)", goal_cases)
  case (2 cmd ps cs x go s x1 tok x2 q0 x3 eq0 s1 x4 r x5 q x6 eq s2 x7 cmd' cs')
  then have "peek ps ''<>'' = (True, s)" "gettoken s = (tok, q0, eq0, s1)" "gettoken s1 = (r, q, eq, s2)" by simp_all
  then show ?case using peek_gettoken_less [of ps "''<>''" s] gettoken_le [of s1] by fastforce
qed simp

declare parseredirs.simps [simp del]

lemma parseredirs_step:
  assumes "peek ps ''<>'' = (True, s)" and "gettoken s = (tok, q0, eq0, s1)" and "gettoken s1 = (r, q, eq, s2)"
  shows "parseredirs cmd ps cs = (if r \<noteq> CHR ''a'' then Panics ''missing file for redirection''
    else parseredirs (fst (redirect tok cmd q eq cs)) s2 (snd (redirect tok cmd q eq cs)))" and "length s2 < length ps"
proof -
  show "parseredirs cmd ps cs = (if r \<noteq> CHR ''a'' then Panics ''missing file for redirection''
    else parseredirs (fst (redirect tok cmd q eq cs)) s2 (snd (redirect tok cmd q eq cs)))"
    by (subst parseredirs.simps) (simp add: assms split: prod.split)
  show "length s2 < length ps" using peek_gettoken_less [OF assms(1,2)] gettoken_le [OF assms(3)] by simp
qed

lemma parseredirs_end: "peek ps ''<>'' = (False, s) \<Longrightarrow> parseredirs cmd ps cs = Done cmd s cs"
  by (subst parseredirs.simps) simp

text \<open>Induction over the redirections at a place.\<close>

lemma parseredirs_cases [case_names stop step]:
  assumes "\<And>cmd ps cs s. peek ps ''<>'' = (False, s) \<Longrightarrow> P cmd ps cs"
    and "\<And>cmd ps cs s tok q0 eq0 s1 r q eq s2. peek ps ''<>'' = (True, s) \<Longrightarrow> gettoken s = (tok, q0, eq0, s1) \<Longrightarrow>
      gettoken s1 = (r, q, eq, s2) \<Longrightarrow> (\<And>cmd cs. P cmd s2 cs) \<Longrightarrow> P cmd ps cs"
  shows "P cmd ps cs"
proof (induction "length ps" arbitrary: cmd ps cs rule: less_induct)
  case less
  obtain go s where pk: "peek ps ''<>'' = (go, s)" by fastforce
  show ?case
  proof (cases go)
    case True
    obtain tok q0 eq0 s1 where g1: "gettoken s = (tok, q0, eq0, s1)" by (metis prod_cases4)
    obtain r q eq s2 where g2: "gettoken s1 = (r, q, eq, s2)" by (metis prod_cases4)
    from pk True have pk': "peek ps ''<>'' = (True, s)" by simp
    show ?thesis
      by (rule assms(2) [OF pk' g1 g2]) (use less.hyps parseredirs_step(2) [OF pk' g1 g2] in blast)
  next
    case False
    with pk have "peek ps ''<>'' = (False, s)" by simp
    then show ?thesis by (rule assms(1))
  qed
qed

lemma parseredirs_le: "parseredirs cmd ps cs = Done p s cs' \<Longrightarrow> length s \<le> length ps"
proof (induction cmd ps cs rule: parseredirs_cases)
  case (stop cmd ps cs s')
  then show ?case using parseredirs_end [OF stop(1)] peek_le [OF stop(1)] by simp
next
  case (step cmd ps cs s0 tok q0 eq0 s1 r q eq s2)
  then show ?case using parseredirs_step [OF step(1-3)] by (fastforce split: if_splits)
qed

text \<open>\<^verbatim>\<open>cmd->argv[argc] = q; cmd->eargv[argc] = eq\<close> for the simple command \<open>c\<close> and \<open>argc\<close> the number of its arguments.\<close>

definition add_arg :: "cptr \<Rightarrow> string \<Rightarrow> string \<Rightarrow> cmd list \<Rightarrow> cmd list" where
  "add_arg c q eq cs = (case cmd_at cs c of
     Some (EXEC args) \<Rightarrow> cs[c - 1 := EXEC (args @ [(q, eq)])]
   | _ \<Rightarrow> cs)"

lemma andthen_cong [fundef_cong]:
  "x = y \<Longrightarrow> (\<And>a s cs. y = Done a s cs \<Longrightarrow> f a s cs = g a s cs) \<Longrightarrow> andthen x f = andthen y g"
  by (auto simp: andthen_def split: parsed.split)

text \<open>The loop of \<^verbatim>\<open>parseexec\<close> over the arguments.\<close>

function parseargs :: "cptr \<Rightarrow> cptr \<Rightarrow> nat \<Rightarrow> string \<Rightarrow> cmd list \<Rightarrow> cptr parsed" where
  "parseargs cmd r argc ps cs =
     (let (stop, s) = peek ps ''|)&;'' in
      if stop then Done r s cs
      else
        let (tok, q, eq, s1) = gettoken s in
        if tok = NUL then Done r s1 cs
        else if tok \<noteq> CHR ''a'' then Panics ''syntax''
        else if argc + 1 \<ge> MAXARGS then Panics ''too many args''
        else andthen (parseredirs r s1 (add_arg cmd q eq cs)) (\<lambda>r' s2 cs'. parseargs cmd r' (argc + 1) s2 cs'))"
  by pat_completeness auto
termination
proof (relation "measure (\<lambda>(cmd, r, argc, ps, cs). length ps)", goal_cases)
  case (2 cmd r argc ps cs x stop s x1 tok x2 q x3 eq s1 r' s2 cs')
  then have "peek ps ''|)&;'' = (stop, s)" "gettoken s = (tok, q, eq, s1)" "tok \<noteq> NUL"
    "parseredirs r s1 (add_arg cmd q eq cs) = Done r' s2 cs'" by simp_all
  from peek_le [OF this(1)] gettoken_less [OF this(2,3)] parseredirs_le [OF this(4)] show ?case by simp
qed simp

declare parseargs.simps [simp del]

text \<open>The loop of \<^verbatim>\<open>parseline\<close> over the ampersands.\<close>

function parseback :: "cptr \<Rightarrow> string \<Rightarrow> cmd list \<Rightarrow> cptr parsed" where
  "parseback cmd ps cs =
     (let (go, s) = peek ps ''&'' in
      if go then
        let (_, _, _, s1) = gettoken s; (cmd', cs') = backcmd cmd cs in
        parseback cmd' s1 cs'
      else Done cmd s cs)"
  by pat_completeness auto
termination
proof (relation "measure (\<lambda>(cmd, ps, cs). length ps)", goal_cases)
  case (2 cmd ps cs x go s x1 tok x2 q x3 eq s1 x4 cmd' cs')
  then have "peek ps ''&'' = (True, s)" "gettoken s = (tok, q, eq, s1)" by simp_all
  then show ?case using peek_gettoken_less by fastforce
qed simp

declare parseback.simps [simp del]

text \<open>
  The four mutually recursive functions. Each takes the functions it calls as arguments, and \<open>parse n k\<close> ties the
  knot, with fuel \<open>n\<close> for the depth of the recursion; \<open>parse_total\<close> below shows how much is enough.
\<close>

datatype part = Line | Pipe | Exec | Block

definition parseline :: "(string \<Rightarrow> cmd list \<Rightarrow> cptr parsed) \<Rightarrow> (string \<Rightarrow> cmd list \<Rightarrow> cptr parsed) \<Rightarrow>
    string \<Rightarrow> cmd list \<Rightarrow> cptr parsed" where
  "parseline parsepipe' parseline' ps cs =
     andthen (parsepipe' ps cs) (\<lambda>cmd s cs.
     andthen (parseback cmd s cs) (\<lambda>cmd s cs.
     let (go, s) = peek s '';'' in
     if go then
       let (_, _, _, s1) = gettoken s in
       andthen (parseline' s1 cs) (\<lambda>right s cs.
       let (cmd', cs') = listcmd cmd right cs in Done cmd' s cs')
     else Done cmd s cs))"

definition parsepipe :: "(string \<Rightarrow> cmd list \<Rightarrow> cptr parsed) \<Rightarrow> (string \<Rightarrow> cmd list \<Rightarrow> cptr parsed) \<Rightarrow>
    string \<Rightarrow> cmd list \<Rightarrow> cptr parsed" where
  "parsepipe parseexec' parsepipe' ps cs =
     andthen (parseexec' ps cs) (\<lambda>cmd s cs.
     let (go, s) = peek s ''|'' in
     if go then
       let (_, _, _, s1) = gettoken s in
       andthen (parsepipe' s1 cs) (\<lambda>right s cs.
       let (cmd', cs') = pipecmd cmd right cs in Done cmd' s cs')
     else Done cmd s cs)"

definition parseexec :: "(string \<Rightarrow> cmd list \<Rightarrow> cptr parsed) \<Rightarrow> string \<Rightarrow> cmd list \<Rightarrow> cptr parsed" where
  "parseexec parseblock' ps cs =
     (let (block, s) = peek ps ''('' in
      if block then parseblock' s cs
      else
        let (r, cs) = execcmd cs in
        andthen (parseredirs r s cs) (\<lambda>r' s cs. parseargs r r' 0 s cs))"

definition parseblock :: "(string \<Rightarrow> cmd list \<Rightarrow> cptr parsed) \<Rightarrow> string \<Rightarrow> cmd list \<Rightarrow> cptr parsed" where
  "parseblock parseline' ps cs =
     (let (go, s) = peek ps ''('' in
      if \<not> go then Panics ''parseblock''
      else
        let (_, _, _, s1) = gettoken s in
        andthen (parseline' s1 cs) (\<lambda>cmd s cs.
        let (close, s) = peek s '')'' in
        if \<not> close then Panics ''syntax - missing )''
        else
          let (_, _, _, s1) = gettoken s in
          parseredirs cmd s1 cs))"

primrec parse :: "nat \<Rightarrow> part \<Rightarrow> string \<Rightarrow> cmd list \<Rightarrow> cptr parsed" where
  "parse 0 k ps cs = NoFuel"
| "parse (Suc n) k ps cs = (case k of
     Line \<Rightarrow> parseline (parse n Pipe) (parse n Line) ps cs
   | Pipe \<Rightarrow> parsepipe (parse n Exec) (parse n Pipe) ps cs
   | Exec \<Rightarrow> parseexec (parse n Block) ps cs
   | Block \<Rightarrow> parseblock (parse n Line) ps cs)"

definition fuel :: "string \<Rightarrow> nat" where
  "fuel s = 4 * length s + 4"

section \<open>Ending the strings\<close>

text \<open>\<^verbatim>\<open>*eq = 0\<close> in the line \<open>buf\<close>; at the end of the line there is a 0 already.\<close>

definition put_nul :: "string \<Rightarrow> string \<Rightarrow> string" where
  "put_nul eq buf = (if eq = [] then buf else buf[length buf - length eq := NUL])"

text \<open>The recursion follows pointers to structures that were allocated earlier.\<close>

function nulterminate :: "cmd list \<Rightarrow> cptr \<Rightarrow> string \<Rightarrow> string" where
  "nulterminate cs p buf =
     (case cmd_at cs p of
        None \<Rightarrow> buf
      | Some (EXEC args) \<Rightarrow> fold (\<lambda>(q, eq). put_nul eq) args buf
      | Some (REDIR c file efile mode fd) \<Rightarrow> put_nul efile (if c < p then nulterminate cs c buf else buf)
      | Some (PIPE l r) \<Rightarrow> if l < p \<and> r < p then nulterminate cs r (nulterminate cs l buf) else buf
      | Some (LIST l r) \<Rightarrow> if l < p \<and> r < p then nulterminate cs r (nulterminate cs l buf) else buf
      | Some (BACK c) \<Rightarrow> if c < p then nulterminate cs c buf else buf)"
  by pat_completeness auto
termination by (relation "measure (\<lambda>(cs, p, buf). p)") auto

declare nulterminate.simps [simp del]

text \<open>The string at a pointer into the line, once the strings have been ended.\<close>

definition str_at :: "string \<Rightarrow> string \<Rightarrow> string" where
  "str_at buf q = takeWhile (\<lambda>c. c \<noteq> NUL) (drop (length buf - length q) buf)"

section \<open>Running\<close>

definition panic_u :: "'w syscalls \<Rightarrow> string \<Rightarrow> ('w, 'a) K" where
  "panic_u sys s =
     seq (fprintf_u sys 2 (''%s'' @ [LF]) [UStr s]) (
     exit_u sys 1)"

definition fork1 :: "'w syscalls \<Rightarrow> ('w, int) K" where
  "fork1 sys =
     bind (sc_fork sys) (\<lambda>pid.
     if pid = -1 then panic_u sys ''fork''
     else ret pid)"

text \<open>The result is the command with its store and the line after \<^verbatim>\<open>nulterminate\<close>.\<close>

definition parsecmd :: "'w syscalls \<Rightarrow> string \<Rightarrow> ('w, cptr \<times> cmd list \<times> string) K" where
  "parsecmd sys s =
     (case parse (fuel s) Line s [] of
        NoFuel \<Rightarrow> halt Diverges
      | Panics m \<Rightarrow> panic_u sys m
      | Done cmd r cs \<Rightarrow>
          let (_, r) = peek r [] in
          if r \<noteq> [] then
            seq (fprintf_u sys 2 (''leftovers: %s'' @ [LF]) [UStr r]) (
            panic_u sys ''syntax'')
          else ret (cmd, cs, nulterminate cs cmd s))"

text \<open>Each \<^verbatim>\<open>case\<close> of \<^verbatim>\<open>runcmd\<close> in the process that runs it: \<^verbatim>\<open>fork\<close> returns 0 in the child.\<close>

function runcmd :: "'w syscalls \<Rightarrow> cmd list \<Rightarrow> string \<Rightarrow> cptr \<Rightarrow> ('w, unit) K" where
  "runcmd sys cs buf p =
     (case cmd_at cs p of
        None \<Rightarrow> if p = 0 then exit_u sys 1 else fault
      | Some (EXEC args) \<Rightarrow>
          (case args of
             [] \<Rightarrow> exit_u sys 1
           | (q, _) # _ \<Rightarrow>
               seq (sc_exec sys (str_at buf q) (map (\<lambda>(q, eq). str_at buf q) args)) (
               seq (fprintf_u sys 2 (''exec %s failed'' @ [LF]) [UStr (str_at buf q)]) (
               exit_u sys 0)))
      | Some (REDIR c file efile mode fd) \<Rightarrow>
          seq (sc_close sys fd) (
          bind (sc_open sys (str_at buf file) mode) (\<lambda>r.
          if r < 0 then
            seq (fprintf_u sys 2 (''open %s failed'' @ [LF]) [UStr (str_at buf file)]) (
            exit_u sys 1)
          else if c < p then runcmd sys cs buf c
          else fault))
      | Some (LIST l r) \<Rightarrow>
          if l < p \<and> r < p then
            bind (fork1 sys) (\<lambda>pid.
            seq (whenK (pid = 0) (runcmd sys cs buf l)) (
            seq (sc_wait sys) (
            runcmd sys cs buf r)))
          else fault
      | Some (PIPE l r) \<Rightarrow>
          if l < p \<and> r < p then
            bind (sc_pipe sys) (\<lambda>(rc, p0, p1).
            seq (whenK (rc < 0) (panic_u sys ''pipe'')) (
            bind (fork1 sys) (\<lambda>pid.
            seq (whenK (pid = 0) (
              seq (sc_close sys 1) (
              seq (sc_dup sys p1) (
              seq (sc_close sys p0) (
              seq (sc_close sys p1) (
              runcmd sys cs buf l)))))) (
            bind (fork1 sys) (\<lambda>pid.
            seq (whenK (pid = 0) (
              seq (sc_close sys 0) (
              seq (sc_dup sys p0) (
              seq (sc_close sys p0) (
              seq (sc_close sys p1) (
              runcmd sys cs buf r)))))) (
            seq (sc_close sys p0) (
            seq (sc_close sys p1) (
            seq (sc_wait sys) (
            seq (sc_wait sys) (
            exit_u sys 0))))))))))
          else fault
      | Some (BACK c) \<Rightarrow>
          if c < p then
            bind (fork1 sys) (\<lambda>pid.
            seq (whenK (pid = 0) (runcmd sys cs buf c)) (
            exit_u sys 0))
          else fault)"
  by pat_completeness auto
termination by (relation "measure (\<lambda>(sys, cs, buf, p). p)") auto

declare runcmd.simps [simp del]

definition getcmd :: "'w syscalls \<Rightarrow> int \<Rightarrow> ('w, string option) K" where
  "getcmd sys nbuf =
     seq (sc_write sys 2 ''$ '') (
     bind (gets_u sys nbuf) (\<lambda>buf.
     if ch buf = NUL then ret None else ret (Some (takeWhile (\<lambda>c. c \<noteq> NUL) buf))))"

text \<open>The loop that makes sure three descriptors are open.\<close>

definition open_console :: "'w syscalls \<Rightarrow> unit \<Rightarrow> ('w, unit + unit) K" where
  "open_console sys u =
     bind (sc_open sys ''console'' O_RDWR_u) (\<lambda>fd.
     if fd \<ge> 0 then
       if fd \<ge> 3 then seq (sc_close sys fd) (ret (Inr ())) else ret (Inl ())
     else ret (Inr ()))"

definition shell_round :: "'w syscalls \<Rightarrow> unit \<Rightarrow> ('w, unit + unit) K" where
  "shell_round sys u =
     bind (getcmd sys 100) (\<lambda>line.
     case line of None \<Rightarrow> ret (Inr ())
     | Some buf \<Rightarrow>
         if take 3 buf = ''cd '' then
           let dir = drop 3 (butlast buf) in
           bind (sc_chdir sys dir) (\<lambda>r.
           seq (whenK (r < 0) (fprintf_u sys 2 (''cannot cd %s'' @ [LF]) [UStr dir])) (
           ret (Inl ())))
         else
           bind (fork1 sys) (\<lambda>pid.
           seq (whenK (pid = 0) (
             bind (parsecmd sys buf) (\<lambda>(cmd, cs, buf'). runcmd sys cs buf' cmd))) (
           seq (sc_wait sys) (
           ret (Inl ())))))"

definition sh_main :: "'w syscalls \<Rightarrow> ('w, unit) K" where
  "sh_main sys =
     seq (loopK (open_console sys) ()) (
     seq (loopK (shell_round sys) ()) (
     exit_u sys 0))"

end
