(* ===== verification/ShellProps.thy ===== *)
theory ShellProps
  imports Shell "HOL-Library.Sublist"
begin

text \<open>
  The parser of \<^verbatim>\<open>user/sh.c\<close> always ends, and what it returns is a well-formed command: a tree whose words are the words of the
  line.
\<close>

section \<open>Words\<close>

definition wordch :: "char \<Rightarrow> bool" where
  "wordch c \<longleftrightarrow> \<not> is_ws c \<and> \<not> is_sym c \<and> c \<noteq> NUL"

text \<open>A word of the line \<open>buf\<close>, from \<open>q\<close> up to \<open>eq\<close>.\<close>

definition word_ok :: "string \<Rightarrow> string \<times> string \<Rightarrow> bool" where
  "word_ok buf t \<longleftrightarrow> (\<exists>w. fst t = w @ snd t \<and> w \<noteq> [] \<and> list_all wordch w \<and> \<not> wordch (ch (snd t))) \<and> suffix (fst t) buf"

definition word :: "string \<times> string \<Rightarrow> string" where
  "word t = take (length (fst t) - length (snd t)) (fst t)"

lemma nul_no_wordch [simp]: "\<not> wordch NUL"
  by (simp add: wordch_def)

lemma skip_ws_suffix: "suffix (skip_ws s) s"
  by (induction s) (auto simp: suffix_Cons)

lemma skip_word_split:
  assumes "NUL \<notin> set s"
  shows "\<exists>w. s = w @ skip_word s \<and> list_all wordch w \<and> \<not> wordch (ch (skip_word s))"
  using assms
proof (induction s)
  case (Cons c s)
  show ?case
  proof (cases "\<not> is_ws c \<and> \<not> is_sym c")
    case True
    with Cons obtain w where "s = w @ skip_word s" "list_all wordch w" "\<not> wordch (ch (skip_word s))" by auto
    moreover have "wordch c" using True Cons.prems by (auto simp: wordch_def)
    ultimately show ?thesis using True by (intro exI [of _ "c # w"]) simp
  next
    case False
    then show ?thesis by (intro exI [of _ "[]"]) (auto simp: wordch_def)
  qed
qed simp

lemma gettoken_parts:
  assumes g: "gettoken s = (r, q, eq, s')" and nn: "NUL \<notin> set s"
  shows "suffix s' s" and "suffix q s" and "r = CHR ''a'' \<Longrightarrow> word_ok s (q, eq)"
proof -
  have q: "q = skip_ws s" and s': "s' = skip_ws eq" using g by (auto simp: gettoken_def Let_def split: prod.splits if_splits)
  have sq: "suffix q s" unfolding q by (rule skip_ws_suffix)
  then have nq: "NUL \<notin> set q" using nn set_mono_suffix by blast
  have sk: "suffix (skip_word q) q" using skip_word_split [OF nq] unfolding suffix_def by metis
  have "suffix eq q"
    using g sk unfolding q by (auto simp: gettoken_def Let_def split: if_splits intro: suffix_tl suffix_order.trans)
  then show "suffix s' s" "suffix q s" unfolding s' using sq skip_ws_suffix suffix_order.trans by blast+
  assume r: "r = CHR ''a''"
  have eq: "eq = skip_word q" and c: "ch q \<noteq> NUL" "\<not> is_sym (ch q)"
    using g r unfolding q by (auto simp: gettoken_def Let_def sym_cases split: if_splits)
  obtain w where w: "q = w @ skip_word q" "list_all wordch w" "\<not> wordch (ch (skip_word q))"
    using skip_word_split [OF nq] by blast
  have "w \<noteq> []"
  proof
    assume "w = []"
    with w have "\<not> wordch (ch q)" by simp
    moreover have "q \<noteq> []" using c(1) by auto
    then have "\<not> is_ws (ch q)" using skip_ws_not_ws [of s] q by simp
    ultimately show False using c by (simp add: wordch_def)
  qed
  with w sq show "word_ok s (q, eq)" unfolding word_ok_def eq by auto
qed

lemma peek_parts: "peek ps toks = (b, s) \<Longrightarrow> suffix s ps"
  by (auto simp: peek_def Let_def skip_ws_suffix)

lemma word_ok_suffix: "word_ok s t \<Longrightarrow> suffix s buf \<Longrightarrow> word_ok buf t"
  unfolding word_ok_def using suffix_order.trans by blast

section \<open>Well-formed commands\<close>

definition redir_modes :: "(int \<times> int) set" where
  "redir_modes = {(O_RDONLY_u, 0), (or (or O_WRONLY_u O_CREATE_u) O_TRUNC_u, 1), (or O_WRONLY_u O_CREATE_u, 1)}"

text \<open>A structure at pointer \<open>p\<close>: it points to earlier structures only, has less than ten arguments, and names words of the
  line.\<close>

definition cmd_ok :: "string \<Rightarrow> cptr \<Rightarrow> cmd \<Rightarrow> bool" where
  "cmd_ok buf p c = (case c of
     EXEC args \<Rightarrow> length args < MAXARGS \<and> list_all (word_ok buf) args
   | REDIR c file efile mode fd \<Rightarrow> 0 < c \<and> c < p \<and> word_ok buf (file, efile) \<and> (mode, fd) \<in> redir_modes
   | PIPE l r \<Rightarrow> 0 < l \<and> l < p \<and> 0 < r \<and> r < p
   | LIST l r \<Rightarrow> 0 < l \<and> l < p \<and> 0 < r \<and> r < p
   | BACK c \<Rightarrow> 0 < c \<and> c < p)"

definition store_ok :: "string \<Rightarrow> cmd list \<Rightarrow> bool" where
  "store_ok buf cs \<longleftrightarrow> (\<forall>i < length cs. cmd_ok buf (i + 1) (cs ! i))"

definition messages :: "string set" where
  "messages = {''missing file for redirection'', ''parseblock'', ''syntax - missing )'', ''syntax'', ''too many args''}"

text \<open>What a parsing function called at \<open>ps\<close> with store \<open>cs\<close> may return.\<close>

definition good :: "string \<Rightarrow> string \<Rightarrow> cmd list \<Rightarrow> cptr parsed \<Rightarrow> bool" where
  "good buf ps cs x = (case x of
     Done p s cs' \<Rightarrow> suffix s ps \<and> store_ok buf cs' \<and> 0 < p \<and> p \<le> length cs' \<and> length cs \<le> length cs'
   | Panics m \<Rightarrow> m \<in> messages
   | NoFuel \<Rightarrow> False)"

lemma good_simps [simp]:
  "good buf ps cs (Done p s cs') \<longleftrightarrow> suffix s ps \<and> store_ok buf cs' \<and> 0 < p \<and> p \<le> length cs' \<and> length cs \<le> length cs'"
  "good buf ps cs (Panics m) \<longleftrightarrow> m \<in> messages" "\<not> good buf ps cs NoFuel"
  by (simp_all add: good_def)

lemma good_andthen:
  assumes "good buf ps cs x"
    and "\<And>p s cs'. x = Done p s cs' \<Longrightarrow> good buf ps cs (Done p s cs') \<Longrightarrow> good buf ps cs (f p s cs')"
  shows "good buf ps cs (andthen x f)"
  using assms by (cases x) (auto simp: andthen_def)

lemma good_weaken: "good buf s cs' x \<Longrightarrow> suffix s ps \<Longrightarrow> length cs \<le> length cs' \<Longrightarrow> good buf ps cs x"
  using suffix_order.trans by (auto simp: good_def split: parsed.splits)

lemma store_ok_new: "store_ok buf cs \<Longrightarrow> cmd_ok buf (length cs + 1) c \<Longrightarrow> store_ok buf (cs @ [c])"
  by (auto simp: store_ok_def nth_append less_Suc_eq)

section \<open>The loops\<close>

lemma redirect_ok:
  assumes "store_ok buf cs" and "0 < cmd" and "cmd \<le> length cs" and "word_ok buf (q, eq)"
  shows "store_ok buf (snd (redirect tok cmd q eq cs))" and "0 < fst (redirect tok cmd q eq cs)"
    and "fst (redirect tok cmd q eq cs) \<le> length (snd (redirect tok cmd q eq cs))"
    and "length cs \<le> length (snd (redirect tok cmd q eq cs))"
    and "prefix cs (snd (redirect tok cmd q eq cs))"
  using assms by (auto simp: redirect_def redircmd_def new_cmd_def redir_modes_def cmd_ok_def intro!: store_ok_new)

lemma parseredirs_good:
  assumes "NUL \<notin> set buf" and "suffix ps buf" and "store_ok buf cs" and "0 < cmd" and "cmd \<le> length cs"
  shows "good buf ps cs (parseredirs cmd ps cs)"
  using assms(2-)
proof (induction cmd ps cs rule: parseredirs_cases)
  case (stop cmd ps cs s)
  then show ?case using parseredirs_end [OF stop(1)] peek_parts [OF stop(1)] by simp
next
  case (step cmd ps cs s tok q0 eq0 s1 r q eq s2)
  have s: "suffix s ps" using peek_parts step.hyps(1) .
  have nn: "NUL \<notin> set x" if "suffix x ps" for x
    using assms(1) step.prems(1) that by (meson set_mono_suffix subsetD)
  have s1: "suffix s1 ps" using gettoken_parts(1) [OF step.hyps(2) nn [OF s]] s suffix_order.trans by blast
  then have s2: "suffix s2 ps" using gettoken_parts(1) [OF step.hyps(3) nn [OF s1]] suffix_order.trans by blast
  show ?case
  proof (cases "r = CHR ''a''")
    case True
    have w: "word_ok buf (q, eq)"
      using gettoken_parts(3) [OF step.hyps(3) nn [OF s1] True] word_ok_suffix s1 step.prems(1) suffix_order.trans by blast
    note rd = redirect_ok [OF step.prems(2-4) w, of tok]
    have "good buf s2 (snd (redirect tok cmd q eq cs)) (parseredirs (fst (redirect tok cmd q eq cs)) s2 (snd (redirect tok cmd q eq cs)))"
      using s2 step.prems(1) rd suffix_order.trans by (intro step.IH) auto
    then show ?thesis using True good_weaken [OF _ s2 rd(4)] parseredirs_step(1) [OF step.hyps(1-3)] by simp
  next
    case False
    then show ?thesis using parseredirs_step(1) [OF step.hyps(1-3)] by (simp add: messages_def)
  qed
qed

lemma parseredirs_prefix: "parseredirs cmd ps cs = Done p s cs' \<Longrightarrow> prefix cs cs'"
proof (induction cmd ps cs rule: parseredirs_cases)
  case (stop cmd ps cs s')
  then show ?case using parseredirs_end [OF stop(1)] by simp
next
  case (step cmd ps cs s0 tok q0 eq0 s1 r q eq s2)
  have "prefix cs (snd (redirect tok cmd q eq cs))" by (simp add: redirect_def redircmd_def new_cmd_def)
  moreover have "prefix (snd (redirect tok cmd q eq cs)) cs'"
    using step.prems by (intro step.IH) (simp add: parseredirs_step(1) [OF step.hyps(1-3)] split: if_splits)
  ultimately show ?case by (rule prefix_order.trans)
qed

lemma cmd_at_prefix: "prefix cs cs' \<Longrightarrow> cmd_at cs p = Some c \<Longrightarrow> cmd_at cs' p = Some c"
  by (auto simp: cmd_at_def prefix_def nth_append split: if_splits)

lemma add_arg_ok:
  assumes "store_ok buf cs" and "cmd_at cs c = Some (EXEC args)" and "length args + 1 < MAXARGS" and "word_ok buf (q, eq)"
  shows "store_ok buf (add_arg c q eq cs)" and "cmd_at (add_arg c q eq cs) c = Some (EXEC (args @ [(q, eq)]))"
    and "length (add_arg c q eq cs) = length cs"
proof -
  have c: "0 < c" "c \<le> length cs" "cs ! (c - 1) = EXEC args" using assms(2) by (auto simp: cmd_at_def split: if_splits)
  have a: "add_arg c q eq cs = cs[c - 1 := EXEC (args @ [(q, eq)])]" using assms(2) by (simp add: add_arg_def)
  show "length (add_arg c q eq cs) = length cs" "cmd_at (add_arg c q eq cs) c = Some (EXEC (args @ [(q, eq)]))"
    using c by (simp_all add: a cmd_at_def)
  have "cmd_ok buf c (EXEC args)" using assms(1) c unfolding store_ok_def by (metis Suc_diff_1 Suc_le_lessD add.commute plus_1_eq_Suc)
  then have "cmd_ok buf c (EXEC (args @ [(q, eq)]))" using assms(3,4) by (simp add: cmd_ok_def)
  then show "store_ok buf (add_arg c q eq cs)" using assms(1) c by (auto simp: a store_ok_def nth_list_update)
qed

lemma parseargs_good:
  assumes "NUL \<notin> set buf" and "suffix ps buf" and "store_ok buf cs" and "0 < r" and "r \<le> length cs"
    and "cmd_at cs c = Some (EXEC args)" and "length args = argc" and "argc < MAXARGS"
  shows "good buf ps cs (parseargs c r argc ps cs)"
  using assms(2-)
proof (induction "length ps" arbitrary: r argc ps cs args rule: less_induct)
  case less
  obtain stop s where pk: "peek ps ''|)&;'' = (stop, s)" by fastforce
  obtain tok q eq s1 where g: "gettoken s = (tok, q, eq, s1)" by (metis prod_cases4)
  have s: "suffix s ps" using peek_parts [OF pk] .
  have ns: "NUL \<notin> set s" using assms(1) s less.prems(1) by (meson set_mono_suffix subsetD)
  have s1: "suffix s1 ps" using gettoken_parts(1) [OF g ns] s suffix_order.trans by blast
  note step = parseargs.simps [of c r argc ps cs, unfolded pk, simplified, unfolded g, simplified]
  show ?case
  proof (cases "stop \<or> tok = NUL \<or> tok \<noteq> CHR ''a'' \<or> argc + 1 \<ge> MAXARGS")
    case True
    then show ?thesis using s s1 less.prems by (auto simp: step messages_def)
  next
    case False
    have w: "word_ok buf (q, eq)"
      using False gettoken_parts(3) [OF g ns] word_ok_suffix s less.prems(1) suffix_order.trans by blast
    let ?cs = "add_arg c q eq cs"
    have a: "store_ok buf ?cs" "cmd_at ?cs c = Some (EXEC (args @ [(q, eq)]))" "length ?cs = length cs"
      using add_arg_ok [OF less.prems(2,5) _ w] False less.prems(6) by auto
    have s1b: "suffix s1 buf" using s1 less.prems(1) suffix_order.trans by blast
    have rd: "good buf s1 ?cs (parseredirs r s1 ?cs)"
      using less.prems(3,4) a by (intro parseredirs_good [OF assms(1) s1b]) auto
    have "good buf ps cs (andthen (parseredirs r s1 ?cs) (\<lambda>r' s2 cs'. parseargs c r' (argc + 1) s2 cs'))"
    proof (rule good_andthen [OF good_weaken [OF rd s1]])
      show "length cs \<le> length ?cs" using a by simp
    next
      fix r' s2 cs' assume d: "parseredirs r s1 ?cs = Done r' s2 cs'"
      then have g2: "suffix s2 s1" "store_ok buf cs'" "0 < r'" "r' \<le> length cs'" "length cs \<le> length cs'"
        using rd a by auto
      have lt: "length s2 < length ps"
        using gettoken_less [OF g] False suffix_length_le [OF g2(1)] suffix_length_le [OF s] by simp
      have at: "cmd_at cs' c = Some (EXEC (args @ [(q, eq)]))"
        using cmd_at_prefix [OF parseredirs_prefix [OF d] a(2)] .
      have s2: "suffix s2 buf" "suffix s2 ps" using g2(1) s1b s1 suffix_order.trans by blast+
      have "good buf s2 cs' (parseargs c r' (argc + 1) s2 cs')"
        using less.hyps [OF lt s2(1) g2(2-4) at] False less.prems(6) by simp
      then show "good buf ps cs (parseargs c r' (argc + 1) s2 cs')" using good_weaken s2(2) g2(5) by blast
    qed
    then show ?thesis using False by (simp add: step)
  qed
qed

lemma parseback_good:
  assumes "NUL \<notin> set buf" and "suffix ps buf" and "store_ok buf cs" and "0 < cmd" and "cmd \<le> length cs"
  shows "good buf ps cs (parseback cmd ps cs)"
  using assms(2-)
proof (induction "length ps" arbitrary: cmd ps cs rule: less_induct)
  case less
  obtain go s where pk: "peek ps ''&'' = (go, s)" by fastforce
  obtain tok q eq s1 where g: "gettoken s = (tok, q, eq, s1)" by (metis prod_cases4)
  have s: "suffix s ps" using peek_parts [OF pk] .
  have ns: "NUL \<notin> set s" using assms(1) s less.prems(1) by (meson set_mono_suffix subsetD)
  have s1: "suffix s1 ps" using gettoken_parts(1) [OF g ns] s suffix_order.trans by blast
  note step = parseback.simps [of cmd ps cs, unfolded pk, simplified, unfolded g, simplified]
  show ?case
  proof (cases go)
    case True
    have lt: "length s1 < length ps" using peek_gettoken_less [OF _ g] pk True by simp
    have s1b: "suffix s1 buf" using s1 less.prems(1) suffix_order.trans by blast
    let ?cs = "cs @ [BACK cmd]"
    have "store_ok buf ?cs" using less.prems by (intro store_ok_new) (auto simp: cmd_ok_def)
    then have "good buf s1 ?cs (parseback (length cs + 1) s1 ?cs)" by (intro less.hyps lt s1b) auto
    then have "good buf ps cs (parseback (length cs + 1) s1 ?cs)" by (rule good_weaken [OF _ s1]) simp
    then show ?thesis using True by (simp add: step backcmd_def new_cmd_def)
  next
    case False
    then show ?thesis using s less.prems by (simp add: step)
  qed
qed

section \<open>The recursive functions\<close>

lemma token_taken:
  assumes "peek ps toks = (True, s)" and "gettoken s = (r, q, eq, s1)" and "NUL \<notin> set buf" and "suffix ps buf"
  shows "suffix s1 ps" and "suffix s1 buf" and "length s1 < length ps"
proof -
  have s: "suffix s ps" using peek_parts assms(1) .
  then have "NUL \<notin> set s" using assms(3,4) by (meson set_mono_suffix subsetD)
  from gettoken_parts(1) [OF assms(2) this] s show "suffix s1 ps" using suffix_order.trans by blast
  then show "suffix s1 buf" using assms(4) suffix_order.trans by blast
  show "length s1 < length ps" using peek_gettoken_less [OF assms(1,2)] .
qed

text \<open>A function that parses well at the places of the line of length below \<open>n\<close>.\<close>

definition parses :: "string \<Rightarrow> nat \<Rightarrow> (string \<Rightarrow> cmd list \<Rightarrow> cptr parsed) \<Rightarrow> bool" where
  "parses buf n f \<longleftrightarrow> (\<forall>ps cs. suffix ps buf \<longrightarrow> length ps < n \<longrightarrow> store_ok buf cs \<longrightarrow> good buf ps cs (f ps cs))"

lemma parsesD: "parses buf n f \<Longrightarrow> suffix ps buf \<Longrightarrow> length ps < n \<Longrightarrow> store_ok buf cs \<Longrightarrow> good buf ps cs (f ps cs)"
  by (auto simp: parses_def)

text \<open>The shape the two binary operators share: an operand, the operator, the other operand.\<close>

lemma good_operator:
  assumes nn: "NUL \<notin> set buf" and sb: "suffix ps buf"
    and cmd: "good buf ps cs (Done cmd s cs1)"
    and f: "\<And>s1. suffix s1 buf \<Longrightarrow> length s1 < length ps \<Longrightarrow> good buf s1 cs1 (f s1 cs1)"
    and mk: "\<And>l r cs. mk l r cs = new_cmd (M l r) cs"
    and M: "\<And>l r p. 0 < l \<Longrightarrow> l < p \<Longrightarrow> 0 < r \<Longrightarrow> r < p \<Longrightarrow> cmd_ok buf p (M l r)"
  shows "good buf ps cs (let (go, s) = peek s toks in
     if go then
       let (_, _, _, s1) = gettoken s in
       andthen (f s1 cs1) (\<lambda>right s cs. let (cmd', cs') = mk cmd right cs in Done cmd' s cs')
     else Done cmd s cs1)"
proof -
  obtain go s' where pk: "peek s toks = (go, s')" by fastforce
  obtain tok q eq s1 where g: "gettoken s' = (tok, q, eq, s1)" by (metis prod_cases4)
  have s: "suffix s ps" "suffix s buf" using cmd sb suffix_order.trans by auto
  show ?thesis
  proof (cases go)
    case True
    then have pk': "peek s toks = (True, s')" using pk by simp
    note t = token_taken [OF pk' g nn s(2)]
    have s1: "suffix s1 ps" using t(1) s(1) suffix_order.trans by blast
    have gf: "good buf s1 cs1 (f s1 cs1)" using t suffix_length_le [OF s(1)] by (intro f) auto
    have "good buf ps cs (andthen (f s1 cs1) (\<lambda>right s cs. let (cmd', cs') = mk cmd right cs in Done cmd' s cs'))"
    proof (rule good_andthen)
      show "good buf ps cs (f s1 cs1)" using good_weaken [OF gf s1] cmd by simp
      fix right s cs' assume "f s1 cs1 = Done right s cs'" "good buf ps cs (Done right s cs')"
      then show "good buf ps cs (let (cmd', cs') = mk cmd right cs' in Done cmd' s cs')"
        using gf cmd by (auto simp: mk new_cmd_def intro!: store_ok_new M)
    qed
    then show ?thesis using True pk g by simp
  next
    case False
    then show ?thesis using pk cmd peek_parts [OF pk] suffix_order.trans by auto
  qed
qed

lemma parsepipe_good:
  assumes "NUL \<notin> set buf" and "suffix ps buf" and "store_ok buf cs"
    and "parses buf (Suc (length ps)) f" and "parses buf (length ps) g"
  shows "good buf ps cs (parsepipe f g ps cs)"
  unfolding parsepipe_def
proof (rule good_andthen)
  show "good buf ps cs (f ps cs)" using assms by (intro parsesD) auto
  fix cmd s cs' assume "good buf ps cs (Done cmd s cs')"
  then show "good buf ps cs (let (go, s) = peek s ''|'' in
     if go then let (_, _, _, s1) = gettoken s in
       andthen (g s1 cs') (\<lambda>right s cs. let (cmd', cs') = pipecmd cmd right cs in Done cmd' s cs')
     else Done cmd s cs')"
    using parsesD [OF assms(5)]
    by (intro good_operator [where mk = pipecmd and M = PIPE] assms) (auto simp: pipecmd_def cmd_ok_def)
qed

lemma parseline_good:
  assumes "NUL \<notin> set buf" and "suffix ps buf" and "store_ok buf cs"
    and "parses buf (Suc (length ps)) f" and "parses buf (length ps) g"
  shows "good buf ps cs (parseline f g ps cs)"
  unfolding parseline_def
proof (rule good_andthen)
  show "good buf ps cs (f ps cs)" using assms by (intro parsesD) auto
  fix cmd s cs1 assume c: "good buf ps cs (Done cmd s cs1)"
  have sb: "suffix s buf" using c assms(2) suffix_order.trans by auto
  have gb: "good buf s cs1 (parseback cmd s cs1)" using c by (intro parseback_good [OF assms(1) sb]) auto
  show "good buf ps cs (andthen (parseback cmd s cs1) (\<lambda>cmd s cs.
     let (go, s) = peek s '';'' in
     if go then let (_, _, _, s1) = gettoken s in
       andthen (g s1 cs) (\<lambda>right s cs. let (cmd', cs') = listcmd cmd right cs in Done cmd' s cs')
     else Done cmd s cs))"
  proof (rule good_andthen)
    show "good buf ps cs (parseback cmd s cs1)" using good_weaken [OF gb] c by simp
    fix cmd s cs' assume "good buf ps cs (Done cmd s cs')"
    then show "good buf ps cs (let (go, s) = peek s '';'' in
       if go then let (_, _, _, s1) = gettoken s in
         andthen (g s1 cs') (\<lambda>right s cs. let (cmd', cs') = listcmd cmd right cs in Done cmd' s cs')
       else Done cmd s cs')"
      using parsesD [OF assms(5)]
      by (intro good_operator [where mk = listcmd and M = LIST] assms) (auto simp: listcmd_def cmd_ok_def)
  qed
qed

lemma parseexec_good:
  assumes "NUL \<notin> set buf" and "suffix ps buf" and "store_ok buf cs" and "parses buf (Suc (length ps)) f"
  shows "good buf ps cs (parseexec f ps cs)"
proof -
  obtain block s where pk: "peek ps ''('' = (block, s)" by fastforce
  have s: "suffix s ps" using peek_parts [OF pk] .
  then have sb: "suffix s buf" using assms(2) suffix_order.trans by blast
  show ?thesis
  proof (cases block)
    case True
    have "good buf s cs (f s cs)" using parsesD [OF assms(4) sb _ assms(3)] suffix_length_le [OF s] by simp
    then have "good buf ps cs (f s cs)" by (rule good_weaken [OF _ s]) simp
    then show ?thesis using True pk by (simp add: parseexec_def)
  next
    case False
    let ?cs = "cs @ [EXEC []]" and ?r = "length cs + 1"
    have ok: "store_ok buf ?cs" using assms(3) by (intro store_ok_new) (auto simp: cmd_ok_def MAXARGS_def)
    have rd: "good buf s ?cs (parseredirs ?r s ?cs)" using ok by (intro parseredirs_good assms(1) sb) auto
    have "good buf ps cs (andthen (parseredirs ?r s ?cs) (\<lambda>r' s cs. parseargs ?r r' 0 s cs))"
    proof (rule good_andthen)
      show "good buf ps cs (parseredirs ?r s ?cs)" using good_weaken [OF rd s] by simp
      fix r' s' cs' assume d: "parseredirs ?r s ?cs = Done r' s' cs'"
      have at: "cmd_at cs' ?r = Some (EXEC [])"
        by (rule cmd_at_prefix [OF parseredirs_prefix [OF d]]) (simp add: cmd_at_def nth_append)
      have g: "suffix s' s" "store_ok buf cs'" "0 < r'" "r' \<le> length cs'" "length ?cs \<le> length cs'" using rd d by auto
      have "good buf s' cs' (parseargs ?r r' 0 s' cs')"
        using g sb suffix_order.trans by (intro parseargs_good [OF assms(1) _ _ _ _ at]) (auto simp: MAXARGS_def)
      then show "good buf ps cs (parseargs ?r r' 0 s' cs')"
        by (rule good_weaken) (use g s suffix_order.trans in auto)
    qed
    then show ?thesis using False pk by (simp add: parseexec_def execcmd_def new_cmd_def)
  qed
qed

lemma parseblock_good:
  assumes nn: "NUL \<notin> set buf" and sb: "suffix ps buf" and st: "store_ok buf cs" and f: "parses buf (length ps) f"
  shows "good buf ps cs (parseblock f ps cs)"
proof -
  obtain go s where pk: "peek ps ''('' = (go, s)" by fastforce
  obtain tok q eq s1 where g: "gettoken s = (tok, q, eq, s1)" by (metis prod_cases4)
  show ?thesis
  proof (cases go)
    case True
    then have pk': "peek ps ''('' = (True, s)" using pk by simp
    note t = token_taken [OF pk' g nn sb]
    have gf: "good buf s1 cs (f s1 cs)" using t st by (intro parsesD [OF f]) auto
    have "good buf ps cs (andthen (f s1 cs) (\<lambda>cmd s cs.
        let (close, s) = peek s '')'' in
        if \<not> close then Panics ''syntax - missing )''
        else let (_, _, _, s1) = gettoken s in parseredirs cmd s1 cs))"
    proof (rule good_andthen)
      show "good buf ps cs (f s1 cs)" using good_weaken [OF gf t(1)] by simp
      fix cmd s2 cs' assume c: "good buf ps cs (Done cmd s2 cs')"
      obtain close s3 where pk2: "peek s2 '')'' = (close, s3)" by fastforce
      obtain tok q eq s4 where g2: "gettoken s3 = (tok, q, eq, s4)" by (metis prod_cases4)
      have "good buf ps cs (parseredirs cmd s4 cs')" if close
      proof -
        have "peek s2 '')'' = (True, s3)" using pk2 that by simp
        moreover have "suffix s2 buf" using c sb suffix_order.trans by auto
        ultimately have t2: "suffix s4 s2" "suffix s4 buf" using token_taken g2 nn by blast+
        have "good buf s4 cs' (parseredirs cmd s4 cs')" using c by (intro parseredirs_good nn t2(2)) auto
        then show ?thesis by (rule good_weaken) (use c t2 suffix_order.trans in auto)
      qed
      then show "good buf ps cs (let (close, s) = peek s2 '')'' in
          if \<not> close then Panics ''syntax - missing )''
          else let (_, _, _, s1) = gettoken s in parseredirs cmd s1 cs')"
        using pk2 g2 by (auto simp: messages_def)
    qed
    then show ?thesis using True pk g by (simp add: parseblock_def)
  next
    case False
    then show ?thesis using pk by (simp add: parseblock_def messages_def)
  qed
qed

text \<open>The fuel each function needs at a place.\<close>

primrec rank :: "part \<Rightarrow> nat" where
  "rank Block = 1" | "rank Exec = 2" | "rank Pipe = 3" | "rank Line = 4"

lemma parse_parses:
  assumes "NUL \<notin> set buf"
  shows "4 * l + rank k \<le> n + 4 \<Longrightarrow> parses buf l (parse n k)"
proof (induction n arbitrary: l k)
  case 0
  then have "l = 0" by (cases k) auto
  then show ?case by (simp add: parses_def)
next
  case (Suc n)
  show ?case
    unfolding parses_def
  proof (intro allI impI)
    fix ps cs assume a: "suffix ps buf" "length ps < l" "store_ok buf cs"
    have le: "4 * length ps + rank k \<le> Suc n" using a(2) Suc.prems by simp
    show "good buf ps cs (parse (Suc n) k ps cs)"
    proof (cases k)
      case Line
      then show ?thesis using le a by (auto intro!: parseline_good assms Suc.IH)
    next
      case Pipe
      then show ?thesis using le a by (auto intro!: parsepipe_good assms Suc.IH)
    next
      case Exec
      then show ?thesis using le a by (auto intro!: parseexec_good assms Suc.IH)
    next
      case Block
      then show ?thesis using le a by (auto intro!: parseblock_good assms Suc.IH)
    qed
  qed
qed

lemma parse_good: "NUL \<notin> set s \<Longrightarrow> good s s [] (parse (fuel s) Line s [])"
  using parse_parses [of s "Suc (length s)" Line "fuel s"] by (auto simp: parses_def fuel_def store_ok_def)

text \<open>
  C8. The parser of the shell ends on every line: with fuel for a depth of four calls per character it returns either one of its
  five error messages or a command. In the latter case every structure points only to structures allocated before it, so that
  the commands form a tree; it has less than ten arguments; its arguments and files are non-empty words of the line, without
  white space or symbols and ended by one of those or by the end of the line; and the rest of the line is an end of it.
\<close>

theorem parse_total:
  assumes "NUL \<notin> set s"
  shows "good s s [] (parse (fuel s) Line s [])"
  using parse_good [OF assms] .

theorem parse_total_witness:
  "list_all (\<lambda>s. good s s [] (parse (fuel s) Line s [])) [''ls > a b | (c ; d) &'', ''a > b | (c'', ''a >'']"
  by (simp add: parse_total)

section \<open>The strings after the parse\<close>

text \<open>The words of the command at \<open>p\<close>.\<close>

function words_of :: "cmd list \<Rightarrow> cptr \<Rightarrow> (string \<times> string) list" where
  "words_of cs p =
     (case cmd_at cs p of
        None \<Rightarrow> []
      | Some (EXEC args) \<Rightarrow> args
      | Some (REDIR c file efile mode fd) \<Rightarrow> (file, efile) # (if c < p then words_of cs c else [])
      | Some (PIPE l r) \<Rightarrow> if l < p \<and> r < p then words_of cs l @ words_of cs r else []
      | Some (LIST l r) \<Rightarrow> if l < p \<and> r < p then words_of cs l @ words_of cs r else []
      | Some (BACK c) \<Rightarrow> if c < p then words_of cs c else [])"
  by pat_completeness auto
termination by (relation "measure (\<lambda>(cs, p). p)") auto

declare words_of.simps [simp del]

definition end_of :: "string \<Rightarrow> string \<times> string \<Rightarrow> nat" where
  "end_of buf t = length buf - length (snd t)"

definition ends_at :: "nat \<Rightarrow> (string \<times> string) list \<Rightarrow> nat \<Rightarrow> bool" where
  "ends_at n ts i \<longleftrightarrow> (\<exists>t \<in> set ts. n - length (snd t) = i)"

lemma ends_at_simps [simp]:
  "\<not> ends_at n [] i" "ends_at n (t # ts) i \<longleftrightarrow> n - length (snd t) = i \<or> ends_at n ts i"
  "ends_at n (ts @ us) i \<longleftrightarrow> ends_at n ts i \<or> ends_at n us i"
  by (auto simp: ends_at_def)

lemma put_nul_length [simp]: "length (put_nul eq buf) = length buf"
  by (simp add: put_nul_def)

lemma put_nul_nth:
  assumes "i < length buf" and "length eq \<le> length buf"
  shows "put_nul eq buf ! i = (if i = length buf - length eq then NUL else buf ! i)"
  using assms by (auto simp: put_nul_def nth_list_update)

lemma ends_length [simp]: "length (fold (\<lambda>(q, eq). put_nul eq) ts buf) = length buf"
  by (induction ts arbitrary: buf) auto

lemma ends_nth:
  assumes "i < length buf" and "\<And>t. t \<in> set ts \<Longrightarrow> length (snd t) \<le> length buf"
  shows "fold (\<lambda>(q, eq). put_nul eq) ts buf ! i = (if ends_at (length buf) ts i then NUL else buf ! i)"
  using assms
proof (induction ts arbitrary: buf)
  case (Cons t ts)
  obtain q eq where t: "t = (q, eq)" by fastforce
  have le: "length eq \<le> length buf" using Cons.prems(2) t by fastforce
  have "fold (\<lambda>(q, eq). put_nul eq) ts (put_nul eq buf) ! i =
      (if ends_at (length (put_nul eq buf)) ts i then NUL else put_nul eq buf ! i)"
    using Cons.prems by (intro Cons.IH) auto
  then show ?case using Cons.prems(1) le by (auto simp: t put_nul_nth)
qed simp

lemma nulterminate_length [simp]: "length (nulterminate cs p buf) = length buf"
proof (induction cs p buf rule: nulterminate.induct)
  case (1 cs p buf)
  then show ?case by (subst nulterminate.simps) (auto split: option.split cmd.split)
qed

text \<open>\<^verbatim>\<open>nulterminate\<close> ends the words of the command and changes nothing else.\<close>

lemma nulterminate_nth:
  assumes "i < length buf" and "\<And>t. t \<in> set (words_of cs p) \<Longrightarrow> length (snd t) \<le> length buf"
  shows "nulterminate cs p buf ! i = (if ends_at (length buf) (words_of cs p) i then NUL else buf ! i)"
  using assms
proof (induction cs p buf rule: nulterminate.induct)
  case (1 cs p buf)
  show ?case
  proof (cases "cmd_at cs p")
    case None
    then show ?thesis by (simp add: nulterminate.simps [of cs p] words_of.simps [of cs p])
  next
    case (Some c)
    note n = nulterminate.simps [of cs p buf] and w = words_of.simps [of cs p]
    show ?thesis
    proof (cases c)
      case (EXEC args)
      then show ?thesis using Some 1 by (simp add: n w ends_nth)
    next
      case (REDIR d fl efl mode fd)
      have "nulterminate cs d buf ! i = (if ends_at (length buf) (words_of cs d) i then NUL else buf ! i)" if "d < p"
        using 1 that Some REDIR by (simp add: w)
      moreover have "length efl \<le> length buf" using 1(8) [of "(fl, efl)"] Some REDIR by (simp add: w)
      ultimately show ?thesis using Some REDIR 1(7) by (auto simp: n w put_nul_nth)
    next
      case (PIPE l r)
      then show ?thesis using Some 1 by (auto simp: n w)
    next
      case (LIST l r)
      then show ?thesis using Some 1 by (auto simp: n w)
    next
      case (BACK d)
      then show ?thesis using Some 1 by (simp add: n w)
    qed
  qed
qed

lemma store_okD: "store_ok buf cs \<Longrightarrow> cmd_at cs p = Some c \<Longrightarrow> cmd_ok buf p c"
  unfolding store_ok_def cmd_at_def by (cases p) (auto split: if_splits)

lemma words_of_ok: "store_ok buf cs \<Longrightarrow> list_all (word_ok buf) (words_of cs p)"
proof (induction cs p rule: words_of.induct)
  case (1 cs p)
  show ?case
  proof (cases "cmd_at cs p")
    case (Some c)
    with 1 store_okD [OF 1(7) Some] show ?thesis
      by (subst words_of.simps) (auto simp: cmd_ok_def split: cmd.splits)
  qed (simp add: words_of.simps)
qed

text \<open>A word is read off the line when it has been ended and none of its characters has been changed.\<close>

lemma str_at_word:
  assumes w: "word_ok s t" and len: "length b = length s"
    and keep: "\<And>i. i < length s \<Longrightarrow> wordch (s ! i) \<Longrightarrow> b ! i = s ! i"
    and fin: "snd t \<noteq> [] \<Longrightarrow> b ! end_of s t = NUL"
  shows "str_at b (fst t) = word t" and "word t \<noteq> []" and "list_all wordch (word t)"
proof -
  obtain x eq where t: "t = (x @ eq, eq)" and x: "x \<noteq> []" "list_all wordch x"
    using w unfolding word_ok_def by (metis prod.collapse)
  obtain a where s: "s = a @ x @ eq" using w t unfolding word_ok_def suffix_def by auto
  have word: "word t = x" by (simp add: word_def t)
  show "word t \<noteq> []" "list_all wordch (word t)" using x word by simp_all
  have "b ! (length a + i) = x ! i" if "i < length x" for i
    using keep [of "length a + i"] that x(2) by (simp add: s nth_append list_all_length)
  then have pre: "take (length x) (drop (length a) b) = x" using len by (intro nth_equalityI) (auto simp: s)
  have d: "drop (length b - length (fst t)) b = x @ drop (length a + length x) b"
    using append_take_drop_id [of "length x" "drop (length a) b"] pre len by (simp add: t s add.commute)
  have e: "takeWhile (\<lambda>c. c \<noteq> NUL) (drop (length a + length x) b) = []"
  proof (cases eq)
    case Nil
    then show ?thesis using len by (simp add: s)
  next
    case (Cons c eq')
    then have "b ! (length a + length x) = NUL" using fin by (simp add: t s end_of_def)
    then show ?thesis using len Cons by (simp add: s Cons_nth_drop_Suc [symmetric])
  qed
  have "\<forall>c \<in> set x. c \<noteq> NUL" using x(2) by (auto simp: list_all_iff wordch_def)
  then show "str_at b (fst t) = word t" unfolding str_at_def d word using e by (simp add: takeWhile_append)
qed

text \<open>
  C2. After a successful parse of a line, the strings the shell passes to \<^verbatim>\<open>exec\<close> and \<^verbatim>\<open>open\<close> are the words
  of the command: \<^verbatim>\<open>nulterminate\<close>, which writes a 0 after every word in the line the words share, leaves at the start
  of each argument and file name of the tree exactly the characters of that word, which is not empty and has no white space or
  symbol in it.
\<close>

theorem nulterminate_words:
  assumes "NUL \<notin> set s" and "parse (fuel s) Line s [] = Done p r cs"
  shows "\<forall>t \<in> set (words_of cs p). str_at (nulterminate cs p s) (fst t) = word t \<and> word t \<noteq> [] \<and> list_all wordch (word t)"
proof
  fix t assume t: "t \<in> set (words_of cs p)"
  have "good s s [] (Done p r cs)"
    using parse_good [OF assms(1)] assms(2) by simp
  then have ok: "word_ok s u" if "u \<in> set (words_of cs p)" for u
    using words_of_ok [of s cs p] that by (auto simp: list_all_iff)
  have le: "length (snd u) \<le> length s" "snd u \<noteq> [] \<Longrightarrow> \<not> wordch (s ! end_of s u)"
    if "u \<in> set (words_of cs p)" for u
    using ok [OF that] by (cases "snd u"; force simp: word_ok_def suffix_def end_of_def nth_append)+
  note n = nulterminate_nth [where buf = s and cs = cs and p = p]
  show "str_at (nulterminate cs p s) (fst t) = word t \<and> word t \<noteq> [] \<and> list_all wordch (word t)"
  proof (intro conjI)
    have keep: "nulterminate cs p s ! i = s ! i" if "i < length s" "wordch (s ! i)" for i
      using n [OF that(1)] le that by (fastforce simp: end_of_def ends_at_def)
    have fin: "nulterminate cs p s ! end_of s t = NUL" if "snd t \<noteq> []"
    proof -
      have lt: "end_of s t < length s" using le(1) [OF t] that by (cases "snd t") (auto simp: end_of_def)
      have "ends_at (length s) (words_of cs p) (end_of s t)" using t by (auto simp: ends_at_def end_of_def)
      with n [OF lt le(1)] show ?thesis by simp
    qed
    show "str_at (nulterminate cs p s) (fst t) = word t" "word t \<noteq> []" "list_all wordch (word t)"
      using str_at_word [OF ok [OF t] nulterminate_length keep fin] by blast+
  qed
qed

definition demo_store :: "cmd list" where
  "demo_store = [EXEC [(''ls x > y'', '' x > y''), (''x > y'', '' > y'')],
     REDIR 1 ''y'' [] (or (or O_WRONLY_u O_CREATE_u) O_TRUNC_u) 1]"

lemma demo_parse: "parse (fuel ''ls x > y'') Line ''ls x > y'' [] = Done 2 [] demo_store"
  by code_simp

lemma demo_words: "map word (words_of demo_store 2) = [''y'', ''ls'', ''x'']"
  by code_simp

theorem nulterminate_words_witness:
  "parse (fuel ''ls x > y'') Line ''ls x > y'' [] = Done 2 [] demo_store \<and>
   map word (words_of demo_store 2) = [''y'', ''ls'', ''x''] \<and>
   list_all (\<lambda>t. str_at (nulterminate demo_store 2 ''ls x > y'') (fst t) = word t) (words_of demo_store 2)"
  using nulterminate_words [OF _ demo_parse] demo_parse demo_words by (simp add: list_all_iff)

end
