(* ===== verification/Progs.thy ===== *)
theory Progs
  imports ULib
begin

text \<open>
  The small programs of \<^verbatim>\<open>user/\<close> and of the projects: each \<^verbatim>\<open>main\<close> and the functions it calls. \<open>argv\<close> is the list of the
  arguments with the name of the program first.
\<close>

section \<open>cat.c\<close>

definition cat_body :: "'w syscalls \<Rightarrow> int \<Rightarrow> unit \<Rightarrow> ('w, unit + int) K" where
  "cat_body sys fd u =
     bind (sc_read sys fd 512) (\<lambda>(n, cs).
     if n > 0 then
       bind (sc_write sys 1 (take (nat n) cs)) (\<lambda>r.
       seq (whenK (r \<noteq> n) (
         seq (fprintf_u sys 2 (''cat: write error'' @ [LF]) []) (
         exit_u sys 1))) (
       ret (Inl ())))
     else ret (Inr n))"

definition cat :: "'w syscalls \<Rightarrow> int \<Rightarrow> ('w, unit) K" where
  "cat sys fd =
     bind (loopK (cat_body sys fd) ()) (\<lambda>n.
     whenK (n < 0) (
       seq (fprintf_u sys 2 (''cat: read error'' @ [LF]) []) (
       exit_u sys 1)))"

definition cat_file :: "'w syscalls \<Rightarrow> string \<Rightarrow> ('w, unit) K" where
  "cat_file sys name =
     bind (sc_open sys name O_RDONLY_u) (\<lambda>fd.
     seq (whenK (fd < 0) (
       seq (fprintf_u sys 2 (''cat: cannot open %s'' @ [LF]) [UStr name]) (
       exit_u sys 1))) (
     seq (cat sys fd) (
     seq (sc_close sys fd) skip)))"

definition cat_main :: "'w syscalls \<Rightarrow> string list \<Rightarrow> ('w, unit) K" where
  "cat_main sys argv =
     (if length argv \<le> 1 then
        seq (cat sys 0) (
        exit_u sys 0)
      else
        seq (for_each (tl argv) (cat_file sys)) (
        exit_u sys 0))"

section \<open>wc.c\<close>

type_synonym counts = "int \<times> int \<times> int \<times> bool"

definition wc_char :: "char \<Rightarrow> counts \<Rightarrow> counts" where
  "wc_char b = (\<lambda>(l, w, c, inword).
     let c = c + 1;
         l = (if b = LF then l + 1 else l) in
     if strchr_u [CHR '' '', CHR 0x0D, CHR 0x09, LF, CHR 0x0B] b \<noteq> None then (l, w, c, False)
     else if \<not> inword then (l, w + 1, c, True)
     else (l, w, c, inword))"

definition wc_body :: "'w syscalls \<Rightarrow> int \<Rightarrow> counts \<Rightarrow> ('w, counts + int \<times> counts) K" where
  "wc_body sys fd k =
     bind (sc_read sys fd 512) (\<lambda>(n, cs).
     if n > 0 then ret (Inl (fold wc_char (take (nat n) cs) k))
     else ret (Inr (n, k)))"

definition wc :: "'w syscalls \<Rightarrow> int \<Rightarrow> string \<Rightarrow> ('w, unit) K" where
  "wc sys fd name =
     bind (loopK (wc_body sys fd) (0, 0, 0, False)) (\<lambda>(n, l, w, c, inword).
     seq (whenK (n < 0) (
       seq (printf_u sys (''wc: read error'' @ [LF]) []) (
       exit_u sys 1))) (
     printf_u sys (''%d %d %d %s'' @ [LF]) [UInt (of_int l), UInt (of_int w), UInt (of_int c), UStr name]))"

definition wc_file :: "'w syscalls \<Rightarrow> string \<Rightarrow> ('w, unit) K" where
  "wc_file sys name =
     bind (sc_open sys name O_RDONLY_u) (\<lambda>fd.
     seq (whenK (fd < 0) (
       seq (printf_u sys (''wc: cannot open %s'' @ [LF]) [UStr name]) (
       exit_u sys 1))) (
     seq (wc sys fd name) (
     seq (sc_close sys fd) skip)))"

definition wc_main :: "'w syscalls \<Rightarrow> string list \<Rightarrow> ('w, unit) K" where
  "wc_main sys argv =
     (if length argv \<le> 1 then
        seq (wc sys 0 []) (
        exit_u sys 0)
      else
        seq (for_each (tl argv) (wc_file sys)) (
        exit_u sys 0))"

section \<open>echo.c, kill.c, ln.c, mkdir.c, rm.c, zombie.c\<close>

definition echo_main :: "'w syscalls \<Rightarrow> string list \<Rightarrow> ('w, unit) K" where
  "echo_main sys argv =
     seq (for_each [1..<length argv] (\<lambda>i.
       seq (sc_write sys 1 (take (strlen_u (argv ! i)) (argv ! i))) (
       seq (if i + 1 < length argv then sc_write sys 1 '' ''
            else sc_write sys 1 [LF]) skip))) (
     exit_u sys 0)"

definition kill_main :: "'w syscalls \<Rightarrow> string list \<Rightarrow> ('w, unit) K" where
  "kill_main sys argv =
     seq (whenK (length argv < 2) (
       seq (fprintf_u sys 2 (''usage: kill pid...'' @ [LF]) []) (
       exit_u sys 1))) (
     seq (for_each (tl argv) (\<lambda>a. seq (sc_kill sys (sint (atoi_u a))) skip)) (
     exit_u sys 0))"

definition ln_main :: "'w syscalls \<Rightarrow> string list \<Rightarrow> ('w, unit) K" where
  "ln_main sys argv =
     seq (whenK (length argv \<noteq> 3) (
       seq (fprintf_u sys 2 (''Usage: ln old new'' @ [LF]) []) (
       exit_u sys 1))) (
     bind (sc_link sys (argv ! 1) (argv ! 2)) (\<lambda>r.
     seq (whenK (r < 0) (fprintf_u sys 2 (''link %s %s: failed'' @ [LF]) [UStr (argv ! 1), UStr (argv ! 2)])) (
     exit_u sys 0)))"

definition mkdir_main :: "'w syscalls \<Rightarrow> string list \<Rightarrow> ('w, unit) K" where
  "mkdir_main sys argv =
     seq (whenK (length argv < 2) (
       seq (fprintf_u sys 2 (''Usage: mkdir files...'' @ [LF]) []) (
       exit_u sys 1))) (
     seq (forK (tl argv) (\<lambda>a.
       bind (sc_mkdir sys a) (\<lambda>r.
       if r < 0 then
         seq (fprintf_u sys 2 (''mkdir: %s failed to create'' @ [LF]) [UStr a]) (
         ret (Some ()))
       else ret None))) (
     exit_u sys 0))"

definition rm_main :: "'w syscalls \<Rightarrow> string list \<Rightarrow> ('w, unit) K" where
  "rm_main sys argv =
     seq (whenK (length argv < 2) (
       seq (fprintf_u sys 2 (''Usage: rm files...'' @ [LF]) []) (
       exit_u sys 1))) (
     seq (forK (tl argv) (\<lambda>a.
       bind (sc_unlink sys a) (\<lambda>r.
       if r < 0 then
         seq (fprintf_u sys 2 (''rm: %s failed to delete'' @ [LF]) [UStr a]) (
         ret (Some ()))
       else ret None))) (
     exit_u sys 0))"

definition zombie_main :: "'w syscalls \<Rightarrow> ('w, unit) K" where
  "zombie_main sys =
     bind (sc_fork sys) (\<lambda>pid.
     seq (whenK (pid > 0) (seq (sc_sleep sys 5) skip)) (
     exit_u sys 0))"

section \<open>ls.c\<close>

definition DIRSIZ_u :: nat where "DIRSIZ_u = 14"
definition T_DIR_u :: int where "T_DIR_u = 1"
definition T_FILE_u :: int where "T_FILE_u = 2"
definition T_DEVICE_u :: int where "T_DEVICE_u = 3"

text \<open>The part of a path after the last slash, padded with blanks.\<close>

definition fmtname :: "string \<Rightarrow> string" where
  "fmtname path =
     (let p = rev (takeWhile (\<lambda>c. c \<noteq> CHR ''/'') (rev path)) in
      if length p \<ge> DIRSIZ_u then p
      else p @ replicate (DIRSIZ_u - length p) (CHR '' ''))"

definition ls_line :: "'w syscalls \<Rightarrow> string \<Rightarrow> int \<times> int \<times> int \<Rightarrow> ('w, unit) K" where
  "ls_line sys path = (\<lambda>(type, ino, size).
     printf_u sys (''%s %d %d %d'' @ [LF]) [UStr (fmtname path), UInt (of_int type), UInt (of_int ino), UInt (of_int size)])"

text \<open>The loop over the directory: an entry is the two bytes of its inode number and the fourteen of its name, which \<open>buf\<close> holds up to
  its first 0. \<open>buf\<close> is the path with a slash.\<close>

definition ls_entry :: "'w syscalls \<Rightarrow> int \<Rightarrow> string \<Rightarrow> unit \<Rightarrow> ('w, unit + unit) K" where
  "ls_entry sys fd buf u =
     bind (sc_read sys fd 16) (\<lambda>(n, de).
     if n = 16 then
       if of_char (de ! 0) + 256 * of_char (de ! 1) = (0 :: nat) then ret (Inl ())
       else
         let name = buf @ takeWhile (\<lambda>c. c \<noteq> NUL) (take DIRSIZ_u (drop 2 de)) in
         bind (stat_u sys name) (\<lambda>(r, st).
         if r < 0 then
           seq (printf_u sys (''ls: cannot stat %s'' @ [LF]) [UStr name]) (
           ret (Inl ()))
         else
           seq (ls_line sys name st) (
           ret (Inl ())))
     else ret (Inr ()))"

definition ls :: "'w syscalls \<Rightarrow> string \<Rightarrow> ('w, unit) K" where
  "ls sys path =
     bind (sc_open sys path O_RDONLY_u) (\<lambda>fd.
     if fd < 0 then fprintf_u sys 2 (''ls: cannot open %s'' @ [LF]) [UStr path]
     else
       bind (sc_fstat sys fd) (\<lambda>(r, type, ino, size).
       if r < 0 then
         seq (fprintf_u sys 2 (''ls: cannot stat %s'' @ [LF]) [UStr path]) (
         seq (sc_close sys fd) skip)
       else
         seq (if type = T_DEVICE_u \<or> type = T_FILE_u then ls_line sys path (type, ino, size)
              else if type = T_DIR_u then
                if length path + 1 + DIRSIZ_u + 1 > 512 then printf_u sys (''ls: path too long'' @ [LF]) []
                else loopK (ls_entry sys fd (path @ ''/'')) ()
              else skip) (
         seq (sc_close sys fd) skip)))"

definition ls_main :: "'w syscalls \<Rightarrow> string list \<Rightarrow> ('w, unit) K" where
  "ls_main sys argv =
     (if length argv < 2 then
        seq (ls sys ''.'') (
        exit_u sys 0)
      else
        seq (for_each (tl argv) (ls sys)) (
        exit_u sys 0))"

section \<open>init.c\<close>

definition CONSOLE_u :: int where "CONSOLE_u = 1"

definition init_wait :: "'w syscalls \<Rightarrow> int \<Rightarrow> unit \<Rightarrow> ('w, unit + unit) K" where
  "init_wait sys pid u =
     bind (sc_wait sys) (\<lambda>wpid.
     if wpid = pid then ret (Inr ())
     else if wpid < 0 then
       seq (printf_u sys (''init: wait returned an error'' @ [LF]) []) (
       exit_u sys 1)
     else ret (Inl ()))"

definition init_round :: "'w syscalls \<Rightarrow> unit \<Rightarrow> ('w, unit + unit) K" where
  "init_round sys u =
     seq (printf_u sys (''init: starting sh'' @ [LF]) []) (
     bind (sc_fork sys) (\<lambda>pid.
     seq (whenK (pid < 0) (
       seq (printf_u sys (''init: fork failed'' @ [LF]) []) (
       exit_u sys 1))) (
     seq (whenK (pid = 0) (
       seq (sc_exec sys ''sh'' [''sh'']) (
       seq (printf_u sys (''init: exec sh failed'' @ [LF]) []) (
       exit_u sys 1)))) (
     seq (loopK (init_wait sys pid) ()) (
     ret (Inl ()))))))"

definition init_main :: "'w syscalls \<Rightarrow> ('w, unit) K" where
  "init_main sys =
     bind (sc_open sys ''console'' O_RDWR_u) (\<lambda>fd.
     seq (whenK (fd < 0) (
       seq (sc_mknod sys ''console'' CONSOLE_u 0) (
       seq (sc_open sys ''console'' O_RDWR_u) skip))) (
     seq (sc_dup sys 0) (
     seq (sc_dup sys 0) (
     loopK (init_round sys) ()))))"

section \<open>forktest.c and stressfs.c\<close>

definition N_u :: nat where "N_u = 1000"

definition print :: "'w syscalls \<Rightarrow> string \<Rightarrow> ('w, unit) K" where
  "print sys s = seq (sc_write sys 1 (take (strlen_u s) s)) skip"

text \<open>The loop that forks, from \<open>n\<close> on; it returns the final \<open>n\<close>.\<close>

definition fork_body :: "'w syscalls \<Rightarrow> nat \<Rightarrow> ('w, nat + nat) K" where
  "fork_body sys n =
     (if n < N_u then
        bind (sc_fork sys) (\<lambda>pid.
        if pid < 0 then ret (Inr n)
        else if pid = 0 then exit_u sys 0
        else ret (Inl (n + 1)))
      else ret (Inr n))"

definition forktest :: "'w syscalls \<Rightarrow> ('w, unit) K" where
  "forktest sys =
     seq (print sys (''fork test'' @ [LF])) (
     bind (loopK (fork_body sys) 0) (\<lambda>n.
     seq (whenK (n = N_u) (
       seq (print sys (''fork claimed to work N times!'' @ [LF])) (
       exit_u sys 1))) (
     seq (for_each [0..<n] (\<lambda>_.
       bind (sc_wait sys) (\<lambda>r.
       whenK (r < 0) (
         seq (print sys (''wait stopped early'' @ [LF])) (
         exit_u sys 1))))) (
     bind (sc_wait sys) (\<lambda>r.
     seq (whenK (r \<noteq> -1) (
       seq (print sys (''wait got too many'' @ [LF])) (
       exit_u sys 1))) (
     print sys (''fork test OK'' @ [LF])))))))"

definition forktest_main :: "'w syscalls \<Rightarrow> ('w, unit) K" where
  "forktest_main sys =
     seq (forktest sys) (
     exit_u sys 0)"

text \<open>The loop of \<^verbatim>\<open>stressfs\<close> that forks, with the value of \<^verbatim>\<open>i\<close> after it.\<close>

definition stress_body :: "'w syscalls \<Rightarrow> nat \<Rightarrow> ('w, nat + nat) K" where
  "stress_body sys i =
     (if i < 4 then
        bind (sc_fork sys) (\<lambda>pid.
        if pid > 0 then ret (Inr i) else ret (Inl (i + 1)))
      else ret (Inr i))"

definition stressfs_main :: "'w syscalls \<Rightarrow> ('w, unit) K" where
  "stressfs_main sys =
     seq (printf_u sys (''stressfs starting'' @ [LF]) []) (
     bind (loopK (stress_body sys) 0) (\<lambda>i.
     seq (printf_u sys (''write %d'' @ [LF]) [UInt (of_nat i)]) (
     let path = ''stressfs'' @ [char_of (of_char (CHR ''0'') + i)] in
     bind (sc_open sys path (or O_CREATE_u O_RDWR_u)) (\<lambda>fd.
     seq (for_each [0..<20] (\<lambda>_. seq (sc_write sys fd (replicate 512 (CHR ''a''))) skip)) (
     seq (sc_close sys fd) (
     seq (printf_u sys (''read'' @ [LF]) []) (
     bind (sc_open sys path O_RDONLY_u) (\<lambda>fd.
     seq (for_each [0..<20] (\<lambda>_. seq (sc_read sys fd 512) skip)) (
     seq (sc_close sys fd) (
     seq (sc_wait sys) (
     exit_u sys 0)))))))))))"

section \<open>The programs of the projects\<close>

text \<open>\<^verbatim>\<open>calc\<close> of \<^verbatim>\<open>pipe_ipc.c\<close>, \<^verbatim>\<open>test_pipe_rt.c\<close> and \<^verbatim>\<open>shmtest.c\<close>: the result and what it stores through its pointer, on 32-bit
  integers. C divides towards 0, and RISC-V gives back the dividend when the least integer is divided by -1.\<close>

definition calc :: "32 word \<Rightarrow> 32 word \<Rightarrow> char \<Rightarrow> 32 word option" where
  "calc x y op =
     (if op = CHR ''+'' then Some (x + y)
      else if op = CHR ''-'' then Some (x - y)
      else if op = CHR ''*'' then Some (x * y)
      else if op = CHR ''/'' then if y = 0 then None else Some (word_of_int (sgn (sint x) * sgn (sint y) * (\<bar>sint x\<bar> div \<bar>sint y\<bar>)))
      else None)"

definition test_affinity_main :: "'w syscalls \<Rightarrow> ('w, unit) K" where
  "test_affinity_main sys =
     (let cpuid = 0 in
      seq (sc_set_cpu_affinity sys (2 ^ cpuid)) (
      seq (for_each [0..<(5 :: nat)] (\<lambda>_.
        seq (printf_u sys (''Running on CPU %d'' @ [LF]) [UInt (of_nat cpuid)]) (
        seq (sc_sleep sys 10) skip))) (
      seq (printf_u sys ([LF] @ ''=== Test Complete ==='' @ [LF]) []) (
      exit_u sys 0))))"

text \<open>\<^verbatim>\<open>periodic_task\<close> of \<^verbatim>\<open>test_rm.c\<close>, whose loop never ends by itself.\<close>

definition rm_round :: "'w syscalls \<Rightarrow> int \<Rightarrow> int \<Rightarrow> unit \<Rightarrow> ('w, unit + unit) K" where
  "rm_round sys period task_id u =
     bind (sc_uptime sys) (\<lambda>tick.
     seq (printf_u sys ''[Tick %d] Task %d (Period %d): '' [UInt (of_int tick), UInt (of_int task_id), UInt (of_int period)]) (
     seq (for_each [0..<(10 :: nat)] (\<lambda>_. printf_u sys ''1'' [])) (
     seq (printf_u sys [LF] []) (
     seq (sc_wait_until_next_period sys) (
     ret (Inl ()))))))"

definition rm_periodic_task :: "'w syscalls \<Rightarrow> int \<Rightarrow> int \<Rightarrow> ('w, unit) K" where
  "rm_periodic_task sys period task_id =
     bind (sc_setperiod sys period) (\<lambda>r.
     seq (whenK (r < 0) (
       seq (printf_u sys (''Task %d: Failed to set period %d'' @ [LF]) [UInt (of_int task_id), UInt (of_int period)]) (
       exit_u sys 0))) (
     loopK (rm_round sys period task_id) ()))"

definition test_rm_main :: "'w syscalls \<Rightarrow> ('w, unit) K" where
  "test_rm_main sys =
     seq (for_each [(1, 1), (5, 2), (10, 3)] (\<lambda>(period, task_id).
       bind (sc_fork sys) (\<lambda>pid.
       whenK (pid = 0) (
         seq (rm_periodic_task sys period task_id) (
         exit_u sys 0))))) (
     seq (for_each [0..<(3 :: nat)] (\<lambda>_. seq (sc_wait sys) skip)) (
     exit_u sys 0))"

text \<open>\<^verbatim>\<open>periodic_task\<close> of \<^verbatim>\<open>test_tasks.c\<close>; its busy loop has no effect.\<close>

definition periodic_task :: "'w syscalls \<Rightarrow> int \<Rightarrow> nat \<Rightarrow> ('w, unit) K" where
  "periodic_task sys period iterations =
     bind (sc_setperiod sys period) (\<lambda>r.
     seq (whenK (r < 0) (
       seq (printf_u sys (''Error: setperiod failed'' @ [LF]) []) (
       exit_u sys 1))) (
     seq (for_each [0..<iterations] (\<lambda>i.
       seq (printf_u sys (''Task with period %d: iteration %d'' @ [LF]) [UInt (of_int period), UInt (of_nat i)]) (
       seq (sc_sleep sys 1) (
       bind (sc_wait_until_next_period sys) (\<lambda>r.
       whenK (r < 0) (
         seq (printf_u sys (''Error: wait_until_next_period failed'' @ [LF]) []) (
         exit_u sys 1))))))) (
     exit_u sys 0)))"

definition test_tasks_main :: "'w syscalls \<Rightarrow> ('w, unit) K" where
  "test_tasks_main sys =
     seq (printf_u sys (''Setting CPU affinity to CPU 0'' @ [LF]) []) (
     bind (sc_set_cpu_affinity sys 1) (\<lambda>r.
     seq (whenK (r < 0) (
       seq (printf_u sys (''Error: set_cpu_affinity failed'' @ [LF]) []) (
       exit_u sys 1))) (
     bind (sc_fork sys) (\<lambda>pid.
     seq (whenK (pid = 0) (periodic_task sys 10 5)) (
     seq (sc_sleep sys 15) (
     bind (sc_fork sys) (\<lambda>pid.
     seq (whenK (pid = 0) (periodic_task sys 20 3)) (
     seq (for_each [0..<(2 :: nat)] (\<lambda>_. seq (sc_wait sys) skip)) (
     seq (printf_u sys (''All tasks completed'' @ [LF]) []) (
     exit_u sys 0))))))))))"

definition showvm_main :: "'w syscalls \<Rightarrow> ('w, unit) K" where
  "showvm_main sys =
     seq (printf_u sys (''# Before shmget is called'' @ [LF]) []) (
     bind (sc_show_vm_areas sys) (\<lambda>r.
     seq (whenK (r < 0) (printf_u sys (''Error: Failed to execute show_vm_areas'' @ [LF]) [])) (
     bind (sc_shmget sys 0 4096) (\<lambda>shm.
     seq (whenK (shm = -1) (
       seq (printf_u sys (''Error: shmget failed'' @ [LF]) []) (
       exit_u sys 1))) (
     seq (printf_u sys (''# After shmget is called'' @ [LF]) []) (
     bind (sc_show_vm_areas sys) (\<lambda>r.
     seq (whenK (r < 0) (printf_u sys (''Error: Failed to execute show_vm_areas'' @ [LF]) [])) (
     exit_u sys 0))))))))"

definition append_write :: "'w syscalls \<Rightarrow> int \<Rightarrow> string \<Rightarrow> ('w, unit) K" where
  "append_write sys mode text' =
     bind (sc_open sys ''testfile.txt'' mode) (\<lambda>fd.
     seq (whenK (fd < 0) (
       seq (printf_u sys (''Failed to open file'' @ [LF]) []) (
       exit_u sys 1))) (
     bind (sc_write sys fd text') (\<lambda>r.
     seq (whenK (r \<noteq> 6) (
       seq (printf_u sys (''Failed to write to file'' @ [LF]) []) (
       exit_u sys 1))) (
     seq (sc_close sys fd) skip))))"

definition append_main :: "'w syscalls \<Rightarrow> ('w, unit) K" where
  "append_main sys =
     seq (append_write sys (or (or O_WRONLY_u O_CREATE_u) O_APPEND_u) (''Hello'' @ [LF])) (
     seq (append_write sys (or O_WRONLY_u O_APPEND_u) (''World'' @ [LF])) (
     exit_u sys 0))"

definition getfilesize_main :: "'w syscalls \<Rightarrow> string list \<Rightarrow> ('w, unit) K" where
  "getfilesize_main sys argv =
     seq (whenK (length argv \<noteq> 2) (
       seq (printf_u sys (''Usage: getfilesize <filepath>'' @ [LF]) []) (
       exit_u sys 1))) (
     bind (sc_getfilesize sys (argv ! 1)) (\<lambda>(r, size).
     seq (if r = 0 then printf_u sys (''File %s size: %d bytes'' @ [LF]) [UStr (argv ! 1), UInt (of_int size)]
          else printf_u sys (''Error: Could not get file size'' @ [LF]) []) (
     exit_u sys 0)))"

end
