(* ===== verification/Ipc.thy ===== *)
theory Ipc
  imports Progs Bytes
begin

text \<open>
  The calculator servers of the projects: \<^verbatim>\<open>proj2/user/pipe_ipc.c\<close> over two pipes, \<^verbatim>\<open>proj2/user/test_pipe_rt.c\<close> over a priority pipe, and
  \<^verbatim>\<open>proj4/user/shmtest.c\<close> with results in shared memory.

  A structure is the list of its bytes, since that is what goes through a pipe; a local variable begins with what is on the stack, the
  parameter \<open>junk\<close>. The system call \<^verbatim>\<open>pipe_rt\<close> and the loads and stores of shared memory are parameters.
\<close>

section \<open>Structures\<close>

definition get_int :: "nat \<Rightarrow> string \<Rightarrow> 32 word" where
  "get_int off b = le_word (map of_char (take 4 (drop off b)))"

definition put_int :: "nat \<Rightarrow> 32 word \<Rightarrow> string \<Rightarrow> string" where
  "put_int off w b = take off b @ map (char_of \<circ> unat) (le_bytes 4 w) @ drop (off + 4) b"

text \<open>The first bytes of a variable after \<^verbatim>\<open>read\<close>.\<close>

definition read_into :: "string \<Rightarrow> string \<Rightarrow> string" where
  "read_into b bs = bs @ drop (length bs) b"

text \<open>\<^verbatim>\<open>error = calc(x, y, op, &result)\<close>: the value of \<^verbatim>\<open>result\<close> and that of \<^verbatim>\<open>error\<close>.\<close>

definition run_calc :: "32 word \<Rightarrow> 32 word \<Rightarrow> char \<Rightarrow> 32 word \<Rightarrow> 32 word \<times> 32 word" where
  "run_calc x y op old = (case calc x y op of Some v \<Rightarrow> (v, 0) | None \<Rightarrow> (old, -1))"

section \<open>pipe\_ipc.c\<close>

text \<open>\<^verbatim>\<open>task_t\<close>: \<^verbatim>\<open>x\<close> at 0, \<^verbatim>\<open>y\<close> at 4, \<^verbatim>\<open>op\<close> at 8, \<^verbatim>\<open>result\<close> at 12, \<^verbatim>\<open>error\<close> at 16; 20 bytes.\<close>

definition ipc_answer :: "string \<Rightarrow> string" where
  "ipc_answer task =
     (let (result, error) = run_calc (get_int 0 task) (get_int 4 task) (task ! 8) (get_int 12 task) in
      put_int 16 error (put_int 12 result task))"

definition ipc_server_body :: "'w syscalls \<Rightarrow> int \<Rightarrow> int \<Rightarrow> string \<Rightarrow> ('w, string + unit) K" where
  "ipc_server_body sys read_fd write_fd task =
     bind (sc_read sys read_fd 20) (\<lambda>(r, bs).
     let task = read_into task bs in
     if r > 0 then
       let task = ipc_answer task in
       seq (sc_write sys write_fd task) (
       seq (sc_sleep sys 1) (
       ret (Inl task)))
     else ret (Inr ()))"

definition ipc_server :: "'w syscalls \<Rightarrow> string \<Rightarrow> int \<Rightarrow> int \<Rightarrow> ('w, unit) K" where
  "ipc_server sys junk read_fd write_fd =
     seq (printf_u sys (''Server started.'' @ [LF]) []) (
     seq (loopK (ipc_server_body sys read_fd write_fd) junk) (
     exit_u sys 0))"

definition ipc_client :: "'w syscalls \<Rightarrow> string \<Rightarrow> int \<Rightarrow> int \<Rightarrow> 32 word \<Rightarrow> 32 word \<Rightarrow> char \<Rightarrow> ('w, unit) K" where
  "ipc_client sys junk write_fd read_fd x y op =
     (let task = (put_int 4 y (put_int 0 x junk))[8 := op] in
      seq (sc_write sys write_fd task) (
      bind (sc_read sys read_fd 20) (\<lambda>(r, bs).
      let task = read_into task bs in
      seq (if get_int 16 task = 0 then
             seq (printf_u sys ''Result: %d '' [UInt (get_int 0 task)]) (
             seq (sc_write sys 1 [task ! 8]) (
             printf_u sys ('' %d = %d'' @ [LF]) [UInt (get_int 4 task), UInt (get_int 12 task)]))
           else printf_u sys (''Error'' @ [LF]) []) (
      exit_u sys 0))))"

text \<open>A client process of \<^verbatim>\<open>main\<close>, and the pause after it.\<close>

definition ipc_start_client :: "'w syscalls \<Rightarrow> string \<Rightarrow> (int \<times> int) \<Rightarrow> (int \<times> int) \<Rightarrow> 32 word \<Rightarrow> 32 word \<Rightarrow> char \<Rightarrow> ('w, unit) K" where
  "ipc_start_client sys junk p1 p2 x y op =
     bind (sc_fork sys) (\<lambda>pid.
     seq (whenK (pid = 0) (
       seq (sc_close sys (fst p1)) (
       seq (sc_close sys (snd p2)) (
       ipc_client sys junk (snd p1) (fst p2) x y op)))) (
     seq (sc_sleep sys 1) skip))"

definition close_and_wait :: "'w syscalls \<Rightarrow> (int \<times> int) \<Rightarrow> (int \<times> int) \<Rightarrow> nat \<Rightarrow> ('w, unit) K" where
  "close_and_wait sys p1 p2 n =
     seq (sc_close sys (fst p1)) (
     seq (sc_close sys (snd p1)) (
     seq (sc_close sys (fst p2)) (
     seq (sc_close sys (snd p2)) (
     seq (for_each [0..<n] (\<lambda>_. seq (sc_wait sys) skip)) (
     seq (printf_u sys (''Test completed.'' @ [LF]) []) (
     exit_u sys 0))))))"

definition no_pipes :: "'w syscalls \<Rightarrow> ('w, unit) K" where
  "no_pipes sys = seq (printf_u sys (''Pipe creation failed'' @ [LF]) []) (exit_u sys 1)"

definition pipe_ipc_main :: "'w syscalls \<Rightarrow> string \<Rightarrow> ('w, unit) K" where
  "pipe_ipc_main sys junk =
     seq (printf_u sys (''Starting test...'' @ [LF]) []) (
     bind (sc_pipe sys) (\<lambda>(r1, p1).
     if r1 < 0 then no_pipes sys
     else
       bind (sc_pipe sys) (\<lambda>(r2, p2).
       if r2 < 0 then no_pipes sys
       else
         bind (sc_fork sys) (\<lambda>pid.
         seq (whenK (pid = 0) (
           seq (sc_close sys (snd p1)) (
           seq (sc_close sys (fst p2)) (
           ipc_server sys junk (fst p1) (snd p2))))) (
         seq (sc_sleep sys 1) (
         seq (ipc_start_client sys junk p1 p2 10 5 (CHR ''+'')) (
         seq (ipc_start_client sys junk p1 p2 20 4 (CHR ''*'')) (
         seq (ipc_start_client sys junk p1 p2 15 3 (CHR ''/'')) (
         seq (ipc_start_client sys junk p1 p2 10 0 (CHR ''/'')) (
         close_and_wait sys p1 p2 5))))))))))"

section \<open>test\_pipe\_rt.c\<close>

text \<open>
  \<^verbatim>\<open>task_t\<close>: \<^verbatim>\<open>priority\<close> at 0, \<^verbatim>\<open>pid\<close> at 4, \<^verbatim>\<open>x\<close> at 8, \<^verbatim>\<open>y\<close> at 12, \<^verbatim>\<open>op\<close> at 16, the pointers \<^verbatim>\<open>result\<close> at 24 and \<^verbatim>\<open>error\<close> at 32; 40 bytes. The
  server's variables \<^verbatim>\<open>task\<close> and \<^verbatim>\<open>result\<close> keep their values from one round to the next.
\<close>

definition int_bytes :: "32 word \<Rightarrow> string" where
  "int_bytes w = map (char_of \<circ> unat) (le_bytes 4 w)"

definition rt_server_body :: "'w syscalls \<Rightarrow> int \<Rightarrow> int \<Rightarrow> string \<times> 32 word \<Rightarrow> ('w, (string \<times> 32 word) + unit) K" where
  "rt_server_body sys read_fd write_fd = (\<lambda>(task, result).
     bind (sc_read sys read_fd 40) (\<lambda>(r, bs).
     let task = read_into task bs in
     if r > 0 then
       let (result, error) = run_calc (get_int 8 task) (get_int 12 task) (task ! 16) result in
       seq (sc_write sys write_fd (int_bytes result)) (
       seq (sc_write sys write_fd (int_bytes error)) (
       ret (Inl (task, result))))
     else ret (Inr ())))"

definition rt_server :: "'w syscalls \<Rightarrow> string \<Rightarrow> 32 word \<Rightarrow> int \<Rightarrow> int \<Rightarrow> ('w, unit) K" where
  "rt_server sys junk junk_result read_fd write_fd =
     seq (loopK (rt_server_body sys read_fd write_fd) (junk, junk_result)) (
     exit_u sys 0)"

definition rt_client :: "'w syscalls \<Rightarrow> 32 word \<Rightarrow> 32 word \<Rightarrow> int \<Rightarrow> int \<Rightarrow> string \<Rightarrow> ('w, unit) K" where
  "rt_client sys junk_result junk_error write_fd read_fd task =
     seq (sc_write sys write_fd task) (
     bind (sc_read sys read_fd 4) (\<lambda>(_, b1).
     bind (sc_read sys read_fd 4) (\<lambda>(_, b2).
     let result = get_int 0 (read_into (int_bytes junk_result) b1); error = get_int 0 (read_into (int_bytes junk_error) b2) in
     seq (printf_u sys ''%d '' [UInt (get_int 8 task)]) (
     seq (sc_write sys 1 [task ! 16]) (
     seq (printf_u sys ('' %d = %d (error: %d)'' @ [LF]) [UInt (get_int 12 task), UInt result, UInt error]) (
     exit_u sys 0))))))"

definition rt_task :: "32 word \<Rightarrow> 32 word \<Rightarrow> 32 word \<Rightarrow> char \<Rightarrow> string" where
  "rt_task priority x y op = (put_int 12 y (put_int 8 x (put_int 0 priority (replicate 40 NUL))))[16 := op]"

definition rt_tasks :: "string list" where
  "rt_tasks = [rt_task 1 10 5 (CHR ''+''), rt_task 3 20 4 (CHR ''*''), rt_task 2 15 3 (CHR ''/''), rt_task 4 2 1 (CHR ''-'')]"

definition test_pipe_rt_main :: "'w syscalls \<Rightarrow> ('w, int \<times> int \<times> int) K \<Rightarrow> string \<Rightarrow> 32 word \<Rightarrow> 32 word \<Rightarrow> ('w, unit) K" where
  "test_pipe_rt_main sys pipe_rt junk junk_result junk_error =
     seq (printf_u sys (''Starting priority pipe test...'' @ [LF]) []) (
     bind pipe_rt (\<lambda>(r1, p1).
     if r1 < 0 then no_pipes sys
     else
       bind (sc_pipe sys) (\<lambda>(r2, p2).
       if r2 < 0 then no_pipes sys
       else
         bind (sc_fork sys) (\<lambda>pid.
         seq (whenK (pid = 0) (
           seq (sc_close sys (snd p1)) (
           seq (sc_close sys (fst p2)) (
           rt_server sys junk junk_result (fst p1) (snd p2))))) (
         seq (sc_sleep sys 10) (
         seq (for_each rt_tasks (\<lambda>task.
           bind (sc_fork sys) (\<lambda>pid.
           seq (whenK (pid = 0) (
             seq (sc_close sys (fst p1)) (
             seq (sc_close sys (snd p2)) (
             rt_client sys junk_result junk_error (snd p1) (fst p2) task)))) (
           seq (sc_sleep sys 1) skip)))) (
         close_and_wait sys p1 p2 (length rt_tasks + 1))))))))"

section \<open>shmtest.c\<close>

text \<open>
  \<^verbatim>\<open>task_t\<close>: \<^verbatim>\<open>x\<close> at 0, \<^verbatim>\<open>y\<close> at 4, \<^verbatim>\<open>op\<close> at 8, \<^verbatim>\<open>priority\<close> at 12, \<^verbatim>\<open>client_id\<close> at 16; 20 bytes. \<^verbatim>\<open>result_t\<close>: \<^verbatim>\<open>value\<close> at 0, \<^verbatim>\<open>error\<close> at 4,
  \<^verbatim>\<open>ready\<close> at 8; 12 bytes. \<open>ld\<close> and \<open>st\<close> load and store an \<^verbatim>\<open>int\<close> at an address of the process.
\<close>

definition slot_at :: "64 word \<Rightarrow> int \<Rightarrow> 64 word" where
  "slot_at results slot = results + word_of_int (12 * slot)"

text \<open>\<^verbatim>\<open>client_id % 10\<close>, with the sign of \<^verbatim>\<open>client_id\<close>.\<close>

definition slot_of :: "32 word \<Rightarrow> int" where
  "slot_of client_id = sgn (sint client_id) * (\<bar>sint client_id\<bar> mod 10)"

definition shm_server_body :: "'w syscalls \<Rightarrow> (64 word \<Rightarrow> 32 word \<Rightarrow> ('w, unit) K) \<Rightarrow> 64 word \<Rightarrow> int \<Rightarrow> string \<Rightarrow> ('w, string + unit) K" where
  "shm_server_body sys st results read_fd task =
     bind (sc_read sys read_fd 20) (\<lambda>(r, bs).
     let task = read_into task bs in
     if r > 0 then
       let (result, error) = run_calc (get_int 0 task) (get_int 4 task) (task ! 8) 0; a = slot_at results (slot_of (get_int 16 task)) in
       seq (st a result) (
       seq (st (a + 4) error) (
       seq (st (a + 8) 1) (
       ret (Inl task))))
     else ret (Inr ()))"

definition shm_server :: "'w syscalls \<Rightarrow> (64 word \<Rightarrow> 32 word \<Rightarrow> ('w, unit) K) \<Rightarrow> string \<Rightarrow> int \<Rightarrow> ('w, unit) K" where
  "shm_server sys st junk read_fd =
     bind (sc_shmget sys 0 4096) (\<lambda>results.
     seq (whenK (results = -1) (
       seq (printf_u sys (''Server: Shared memory allocation failed'' @ [LF]) []) (
       exit_u sys 1))) (
     seq (for_each [0..<10] (\<lambda>i. st (slot_at results (int i) + 8) 0)) (
     seq (printf_u sys (''Server started.'' @ [LF]) []) (
     seq (loopK (shm_server_body sys st results read_fd) junk) (
     seq (sc_close sys read_fd) (
     exit_u sys 0))))))"

definition shm_client :: "'w syscalls \<Rightarrow> (64 word \<Rightarrow> ('w, 32 word) K) \<Rightarrow> (64 word \<Rightarrow> 32 word \<Rightarrow> ('w, unit) K) \<Rightarrow> string \<Rightarrow>
    int \<Rightarrow> 32 word \<Rightarrow> 32 word \<Rightarrow> 32 word \<Rightarrow> char \<Rightarrow> ('w, unit) K" where
  "shm_client sys ld st junk write_fd client_id x y op =
     bind (sc_shmget sys 0 4096) (\<lambda>results.
     seq (whenK (results = -1) (
       seq (printf_u sys (''Client %d: Shared memory allocation failed'' @ [LF]) [UInt client_id]) (
       exit_u sys 1))) (
     let task = put_int 16 client_id (put_int 12 client_id ((put_int 4 y (put_int 0 x junk))[8 := op])); a = slot_at results (slot_of client_id) in
     seq (st (a + 8) 0) (
     bind (sc_write sys write_fd task) (\<lambda>n.
     seq (whenK (n \<noteq> 20) (
       seq (printf_u sys (''Client %d: Failed to send task'' @ [LF]) [UInt client_id]) (
       seq (sc_close sys write_fd) (
       exit_u sys 1)))) (
     seq (loopK (\<lambda>_. bind (ld (a + 8)) (\<lambda>ready. if ready = 0 then seq (sc_sleep sys 1) (ret (Inl ())) else ret (Inr ()))) ()) (
     bind (ld a) (\<lambda>result.
     bind (ld (a + 4)) (\<lambda>error.
     seq (if error = 0 then
            seq (printf_u sys ''Client %d: %d '' [UInt client_id, UInt x]) (
            seq (sc_write sys 1 [op]) (
            printf_u sys ('' %d = %d'' @ [LF]) [UInt y, UInt result]))
          else printf_u sys (''Client %d: Error in calculation'' @ [LF]) [UInt client_id]) (
     seq (sc_close sys write_fd) (
     exit_u sys 0))))))))))"

definition shm_jobs :: "(32 word \<times> 32 word \<times> 32 word \<times> char) list" where
  "shm_jobs = [(0, 10, 5, CHR ''+''), (1, 20, 4, CHR ''*''), (2, 15, 3, CHR ''/''), (3, 10, 0, CHR ''/''), (4, 25, 5, CHR ''-'')]"

definition shmtest_main :: "'w syscalls \<Rightarrow> (64 word \<Rightarrow> ('w, 32 word) K) \<Rightarrow> (64 word \<Rightarrow> 32 word \<Rightarrow> ('w, unit) K) \<Rightarrow> string \<Rightarrow> ('w, unit) K" where
  "shmtest_main sys ld st junk =
     seq (printf_u sys (''Starting shared memory IPC test...'' @ [LF]) []) (
     bind (sc_pipe sys) (\<lambda>(r, p1).
     seq (whenK (r < 0) (no_pipes sys)) (
     bind (sc_fork sys) (\<lambda>pid.
     seq (whenK (pid = 0) (
       seq (sc_close sys (snd p1)) (
       shm_server sys st junk (fst p1)))) (
     seq (sc_sleep sys 1) (
     seq (for_each shm_jobs (\<lambda>(i, x, y, op).
       bind (sc_fork sys) (\<lambda>pid.
       whenK (pid = 0) (
         seq (sc_close sys (fst p1)) (
         shm_client sys ld st junk (snd p1) i x y op))))) (
     seq (sc_close sys (fst p1)) (
     seq (sc_close sys (snd p1)) (
     seq (for_each [0..<(6 :: nat)] (\<lambda>_. seq (sc_wait sys) skip)) (
     seq (printf_u sys (''Shared memory IPC test completed.'' @ [LF]) []) (
     exit_u sys 0)))))))))))"

section \<open>What the server answers\<close>

lemma of_char_of_byte [simp]: "of_char (char_of (unat (b :: 8 word))) = b"
proof -
  have "unat b < 256" using unsigned_less [of b] by simp
  then have "(of_char (char_of (unat b)) :: nat) = unat b" by simp
  then have "of_nat (of_char (char_of (unat b))) = b" by simp
  then show ?thesis by (simp only: of_nat_of_char)
qed

lemma length_put_int [simp]: "off + 4 \<le> length b \<Longrightarrow> length (put_int off w b) = length b"
  by (simp add: put_int_def)

lemma get_put_int [simp]: "off + 4 \<le> length b \<Longrightarrow> get_int off (put_int off w b) = w"
  by (simp add: get_int_def put_int_def comp_def)

lemma nth_put_int: "off + 4 \<le> length b \<Longrightarrow> i < off \<or> off + 4 \<le> i \<Longrightarrow> put_int off w b ! i = b ! i"
  by (auto simp: put_int_def nth_append)

lemma get_put_int_other:
  assumes "off + 4 \<le> length b" and "o' + 4 \<le> length b" and "o' + 4 \<le> off \<or> off + 4 \<le> o'"
  shows "get_int o' (put_int off w b) = get_int o' b"
proof -
  have "take 4 (drop o' (put_int off w b)) = take 4 (drop o' b)"
    using assms by (intro nth_equalityI) (auto simp: nth_put_int)
  then show ?thesis by (simp add: get_int_def)
qed

text \<open>An answer has the operands of the task, the value of the operation if there is one, and otherwise the error -1 and an unchanged result.\<close>

lemma ipc_answer_fields:
  assumes "length task = 20"
  shows "get_int 0 (ipc_answer task) = get_int 0 task" "get_int 4 (ipc_answer task) = get_int 4 task" "ipc_answer task ! 8 = task ! 8"
    "get_int 16 (ipc_answer task) = (if calc (get_int 0 task) (get_int 4 task) (task ! 8) = None then -1 else 0)"
    "get_int 12 (ipc_answer task) = (case calc (get_int 0 task) (get_int 4 task) (task ! 8) of Some v \<Rightarrow> v | None \<Rightarrow> get_int 12 task)"
  using assms by (simp_all add: ipc_answer_def run_calc_def get_put_int_other nth_put_int split: option.split)

end
