(* ===== verification/Umalloc.thy ===== *)
theory Umalloc
  imports ULib "HOL-Library.Word"
begin

text \<open>
  The memory allocator of the user programs, \<^verbatim>\<open>user/umalloc.c\<close>.

  A \<^verbatim>\<open>Header *\<close> is a number that counts headers of 16 bytes; 0 is the null pointer. The memory is what the headers
  hold, at every place. \<^verbatim>\<open>base\<close> is the address of the static header, which the linker chooses. \<^verbatim>\<open>sbrk\<close> is a
  parameter: a function of the number of bytes (an \<^verbatim>\<open>int\<close>) and of the rest \<open>'w\<close> of the world, that returns the old
  end of the heap in bytes or fails.
\<close>

section \<open>The program\<close>

record 'w arena =
  hptr :: "nat \<Rightarrow> nat"
  hsize :: "nat \<Rightarrow> 32 word"
  freep :: nat
  rest :: 'w

definition set_hptr :: "nat \<Rightarrow> nat \<Rightarrow> 'w arena \<Rightarrow> 'w arena" where
  "set_hptr p q s = s\<lparr>hptr := (hptr s)(p := q)\<rparr>"

definition set_hsize :: "nat \<Rightarrow> 32 word \<Rightarrow> 'w arena \<Rightarrow> 'w arena" where
  "set_hsize p n s = s\<lparr>hsize := (hsize s)(p := n)\<rparr>"

text \<open>The loop of \<^verbatim>\<open>free\<close> that looks for the place of the block.\<close>

definition free_seek :: "nat \<Rightarrow> nat \<Rightarrow> ('w arena, nat + nat) K" where
  "free_seek bp p =
     bind (gets (\<lambda>s. hptr s p)) (\<lambda>next.
     if \<not> (bp > p \<and> bp < next) then
       if p \<ge> next \<and> (bp > p \<or> bp < next) then ret (Inr p)
       else ret (Inl next)
     else ret (Inr p))"

text \<open>The rest of \<^verbatim>\<open>free\<close>: join the block to its upper and to its lower neighbour.\<close>

definition free_link :: "nat \<Rightarrow> nat \<Rightarrow> ('w arena, unit) K" where
  "free_link bp p =
     bind (gets (\<lambda>s. hptr s p)) (\<lambda>next.
     bind (gets (\<lambda>s. unat (hsize s bp))) (\<lambda>n.
     seq (if bp + n = next then
            seq (modify (\<lambda>s. set_hsize bp (hsize s bp + hsize s next) s)) (
            modify (\<lambda>s. set_hptr bp (hptr s next) s))
          else modify (set_hptr bp next)) (
     bind (gets (\<lambda>s. unat (hsize s p))) (\<lambda>n.
     seq (if p + n = bp then
            seq (modify (\<lambda>s. set_hsize p (hsize s p + hsize s bp) s)) (
            modify (\<lambda>s. set_hptr p (hptr s bp) s))
          else modify (set_hptr p bp)) (
     modify (\<lambda>s. s\<lparr>freep := p\<rparr>))))))"

definition free_u :: "nat \<Rightarrow> ('w arena, unit) K" where
  "free_u ap =
     bind (gets freep) (\<lambda>fp.
     bind (loopK (free_seek (ap - 1)) fp) (\<lambda>p.
     free_link (ap - 1) p))"

definition call_sbrk :: "(int \<Rightarrow> 'w \<Rightarrow> nat option \<times> 'w) \<Rightarrow> int \<Rightarrow> ('w arena, nat option) K" where
  "call_sbrk sbrk n s e = (let (r, w) = sbrk n (rest s) in Ok r (s\<lparr>rest := w\<rparr>) e)"

text \<open>\<^verbatim>\<open>nu * sizeof(Header)\<close> is converted to the \<^verbatim>\<open>int\<close> that \<^verbatim>\<open>sbrk\<close> takes.\<close>

definition morecore :: "(int \<Rightarrow> 'w \<Rightarrow> nat option \<times> 'w) \<Rightarrow> 32 word \<Rightarrow> ('w arena, nat) K" where
  "morecore sbrk nu =
     (let nu = (if nu < 4096 then 4096 else nu) in
      bind (call_sbrk sbrk (sint (word_of_nat (unat nu * 16) :: 32 word))) (\<lambda>r.
      case r of None \<Rightarrow> ret 0
      | Some p \<Rightarrow>
          let hp = p div 16 in
          seq (modify (set_hsize hp nu)) (
          seq (free_u (hp + 1)) (
          gets freep))))"

definition nunits :: "32 word \<Rightarrow> 32 word" where
  "nunits nbytes = word_of_nat ((unat nbytes + 16 - 1) div 16 + 1)"

text \<open>The loop of \<^verbatim>\<open>malloc\<close> over \<^verbatim>\<open>prevp\<close> and \<^verbatim>\<open>p\<close>.\<close>

definition malloc_body :: "(int \<Rightarrow> 'w \<Rightarrow> nat option \<times> 'w) \<Rightarrow> 32 word \<Rightarrow> nat \<times> nat \<Rightarrow> ('w arena, nat \<times> nat + nat) K" where
  "malloc_body sbrk nu = (\<lambda>(prevp, p).
     bind (gets (\<lambda>s. hsize s p)) (\<lambda>sz.
     if sz \<ge> nu then
       bind (if sz = nu then
               seq (modify (\<lambda>s. set_hptr prevp (hptr s p) s)) (
               ret p)
             else
               seq (modify (set_hsize p (sz - nu))) (
               seq (modify (set_hsize (p + unat (sz - nu)) nu)) (
               ret (p + unat (sz - nu))))) (\<lambda>p.
       seq (modify (\<lambda>s. s\<lparr>freep := prevp\<rparr>)) (
       ret (Inr (p + 1))))
     else
       bind (gets freep) (\<lambda>fp.
       if p = fp then
         bind (morecore sbrk nu) (\<lambda>p.
         if p = 0 then ret (Inr 0)
         else bind (gets (\<lambda>s. hptr s p)) (\<lambda>next. ret (Inl (p, next))))
       else bind (gets (\<lambda>s. hptr s p)) (\<lambda>next. ret (Inl (p, next))))))"

definition malloc :: "nat \<Rightarrow> (int \<Rightarrow> 'w \<Rightarrow> nat option \<times> 'w) \<Rightarrow> 32 word \<Rightarrow> ('w arena, nat) K" where
  "malloc base sbrk nbytes =
     bind (gets freep) (\<lambda>fp.
     seq (whenK (fp = 0) (
       seq (modify (\<lambda>s. set_hptr base base (s\<lparr>freep := base\<rparr>))) (
       modify (set_hsize base 0)))) (
     bind (gets freep) (\<lambda>prevp.
     bind (gets (\<lambda>s. hptr s prevp)) (\<lambda>p.
     loopK (malloc_body sbrk (nunits nbytes)) (prevp, p)))))"

end
