(* ===== verification/UmallocProps.thy ===== *)
theory UmallocProps
  imports Umalloc
begin

text \<open>
  The allocator of \<^verbatim>\<open>user/umalloc.c\<close> keeps the blocks it has handed out apart from each other and from its free list.
\<close>

section \<open>Lists of blocks\<close>

text \<open>Free blocks in the order of their addresses, with sizes \<open>h\<close>.\<close>

definition blocks_ok :: "nat \<Rightarrow> (nat \<Rightarrow> 32 word) \<Rightarrow> nat list \<Rightarrow> bool" where
  "blocks_ok base h bs \<longleftrightarrow> sorted_wrt (\<lambda>a b. a + unat (h a) \<le> b) bs \<and>
     (\<forall>b \<in> set bs. base < b \<and> 0 < h b \<and> b + unat (h b) \<le> 2 ^ 32)"

definition block :: "nat \<Rightarrow> nat \<Rightarrow> nat set" where
  "block b n = {b..<b + n}"

definition units :: "(nat \<Rightarrow> 32 word) \<Rightarrow> nat list \<Rightarrow> nat set" where
  "units h bs = (\<Union>b \<in> set bs. block b (unat (h b)))"

lemma in_block [simp]: "u \<in> block b n \<longleftrightarrow> b \<le> u \<and> u < b + n"
  by (simp add: block_def)

lemma units_simps [simp]:
  "units h [] = {}" "units h (b # bs) = block b (unat (h b)) \<union> units h bs"
  "units h (as @ bs) = units h as \<union> units h bs"
  by (auto simp: units_def)

lemma units_upd [simp]: "a \<notin> set bs \<Longrightarrow> units (h(a := n)) bs = units h bs"
  by (induction bs) auto

lemma blocks_ok_upd: "a \<notin> set bs \<Longrightarrow> blocks_ok base (h(a := n)) bs = blocks_ok base h bs"
proof -
  assume "a \<notin> set bs"
  then have "sorted_wrt (\<lambda>x y. x + unat ((h(a := n)) x) \<le> y) bs = sorted_wrt (\<lambda>x y. x + unat (h x) \<le> y) bs"
    by (induction bs) auto
  with \<open>a \<notin> set bs\<close> show ?thesis by (auto simp: blocks_ok_def)
qed

lemma word_pos: "0 < (w :: 32 word) \<longleftrightarrow> 0 < unat w"
  by (simp add: word_greater_zero_iff unat_gt_0)

lemma blocks_ok_append:
  "blocks_ok base h (as @ bs) \<longleftrightarrow> blocks_ok base h as \<and> blocks_ok base h bs \<and>
     (\<forall>a \<in> set as. \<forall>b \<in> set bs. a + unat (h a) \<le> b)"
  by (auto simp: blocks_ok_def sorted_wrt_append)

lemma blocks_ok_Cons:
  "blocks_ok base h (a # bs) \<longleftrightarrow> base < a \<and> 0 < h a \<and> a + unat (h a) \<le> 2 ^ 32 \<and> (\<forall>b \<in> set bs. a + unat (h a) \<le> b) \<and>
     blocks_ok base h bs"
  by (auto simp: blocks_ok_def)

lemma blocks_ok_Nil [simp]: "blocks_ok base h []"
  by (simp add: blocks_ok_def)

lemma blocks_ok_strict: "blocks_ok base h bs \<Longrightarrow> sorted_wrt (<) (base # bs)"
proof -
  assume ok: "blocks_ok base h bs"
  then have "x < y" if "x \<in> set bs" "x + unat (h x) \<le> y" for x y using that by (force simp: blocks_ok_def word_pos)
  then have "sorted_wrt (<) bs"
    using ok unfolding blocks_ok_def by (blast intro: sorted_wrt_mono_rel [of bs "\<lambda>a b. a + unat (h a) \<le> b"])
  then show ?thesis using ok by (auto simp: blocks_ok_def)
qed

lemma blocks_ok_distinct: "blocks_ok base h bs \<Longrightarrow> distinct (base # bs)"
  using blocks_ok_strict strict_sorted_iff by blast

lemma head_in_units: "blocks_ok base h bs \<Longrightarrow> b \<in> set bs \<Longrightarrow> b \<in> units h bs"
  by (force simp: units_def blocks_ok_def word_pos)

text \<open>Where a block that is not in the list goes.\<close>

lemma blocks_split:
  assumes "blocks_ok base h bs" and "b \<notin> set bs"
  shows "\<exists>as cs. bs = as @ cs \<and> (\<forall>a \<in> set as. a < b) \<and> (\<forall>c \<in> set cs. b < c)"
  using assms
proof (induction bs)
  case (Cons x bs)
  have ok: "blocks_ok base h bs" and lt: "\<forall>y \<in> set bs. x < y"
    using Cons.prems(1) blocks_ok_strict [OF Cons.prems(1)] by (auto simp: blocks_ok_Cons)
  obtain as cs where s: "bs = as @ cs" "\<forall>a \<in> set as. a < b" "\<forall>c \<in> set cs. b < c" using Cons ok by auto
  show ?case
  proof (cases "x < b")
    case True
    then show ?thesis using s by (intro exI [of _ "x # as"] exI [of _ cs]) auto
  next
    case False
    then have "b < x" using Cons.prems(2) by auto
    then show ?thesis using lt by (intro exI [of _ "[]"] exI [of _ "x # bs"]) (auto intro: less_trans)
  qed
qed simp

lemma blocks_insert:
  assumes ok: "blocks_ok base h (as @ cs)" and "\<forall>a \<in> set as. a < b" and "\<forall>c \<in> set cs. b < c"
    and "base < b" and "0 < h b" and "b + unat (h b) \<le> 2 ^ 32" and dis: "block b (unat (h b)) \<inter> units h (as @ cs) = {}"
  shows "blocks_ok base h (as @ b # cs)"
proof -
  have "a + unat (h a) \<le> b" if "a \<in> set as" for a
  proof (rule ccontr)
    assume "\<not> ?thesis"
    then have "b \<in> block a (unat (h a))" using assms(2) that by auto
    then have "b \<in> units h (as @ cs)" using that by (auto simp: units_def)
    moreover have "b \<in> block b (unat (h b))" using assms(5) by (simp add: word_pos)
    ultimately show False using dis by blast
  qed
  moreover have "b + unat (h b) \<le> c" if "c \<in> set cs" for c
  proof (rule ccontr)
    assume "\<not> ?thesis"
    then have "c \<in> block b (unat (h b))" using assms(3) that by auto
    moreover have "c \<in> units h (as @ cs)" using head_in_units [OF ok] that by simp
    ultimately show False using dis by blast
  qed
  ultimately show ?thesis using ok assms(4-6) by (auto simp: blocks_ok_append blocks_ok_Cons intro: less_imp_le)
qed

text \<open>Two blocks that meet are joined.\<close>

lemma blocks_merge:
  assumes ok: "blocks_ok base h (as @ a # b # cs)" and adj: "a + unat (h a) = b"
  shows "blocks_ok base (h(a := h a + h b)) (as @ a # cs)"
    and "units (h(a := h a + h b)) (as @ a # cs) = units h (as @ a # b # cs)"
    and "unat (h a + h b) = unat (h a) + unat (h b)"
proof -
  have d: "a \<notin> set as" "a \<notin> set cs" using blocks_ok_distinct [OF ok] by auto
  have le: "b + unat (h b) \<le> 2 ^ 32" "base < a" using ok by (auto simp: blocks_ok_append blocks_ok_Cons)
  then have "unat (h a) + unat (h b) < 2 ^ LENGTH(32)" using adj by simp
  then show n: "unat (h a + h b) = unat (h a) + unat (h b)" using unat_add_lem by blast
  show "units (h(a := h a + h b)) (as @ a # cs) = units h (as @ a # b # cs)" using d n adj by auto
  show "blocks_ok base (h(a := h a + h b)) (as @ a # cs)"
    using ok d n adj by (auto simp: blocks_ok_append blocks_ok_Cons blocks_ok_upd word_pos)
qed

lemma blocks_apart:
  assumes "blocks_ok base h (as @ b # cs)" and "u \<in> block b (unat (h b))"
  shows "u \<notin> units h as" and "u \<notin> units h cs"
  using assms by (auto simp: blocks_ok_append blocks_ok_Cons units_def; force)+

text \<open>The last units of a block are cut off, or the whole block is taken out.\<close>

lemma blocks_cut:
  assumes ok: "blocks_ok base h (as @ b # cs)" and "n < h b"
  shows "blocks_ok base (h(b := h b - n)) (as @ b # cs)"
    and "units (h(b := h b - n)) (as @ b # cs) = units h (as @ b # cs) - block (b + unat (h b - n)) (unat n)"
    and "b < b + unat (h b - n)" and "block (b + unat (h b - n)) (unat n) \<subseteq> block b (unat (h b))"
proof -
  have d: "b \<notin> set as" "b \<notin> set cs" using blocks_ok_distinct [OF ok] by auto
  have n: "unat (h b - n) = unat (h b) - unat n" "unat n < unat (h b)"
    using assms(2) unat_sub [of n "h b"] by (auto simp: word_less_nat_alt word_le_nat_alt)
  have sub: "block (b + unat (h b - n)) (unat n) \<subseteq> block b (unat (h b))" using n by auto
  then show "b < b + unat (h b - n)" "block (b + unat (h b - n)) (unat n) \<subseteq> block b (unat (h b))" using n by auto
  show "blocks_ok base (h(b := h b - n)) (as @ b # cs)"
    using ok d n by (auto simp: blocks_ok_append blocks_ok_Cons blocks_ok_upd word_pos; force)
  have "u \<notin> units h as" "u \<notin> units h cs" if "u \<in> block (b + unat (h b - n)) (unat n)" for u
    using blocks_apart [OF ok, of u] sub that by blast+
  then show "units (h(b := h b - n)) (as @ b # cs) = units h (as @ b # cs) - block (b + unat (h b - n)) (unat n)"
    using d n by (auto simp del: in_block simp: block_def)
qed

lemma blocks_remove:
  assumes "blocks_ok base h (as @ b # cs)"
  shows "blocks_ok base h (as @ cs)" and "units h (as @ cs) = units h (as @ b # cs) - block b (unat (h b))"
proof -
  show "blocks_ok base h (as @ cs)" using assms by (auto simp: blocks_ok_append blocks_ok_Cons)
  show "units h (as @ cs) = units h (as @ b # cs) - block b (unat (h b))" using blocks_apart [OF assms] by auto
qed

section \<open>The ring\<close>

lemma set_hptr_simps [simp]:
  "hptr (set_hptr p q s) = (hptr s)(p := q)" "hsize (set_hptr p q s) = hsize s" "freep (set_hptr p q s) = freep s"
  "rest (set_hptr p q s) = rest s"
  by (simp_all add: set_hptr_def)

lemma set_hsize_simps [simp]:
  "hptr (set_hsize p n s) = hptr s" "hsize (set_hsize p n s) = (hsize s)(p := n)" "freep (set_hsize p n s) = freep s"
  "rest (set_hsize p n s) = rest s"
  by (simp_all add: set_hsize_def)

primrec linked :: "(nat \<Rightarrow> nat) \<Rightarrow> nat list \<Rightarrow> nat \<Rightarrow> bool" where
  "linked f [] z \<longleftrightarrow> True"
| "linked f (x # xs) z \<longleftrightarrow> f x = hd (xs @ [z]) \<and> linked f xs z"

lemma linked_append [simp]: "linked f (xs @ ys) z \<longleftrightarrow> linked f xs (hd (ys @ [z])) \<and> linked f ys z"
  by (induction xs) (auto simp: hd_append)

lemma linked_upd [simp]: "a \<notin> set xs \<Longrightarrow> linked (f(a := v)) xs z = linked f xs z"
  by (induction xs) auto

lemma linked_nth: "linked f xs z \<Longrightarrow> i < length xs \<Longrightarrow> f (xs ! i) = (xs @ [z]) ! Suc i"
proof (induction xs arbitrary: i)
  case (Cons x xs)
  then show ?case by (cases i) (auto simp: hd_append hd_conv_nth nth_append)
qed simp

text \<open>The free list: the header \<open>base\<close>, of size 0, and the free blocks, in a ring.\<close>

definition heap_ok :: "nat \<Rightarrow> 'w arena \<Rightarrow> nat list \<Rightarrow> bool" where
  "heap_ok base s bs \<longleftrightarrow> 0 < base \<and> blocks_ok base (hsize s) bs \<and> linked (hptr s) (base # bs) base \<and> hsize s base = 0 \<and>
     freep s \<in> set (base # bs)"

lemma ring_next:
  assumes "linked f (base # bs) base" and "i < length (base # bs)"
  shows "f ((base # bs) ! i) = (base # bs) ! (Suc i mod length (base # bs))"
  using linked_nth [OF assms] assms(2) by (cases "Suc i = length (base # bs)") (auto simp: nth_append)

lemma free_seek_eq:
  "free_seek bp p s e =
     (if p < bp \<and> bp < hptr s p \<or> hptr s p \<le> p \<and> (p < bp \<or> bp < hptr s p) then Ok (Inr p) s e else Ok (Inl (hptr s p)) s e)"
  by (auto simp: free_seek_def bind_def)

text \<open>\<open>free\<close> finds the place between the blocks below and the blocks above.\<close>

lemma free_seek_run:
  assumes ok: "blocks_ok base (hsize s) (as @ cs)" and lk: "linked (hptr s) (base # as @ cs) base"
    and as: "\<forall>a \<in> set as. a < bp" and cs: "\<forall>c \<in> set cs. bp < c" and b: "base < bp" and i: "i < length (base # as @ cs)"
  shows "free_seek bp ((base # as @ cs) ! i) s e =
     (if i = length as then Ok (Inr ((base # as @ cs) ! i)) s e
      else Ok (Inl ((base # as @ cs) ! (Suc i mod length (base # as @ cs)))) s e)"
proof -
  define xs where "xs = base # as @ cs"
  have srt: "sorted_wrt (<) xs" using blocks_ok_strict [OF ok] by (simp add: xs_def)
  have i': "i < length xs" using i by (simp add: xs_def)
  have nx: "hptr s (xs ! i) = xs ! (Suc i mod length xs)" using ring_next [OF lk i] by (simp only: xs_def)
  have lt: "xs ! j < bp" if "j \<le> length as" for j
    using that as b by (cases j) (auto simp: nth_append xs_def)
  have gt: "bp < xs ! j" if "length as < j" "j < length xs" for j
    using that cs by (cases j) (auto simp: nth_append xs_def)
  have hd: "xs ! 0 = base" "length as < length xs" by (simp_all add: xs_def)
  have "free_seek bp (xs ! i) s e =
     (if i = length as then Ok (Inr (xs ! i)) s e else Ok (Inl (xs ! (Suc i mod length xs))) s e)"
  proof (cases "Suc i = length xs")
    case True
    then have "hptr s (xs ! i) = base" using nx hd by simp
    moreover have "\<forall>x \<in> set xs. base \<le> x" using srt by (auto simp: xs_def intro: less_imp_le)
    then have "base \<le> xs ! i" using nth_mem [OF i'] by blast
    ultimately show ?thesis using lt [of i] gt [of i] i' b hd True by (cases "i = length as") (auto simp: free_seek_eq)
  next
    case False
    then have n: "hptr s (xs ! i) = xs ! Suc i" "Suc i < length xs" using nx i' by simp_all
    have "xs ! i < xs ! Suc i" using srt n(2) by (simp add: sorted_wrt_nth_less)
    then show ?thesis
      using lt [of i] gt [of i] lt [of "Suc i"] gt [of "Suc i"] i' n by (cases i "length as" rule: linorder_cases) (auto simp: free_seek_eq)
  qed
  then show ?thesis by (simp only: xs_def)
qed

lemma free_seek_loop:
  assumes run: "\<And>i. i < length xs \<Longrightarrow> free_seek bp (xs ! i) s e =
     (if i = k then Ok (Inr (xs ! i)) s e else Ok (Inl (xs ! (Suc i mod length xs))) s e)"
  shows "i < length xs \<Longrightarrow> (i + d) mod length xs = k \<Longrightarrow> loopK (free_seek bp) (xs ! i) s e = Ok (xs ! k) s e"
proof (induction d arbitrary: i)
  case 0
  then show ?case using run [of i] by (auto intro: loopK_done)
next
  case (Suc d)
  show ?case
  proof (cases "i = k")
    case True
    then show ?thesis using run [of i] Suc.prems(1) by (auto intro: loopK_done)
  next
    case False
    have "loopK (free_seek bp) (xs ! i) s e = loopK (free_seek bp) (xs ! (Suc i mod length xs)) s e"
      using run [OF Suc.prems(1)] False by (auto intro: loopK_step)
    also have "\<dots> = Ok (xs ! k) s e"
    proof (rule Suc.IH)
      show "Suc i mod length xs < length xs" using Suc.prems(1) by (auto intro: mod_less_divisor)
      show "(Suc i mod length xs + d) mod length xs = k" using Suc.prems(2) by (simp add: mod_add_left_eq)
    qed
    finally show ?thesis .
  qed
qed

lemma free_seek_finds:
  assumes "heap_ok base s (as @ cs)" and "\<forall>a \<in> set as. a < bp" and "\<forall>c \<in> set cs. bp < c" and "base < bp"
  shows "loopK (free_seek bp) (freep s) s e = Ok (last (base # as)) s e"
proof -
  let ?xs = "base # as @ cs"
  obtain i where i: "i < length ?xs" "freep s = ?xs ! i" using assms(1) unfolding heap_ok_def by (metis in_set_conv_nth)
  have "i + (length as + length ?xs - i) = length as + length ?xs" using i(1) by simp
  then have k: "(i + (length as + length ?xs - i)) mod length ?xs = length as" by (simp only: mod_add_self2) simp
  have "loopK (free_seek bp) (?xs ! i) s e = Ok (?xs ! length as) s e"
    using assms by (intro free_seek_loop [OF free_seek_run i(1) k]) (auto simp: heap_ok_def)
  moreover have "?xs ! length as = last (base # as)"
    by (cases as rule: rev_cases) (auto simp: nth_append)
  ultimately show ?thesis using i(2) by simp
qed

section \<open>Freeing a block\<close>

text \<open>What the first half of \<open>free_link\<close> does: the block is put before the blocks above it, joined to the first of them where they
  meet.\<close>

definition join_upper :: "nat \<Rightarrow> nat \<Rightarrow> 'w arena \<Rightarrow> 'w arena" where
  "join_upper bp p s =
     (if bp + unat (hsize s bp) = hptr s p then set_hptr bp (hptr s (hptr s p)) (set_hsize bp (hsize s bp + hsize s (hptr s p)) s)
      else set_hptr bp (hptr s p) s)"

definition join_lower :: "nat \<Rightarrow> nat \<Rightarrow> 'w arena \<Rightarrow> 'w arena" where
  "join_lower bp p s =
     (if p + unat (hsize s p) = bp then set_hptr p (hptr s bp) (set_hsize p (hsize s p + hsize s bp) s) else set_hptr p bp s)"

lemma free_link_eq: "free_link bp p s e = Ok () (join_lower bp p (join_upper bp p s)\<lparr>freep := p\<rparr>) e"
  by (simp add: free_link_def join_upper_def join_lower_def bind_def seq_def)

lemma join_upper_ok:
  assumes ok: "blocks_ok base (hsize s) (as @ bp # cs)" and p: "hptr s p = hd (cs @ [base])" and lk: "linked (hptr s) cs base"
  shows "\<exists>cs'. blocks_ok base (hsize (join_upper bp p s)) (as @ bp # cs') \<and>
     units (hsize (join_upper bp p s)) (as @ bp # cs') = units (hsize s) (as @ bp # cs) \<and>
     linked (hptr (join_upper bp p s)) (bp # cs') base \<and> unat (hsize s bp) \<le> unat (hsize (join_upper bp p s) bp)"
proof -
  have d: "bp \<notin> set cs" "bp \<notin> set as" "base < bp"
    using blocks_ok_distinct [OF ok] ok by (auto simp: blocks_ok_append blocks_ok_Cons)
  show ?thesis
  proof (cases "bp + unat (hsize s bp) = hptr s p")
    case True
    then obtain c cs' where cs: "cs = c # cs'" "hptr s p = c" using p d(3) by (cases cs) auto
    have m: "blocks_ok base ((hsize s)(bp := hsize s bp + hsize s c)) (as @ bp # cs')"
      "units ((hsize s)(bp := hsize s bp + hsize s c)) (as @ bp # cs') = units (hsize s) (as @ bp # cs)"
      "unat (hsize s bp + hsize s c) = unat (hsize s bp) + unat (hsize s c)"
      using blocks_merge [of base "hsize s" as bp c cs'] ok True cs by simp_all
    then show ?thesis using True cs lk d by (intro exI [of _ cs']) (auto simp: join_upper_def)
  next
    case False
    then show ?thesis using ok p lk d by (intro exI [of _ cs]) (auto simp: join_upper_def)
  qed
qed

lemma join_lower_ok:
  assumes ok: "blocks_ok base (hsize s) (as @ bp # cs)" and lk: "linked (hptr s) (bp # cs) base"
    and as: "base # as = pre @ [p]" "linked (hptr s) pre p" and b: "hsize s base = 0"
  shows "\<exists>bs. blocks_ok base (hsize (join_lower bp p s)) bs \<and>
     units (hsize (join_lower bp p s)) bs = units (hsize s) (as @ bp # cs) \<and>
     linked (hptr (join_lower bp p s)) (base # bs) base \<and> p \<in> set (base # bs) \<and> hsize (join_lower bp p s) base = 0 \<and>
     (\<exists>b \<in> set bs. unat (hsize s bp) \<le> unat (hsize (join_lower bp p s) b))"
proof -
  have "distinct ((pre @ [p]) @ bp # cs)" unfolding as(1) [symmetric] using blocks_ok_distinct [OF ok] by simp
  then have d: "p \<notin> set pre" "p \<notin> set cs" "p \<noteq> bp" by auto
  show ?thesis
  proof (cases "p + unat (hsize s p) = bp")
    case True
    then have "p \<noteq> base" using b d(3) by auto
    then obtain as' where as': "as = as' @ [p]" "pre = base # as'" using as(1) by (cases pre) auto
    have m: "blocks_ok base ((hsize s)(p := hsize s p + hsize s bp)) (as' @ p # cs)"
      "units ((hsize s)(p := hsize s p + hsize s bp)) (as' @ p # cs) = units (hsize s) (as @ bp # cs)"
      "unat (hsize s p + hsize s bp) = unat (hsize s p) + unat (hsize s bp)"
      using blocks_merge [of base "hsize s" as' p bp cs] ok True as' by simp_all
    have "linked ((hptr s)(p := hptr s bp)) (pre @ p # cs) base" using as(2) lk d by simp
    then show ?thesis using m True as' \<open>p \<noteq> base\<close> b by (intro exI [of _ "as' @ p # cs"]) (auto simp: join_lower_def)
  next
    case False
    have "linked ((hptr s)(p := bp)) (pre @ p # bp # cs) base" using as(2) lk d by simp
    then have "linked ((hptr s)(p := bp)) (base # as @ bp # cs) base" using as(1) by (metis append.assoc append_Cons append_Nil)
    moreover have "p \<in> set (base # as)" using as(1) by simp
    ultimately show ?thesis using ok False b by (intro exI [of _ "as @ bp # cs"]) (auto simp: join_lower_def)
  qed
qed

text \<open>The sizes of the headers that are neither free nor \<open>base\<close>.\<close>

definition same_sizes :: "nat \<Rightarrow> nat set \<Rightarrow> 'w arena \<Rightarrow> 'w arena \<Rightarrow> bool" where
  "same_sizes base U s s' \<longleftrightarrow> (\<forall>u. u \<noteq> base \<longrightarrow> u \<notin> U \<longrightarrow> hsize s' u = hsize s u)"

lemma free_run:
  assumes ok: "heap_ok base s bs" and bp: "base < bp" "0 < hsize s bp" "bp + unat (hsize s bp) \<le> 2 ^ 32"
    and dis: "block bp (unat (hsize s bp)) \<inter> units (hsize s) bs = {}"
  shows "\<exists>s' bs'. free_u (bp + 1) s e = Ok () s' e \<and> heap_ok base s' bs' \<and> rest s' = rest s \<and>
     units (hsize s') bs' = units (hsize s) bs \<union> block bp (unat (hsize s bp)) \<and>
     same_sizes base (units (hsize s') bs') s s' \<and> (\<exists>b \<in> set bs'. unat (hsize s bp) \<le> unat (hsize s' b))"
proof -
  have bok: "blocks_ok base (hsize s) bs" using ok by (simp add: heap_ok_def)
  have "bp \<in> block bp (unat (hsize s bp))" using bp(2) by (simp add: word_pos)
  then have "bp \<notin> set bs" using dis head_in_units [OF bok] by blast
  then obtain as cs where bs: "bs = as @ cs" and as: "\<forall>a \<in> set as. a < bp" and cs: "\<forall>c \<in> set cs. bp < c"
    using blocks_split [OF bok] by blast
  define p where "p = last (base # as)"
  define pre where "pre = butlast (base # as)"
  have pre: "base # as = pre @ [p]" by (simp add: p_def pre_def)
  have "linked (hptr s) ((pre @ [p]) @ cs) base" unfolding pre [symmetric] using ok by (simp add: heap_ok_def bs)
  then have lk: "linked (hptr s) pre p" "hptr s p = hd (cs @ [base])" "linked (hptr s) cs base" by simp_all
  let ?s1 = "join_upper bp p s"
  have ins: "blocks_ok base (hsize s) (as @ bp # cs)" using blocks_insert bok as cs bp dis bs by blast
  obtain cs' where c1: "blocks_ok base (hsize ?s1) (as @ bp # cs')"
      "units (hsize ?s1) (as @ bp # cs') = units (hsize s) (as @ bp # cs)" "linked (hptr ?s1) (bp # cs') base"
      "unat (hsize s bp) \<le> unat (hsize ?s1 bp)"
    using join_upper_ok [OF ins lk(2,3)] by blast
  have "bp \<notin> set (pre @ [p])" unfolding pre [symmetric] using as bp by auto
  then have "linked (hptr ?s1) pre p" "hsize ?s1 base = 0" using lk(1) ok bp(1) by (auto simp: join_upper_def heap_ok_def)
  then obtain bs' where c2: "blocks_ok base (hsize (join_lower bp p ?s1)) bs'"
      "units (hsize (join_lower bp p ?s1)) bs' = units (hsize ?s1) (as @ bp # cs')"
      "linked (hptr (join_lower bp p ?s1)) (base # bs') base" "p \<in> set (base # bs')" "hsize (join_lower bp p ?s1) base = 0"
      "\<exists>b \<in> set bs'. unat (hsize ?s1 bp) \<le> unat (hsize (join_lower bp p ?s1) b)"
    using join_lower_ok [OF c1(1,3) pre] by blast
  let ?s' = "join_lower bp p ?s1\<lparr>freep := p\<rparr>"
  have "loopK (free_seek bp) (freep s) s e = Ok p s e"
    using free_seek_finds [OF _ as cs bp(1)] ok unfolding bs p_def by blast
  then have "free_u (bp + 1) s e = Ok () ?s' e" by (simp add: free_u_def bind_def free_link_eq)
  moreover have "heap_ok base ?s' bs'" using c2 ok by (simp add: heap_ok_def)
  moreover have "rest ?s' = rest s" by (simp add: join_lower_def join_upper_def)
  moreover have u: "units (hsize ?s') bs' = units (hsize s) bs \<union> block bp (unat (hsize s bp))" using c1(2) c2(2) bs by auto
  moreover have "bp \<in> units (hsize ?s') bs'" "p = base \<or> p \<in> units (hsize ?s') bs'"
    using u \<open>bp \<in> block bp _\<close> head_in_units [OF c2(1)] c2(4) by auto
  then have "same_sizes base (units (hsize ?s') bs') s ?s'"
    by (auto simp: same_sizes_def join_lower_def join_upper_def)
  moreover have "\<exists>b \<in> set bs'. unat (hsize s bp) \<le> unat (hsize ?s' b)" using c1(4) c2(6) order_trans by fastforce
  ultimately show ?thesis by blast
qed

section \<open>Allocating a block\<close>

text \<open>The block at \<open>p\<close> has been taken from the free units \<open>U\<close> of \<open>s\<close>.\<close>

definition taken :: "nat \<Rightarrow> nat set \<Rightarrow> 32 word \<Rightarrow> 'w arena \<Rightarrow> nat \<Rightarrow> 'w arena \<Rightarrow> bool" where
  "taken base U nu s p s' \<longleftrightarrow> hsize s' p = nu \<and> block p (unat nu) \<subseteq> U \<and> base < p \<and> rest s' = rest s \<and> same_sizes base U s s' \<and>
     (\<exists>bs'. heap_ok base s' bs' \<and> units (hsize s') bs' = U - block p (unat nu))"

lemma malloc_body_fits:
  assumes ok: "heap_ok base s (as @ b # cs)" and nu: "0 < nu" "nu \<le> hsize s b" and prev: "base # as = pre @ [prev]"
  shows "\<exists>p s'. malloc_body sbrk nu (prev, b) s e = Ok (Inr (p + 1)) s' e \<and> taken base (units (hsize s) (as @ b # cs)) nu s p s'"
proof -
  have bok: "blocks_ok base (hsize s) (as @ b # cs)" using ok by (simp add: heap_ok_def)
  have bb: "base < b" using bok by (auto simp: blocks_ok_append blocks_ok_Cons)
  have lk: "linked (hptr s) (pre @ prev # b # cs) base"
    using ok prev by (metis append.assoc append_Cons append_Nil heap_ok_def)
  have "distinct ((pre @ [prev]) @ b # cs)" unfolding prev [symmetric] using blocks_ok_distinct [OF bok] by simp
  then have d: "prev \<notin> set pre" "prev \<notin> set cs" "prev \<noteq> b" "b \<notin> set cs" "b \<notin> set pre" by auto
  have pin: "prev \<in> set (base # as)" using prev by simp
  have hz: "hsize s base = 0" "0 < base" using ok by (auto simp: heap_ok_def)
  show ?thesis
  proof (cases "hsize s b = nu")
    case True
    let ?s' = "set_hptr prev (hptr s b) s\<lparr>freep := prev\<rparr>"
    have "linked ((hptr s)(prev := hptr s b)) (pre @ prev # cs) base" using lk d by simp
    then have "linked ((hptr s)(prev := hptr s b)) (base # as @ cs) base"
      using prev by (metis append.assoc append_Cons append_Nil)
    then have "heap_ok base ?s' (as @ cs)" using blocks_remove(1) [OF bok] hz pin by (auto simp: heap_ok_def)
    moreover have "units (hsize ?s') (as @ cs) = units (hsize s) (as @ b # cs) - block b (unat nu)"
      using blocks_remove(2) [OF bok] True by simp
    moreover have "block b (unat nu) \<subseteq> units (hsize s) (as @ b # cs)" using True by auto
    ultimately have "taken base (units (hsize s) (as @ b # cs)) nu s b ?s'"
      unfolding taken_def using True bb by (auto simp: same_sizes_def)
    moreover have "malloc_body sbrk nu (prev, b) s e = Ok (Inr (b + 1)) ?s' e"
      using True by (simp add: malloc_body_def bind_def seq_def)
    ultimately show ?thesis by blast
  next
    case False
    then have lt: "nu < hsize s b" using nu by simp
    let ?p = "b + unat (hsize s b - nu)"
    let ?s' = "set_hsize ?p nu (set_hsize b (hsize s b - nu) s)\<lparr>freep := prev\<rparr>"
    note cut = blocks_cut [OF bok lt]
    have "?p \<in> block ?p (unat nu)" using nu(1) by (simp add: word_pos)
    then have "?p \<notin> units ((hsize s)(b := hsize s b - nu)) (as @ b # cs)" using cut(2) by auto
    then have "?p \<notin> set (as @ b # cs)" using head_in_units [OF cut(1)] by blast
    note upd = blocks_ok_upd [OF this] units_upd [OF this]
    have hs: "hsize ?s' = (hsize s)(b := hsize s b - nu, ?p := nu)" by simp
    have "blocks_ok base (hsize ?s') (as @ b # cs)" unfolding hs upd by (rule cut(1))
    moreover have "units (hsize ?s') (as @ b # cs) = units (hsize s) (as @ b # cs) - block ?p (unat nu)"
      unfolding hs upd by (rule cut(2))
    moreover have "linked (hptr ?s') (base # as @ b # cs) base" "hsize ?s' base = 0" "freep ?s' \<in> set (base # as @ b # cs)"
      using ok hz bb cut(3) pin by (auto simp: heap_ok_def)
    moreover have sub: "block ?p (unat nu) \<subseteq> units (hsize s) (as @ b # cs)" using cut(4) by auto
    moreover have "?p \<in> units (hsize s) (as @ b # cs)" "b \<in> units (hsize s) (as @ b # cs)"
      using sub \<open>?p \<in> block ?p _\<close> head_in_units [OF bok, of b] by (blast, simp)
    then have "same_sizes base (units (hsize s) (as @ b # cs)) s ?s'" by (auto simp: same_sizes_def)
    ultimately have "taken base (units (hsize s) (as @ b # cs)) nu s ?p ?s'"
      unfolding taken_def heap_ok_def using bb cut(3) hz by (auto intro!: exI [of _ "as @ b # cs"])
    moreover have "malloc_body sbrk nu (prev, b) s e = Ok (Inr (?p + 1)) ?s' e"
      using nu(2) False by (simp add: malloc_body_def bind_def seq_def)
    ultimately show ?thesis by blast
  qed
qed

text \<open>A block too small is passed over, except at the end of the round.\<close>

lemma less_no_le: "x < (y :: 32 word) \<Longrightarrow> (y \<le> x) = False"
  by auto

lemma malloc_body_small:
  "hsize s p < nu \<Longrightarrow> p \<noteq> freep s \<Longrightarrow> malloc_body sbrk nu (prev, p) s e = Ok (Inl (p, hptr s p)) s e"
  by (frule less_no_le) (simp add: malloc_body_def bind_def)

lemma malloc_body_more:
  "hsize s (freep s) < nu \<Longrightarrow> malloc_body sbrk nu (prev, freep s) s e =
     bind (morecore sbrk nu) (\<lambda>p. if p = 0 then ret (Inr 0) else bind (gets (\<lambda>s. hptr s p)) (\<lambda>next. ret (Inl (p, next)))) s e"
  by (frule less_no_le) (simp add: malloc_body_def bind_def)

text \<open>The walk round the ring, from the block after \<open>freep\<close>, the block with index \<open>f\<close>.\<close>

lemma malloc_walk:
  assumes lk: "linked (hptr s) (base # bs) base" and dist: "distinct (base # bs)"
    and f: "f < length (base # bs)" "freep s = (base # bs) ! f"
    and small: "\<And>t. t < d \<Longrightarrow> hsize s ((base # bs) ! ((f + 1 + t) mod length (base # bs))) < nu" and d: "d < length (base # bs)"
  shows "loopK (malloc_body sbrk nu) (freep s, hptr s (freep s)) s e =
     loopK (malloc_body sbrk nu) ((base # bs) ! ((f + d) mod length (base # bs)), (base # bs) ! ((f + 1 + d) mod length (base # bs))) s e"
  using small d
proof (induction d)
  case 0
  then show ?case using ring_next [OF lk f(1)] f by simp
next
  case (Suc d)
  let ?xs = "base # bs"
  let ?i = "(f + 1 + d) mod length ?xs"
  have i: "?i < length ?xs" by simp
  have "?i \<noteq> f"
  proof
    assume "?i = f"
    then show False
      using f(1) Suc.prems(2) by (cases "f + 1 + d < length ?xs") (auto simp: le_mod_geq)
  qed
  then have "?xs ! ?i \<noteq> freep s" using dist i f by (simp add: nth_eq_iff_index_eq)
  then have "malloc_body sbrk nu (?xs ! ((f + d) mod length ?xs), ?xs ! ?i) s e = Ok (Inl (?xs ! ?i, hptr s (?xs ! ?i))) s e"
    using Suc.prems(1) [of d] by (intro malloc_body_small) auto
  moreover have "hptr s (?xs ! ?i) = ?xs ! ((f + 1 + Suc d) mod length ?xs)"
    using ring_next [OF lk i] by (simp add: mod_Suc_eq)
  moreover have "loopK (malloc_body sbrk nu) (freep s, hptr s (freep s)) s e =
     loopK (malloc_body sbrk nu) (?xs ! ((f + d) mod length ?xs), ?xs ! ?i) s e"
    using Suc.prems by (intro Suc.IH) auto
  ultimately show ?case using loopK_step [of "malloc_body sbrk nu"] by simp
qed

lemma malloc_fits:
  assumes ok: "heap_ok base s bs" and nu: "0 < nu" and b: "b \<in> set bs" "nu \<le> hsize s b"
  shows "\<exists>p s'. loopK (malloc_body sbrk nu) (freep s, hptr s (freep s)) s e = Ok (p + 1) s' e \<and> taken base (units (hsize s) bs) nu s p s'"
proof -
  let ?xs = "base # bs" and ?n = "length (base # bs)"
  have lk: "linked (hptr s) ?xs base" and bok: "blocks_ok base (hsize s) bs" and z: "hsize s base = 0"
    using ok by (auto simp: heap_ok_def)
  obtain f where f: "f < ?n" "freep s = ?xs ! f" using ok unfolding heap_ok_def by (metis in_set_conv_nth)
  obtain j where j: "j < ?n" "b = ?xs ! j" using b(1) by (metis in_set_conv_nth list.set_intros(2))
  let ?P = "\<lambda>t. nu \<le> hsize s (?xs ! ((f + 1 + t) mod ?n))"
  have "(f + 1 + (j + ?n - (f + 1)) mod ?n) mod ?n = (f + 1 + (j + ?n - (f + 1))) mod ?n" by (rule mod_add_right_eq)
  also have "f + 1 + (j + ?n - (f + 1)) = j + ?n" using f(1) by simp
  also have "(j + ?n) mod ?n = j" using j(1) by (metis mod_add_self2 mod_less)
  finally have Pt: "?P ((j + ?n - (f + 1)) mod ?n)" using j(2) b(2) by (simp only:)
  define d where "d = (LEAST t. ?P t)"
  have Pd: "?P d" unfolding d_def by (rule LeastI [of ?P, OF Pt])
  have "d \<le> (j + ?n - (f + 1)) mod ?n" unfolding d_def by (rule Least_le [of ?P, OF Pt])
  also have "\<dots> < ?n" by (rule mod_less_divisor) simp
  finally have dn: "d < ?n" .
  have small: "hsize s (?xs ! ((f + 1 + t) mod ?n)) < nu" if "t < d" for t
    using not_less_Least [of t ?P] that unfolding d_def by (simp only: not_le)
  note walk = malloc_walk [OF lk blocks_ok_distinct [OF bok] f small dn, of sbrk e]
  obtain i where i: "(f + 1 + d) mod ?n = Suc i" using Pd z nu by (cases "(f + 1 + d) mod ?n") (auto simp: word_le_nat_alt word_pos)
  then have prev: "(f + d) mod ?n = i" by (simp add: mod_Suc split: if_splits)
  have "Suc i < ?n" using i by (metis length_greater_0_conv list.discI mod_less_divisor)
  then have il: "i < length bs" by simp
  let ?as = "take i bs" and ?b = "bs ! i" and ?cs = "drop (Suc i) bs"
  have bs: "bs = ?as @ ?b # ?cs" using id_take_nth_drop [OF il] .
  have "base # ?as = take i ?xs @ [?xs ! i]" using take_Suc_conv_app_nth [of i ?xs] il by simp
  moreover have "heap_ok base s (?as @ ?b # ?cs)" using ok bs by simp
  moreover have "nu \<le> hsize s ?b" using Pd i by simp
  ultimately obtain p s' where "malloc_body sbrk nu (?xs ! i, ?b) s e = Ok (Inr (p + 1)) s' e"
      "taken base (units (hsize s) (?as @ ?b # ?cs)) nu s p s'"
    using malloc_body_fits [of base s ?as ?b ?cs nu "take i ?xs" "?xs ! i" sbrk e] nu by blast
  then show ?thesis using walk bs i prev loopK_done [of "malloc_body sbrk nu"] by simp
qed

lemma malloc_no_fit:
  assumes ok: "heap_ok base s bs" and nu: "0 < nu" and small: "\<And>b. b \<in> set bs \<Longrightarrow> hsize s b < nu"
  shows "loopK (malloc_body sbrk nu) (freep s, hptr s (freep s)) s e =
     bind (morecore sbrk nu) (\<lambda>p. if p = 0 then ret 0 else bind (gets (\<lambda>s. hptr s p)) (\<lambda>next. loopK (malloc_body sbrk nu) (p, next))) s e"
proof -
  let ?xs = "base # bs" and ?n = "length (base # bs)"
  have lk: "linked (hptr s) ?xs base" and bok: "blocks_ok base (hsize s) bs" and z: "hsize s base = 0"
    using ok by (auto simp: heap_ok_def)
  obtain f where f: "f < ?n" "freep s = ?xs ! f" using ok unfolding heap_ok_def by (metis in_set_conv_nth)
  have sm: "hsize s x < nu" if "x \<in> set ?xs" for x using that small z nu by auto
  have "hsize s (?xs ! ((f + 1 + t) mod ?n)) < nu" for t by (rule sm, rule nth_mem) simp
  note walk = malloc_walk [OF lk blocks_ok_distinct [OF bok] f this, of "?n - 1" sbrk e]
  have "f + 1 + (?n - 1) = f + ?n" by simp
  then have "(f + 1 + (?n - 1)) mod ?n = f" using f(1) by (metis mod_add_self2 mod_less)
  then have "loopK (malloc_body sbrk nu) (freep s, hptr s (freep s)) s e =
      loopK (malloc_body sbrk nu) (?xs ! ((f + (?n - 1)) mod ?n), freep s) s e" using walk f by simp
  also have "\<dots> = bind (morecore sbrk nu) (\<lambda>p. if p = 0 then ret 0 else bind (gets (\<lambda>s. hptr s p)) (\<lambda>next. loopK (malloc_body sbrk nu) (p, next))) s e"
    using sm f nth_mem [OF f(1)]
    by (subst loopK_unfold, subst malloc_body_more) (auto simp: bind_def split: outcome.split)
  finally show ?thesis .
qed

section \<open>The whole of malloc\<close>

text \<open>What is documented of \<^verbatim>\<open>sbrk\<close>: with \<open>brk\<close> the end of the heap, in headers, a call for a number of headers fails or moves the end up
  by that number and returns the old end. The heap stays below \<open>2 ^ 32\<close> headers.\<close>

definition sbrk_grows :: "(int \<Rightarrow> 'w \<Rightarrow> nat option \<times> 'w) \<Rightarrow> ('w \<Rightarrow> nat) \<Rightarrow> bool" where
  "sbrk_grows sbrk brk \<longleftrightarrow> (\<forall>n w. case sbrk (16 * int n) w of
       (None, w') \<Rightarrow> brk w' = brk w
     | (Some a, w') \<Rightarrow> a = 16 * brk w \<and> brk w' = brk w + n \<and> brk w' \<le> 2 ^ 32)"

lemma sbrk_growsD:
  assumes "sbrk_grows sbrk brk" and "sbrk (16 * int n) w = (r, w')"
  shows "case r of None \<Rightarrow> brk w' = brk w | Some a \<Rightarrow> a = 16 * brk w \<and> brk w' = brk w + n \<and> brk w' \<le> 2 ^ 32"
  using assms(1) [unfolded sbrk_grows_def, THEN spec [of _ n], THEN spec [of _ w]] assms(2) by simp

definition heap_in :: "nat \<Rightarrow> nat \<Rightarrow> 'w arena \<Rightarrow> nat list \<Rightarrow> bool" where
  "heap_in base b s bs \<longleftrightarrow> heap_ok base s bs \<and> units (hsize s) bs \<subseteq> {..<b} \<and> base < b \<and> b \<le> 2 ^ 32"

lemma heap_inD: "heap_in base b s bs \<Longrightarrow> heap_ok base s bs"
  by (simp add: heap_in_def)

lemma unat_word_of_nat: "n < 2 ^ 32 \<Longrightarrow> unat (word_of_nat n :: 32 word) = n"
  by (simp add: unat_of_nat take_bit_nat_eq_self)

lemma sint_small: "n < 2 ^ 31 \<Longrightarrow> sint (word_of_nat n :: 32 word) = int n"
  by (simp add: sint_uint uint_nat unat_of_nat take_bit_nat_eq_self signed_take_bit_int_eq_self)

lemma heap_ok_rest [simp]: "heap_ok base (s\<lparr>rest := w\<rparr>) bs = heap_ok base s bs"
  by (simp add: heap_ok_def)

lemma morecore_run:
  assumes sb: "sbrk_grows sbrk brk" and hp: "heap_in base (brk (rest s)) s bs" and nu: "0 < nu" "unat nu < 2 ^ 27"
  shows "(\<exists>w. morecore sbrk nu s e = Ok 0 (s\<lparr>rest := w\<rparr>) e \<and> brk w = brk (rest s)) \<or>
    (\<exists>s' bs'. morecore sbrk nu s e = Ok (freep s') s' e \<and> freep s' \<noteq> 0 \<and> heap_in base (brk (rest s')) s' bs' \<and>
       brk (rest s) \<le> brk (rest s') \<and> units (hsize s') bs' = units (hsize s) bs \<union> {brk (rest s)..<brk (rest s')} \<and>
       same_sizes base (units (hsize s') bs') s s' \<and> (\<exists>b \<in> set bs'. nu \<le> hsize s' b))"
proof -
  define n where "n = (if nu < 4096 then 4096 else nu)"
  have n: "unat nu \<le> unat n" "unat n < 2 ^ 27" "0 < n" using nu by (auto simp: n_def word_less_nat_alt)
  have "sint (word_of_nat (unat n * 16) :: 32 word) = 16 * int (unat n)" using n(2) by (subst sint_small) auto
  then have mc: "morecore sbrk nu s e = bind (call_sbrk sbrk (16 * int (unat n))) (\<lambda>r. case r of None \<Rightarrow> ret 0
      | Some p \<Rightarrow> seq (modify (set_hsize (p div 16) n)) (seq (free_u (p div 16 + 1)) (gets freep))) s e"
    unfolding morecore_def n_def [symmetric] Let_def by (simp only:)
  obtain r w where r: "sbrk (16 * int (unat n)) (rest s) = (r, w)" by fastforce
  note g = sbrk_growsD [OF sb r]
  show ?thesis
  proof (cases r)
    case None
    then show ?thesis using g r mc by (auto simp: bind_def call_sbrk_def)
  next
    case (Some a)
    let ?b = "brk (rest s)"
    let ?s1 = "set_hsize ?b n (s\<lparr>rest := w\<rparr>)"
    have a: "a = 16 * ?b" "brk w = ?b + unat n" "brk w \<le> 2 ^ 32" using g Some by auto
    have out: "?b \<notin> units (hsize s) bs" "?b \<noteq> base" and ok: "heap_ok base s bs" using hp by (auto simp: heap_in_def)
    then have "?b \<notin> set bs" using head_in_units heap_ok_def by blast
    then have ok1: "heap_ok base ?s1 bs" and u1: "units (hsize ?s1) bs = units (hsize s) bs"
      using ok out by (auto simp: heap_ok_def blocks_ok_upd)
    have dis: "block ?b (unat (hsize ?s1 ?b)) \<inter> units (hsize ?s1) bs = {}" using hp u1 by (auto simp: heap_in_def)
    have b: "base < ?b" "0 < hsize ?s1 ?b" "?b + unat (hsize ?s1 ?b) \<le> 2 ^ 32" using hp n a by (auto simp: heap_in_def)
    obtain s' bs' where f': "free_u (?b + 1) ?s1 e = Ok () s' e" "heap_ok base s' bs'" "rest s' = rest ?s1"
        "units (hsize s') bs' = units (hsize ?s1) bs \<union> block ?b (unat (hsize ?s1 ?b))" "same_sizes base (units (hsize s') bs') ?s1 s'"
        "\<exists>b \<in> set bs'. unat (hsize ?s1 ?b) \<le> unat (hsize s' b)"
      using free_run [OF ok1 b dis, of e] by blast
    have f: "free_u (?b + 1) ?s1 e = Ok () s' e" "heap_ok base s' bs'" "rest s' = w"
        "units (hsize s') bs' = units (hsize s) bs \<union> block ?b (unat n)" "same_sizes base (units (hsize s') bs') ?s1 s'"
        "\<exists>b \<in> set bs'. unat n \<le> unat (hsize s' b)"
      using f' u1 by simp_all
    have "morecore sbrk nu s e = Ok (freep s') s' e" using mc r Some a(1) f(1) by (simp add: bind_def call_sbrk_def seq_def)
    moreover have "freep s' \<noteq> 0" using f(2) by (auto simp: heap_ok_def blocks_ok_def)
    moreover have "units (hsize s') bs' = units (hsize s) bs \<union> {?b..<brk (rest s')}" using f a by (auto simp: block_def)
    moreover have "heap_in base (brk (rest s')) s' bs'" using f a hp calculation(3) by (auto simp: heap_in_def)
    moreover have "?b \<in> units (hsize s') bs'" using f(4) n(3) by (auto simp: word_pos)
    then have "same_sizes base (units (hsize s') bs') s s'" using f(5) by (auto simp: same_sizes_def)
    moreover have "\<exists>b \<in> set bs'. nu \<le> hsize s' b" using f(6) n(1) order_trans unfolding word_le_nat_alt by blast
    ultimately show ?thesis using a f(3) by (intro disjI2 exI [of _ s'] exI [of _ bs']) simp
  qed
qed

text \<open>The outcome of \<open>malloc\<close> for \<open>nu\<close> headers: nothing, or a block from the free units and those \<^verbatim>\<open>sbrk\<close> added.\<close>

definition malloc_out :: "nat \<Rightarrow> ('w \<Rightarrow> nat) \<Rightarrow> 32 word \<Rightarrow> 'w arena \<Rightarrow> nat list \<Rightarrow> nat \<Rightarrow> 'w arena \<Rightarrow> nat list \<Rightarrow> bool" where
  "malloc_out base brk nu s bs r s' bs' \<longleftrightarrow> heap_in base (brk (rest s')) s' bs' \<and> brk (rest s) \<le> brk (rest s') \<and>
     (let U = units (hsize s) bs \<union> {brk (rest s)..<brk (rest s')} in
      same_sizes base U s s' \<and>
      (if r = 0 then units (hsize s') bs' = U
       else base < r - 1 \<and> hsize s' (r - 1) = nu \<and> block (r - 1) (unat nu) \<subseteq> U \<and> units (hsize s') bs' = U - block (r - 1) (unat nu)))"

lemma malloc_loop_run:
  assumes sb: "sbrk_grows sbrk brk" and hp: "heap_in base (brk (rest s)) s bs" and nu: "0 < nu" "unat nu < 2 ^ 27"
  shows "\<exists>r s' bs'. loopK (malloc_body sbrk nu) (freep s, hptr s (freep s)) s e = Ok r s' e \<and> malloc_out base brk nu s bs r s' bs'"
proof (cases "\<exists>b \<in> set bs. nu \<le> hsize s b")
  case True
  then obtain p s' where "loopK (malloc_body sbrk nu) (freep s, hptr s (freep s)) s e = Ok (p + 1) s' e"
      "taken base (units (hsize s) bs) nu s p s'"
    using malloc_fits [OF heap_inD [OF hp] nu(1)] by blast
  then show ?thesis
    using hp by (intro exI [of _ "p + 1"] exI [of _ s']) (auto simp: taken_def malloc_out_def heap_in_def Let_def)
next
  case False
  then have nf: "loopK (malloc_body sbrk nu) (freep s, hptr s (freep s)) s e =
     bind (morecore sbrk nu) (\<lambda>p. if p = 0 then ret 0 else bind (gets (\<lambda>s. hptr s p)) (\<lambda>next. loopK (malloc_body sbrk nu) (p, next))) s e"
    using hp nu by (intro malloc_no_fit) (auto simp: heap_in_def)
  from morecore_run [OF sb hp nu, of e] show ?thesis
  proof (elim disjE exE conjE bexE)
    fix w assume "morecore sbrk nu s e = Ok 0 (s\<lparr>rest := w\<rparr>) e" "brk w = brk (rest s)"
    then show ?thesis using nf hp
      by (intro exI [of _ 0] exI [of _ "s\<lparr>rest := w\<rparr>"] exI [of _ bs])
        (auto simp: bind_def malloc_out_def heap_in_def Let_def same_sizes_def)
  next
    fix s1 bs1 b
    assume m: "morecore sbrk nu s e = Ok (freep s1) s1 e" "freep s1 \<noteq> 0" and h1: "heap_in base (brk (rest s1)) s1 bs1"
      and le: "brk (rest s) \<le> brk (rest s1)" and u: "units (hsize s1) bs1 = units (hsize s) bs \<union> {brk (rest s)..<brk (rest s1)}"
      and ss: "same_sizes base (units (hsize s1) bs1) s s1" and b: "b \<in> set bs1" "nu \<le> hsize s1 b"
    obtain p s' where l: "loopK (malloc_body sbrk nu) (freep s1, hptr s1 (freep s1)) s1 e = Ok (p + 1) s' e"
        "taken base (units (hsize s1) bs1) nu s1 p s'"
      using malloc_fits [OF heap_inD [OF h1] nu(1) b] by blast
    have "same_sizes base (units (hsize s1) bs1) s s'" using ss l(2) by (auto simp: taken_def same_sizes_def)
    moreover have "loopK (malloc_body sbrk nu) (freep s, hptr s (freep s)) s e = Ok (p + 1) s' e"
      using nf m l(1) by (simp add: bind_def)
    moreover have "units (hsize s) bs \<union> {brk (rest s)..<brk (rest s1)} \<subseteq> {..<brk (rest s1)}" "base < brk (rest s1)"
        "brk (rest s1) \<le> 2 ^ 32"
      using h1 u by (simp_all add: heap_in_def)
    moreover obtain bs' where "heap_ok base s' bs'" "units (hsize s') bs' = units (hsize s1) bs1 - block p (unat nu)"
      using l(2) by (auto simp: taken_def)
    ultimately show ?thesis
      using le l(2) unfolding u
      by (intro exI [of _ "p + 1"] exI [of _ s'] exI [of _ bs']) (auto simp: taken_def malloc_out_def heap_in_def Let_def)
  qed
qed

text \<open>The first call makes the ring of \<open>base\<close> alone.\<close>

definition started :: "nat \<Rightarrow> 'w arena \<Rightarrow> 'w arena" where
  "started base s = (if freep s = 0 then set_hsize base 0 (set_hptr base base (s\<lparr>freep := base\<rparr>)) else s)"

lemma malloc_starts:
  "malloc base sbrk nb s e =
     (let s' = started base s in loopK (malloc_body sbrk (nunits nb)) (freep s', hptr s' (freep s')) s' e)"
  by (simp add: malloc_def started_def bind_def seq_def whenK_def Let_def)

lemma nunits_small:
  assumes "unat nb \<le> 2 ^ 31 - 32"
  shows "unat (nunits nb) = (unat nb + 15) div 16 + 1" and "0 < nunits nb" and "unat (nunits nb) < 2 ^ 27"
    and "unat nb \<le> 16 * (unat (nunits nb) - 1)"
proof -
  have "(unat nb + 15) div 16 + 1 < 2 ^ 27" using assms by simp
  moreover from this show u: "unat (nunits nb) = (unat nb + 15) div 16 + 1"
    unfolding nunits_def by (subst unat_word_of_nat) auto
  ultimately show "unat (nunits nb) < 2 ^ 27" by simp
  show "0 < nunits nb" using u by (simp add: word_pos)
  show "unat nb \<le> 16 * (unat (nunits nb) - 1)" unfolding u by simp
qed

section \<open>A program that uses the heap\<close>

text \<open>
  The states a program can reach, with the blocks it has: the pointers \<open>malloc\<close> has returned, with the sizes asked for. It
  calls \<open>malloc\<close>, frees blocks it has, stores into them (everything from the pointer on to the end of the block, never the header
  before it), and may grow the heap itself.
\<close>

inductive heap_reach :: "nat \<Rightarrow> (int \<Rightarrow> 'w \<Rightarrow> nat option \<times> 'w) \<Rightarrow> ('w \<Rightarrow> nat) \<Rightarrow> 'w arena \<Rightarrow> (nat \<times> 32 word) set \<Rightarrow> bool"
  for base sbrk brk where
  start: "freep s = 0 \<Longrightarrow> base < brk (rest s) \<Longrightarrow> brk (rest s) \<le> 2 ^ 32 \<Longrightarrow> heap_reach base sbrk brk s {}"
| alloc: "heap_reach base sbrk brk s A \<Longrightarrow> unat nb \<le> 2 ^ 31 - 32 \<Longrightarrow> malloc base sbrk nb s e = Ok p s' e \<Longrightarrow>
    heap_reach base sbrk brk s' (if p = 0 then A else insert (p, nb) A)"
| release: "heap_reach base sbrk brk s A \<Longrightarrow> (p, nb) \<in> A \<Longrightarrow> free_u p s e = Ok () s' e \<Longrightarrow>
    heap_reach base sbrk brk s' (A - {(p, nb)})"
| store: "heap_reach base sbrk brk s A \<Longrightarrow> (p, nb) \<in> A \<Longrightarrow>
    (\<And>u. \<not> (p \<le> u \<and> u < p - 1 + unat (nunits nb)) \<Longrightarrow> hp u = hptr s u \<and> hs u = hsize s u) \<Longrightarrow>
    heap_reach base sbrk brk (s\<lparr>hptr := hp, hsize := hs\<rparr>) A"
| grow: "heap_reach base sbrk brk s A \<Longrightarrow> brk (rest s) \<le> brk w \<Longrightarrow> brk w \<le> 2 ^ 32 \<Longrightarrow>
    heap_reach base sbrk brk (s\<lparr>rest := w\<rparr>) A"

text \<open>The invariant: the blocks of the program lie in the heap, apart from the free ones and from each other.\<close>

definition owned :: "nat \<times> 32 word \<Rightarrow> nat set" where
  "owned a = block (fst a - 1) (unat (nunits (snd a)))"

definition heap_inv :: "nat \<Rightarrow> nat \<Rightarrow> 'w arena \<Rightarrow> (nat \<times> 32 word) set \<Rightarrow> nat list \<Rightarrow> bool" where
  "heap_inv base b s A bs \<longleftrightarrow> heap_in base b s bs \<and>
     (\<forall>a \<in> A. base < fst a - 1 \<and> unat (snd a) \<le> 2 ^ 31 - 32 \<and> hsize s (fst a - 1) = nunits (snd a) \<and>
        owned a \<subseteq> {..<b} \<and> owned a \<inter> units (hsize s) bs = {}) \<and>
     pairwise (\<lambda>x y. owned x \<inter> owned y = {}) A"

lemma owned_header: "unat (snd a) \<le> 2 ^ 31 - 32 \<Longrightarrow> fst a - 1 \<in> owned a"
  using nunits_small(2) [of "snd a"] by (simp add: owned_def word_pos)

lemma heap_inv_alloc:
  assumes inv: "heap_inv base (brk (rest s)) s A bs" and nb: "unat nb \<le> 2 ^ 31 - 32"
    and out: "malloc_out base brk (nunits nb) s bs p s' bs'"
  shows "heap_inv base (brk (rest s')) s' (if p = 0 then A else insert (p, nb) A) bs'"
proof -
  let ?U = "units (hsize s) bs \<union> {brk (rest s)..<brk (rest s')}"
  have o: "heap_in base (brk (rest s')) s' bs'" "brk (rest s) \<le> brk (rest s')" "same_sizes base ?U s s'"
    "if p = 0 then units (hsize s') bs' = ?U
     else base < p - 1 \<and> hsize s' (p - 1) = nunits nb \<and> owned (p, nb) \<subseteq> ?U \<and> units (hsize s') bs' = ?U - owned (p, nb)"
    using out unfolding malloc_out_def Let_def owned_def fst_conv snd_conv by blast+
  have A: "base < fst a - 1" "unat (snd a) \<le> 2 ^ 31 - 32" "hsize s (fst a - 1) = nunits (snd a)" "owned a \<subseteq> {..<brk (rest s)}"
      "owned a \<inter> ?U = {}" if "a \<in> A" for a
    using inv that by (auto simp: heap_inv_def, force)
  have keep: "hsize s' (fst a - 1) = nunits (snd a)" if "a \<in> A" for a
  proof -
    have "fst a - 1 \<notin> ?U" using owned_header [OF A(2) [OF that]] A(5) [OF that] by blast
    moreover have "fst a - 1 \<noteq> base" using A(1) [OF that] by simp
    ultimately show ?thesis using o(3) A(3) [OF that] unfolding same_sizes_def by metis
  qed
  have sub: "units (hsize s') bs' \<subseteq> ?U" using o(4) by (cases "p = 0") auto
  have old: "owned a \<subseteq> {..<brk (rest s')}" "owned a \<inter> units (hsize s') bs' = {}" if "a \<in> A" for a
    using A(4,5) [OF that] o(2) sub by (meson lessThan_subset_iff subset_trans, blast)
  have "owned (p, nb) \<inter> owned a = {}" if "a \<in> A" "p \<noteq> 0" for a
  proof -
    have "owned (p, nb) \<subseteq> ?U" using o(4) that(2) by simp
    then show ?thesis using A(5) [OF that(1)] by blast
  qed
  then have "pairwise (\<lambda>x y. owned x \<inter> owned y = {}) (if p = 0 then A else insert (p, nb) A)"
    using inv by (auto simp: heap_inv_def pairwise_insert)
  moreover have "?U \<subseteq> {..<brk (rest s')}" using inv o(2) by (fastforce simp: heap_inv_def heap_in_def)
  then have "owned (p, nb) \<subseteq> {..<brk (rest s')}" if "p \<noteq> 0"
    using o(4) that by (metis subset_trans)
  ultimately show ?thesis unfolding heap_inv_def using o(1,4) A(1,2) keep old nb by (auto split: if_splits)
qed

lemma heap_inv_free:
  assumes inv: "heap_inv base b s A bs" and a: "(p, nb) \<in> A"
  shows "\<exists>s' bs'. free_u p s e = Ok () s' e \<and> rest s' = rest s \<and> heap_inv base b s' (A - {(p, nb)}) bs'"
proof -
  have hp: "heap_in base b s bs" using inv by (simp add: heap_inv_def)
  have A: "base < fst x - 1" "unat (snd x) \<le> 2 ^ 31 - 32" "hsize s (fst x - 1) = nunits (snd x)" "owned x \<subseteq> {..<b}"
      "owned x \<inter> units (hsize s) bs = {}" if "x \<in> A" for x
    using inv that by (auto simp: heap_inv_def)
  let ?bp = "p - 1"
  have ow: "owned (p, nb) = block ?bp (unat (hsize s ?bp))" using A(3) [OF a] by (simp add: owned_def)
  have "0 < hsize s ?bp" using nunits_small(2) A(2,3) [OF a] by simp
  then have "?bp + unat (hsize s ?bp) - 1 \<in> owned (p, nb)" unfolding ow by (auto simp: word_pos)
  then have le: "?bp + unat (hsize s ?bp) \<le> 2 ^ 32" using A(4) [OF a] hp by (auto simp: heap_in_def)
  obtain s' bs' where f: "free_u (?bp + 1) s e = Ok () s' e" "heap_ok base s' bs'" "rest s' = rest s"
      "units (hsize s') bs' = units (hsize s) bs \<union> owned (p, nb)" "same_sizes base (units (hsize s') bs') s s'"
    using free_run [OF heap_inD [OF hp] _ \<open>0 < hsize s ?bp\<close> le, of e] A(1,5) [OF a] unfolding ow fst_conv by blast
  have pw: "owned x \<inter> owned (p, nb) = {}" if "x \<in> A - {(p, nb)}" for x
    using inv a that by (auto simp: heap_inv_def pairwise_def)
  have dis: "owned x \<inter> units (hsize s') bs' = {}" if "x \<in> A - {(p, nb)}" for x
    unfolding f(4) using pw [OF that] A(5) [of x] that by blast
  have keep: "hsize s' (fst x - 1) = nunits (snd x)" if "x \<in> A - {(p, nb)}" for x
  proof -
    have "fst x - 1 \<notin> units (hsize s') bs'" using dis [OF that] owned_header [OF A(2)] that by blast
    moreover have "fst x - 1 \<noteq> base" using A(1) [of x] that by auto
    ultimately show ?thesis using f(5) A(3) [of x] that by (simp add: same_sizes_def)
  qed
  have "heap_in base b s' bs'" using f(2,4) hp A(4) [OF a] by (simp add: heap_in_def)
  then have "heap_inv base b s' (A - {(p, nb)}) bs'"
    unfolding heap_inv_def using A(1,2,4) dis keep inv by (auto simp: heap_inv_def intro: pairwise_subset)
  moreover have "p - 1 + 1 = p" using A(1) [OF a] by simp
  ultimately show ?thesis using f(1,3) by (intro exI [of _ s'] exI [of _ bs']) simp
qed

lemma linked_cong: "(\<And>x. x \<in> set xs \<Longrightarrow> f x = g x) \<Longrightarrow> linked f xs z = linked g xs z"
  by (induction xs) auto

lemma blocks_ok_cong: "(\<And>x. x \<in> set bs \<Longrightarrow> h x = h' x) \<Longrightarrow> blocks_ok base h bs = blocks_ok base h' bs"
  by (induction bs) (auto simp: blocks_ok_Cons)

lemma units_cong: "(\<And>x. x \<in> set bs \<Longrightarrow> h x = h' x) \<Longrightarrow> units h bs = units h' bs"
  by (auto simp: units_def)

lemma heap_inv_store:
  assumes inv: "heap_inv base b s A bs" and a: "(p, nb) \<in> A"
    and st: "\<And>u. \<not> (p \<le> u \<and> u < p - 1 + unat (nunits nb)) \<Longrightarrow> hp u = hptr s u \<and> hs u = hsize s u"
  shows "heap_inv base b (s\<lparr>hptr := hp, hsize := hs\<rparr>) A bs"
proof -
  have A: "base < p - 1" "owned (p, nb) \<inter> units (hsize s) bs = {}" using inv a by (auto simp: heap_inv_def)
  have same: "hp u = hptr s u \<and> hs u = hsize s u" if "u \<notin> owned (p, nb) \<or> u = p - 1" for u
    using that A(1) by (intro st) (auto simp: owned_def)
  have ok: "heap_ok base s bs" using inv by (simp add: heap_inv_def heap_in_def)
  have free: "hp u = hptr s u \<and> hs u = hsize s u" if "u \<in> set (base # bs)" for u
  proof -
    have "u \<notin> owned (p, nb)"
      using that A head_in_units [of base "hsize s" bs] ok by (auto simp: heap_ok_def owned_def)
    then show ?thesis using same by blast
  qed
  have header: "hs (fst x - 1) = hsize s (fst x - 1)" if "x \<in> A" for x
  proof (cases "x = (p, nb)")
    case True
    then show ?thesis using same by simp
  next
    case False
    then have "owned x \<inter> owned (p, nb) = {}" using inv a that by (auto simp: heap_inv_def pairwise_def)
    moreover have "fst x - 1 \<in> owned x" using inv that by (intro owned_header) (auto simp: heap_inv_def)
    ultimately show ?thesis using same by blast
  qed
  have "linked hp (base # bs) base = linked (hptr s) (base # bs) base" using free by (intro linked_cong) blast
  moreover have "blocks_ok base hs bs = blocks_ok base (hsize s) bs" using free by (intro blocks_ok_cong) simp
  moreover have u: "units hs bs = units (hsize s) bs" using free by (intro units_cong) simp
  ultimately have "heap_in base b (s\<lparr>hptr := hp, hsize := hs\<rparr>) bs" using inv free by (auto simp: heap_inv_def heap_in_def heap_ok_def)
  then show ?thesis using inv header u by (auto simp: heap_inv_def)
qed

lemma started_ok: "freep s = 0 \<Longrightarrow> 0 < base \<Longrightarrow> heap_ok base (started base s) []"
  by (simp add: started_def heap_ok_def)

lemma started_inv:
  assumes "freep s = 0" and "0 < base" and "base < b" and "b \<le> 2 ^ 32"
  shows "heap_inv base b (started base s) {} []"
  using started_ok [OF assms(1,2)] assms(3,4) by (simp add: heap_inv_def heap_in_def)

text \<open>The state as \<open>malloc\<close> finds it, once the ring is there.\<close>

definition heap_state :: "nat \<Rightarrow> ('w \<Rightarrow> nat) \<Rightarrow> 'w arena \<Rightarrow> (nat \<times> 32 word) set \<Rightarrow> bool" where
  "heap_state base brk s A \<longleftrightarrow> (freep s = 0 \<longrightarrow> A = {}) \<and> (\<exists>bs. heap_inv base (brk (rest s)) (started base s) A bs)"

lemma heap_stateI: "heap_inv base (brk (rest s)) s A bs \<Longrightarrow> heap_state base brk s A"
proof -
  assume inv: "heap_inv base (brk (rest s)) s A bs"
  then have "freep s \<noteq> 0" by (auto simp: heap_inv_def heap_in_def heap_ok_def blocks_ok_def)
  with inv show ?thesis by (auto simp: heap_state_def started_def)
qed

lemma heap_stateD:
  assumes "heap_state base brk s A" and "a \<in> A"
  shows "\<exists>bs. heap_inv base (brk (rest s)) s A bs"
  using assms by (auto simp: heap_state_def started_def split: if_splits)

lemma started_rest [simp]: "rest (started base s) = rest s"
  by (simp add: started_def)

lemma malloc_state:
  assumes sb: "sbrk_grows sbrk brk" and st: "heap_state base brk s A" and nb: "unat nb \<le> 2 ^ 31 - 32"
  shows "\<exists>p s'. malloc base sbrk nb s e = Ok p s' e \<and> heap_state base brk s' (if p = 0 then A else insert (p, nb) A)"
proof -
  obtain bs where inv: "heap_inv base (brk (rest (started base s))) (started base s) A bs" using st by (auto simp: heap_state_def)
  then obtain p s' bs' where "loopK (malloc_body sbrk (nunits nb)) (freep (started base s), hptr (started base s) (freep (started base s)))
      (started base s) e = Ok p s' e" "malloc_out base brk (nunits nb) (started base s) bs p s' bs'"
    using malloc_loop_run [OF sb _ nunits_small(2,3) [OF nb], of base "started base s" bs e] by (auto simp: heap_inv_def)
  moreover from this(2) have "heap_inv base (brk (rest s')) s' (if p = 0 then A else insert (p, nb) A) bs'"
    by (rule heap_inv_alloc [where brk = brk, OF inv nb])
  ultimately show ?thesis by (intro exI [of _ p] exI [of _ s'] conjI heap_stateI [where brk = brk]) (simp add: malloc_starts Let_def)
qed

lemma reach_state:
  assumes sb: "sbrk_grows sbrk brk" and b: "0 < base"
  shows "heap_reach base sbrk brk s A \<Longrightarrow> heap_state base brk s A"
proof (induction rule: heap_reach.induct)
  case (start s)
  then show ?case using started_inv [OF start(1) b start(2,3)] by (auto simp: heap_state_def)
next
  case (alloc s A nb e p s')
  then show ?case using malloc_state [OF sb alloc.IH alloc.hyps(2), of e] by auto
next
  case (release s A p nb e s')
  obtain bs where "heap_inv base (brk (rest s)) s A bs" using heap_stateD release by blast
  from heap_inv_free [OF this release.hyps(2), of e] release.hyps(3)
  obtain bs' where "rest s' = rest s" "heap_inv base (brk (rest s)) s' (A - {(p, nb)}) bs'" by auto
  then show ?case by (intro heap_stateI [where brk = brk]) simp
next
  case (store s A p nb hp hs)
  obtain bs where "heap_inv base (brk (rest s)) s A bs" using heap_stateD store by blast
  from heap_inv_store [OF this store.hyps(2,3)] show ?case by (intro heap_stateI [where brk = brk]) simp
next
  case (grow s A w)
  obtain bs where inv: "heap_inv base (brk (rest s)) (started base s) A bs" using grow.IH by (auto simp: heap_state_def)
  have "started base (s\<lparr>rest := w\<rparr>) = started base s\<lparr>rest := w\<rparr>" by (simp add: started_def set_hptr_def set_hsize_def)
  moreover have "heap_inv base (brk w) (started base s\<lparr>rest := w\<rparr>) A bs"
    using inv grow.hyps(2,3) by (fastforce simp: heap_inv_def heap_in_def)
  ultimately show ?case using grow.IH by (auto simp: heap_state_def)
qed

text \<open>The bytes a program may use from the pointer \<open>p\<close> on, for a block of \<open>nb\<close> bytes.\<close>

definition bytes_of :: "nat \<times> 32 word \<Rightarrow> nat set" where
  "bytes_of a = {16 * fst a..<16 * fst a + unat (snd a)}"

lemma bytes_owned: "unat (snd a) \<le> 2 ^ 31 - 32 \<Longrightarrow> 0 < fst a - 1 \<Longrightarrow> x \<in> bytes_of a \<Longrightarrow> x div 16 \<in> owned a"
  using nunits_small(1,4) [of "snd a"] by (auto simp: bytes_of_def owned_def)

text \<open>
  C1. Blocks of the heap never overlap. Let a program call \<^verbatim>\<open>malloc\<close> for up to \<open>2 ^ 31 - 32\<close> bytes and \<^verbatim>\<open>free\<close> in any order, and
  store what it likes into the blocks it has, also where freed headers were. Then the bytes of different blocks are disjoint and inside the
  heap, and both functions always return: the search of the free list ends, whether or not \<^verbatim>\<open>sbrk\<close> grants more memory.
\<close>

theorem heap_safe:
  assumes "sbrk_grows sbrk brk" and "0 < base" and "heap_reach base sbrk brk s A"
  shows "pairwise (\<lambda>a b. bytes_of a \<inter> bytes_of b = {}) A \<and> \<Union> (bytes_of ` A) \<subseteq> {16 * base..<16 * brk (rest s)} \<and>
    (unat nb \<le> 2 ^ 31 - 32 \<longrightarrow> (\<exists>p s'. malloc base sbrk nb s e = Ok p s' e)) \<and>
    ((p, nb) \<in> A \<longrightarrow> (\<exists>s'. free_u p s e = Ok () s' e))"
proof (intro conjI impI)
  have st: "heap_state base brk s A" using reach_state assms by blast
  then obtain bs where inv: "heap_inv base (brk (rest s)) (started base s) A bs" by (auto simp: heap_state_def)
  have A: "base < fst a - 1" "unat (snd a) \<le> 2 ^ 31 - 32" "owned a \<subseteq> {..<brk (rest s)}" if "a \<in> A" for a
    using inv that by (auto simp: heap_inv_def)
  have own: "x div 16 \<in> owned a" if "a \<in> A" "x \<in> bytes_of a" for a x using bytes_owned A [OF that(1)] assms(2) that(2) by auto
  have "owned a \<inter> owned b = {}" if "a \<in> A" "b \<in> A" "a \<noteq> b" for a b using inv that by (auto simp: heap_inv_def pairwise_def)
  then show "pairwise (\<lambda>a b. bytes_of a \<inter> bytes_of b = {}) A" using own unfolding pairwise_def by blast
  show "\<Union> (bytes_of ` A) \<subseteq> {16 * base..<16 * brk (rest s)}"
  proof
    fix x assume "x \<in> \<Union> (bytes_of ` A)"
    then obtain a where a: "a \<in> A" "x \<in> bytes_of a" by blast
    have "x div 16 < brk (rest s)" using own [OF a] A(3) [OF a(1)] by blast
    moreover have "16 * base \<le> x" using A(1) [OF a(1)] a(2) by (auto simp: bytes_of_def)
    ultimately show "x \<in> {16 * base..<16 * brk (rest s)}" by simp
  qed
  show "\<exists>p s'. malloc base sbrk nb s e = Ok p s' e" if "unat nb \<le> 2 ^ 31 - 32" using malloc_state [OF assms(1) st that] by blast
  show "\<exists>s'. free_u p s e = Ok () s' e" if "(p, nb) \<in> A" using heap_stateD [OF st that] heap_inv_free [OF _ that] by blast
qed

text \<open>A world that is the end of the heap.\<close>

definition demo_sbrk :: "int \<Rightarrow> nat \<Rightarrow> nat option \<times> nat" where
  "demo_sbrk n b = (if 0 \<le> n \<and> b + nat n div 16 \<le> 2 ^ 32 then (Some (16 * b), b + nat n div 16) else (None, b))"

definition demo_arena :: "nat arena" where
  "demo_arena = \<lparr>hptr = (\<lambda>_. 0), hsize = (\<lambda>_. 0), freep = 0, rest = 3\<rparr>"

lemma demo_sbrk_grows: "sbrk_grows demo_sbrk id"
  by (simp add: sbrk_grows_def demo_sbrk_def nat_mult_distrib)

lemma demo_malloc: "\<exists>s. malloc 2 demo_sbrk 10 demo_arena [] = Ok 4098 s []"
proof -
  let ?s0 = "started 2 demo_arena"
  let ?s1 = "set_hsize 3 4096 (?s0\<lparr>rest := 4099\<rparr>)"
  let ?s2 = "set_hptr 2 3 (set_hptr 3 2 ?s1)"
  have s0: "freep ?s0 = 2" "hptr ?s0 2 = 2" "hsize ?s0 2 = 0" "rest demo_arena = 3" by (simp_all add: started_def demo_arena_def)
  have seek: "loopK (free_seek 3) 2 ?s1 [] = Ok 2 ?s1 []" by (rule loopK_done) (simp add: free_seek_eq s0)
  have "free_u 4 ?s1 [] = Ok () (?s2\<lparr>freep := 2\<rparr>) []"
    using seek by (simp add: free_u_def bind_def s0 free_link_eq join_upper_def join_lower_def)
  then have "morecore demo_sbrk 2 ?s0 [] = Ok 2 (?s2\<lparr>freep := 2\<rparr>) []"
    by (simp add: morecore_def bind_def seq_def call_sbrk_def s0 demo_sbrk_def Let_def)
  then have "malloc_body demo_sbrk 2 (2, 2) ?s0 [] = Ok (Inl (2, 3)) (?s2\<lparr>freep := 2\<rparr>) []"
    using malloc_body_more [of ?s0 2 demo_sbrk 2 "[]"] by (simp add: s0 bind_def)
  moreover have "\<exists>s. malloc_body demo_sbrk 2 (2, 3) (?s2\<lparr>freep := 2\<rparr>) [] = Ok (Inr 4098) s []"
    by (simp add: malloc_body_def bind_def seq_def)
  moreover have "nunits 10 = 2" by (simp add: nunits_def)
  ultimately show ?thesis
    using loopK_step [of "malloc_body demo_sbrk 2"] loopK_done [of "malloc_body demo_sbrk 2"]
    by (auto simp: malloc_starts Let_def s0)
qed

theorem heap_safe_witness:
  "\<exists>s. heap_reach 2 demo_sbrk id s {(4098, 10)} \<and> bytes_of (4098, 10) \<subseteq> {32..<16 * rest s} \<and> (\<exists>s'. free_u 4098 s [] = Ok () s' [])"
proof -
  have r: "heap_reach 2 demo_sbrk id demo_arena {}" by (rule start) (simp_all add: demo_arena_def)
  then obtain p s where m: "malloc 2 demo_sbrk 10 demo_arena [] = Ok p s []"
    using heap_safe [OF demo_sbrk_grows _ r, of 10 "[]" 0] by auto
  then have "p = 4098" using demo_malloc by auto
  with alloc [OF r _ m] have r': "heap_reach 2 demo_sbrk id s {(4098, 10)}" by simp
  show ?thesis using heap_safe [OF demo_sbrk_grows _ r', of 10 "[]" 4098] r' by (intro exI [of _ s]) auto
qed

section \<open>Sizes that wrap around\<close>

text \<open>
  C2. \<^verbatim>\<open>malloc\<close> of the largest size hands out a block that is not there. The number of bytes to ask \<^verbatim>\<open>sbrk\<close> for, \<open>2 ^ 32 + 16\<close>, is
  cut down to the \<^verbatim>\<open>int\<close> 16, so that the heap grows by one header; the header is given the full size, and the
  pointer returned is the end of the heap.
\<close>

theorem malloc_wraps:
  assumes "sbrk_grows sbrk brk" and "freep s = 0" and "0 < base" and "base < brk (rest s)" and "brk (rest s) + 2 ^ 28 + 1 \<le> 2 ^ 32"
    and "sbrk 16 (rest s) = (Some a, w)"
  shows "\<exists>s'. malloc base sbrk (2 ^ 32 - 1) s e = Ok (brk (rest s')) s' e \<and> brk (rest s') = brk (rest s) + 1 \<and>
    hsize s' (brk (rest s)) = 2 ^ 28 + 1"
proof -
  let ?nu = "268435457 :: 32 word" and ?b = "brk (rest s)"
  have nu: "nunits 4294967295 = ?nu" and pos: "0 < ?nu" by (simp_all add: nunits_def)
  let ?s0 = "started base s"
  have ok0: "heap_ok base ?s0 []" using started_ok assms(2,3) by blast
  have a: "a = 16 * ?b" "brk w = ?b + 1" using sbrk_growsD [OF assms(1), of 1 "rest s" "Some a" w] assms(6) by simp_all
  let ?s1 = "set_hsize ?b ?nu (?s0\<lparr>rest := w\<rparr>)"
  have ok1: "heap_ok base ?s1 []" using ok0 assms(4) by (simp add: heap_ok_def)
  have f: "base < ?b" "0 < hsize ?s1 ?b" "?b + unat (hsize ?s1 ?b) \<le> 2 ^ 32" "block ?b (unat (hsize ?s1 ?b)) \<inter> units (hsize ?s1) [] = {}"
    using assms(4,5) by simp_all
  obtain s2 bs2 where f2: "free_u (?b + 1) ?s1 e = Ok () s2 e" "heap_ok base s2 bs2" "rest s2 = rest ?s1"
      "units (hsize s2) bs2 = units (hsize ?s1) [] \<union> block ?b (unat (hsize ?s1 ?b))"
      "\<exists>c \<in> set bs2. unat (hsize ?s1 ?b) \<le> unat (hsize s2 c)"
    using free_run [OF ok1 f, of e] by blast
  have "morecore sbrk ?nu ?s0 e = Ok (freep s2) s2 e"
    using assms(6) f2(1) a(1) by (simp add: morecore_def bind_def seq_def call_sbrk_def Let_def)
  moreover have "freep s2 \<noteq> 0" using f2(2) by (auto simp: heap_ok_def blocks_ok_def)
  moreover obtain c where c: "c \<in> set bs2" "?nu \<le> hsize s2 c" using f2(5) by (auto simp: word_le_nat_alt)
  obtain p s' where l: "loopK (malloc_body sbrk ?nu) (freep s2, hptr s2 (freep s2)) s2 e = Ok (p + 1) s' e"
      "taken base (units (hsize s2) bs2) ?nu s2 p s'"
    using malloc_fits [OF f2(2) pos c, of sbrk e] by blast
  ultimately have "malloc base sbrk (2 ^ 32 - 1) s e = Ok (p + 1) s' e"
    using malloc_no_fit [OF ok0, of ?nu sbrk e] by (simp add: malloc_starts Let_def nu bind_def)
  moreover have sub: "block p (unat ?nu) \<subseteq> block ?b (unat ?nu)" using l(2) f2(4) by (simp add: taken_def)
  have "p = ?b" using subsetD [OF sub, of p] subsetD [OF sub, of "p + 268435456"] by simp
  ultimately show ?thesis using l(2) f2(3) a by (intro exI [of _ s']) (simp add: taken_def)
qed

theorem malloc_wraps_witness:
  "\<exists>s'. malloc 2 demo_sbrk (2 ^ 32 - 1) demo_arena [] = Ok 4 s' [] \<and> rest s' = 4 \<and> hsize s' 3 = 2 ^ 28 + 1"
proof -
  have "demo_sbrk 16 (rest demo_arena) = (Some 48, 4)" by (simp add: demo_sbrk_def demo_arena_def)
  from malloc_wraps [OF demo_sbrk_grows _ _ _ _ this, of 2 "[]"] show ?thesis by (auto simp: demo_arena_def)
qed

end
