(* ===== verification/Asm.thy ===== *)
theory Asm
  imports KTypes
begin

text \<open>
  The assembly of the kernel: \<^verbatim>\<open>trampoline.S\<close>, \<^verbatim>\<open>kernelvec.S\<close>, \<^verbatim>\<open>swtch.S\<close> and \<^verbatim>\<open>entry.S\<close>, as lists of instructions of a small
  RISC-V machine, and what they preserve of the registers.

  Memory holds 64-bit words at physical addresses. A load or store goes through the translation \<open>tr\<close> of the current
  page table: \<open>tr pt va\<close> is the physical address. Jumps set \<open>pc\<close>; \<^verbatim>\<open>sfence.vma\<close> has no effect in the model.
\<close>

section \<open>The machine\<close>

datatype reg = RA | SP | GP | TP | T0 | T1 | T2 | T3 | T4 | T5 | T6
  | S0 | S1 | S2 | S3 | S4 | S5 | S6 | S7 | S8 | S9 | S10 | S11
  | A0 | A1 | A2 | A3 | A4 | A5 | A6 | A7

datatype csr = SSCRATCH | SATP | SEPC | MHARTID

record mach =
  xregs :: "reg \<Rightarrow> uint64"
  csrs :: "csr \<Rightarrow> uint64"
  dmem :: "uint64 \<Rightarrow> uint64"
  pc :: uint64

datatype instr = SD reg nat reg | LD reg nat reg | LI reg uint64 | ADDI reg reg uint64 | ADD reg reg reg | MUL reg reg reg
  | CSRW csr reg | CSRR reg csr | SFENCE | JR reg | RET | SRET | CALL "mach \<Rightarrow> mach"

definition set_reg :: "reg \<Rightarrow> uint64 \<Rightarrow> mach \<Rightarrow> mach" where
  "set_reg r v m = m\<lparr>xregs := (xregs m)(r := v)\<rparr>"

definition addr :: "(uint64 \<Rightarrow> uint64 \<Rightarrow> uint64) \<Rightarrow> mach \<Rightarrow> reg \<Rightarrow> nat \<Rightarrow> uint64" where
  "addr tr m b k = tr (csrs m SATP) (xregs m b + of_nat k)"

fun step :: "(uint64 \<Rightarrow> uint64 \<Rightarrow> uint64) \<Rightarrow> instr \<Rightarrow> mach \<Rightarrow> mach" where
  "step tr (SD r k b) m = m\<lparr>dmem := (dmem m)(addr tr m b k := xregs m r)\<rparr>"
| "step tr (LD r k b) m = set_reg r (dmem m (addr tr m b k)) m"
| "step tr (LI r v) m = set_reg r v m"
| "step tr (ADDI r s v) m = set_reg r (xregs m s + v) m"
| "step tr (ADD r s t) m = set_reg r (xregs m s + xregs m t) m"
| "step tr (MUL r s t) m = set_reg r (xregs m s * xregs m t) m"
| "step tr (CSRW c r) m = m\<lparr>csrs := (csrs m)(c := xregs m r)\<rparr>"
| "step tr (CSRR r c) m = set_reg r (csrs m c) m"
| "step tr SFENCE m = m"
| "step tr (JR r) m = m\<lparr>pc := xregs m r\<rparr>"
| "step tr RET m = m\<lparr>pc := xregs m RA\<rparr>"
| "step tr SRET m = m\<lparr>pc := csrs m SEPC\<rparr>"
| "step tr (CALL f) m = f m"

definition run :: "(uint64 \<Rightarrow> uint64 \<Rightarrow> uint64) \<Rightarrow> instr list \<Rightarrow> mach \<Rightarrow> mach" where
  "run tr is m = fold (step tr) is m"

section \<open>The code\<close>

definition uservec :: "instr list" where
  "uservec = [
     CSRW SSCRATCH A0,
     LI A0 TRAPFRAME,
     SD RA 40 A0, SD SP 48 A0, SD GP 56 A0, SD TP 64 A0, SD T0 72 A0, SD T1 80 A0, SD T2 88 A0, SD S0 96 A0, SD S1 104 A0,
     SD A1 120 A0, SD A2 128 A0, SD A3 136 A0, SD A4 144 A0, SD A5 152 A0, SD A6 160 A0, SD A7 168 A0, SD S2 176 A0,
     SD S3 184 A0, SD S4 192 A0, SD S5 200 A0, SD S6 208 A0, SD S7 216 A0, SD S8 224 A0, SD S9 232 A0, SD S10 240 A0,
     SD S11 248 A0, SD T3 256 A0, SD T4 264 A0, SD T5 272 A0, SD T6 280 A0,
     CSRR T0 SSCRATCH,
     SD T0 112 A0,
     LD SP 8 A0,
     LD TP 32 A0,
     LD T0 16 A0,
     LD T1 0 A0,
     SFENCE,
     CSRW SATP T1,
     SFENCE,
     JR T0]"

definition userret :: "instr list" where
  "userret = [
     SFENCE,
     CSRW SATP A0,
     SFENCE,
     LI A0 TRAPFRAME,
     LD RA 40 A0, LD SP 48 A0, LD GP 56 A0, LD TP 64 A0, LD T0 72 A0, LD T1 80 A0, LD T2 88 A0, LD S0 96 A0, LD S1 104 A0,
     LD A1 120 A0, LD A2 128 A0, LD A3 136 A0, LD A4 144 A0, LD A5 152 A0, LD A6 160 A0, LD A7 168 A0, LD S2 176 A0,
     LD S3 184 A0, LD S4 192 A0, LD S5 200 A0, LD S6 208 A0, LD S7 216 A0, LD S8 224 A0, LD S9 232 A0, LD S10 240 A0,
     LD S11 248 A0, LD T3 256 A0, LD T4 264 A0, LD T5 272 A0, LD T6 280 A0,
     LD A0 112 A0,
     SRET]"

text \<open>\<^verbatim>\<open>kernelvec\<close> calls the C function \<^verbatim>\<open>kerneltrap\<close>, a parameter.\<close>

definition kernelvec :: "(mach \<Rightarrow> mach) \<Rightarrow> instr list" where
  "kernelvec kerneltrap = [
     ADDI SP SP (- 256),
     SD RA 0 SP, SD SP 8 SP, SD GP 16 SP, SD TP 24 SP, SD T0 32 SP, SD T1 40 SP, SD T2 48 SP, SD A0 72 SP, SD A1 80 SP,
     SD A2 88 SP, SD A3 96 SP, SD A4 104 SP, SD A5 112 SP, SD A6 120 SP, SD A7 128 SP, SD T3 216 SP, SD T4 224 SP, SD T5 232 SP,
     SD T6 240 SP,
     CALL kerneltrap,
     LD RA 0 SP, LD SP 8 SP, LD GP 16 SP, LD T0 32 SP, LD T1 40 SP, LD T2 48 SP, LD A0 72 SP, LD A1 80 SP,
     LD A2 88 SP, LD A3 96 SP, LD A4 104 SP, LD A5 112 SP, LD A6 120 SP, LD A7 128 SP, LD T3 216 SP, LD T4 224 SP, LD T5 232 SP,
     LD T6 240 SP,
     ADDI SP SP 256,
     SRET]"

definition swtch_code :: "instr list" where
  "swtch_code = [
     SD RA 0 A0, SD SP 8 A0, SD S0 16 A0, SD S1 24 A0, SD S2 32 A0, SD S3 40 A0, SD S4 48 A0, SD S5 56 A0, SD S6 64 A0,
     SD S7 72 A0, SD S8 80 A0, SD S9 88 A0, SD S10 96 A0, SD S11 104 A0,
     LD RA 0 A1, LD SP 8 A1, LD S0 16 A1, LD S1 24 A1, LD S2 32 A1, LD S3 40 A1, LD S4 48 A1, LD S5 56 A1, LD S6 64 A1,
     LD S7 72 A1, LD S8 80 A1, LD S9 88 A1, LD S10 96 A1, LD S11 104 A1,
     RET]"

text \<open>\<^verbatim>\<open>entry.S\<close>, with the address of \<^verbatim>\<open>stack0\<close> and the C function \<^verbatim>\<open>start\<close>, which never returns, as parameters.\<close>

definition entry :: "uint64 \<Rightarrow> (mach \<Rightarrow> mach) \<Rightarrow> instr list" where
  "entry stack0 start = [
     LI SP stack0,
     LI A0 (1024 * 4),
     CSRR A1 MHARTID,
     ADDI A1 A1 1,
     MUL A0 A0 A1,
     ADD SP SP A0,
     CALL start]"

section \<open>Saving and restoring\<close>

definition saves :: "reg \<Rightarrow> (reg \<times> nat) list \<Rightarrow> instr list" where
  "saves b sl = map (\<lambda>(r, k). SD r k b) sl"

definition loads :: "reg \<Rightarrow> (reg \<times> nat) list \<Rightarrow> instr list" where
  "loads b sl = map (\<lambda>(r, k). LD r k b) sl"

lemma run_simps [simp]:
  "run tr [] m = m" "run tr (i # is) m = run tr is (step tr i m)" "run tr (is @ js) m = run tr js (run tr is m)"
  by (simp_all add: run_def)

lemma set_reg_simps [simp]:
  "xregs (set_reg r v m) = (xregs m)(r := v)" "csrs (set_reg r v m) = csrs m" "dmem (set_reg r v m) = dmem m" "pc (set_reg r v m) = pc m"
  by (simp_all add: set_reg_def)

lemma saves_simps [simp]: "saves b [] = []" "saves b ((r, k) # sl) = SD r k b # saves b sl"
  "loads b [] = []" "loads b ((r, k) # sl) = LD r k b # loads b sl"
  by (simp_all add: saves_def loads_def)

lemma saves_keep [simp]:
  "xregs (run tr (saves b sl) m) = xregs m" "csrs (run tr (saves b sl) m) = csrs m" "pc (run tr (saves b sl) m) = pc m"
  by (induction sl arbitrary: m) auto

lemma loads_keep [simp]: "dmem (run tr (loads b sl) m) = dmem m" "csrs (run tr (loads b sl) m) = csrs m" "pc (run tr (loads b sl) m) = pc m"
  by (induction sl arbitrary: m) auto

lemma addr_dmem [simp]: "addr tr (m\<lparr>dmem := x\<rparr>) b = addr tr m b"
  by (rule ext) (simp add: addr_def)

lemma addr_set_reg [simp]: "r \<noteq> b \<Longrightarrow> addr tr (set_reg r v m) b = addr tr m b"
  by (rule ext) (simp add: addr_def)

lemma saves_other:
  "a \<notin> addr tr m b ` snd ` set sl \<Longrightarrow> dmem (run tr (saves b sl) m) a = dmem m a"
proof (induction sl arbitrary: m)
  case (Cons x sl)
  obtain r k where x: "x = (r, k)" by fastforce
  show ?case using Cons.IH [of "step tr (SD r k b) m"] Cons.prems by (auto simp: x)
qed simp

lemma saves_slot:
  assumes "inj_on (addr tr m b) (snd ` set sl)" and "distinct (map snd sl)" and "(r, k) \<in> set sl"
  shows "dmem (run tr (saves b sl) m) (addr tr m b k) = xregs m r"
  using assms
proof (induction sl arbitrary: m)
  case (Cons x sl)
  obtain r' k' where x: "x = (r', k')" by fastforce
  let ?m = "step tr (SD r' k' b) m"
  have ad: "addr tr ?m b = addr tr m b" by simp
  show ?case
  proof (cases "(r, k) \<in> set sl")
    case True
    then show ?thesis using Cons.IH [of ?m] Cons.prems by (simp add: x)
  next
    case False
    then have rk: "r = r'" "k = k'" using Cons.prems(3) by (auto simp: x)
    have "addr tr ?m b k' \<notin> addr tr ?m b ` snd ` set sl"
      using Cons.prems(1,2) unfolding ad x by (force simp: inj_on_def)
    then show ?thesis using saves_other [of "addr tr m b k'" tr ?m b sl] by (simp add: x rk)
  qed
qed simp

lemma loads_regs:
  assumes "b \<notin> fst ` set sl" and "distinct (map fst sl)"
  shows "xregs (run tr (loads b sl) m) r = (case map_of sl r of None \<Rightarrow> xregs m r | Some k \<Rightarrow> dmem m (addr tr m b k))"
  using assms
proof (induction sl arbitrary: m)
  case (Cons x sl)
  obtain r' k' where x: "x = (r', k')" by fastforce
  let ?m = "step tr (LD r' k' b) m"
  have ad: "addr tr ?m b = addr tr m b" using Cons.prems(1) by (auto simp: x)
  have "map_of sl r' = None" using Cons.prems(2) by (auto simp: x map_of_eq_None_iff)
  then show ?case using Cons.IH [of ?m] Cons.prems ad by (auto simp: x split: option.split)
qed simp

section \<open>The trampoline\<close>

text \<open>The offsets of \<^verbatim>\<open>struct trapframe\<close>.\<close>

fun tf_slot :: "reg \<Rightarrow> nat" where
  "tf_slot RA = 40" | "tf_slot SP = 48" | "tf_slot GP = 56" | "tf_slot TP = 64" | "tf_slot T0 = 72" | "tf_slot T1 = 80"
| "tf_slot T2 = 88" | "tf_slot S0 = 96" | "tf_slot S1 = 104" | "tf_slot A0 = 112" | "tf_slot A1 = 120" | "tf_slot A2 = 128"
| "tf_slot A3 = 136" | "tf_slot A4 = 144" | "tf_slot A5 = 152" | "tf_slot A6 = 160" | "tf_slot A7 = 168" | "tf_slot S2 = 176"
| "tf_slot S3 = 184" | "tf_slot S4 = 192" | "tf_slot S5 = 200" | "tf_slot S6 = 208" | "tf_slot S7 = 216" | "tf_slot S8 = 224"
| "tf_slot S9 = 232" | "tf_slot S10 = 240" | "tf_slot S11 = 248" | "tf_slot T3 = 256" | "tf_slot T4 = 264" | "tf_slot T5 = 272"
| "tf_slot T6 = 280"

definition user_slots :: "(reg \<times> nat) list" where
  "user_slots = map (\<lambda>r. (r, tf_slot r)) [RA, SP, GP, TP, T0, T1, T2, S0, S1, A1, A2, A3, A4, A5, A6, A7,
     S2, S3, S4, S5, S6, S7, S8, S9, S10, S11, T3, T4, T5, T6]"

lemma uservec_slots:
  "uservec = [CSRW SSCRATCH A0, LI A0 TRAPFRAME] @ saves A0 user_slots @ [CSRR T0 SSCRATCH, SD T0 112 A0] @
     loads A0 [(SP, 8), (TP, 32), (T0, 16), (T1, 0)] @ [SFENCE, CSRW SATP T1, SFENCE, JR T0]"
  by (simp add: uservec_def user_slots_def)

lemma userret_slots:
  "userret = [SFENCE, CSRW SATP A0, SFENCE, LI A0 TRAPFRAME] @ loads A0 user_slots @ [LD A0 112 A0, SRET]"
  by (simp add: userret_def user_slots_def)

text \<open>The page of the trapframe is mapped at \<^verbatim>\<open>TRAPFRAME\<close>.\<close>

definition tf_mapped :: "(uint64 \<Rightarrow> uint64 \<Rightarrow> uint64) \<Rightarrow> uint64 \<Rightarrow> uint64 \<Rightarrow> bool" where
  "tf_mapped tr pt tf \<longleftrightarrow> (\<forall>k < 288. tr pt (TRAPFRAME + of_nat k) = tf + of_nat k)"

lemma slot_inj: "inj_on (\<lambda>k. tf + (of_nat k :: uint64)) {..<4096}"
proof (rule inj_onI)
  fix j k :: nat assume "j \<in> {..<4096}" "k \<in> {..<4096}" "tf + of_nat j = tf + (of_nat k :: uint64)"
  then have "unat (of_nat j :: uint64) = unat (of_nat k :: uint64)" "j < 4096" "k < 4096" by auto
  then show "j = k" by (simp add: unat_of_nat take_bit_nat_eq_self)
qed

lemma user_slots_props:
  "distinct (map fst user_slots)" "distinct (map snd user_slots)" "A0 \<notin> fst ` set user_slots" "112 \<notin> snd ` set user_slots"
  "snd ` set user_slots \<subseteq> {40..<288}" "r \<noteq> A0 \<Longrightarrow> map_of user_slots r = Some (tf_slot r)"
  by (simp_all add: user_slots_def) (cases r; simp)

lemma tf_slot_bounds: "40 \<le> tf_slot r" "tf_slot r < 288"
  by (cases r; simp)+

lemma tf_addr:
  assumes "tf_mapped tr (csrs m SATP) tf" and "xregs m b = TRAPFRAME" and "k < 288"
  shows "addr tr m b k = tf + of_nat k"
  using assms by (simp add: tf_mapped_def addr_def)

lemma tf_addr_inj:
  assumes "tf_mapped tr (csrs m SATP) tf" and "xregs m b = TRAPFRAME" and "K \<subseteq> {..<288}"
  shows "inj_on (addr tr m b) K"
proof -
  have "inj_on (\<lambda>k. tf + (of_nat k :: uint64)) K" by (rule inj_on_subset [OF slot_inj]) (use assms(3) in auto)
  moreover have "addr tr m b k = tf + of_nat k" if "k \<in> K" for k using tf_addr [OF assms(1,2)] assms(3) that by auto
  ultimately show ?thesis by (simp add: inj_on_def)
qed

lemma uservec_run:
  assumes mp: "tf_mapped tr (csrs m SATP) tf"
  shows "dmem (run tr uservec m) (tf + of_nat (tf_slot r)) = xregs m r"
    and "xregs (run tr uservec m) SP = dmem m (tf + 8)" and "xregs (run tr uservec m) TP = dmem m (tf + 32)"
    and "pc (run tr uservec m) = dmem m (tf + 16)" and "csrs (run tr uservec m) SATP = dmem m tf"
proof -
  define m1 where "m1 = run tr [CSRW SSCRATCH A0, LI A0 TRAPFRAME] m"
  define m2 where "m2 = run tr (saves A0 user_slots) m1"
  define m3 where "m3 = run tr [CSRR T0 SSCRATCH, SD T0 112 A0] m2"
  define m4 where "m4 = run tr (loads A0 [(SP, 8), (TP, 32), (T0, 16), (T1, 0)]) m3"
  have eq: "run tr uservec m = run tr [SFENCE, CSRW SATP T1, SFENCE, JR T0] m4"
    by (simp add: uservec_slots m4_def m3_def m2_def m1_def)
  have m1: "csrs m1 SATP = csrs m SATP" "xregs m1 A0 = TRAPFRAME" "r \<noteq> A0 \<Longrightarrow> xregs m1 r = xregs m r" "csrs m1 SSCRATCH = xregs m A0"
      "dmem m1 = dmem m" for r
    by (simp_all add: m1_def)
  have t1: "tf_mapped tr (csrs m1 SATP) tf" using mp m1(1) by simp
  note ad = tf_addr [OF t1 m1(2)]
  have m2: "xregs m2 = xregs m1" "csrs m2 = csrs m1" by (simp_all add: m2_def)
  have ad2: "addr tr m2 A0 k = addr tr m1 A0 k" for k by (simp add: addr_def m2)
  have m3: "dmem m3 = (dmem m2)(tf + 112 := xregs m A0)" "xregs m3 A0 = TRAPFRAME" "csrs m3 SATP = csrs m SATP"
    using m1 m2 ad [of 112] ad2 [of 112] by (simp_all add: m3_def)
  have ad3: "addr tr m3 A0 k = addr tr m1 A0 k" for k using m3 m1 by (simp add: addr_def)
  have in1: "inj_on (addr tr m1 A0) {..<288}" by (rule tf_addr_inj [OF t1 m1(2)]) simp
  have slots: "snd ` set user_slots \<subseteq> {..<288}" using user_slots_props(5) by auto
  have low: "dmem m3 (tf + of_nat k) = dmem m (tf + of_nat k)" if "k < 40" for k
  proof -
    have "addr tr m1 A0 k \<notin> addr tr m1 A0 ` snd ` set user_slots"
      using in1 that user_slots_props(5) by (fastforce simp: inj_on_def)
    then have "dmem m2 (addr tr m1 A0 k) = dmem m (addr tr m1 A0 k)" using saves_other m1(5) unfolding m2_def by metis
    moreover have "addr tr m1 A0 k \<noteq> addr tr m1 A0 112" using inj_onD [OF in1, of k 112] that by auto
    ultimately show ?thesis using ad [of k] ad [of 112] that m3(1) by simp
  qed
  have m4: "xregs m4 SP = dmem m (tf + 8)" "xregs m4 TP = dmem m (tf + 32)" "xregs m4 T0 = dmem m (tf + 16)" "xregs m4 T1 = dmem m tf"
    unfolding m4_def using ad [of 8] ad [of 32] ad [of 16] ad [of 0] low [of 8] low [of 32] low [of 16] low [of 0]
    by (simp_all add: loads_regs ad3 del: saves_simps)
  show "xregs (run tr uservec m) SP = dmem m (tf + 8)" "xregs (run tr uservec m) TP = dmem m (tf + 32)"
    "pc (run tr uservec m) = dmem m (tf + 16)" "csrs (run tr uservec m) SATP = dmem m tf"
    using m4 by (simp_all add: eq)
  have mem: "dmem (run tr uservec m) = dmem m3" unfolding eq m4_def by (simp del: saves_simps)
  show "dmem (run tr uservec m) (tf + of_nat (tf_slot r)) = xregs m r"
  proof (cases "r = A0")
    case True
    then show ?thesis using m3(1) mem by simp
  next
    case False
    have mem_r: "(r, tf_slot r) \<in> set user_slots" using user_slots_props(6) [OF False] by (rule map_of_SomeD)
    have "dmem m2 (addr tr m1 A0 (tf_slot r)) = xregs m1 r"
      unfolding m2_def by (rule saves_slot [OF inj_on_subset [OF in1 slots] user_slots_props(2) mem_r])
    moreover have "tf_slot r \<noteq> 112" using user_slots_props(4) mem_r by force
    then have "addr tr m1 A0 (tf_slot r) \<noteq> addr tr m1 A0 112" using inj_onD [OF in1, of "tf_slot r" 112] tf_slot_bounds [of r] by auto
    ultimately show ?thesis using ad [OF tf_slot_bounds(2)] ad [of 112] m3(1) m1(3) [OF False] mem by simp
  qed
qed

lemma userret_run:
  assumes mp: "tf_mapped tr (xregs m A0) tf"
  shows "xregs (run tr userret m) r = dmem m (tf + of_nat (tf_slot r))" and "pc (run tr userret m) = csrs m SEPC"
    and "csrs (run tr userret m) SATP = xregs m A0" and "dmem (run tr userret m) = dmem m"
proof -
  define m1 where "m1 = run tr [SFENCE, CSRW SATP A0, SFENCE, LI A0 TRAPFRAME] m"
  define m2 where "m2 = run tr (loads A0 user_slots) m1"
  have eq: "run tr userret m = run tr [LD A0 112 A0, SRET] m2" by (simp add: userret_slots m2_def m1_def)
  have m1: "csrs m1 SATP = xregs m A0" "xregs m1 A0 = TRAPFRAME" "dmem m1 = dmem m" "csrs m1 SEPC = csrs m SEPC"
    by (simp_all add: m1_def)
  have t1: "tf_mapped tr (csrs m1 SATP) tf" using mp m1(1) by simp
  note ad = tf_addr [OF t1 m1(2)]
  have m2: "dmem m2 = dmem m" "csrs m2 = csrs m1" by (simp_all add: m2_def m1(3))
  have x2: "xregs m2 r = (case map_of user_slots r of None \<Rightarrow> xregs m1 r | Some k \<Rightarrow> dmem m (addr tr m1 A0 k))" for r
    unfolding m2_def m1(3) [symmetric] by (rule loads_regs [OF user_slots_props(3,1)])
  have "map_of user_slots A0 = None" using user_slots_props(3) by (simp add: map_of_eq_None_iff)
  then have a2: "xregs m2 A0 = TRAPFRAME" using x2 [of A0] m1(2) by simp
  have "addr tr m2 A0 112 = tf + 112" using ad [of 112] a2 m1 m2 by (simp add: addr_def)
  then show "xregs (run tr userret m) r = dmem m (tf + of_nat (tf_slot r))"
    using x2 [of r] user_slots_props(6) [of r] ad [OF tf_slot_bounds(2)] m2(1) by (cases "r = A0") (simp_all add: eq)
  show "pc (run tr userret m) = csrs m SEPC" "csrs (run tr userret m) SATP = xregs m A0" "dmem (run tr userret m) = dmem m"
    using m1 m2 by (simp_all add: eq)
qed

text \<open>
  C1. The trampoline keeps the registers of a user program. When a trap arrives with the trapframe mapped, \<^verbatim>\<open>uservec\<close> puts all 31
  registers into their fields of the trapframe and enters \<^verbatim>\<open>kernel_trap\<close> with the kernel's stack, hart number and page table from
  it. Later \<^verbatim>\<open>userret\<close>, called with that page table, loads all 31 from there: what the kernel has not changed in the
  trapframe is as the program left it, and execution goes on at \<^verbatim>\<open>sepc\<close>.
\<close>

theorem trampoline_roundtrip:
  assumes "tf_mapped tr (csrs m SATP) tf" and "xregs m2 A0 = csrs m SATP"
  shows "xregs (run tr uservec m) SP = dmem m (tf + 8) \<and> xregs (run tr uservec m) TP = dmem m (tf + 32) \<and>
    csrs (run tr uservec m) SATP = dmem m tf \<and> pc (run tr uservec m) = dmem m (tf + 16) \<and>
    pc (run tr userret m2) = csrs m2 SEPC \<and> csrs (run tr userret m2) SATP = csrs m SATP \<and>
    (\<forall>r. xregs (run tr userret m2) r =
      (if dmem m2 (tf + of_nat (tf_slot r)) = dmem (run tr uservec m) (tf + of_nat (tf_slot r)) then xregs m r
       else dmem m2 (tf + of_nat (tf_slot r))))"
  using uservec_run [OF assms(1)] userret_run [of tr m2 tf] assms by simp

definition demo_mach :: mach where
  "demo_mach = \<lparr>xregs = (\<lambda>r. of_nat (tf_slot r)), csrs = (\<lambda>_. 0), dmem = (\<lambda>_. 0), pc = 0\<rparr>"

theorem trampoline_roundtrip_witness:
  "xregs (run (\<lambda>pt va. va) userret ((run (\<lambda>pt va. va) uservec demo_mach)\<lparr>xregs := (\<lambda>_. 0)\<rparr>)) T3 = 256"
  using trampoline_roundtrip [of "\<lambda>pt va. va" demo_mach TRAPFRAME "(run (\<lambda>pt va. va) uservec demo_mach)\<lparr>xregs := (\<lambda>_. 0)\<rparr>"]
  by (simp add: tf_mapped_def demo_mach_def)

section \<open>Switching contexts\<close>

text \<open>The offsets of \<^verbatim>\<open>struct context\<close>.\<close>

definition ctx_slots :: "(reg \<times> nat) list" where
  "ctx_slots = zip [RA, SP, S0, S1, S2, S3, S4, S5, S6, S7, S8, S9, S10, S11] [0, 8, 16, 24, 32, 40, 48, 56, 64, 72, 80, 88, 96, 104]"

lemma swtch_slots: "swtch_code = saves A0 ctx_slots @ loads A1 ctx_slots @ [RET]"
  by (simp add: swtch_code_def ctx_slots_def)

lemma ctx_slots_props:
  "distinct (map fst ctx_slots)" "distinct (map snd ctx_slots)" "A1 \<notin> fst ` set ctx_slots" "map_of ctx_slots RA = Some 0"
  by (simp_all add: ctx_slots_def)

text \<open>\<^verbatim>\<open>swtch\<close> saves the registers that a C function must preserve in the old context and takes them from the new one, and leaves every other
  register and the rest of the memory alone.\<close>

lemma swtch_run:
  assumes "inj_on (addr tr m A0) (snd ` set ctx_slots)"
    and "addr tr m A0 ` snd ` set ctx_slots \<inter> addr tr m A1 ` snd ` set ctx_slots = {}"
  shows "(r, k) \<in> set ctx_slots \<Longrightarrow> dmem (run tr swtch_code m) (addr tr m A0 k) = xregs m r"
    and "xregs (run tr swtch_code m) r = (case map_of ctx_slots r of None \<Rightarrow> xregs m r | Some k \<Rightarrow> dmem m (addr tr m A1 k))"
    and "a \<notin> addr tr m A0 ` snd ` set ctx_slots \<Longrightarrow> dmem (run tr swtch_code m) a = dmem m a"
    and "pc (run tr swtch_code m) = dmem m (addr tr m A1 0)"
proof -
  let ?m = "run tr (saves A0 ctx_slots) m"
  have eq: "run tr swtch_code m = run tr [RET] (run tr (loads A1 ctx_slots) ?m)" by (simp add: swtch_slots)
  show "(r, k) \<in> set ctx_slots \<Longrightarrow> dmem (run tr swtch_code m) (addr tr m A0 k) = xregs m r"
    using saves_slot [OF assms(1) ctx_slots_props(2)] by (simp add: eq)
  show "a \<notin> addr tr m A0 ` snd ` set ctx_slots \<Longrightarrow> dmem (run tr swtch_code m) a = dmem m a" using saves_other by (simp add: eq)
  have ad: "addr tr ?m A1 = addr tr m A1" by (rule ext) (simp add: addr_def)
  have new: "dmem ?m (addr tr m A1 k) = dmem m (addr tr m A1 k)" if "map_of ctx_slots r = Some k" for r k
  proof (rule saves_other)
    have "k \<in> snd ` set ctx_slots" using map_of_SomeD [OF that] by force
    then show "addr tr m A1 k \<notin> addr tr m A0 ` snd ` set ctx_slots" using assms(2) by blast
  qed
  have x: "xregs (run tr (loads A1 ctx_slots) ?m) r = (case map_of ctx_slots r of None \<Rightarrow> xregs m r | Some k \<Rightarrow> dmem m (addr tr m A1 k))" for r
    using loads_regs [OF ctx_slots_props(3,1), of tr ?m r] new [of r] ad by (simp split: option.split)
  show "xregs (run tr swtch_code m) r = (case map_of ctx_slots r of None \<Rightarrow> xregs m r | Some k \<Rightarrow> dmem m (addr tr m A1 k))"
    using x by (simp add: eq)
  show "pc (run tr swtch_code m) = dmem m (addr tr m A1 0)" using x [of RA] ctx_slots_props(4) by (simp add: eq)
qed

section \<open>Traps in the kernel\<close>

text \<open>The slots of the frame that \<^verbatim>\<open>kernelvec\<close> makes below the stack pointer; the one of \<^verbatim>\<open>tp\<close> is not loaded again.\<close>

definition kv_slots :: "(reg \<times> nat) list" where
  "kv_slots = [(GP, 16), (T0, 32), (T1, 40), (T2, 48), (A0, 72), (A1, 80), (A2, 88), (A3, 96), (A4, 104), (A5, 112), (A6, 120),
     (A7, 128), (T3, 216), (T4, 224), (T5, 232), (T6, 240)]"

definition kv_saved :: "(reg \<times> nat) list" where
  "kv_saved = [(RA, 0), (SP, 8), (GP, 16), (TP, 24)] @ tl kv_slots"

lemma kernelvec_slots:
  "kernelvec f = [ADDI SP SP (- 256)] @ saves SP kv_saved @ [CALL f] @ loads SP [(RA, 0)] @ [LD SP 8 SP] @ loads SP kv_slots @ [ADDI SP SP 256, SRET]"
  by (simp add: kernelvec_def kv_slots_def kv_saved_def)

lemma kv_props:
  "distinct (map fst kv_slots)" "distinct (map snd kv_saved)" "SP \<notin> fst ` set kv_slots" "snd ` set kv_saved \<subseteq> {..<256}"
  "set kv_slots \<subseteq> set kv_saved" "(RA, 0) \<in> set kv_saved" "(SP, 8) \<in> set kv_saved" "map_of kv_slots RA = None" "map_of kv_slots SP = None"
  "map_of kv_slots r = None \<Longrightarrow> r \<in> {RA, SP, TP, S0, S1, S2, S3, S4, S5, S6, S7, S8, S9, S10, S11}"
  by (simp_all add: kv_slots_def kv_saved_def) (cases r; simp)

text \<open>What the C code called does to a machine: the calling convention, with the frame of the caller untouched.\<close>

definition c_call :: "(uint64 \<Rightarrow> uint64 \<Rightarrow> uint64) \<Rightarrow> (mach \<Rightarrow> mach) \<Rightarrow> mach \<Rightarrow> bool" where
  "c_call tr f m \<longleftrightarrow> (\<forall>r \<in> {SP, S0, S1, S2, S3, S4, S5, S6, S7, S8, S9, S10, S11}. xregs (f m) r = xregs m r) \<and>
     csrs (f m) SATP = csrs m SATP \<and> (\<forall>k < 256. dmem (f m) (addr tr m SP k) = dmem m (addr tr m SP k))"

text \<open>An interrupted piece of the kernel finds all its registers as they were, except for \<^verbatim>\<open>tp\<close>, which is the number of the hart it now runs on.\<close>

lemma kernelvec_run:
  assumes in1: "inj_on (addr tr (run tr [ADDI SP SP (- 256)] m) SP) {..<256}"
    and call: "c_call tr f (run tr ([ADDI SP SP (- 256)] @ saves SP kv_saved) m)"
  shows "r \<noteq> TP \<Longrightarrow> xregs (run tr (kernelvec f) m) r = xregs m r"
proof -
  define m1 where "m1 = run tr [ADDI SP SP (- 256)] m"
  define m2 where "m2 = run tr (saves SP kv_saved) m1"
  define m3 where "m3 = f m2"
  define m4 where "m4 = run tr (loads SP [(RA, 0)]) m3"
  define m5 where "m5 = step tr (LD SP 8 SP) m4"
  define m6 where "m6 = run tr (loads SP kv_slots) m5"
  have eq: "run tr (kernelvec f) m = run tr [ADDI SP SP 256, SRET] m6"
    by (simp add: kernelvec_slots m6_def m5_def m4_def m3_def m2_def m1_def)
  have m1: "xregs m1 r = (if r = SP then xregs m SP - 256 else xregs m r)" for r by (simp add: m1_def)
  have m2: "xregs m2 = xregs m1" "csrs m2 = csrs m1" by (simp_all add: m2_def)
  then have ad2: "addr tr m2 SP = addr tr m1 SP" by (intro ext) (simp add: addr_def)
  have c: "c_call tr f m2" using call by (simp add: m2_def m1_def)
  have sp3: "xregs m3 SP = xregs m1 SP" "csrs m3 SATP = csrs m1 SATP" using c m2 by (simp_all add: c_call_def m3_def)
  then have ad3: "addr tr m3 SP = addr tr m1 SP" by (intro ext) (simp add: addr_def)
  have slot: "dmem m3 (addr tr m1 SP k) = xregs m1 r" if "(r, k) \<in> set kv_saved" for r k
  proof -
    have "k < 256" using kv_props(4) that by force
    then have "dmem m3 (addr tr m1 SP k) = dmem m2 (addr tr m1 SP k)" using c ad2 by (simp add: c_call_def m3_def)
    also have "\<dots> = xregs m1 r"
      unfolding m2_def by (rule saves_slot [OF inj_on_subset [OF in1 [folded m1_def] kv_props(4)] kv_props(2) that])
    finally show ?thesis .
  qed
  have m4: "xregs m4 r = (if r = RA then xregs m1 RA else xregs m3 r)" "dmem m4 = dmem m3" "csrs m4 = csrs m3" for r
    using slot [OF kv_props(6)] ad3 by (auto simp: m4_def)
  then have ad4: "addr tr m4 SP = addr tr m1 SP" using sp3 by (intro ext) (simp add: addr_def)
  have m5: "xregs m5 = xregs m4" "dmem m5 = dmem m3" "csrs m5 = csrs m3"
    using slot [OF kv_props(7)] ad4 m4 sp3 by (auto simp: m5_def)
  then have ad5: "addr tr m5 SP = addr tr m1 SP" using m4 sp3 by (intro ext) (simp add: addr_def)
  have x6: "xregs m6 r = (case map_of kv_slots r of None \<Rightarrow> xregs m5 r | Some k \<Rightarrow> dmem m3 (addr tr m1 SP k))" for r
    unfolding m6_def m5(2) [symmetric] ad5 [symmetric] by (rule loads_regs [OF kv_props(3,1)])
  have same: "xregs m6 r = xregs m1 r" if "r \<noteq> TP" for r
  proof (cases "map_of kv_slots r")
    case None
    then have "r = RA \<or> xregs m3 r = xregs m1 r" using kv_props(10) [OF None] that c m2 by (auto simp: c_call_def m3_def)
    then show ?thesis using x6 [of r] None m5 m4 by auto
  next
    case (Some k)
    then show ?thesis using x6 [of r] slot kv_props(5) map_of_SomeD by fastforce
  qed
  show "r \<noteq> TP \<Longrightarrow> xregs (run tr (kernelvec f) m) r = xregs m r" using same [of r] same [of SP] m1 by (simp add: eq)
qed

lemma entry_stack: "xregs (run tr (entry stack0 start) m) SP = xregs (start (run tr (butlast (entry stack0 start)) m)) SP"
    "xregs (run tr (butlast (entry stack0 start)) m) SP = stack0 + 4096 * (csrs m MHARTID + 1)"
  by (simp_all add: entry_def algebra_simps)

end
