(* ===== verification/TimerProps.thy ===== *)
theory TimerProps
  imports Timer
begin

text \<open>
  What the clock interrupt does for periodic processes: \<open>clockintr\<close> returns and fires exactly the timers that are due, and a process
  that waits for its next period is made runnable by the interrupt of the tick it asked for.
\<close>

section \<open>The timers of the process table\<close>

text \<open>
  A timer as \<^verbatim>\<open>sys_setperiod\<close> makes it: a page of its own that points back to the process and holds the callback.
\<close>

definition own_timer :: "kernel \<Rightarrow> nat \<Rightarrow> xv6timer_t \<Rightarrow> bool" where
  "own_timer s j v \<longleftrightarrow> p_timer (procs s j) \<noteq> 0 \<and> phys s (p_timer (procs s j)) = PgTimer v \<and> tm_proc v = Some j \<and>
     tm_callback v = Some PeriodCallback"

definition timers_ok :: "kernel \<Rightarrow> bool" where
  "timers_ok s \<longleftrightarrow> (\<forall>j < NPROC. p_state (procs s j) \<noteq> UNUSED \<longrightarrow> p_timer (procs s j) \<noteq> 0 \<longrightarrow> (\<exists>v. own_timer s j v))"

definition ready :: "proc \<Rightarrow> proc" where
  "ready p = (if p_state p = SLEEPING then p\<lparr>p_state := RUNNABLE\<rparr> else p)"

text \<open>The effect of the loop's body of \<^verbatim>\<open>clockintr\<close> for process \<open>i\<close>.\<close>

definition fire :: "nat \<Rightarrow> kernel \<Rightarrow> kernel" where
  "fire i s =
     (let a = p_timer (procs s i) in
      case phys s a of
        PgTimer v \<Rightarrow>
          if p_state (procs s i) \<noteq> UNUSED \<and> a \<noteq> 0 \<and> tm_next_tick v \<le> ticks s
          then set_page a (PgTimer (v\<lparr>tm_next_tick := ticks s + tm_expiry v\<rparr>)) (upd_proc i ready s)
          else s
      | _ \<Rightarrow> s)"

lemma ready_simps [simp]:
  "p_timer (ready p) = p_timer p" "p_chan (ready p) = p_chan p" "p_state (ready p) = UNUSED \<longleftrightarrow> p_state p = UNUSED"
  "p_state (ready p) \<noteq> SLEEPING"
  by (simp_all add: ready_def)

lemma fire_frame [simp]: "lkst (fire i s) = lkst s" "ticks (fire i s) = ticks s"
  by (simp_all add: fire_def Let_def split: page.split)

lemma fire_idle: "p_state (procs s i) = UNUSED \<or> p_timer (procs s i) = 0 \<Longrightarrow> fire i s = s"
  by (auto simp: fire_def Let_def split: page.split)

lemma fire_own:
  "own_timer s i v \<Longrightarrow> fire i s =
     (if p_state (procs s i) \<noteq> UNUSED \<and> tm_next_tick v \<le> ticks s
      then set_page (p_timer (procs s i)) (PgTimer (v\<lparr>tm_next_tick := ticks s + tm_expiry v\<rparr>)) (upd_proc i ready s) else s)"
  by (simp add: fire_def own_timer_def)

text \<open>Timers of different processes are different pages.\<close>

lemma own_timer_other:
  assumes "own_timer s i v" and "own_timer s j w" and "i \<noteq> j"
  shows "p_timer (procs s i) \<noteq> p_timer (procs s j)"
  using assms by (auto simp: own_timer_def)

lemma fire_other:
  assumes "timers_ok s" and "i < NPROC" and "i \<noteq> j" and "own_timer s j v"
  shows "procs (fire i s) j = procs s j \<and> own_timer (fire i s) j v"
proof (cases "p_state (procs s i) = UNUSED \<or> p_timer (procs s i) = 0")
  case True
  with assms show ?thesis by (simp add: fire_idle)
next
  case False
  then obtain w where w: "own_timer s i w" using assms(1,2) by (auto simp: timers_ok_def)
  show ?thesis using own_timer_other [OF w assms(4,3)] assms(3,4) by (auto simp: fire_own [OF w] own_timer_def)
qed

lemma fire_same:
  assumes "own_timer s i v" and "p_state (procs s i) \<noteq> UNUSED"
  shows "own_timer (fire i s) i (if tm_next_tick v \<le> ticks s then v\<lparr>tm_next_tick := ticks s + tm_expiry v\<rparr> else v)"
    and "procs (fire i s) i = (if tm_next_tick v \<le> ticks s then ready (procs s i) else procs s i)"
  using assms by (auto simp: fire_own [OF assms(1)] own_timer_def)

lemma fire_states [simp]:
  "p_state (procs (fire i s) j) = UNUSED \<longleftrightarrow> p_state (procs s j) = UNUSED" "p_timer (procs (fire i s) j) = p_timer (procs s j)"
  by (auto simp: fire_def Let_def split: page.split)

lemma fire_timers_ok:
  assumes "timers_ok s" and "i < NPROC"
  shows "timers_ok (fire i s)"
  unfolding timers_ok_def
proof (intro allI impI)
  fix j
  assume j: "j < NPROC" "p_state (procs (fire i s) j) \<noteq> UNUSED" "p_timer (procs (fire i s) j) \<noteq> 0"
  then obtain v where v: "own_timer s j v" using assms(1) by (auto simp: timers_ok_def)
  show "\<exists>v. own_timer (fire i s) j v"
  proof (cases "i = j")
    case True
    then show ?thesis using fire_same(1) [OF v] j(2) by auto
  next
    case False
    then show ?thesis using fire_other [OF assms False v] by blast
  qed
qed

section \<open>The interrupt\<close>

lemma period_callback_run:
  assumes "own_timer s i v" and "lk_avail (LkProc i) (lkst s)"
  shows "period_callback (p_timer (procs s i)) s e = Ok () (upd_proc i ready s) e"
  using assms
  by (auto simp: period_callback_def timer_at_def as_timer_def own_timer_def bind_def seq_def ksimps whenK_def ready_def fun_eq_iff
      intro!: kernel.equality)

lemma clock_body_run:
  assumes "timers_ok s" and "procs_free (lkst s)" and "i < NPROC"
  shows "clock_body i s e = Ok () (fire i s) e"
proof (cases "p_state (procs s i) = UNUSED \<or> p_timer (procs s i) = 0")
  case True
  then show ?thesis by (auto simp: clock_body_def bind_def fire_idle)
next
  case False
  then obtain v where v: "own_timer s i v" using assms(1,3) by (auto simp: timers_ok_def)
  have cb: "period_callback (p_timer (procs s i)) s e = Ok () (upd_proc i ready s) e"
    using period_callback_run [OF v procs_free_avail [OF assms(2,3)]] .
  have t: "p_timer (procs s i) \<noteq> 0" "phys s (p_timer (procs s i)) = PgTimer v" "tm_callback v = Some PeriodCallback"
    using v by (simp_all add: own_timer_def)
  show ?thesis using t False cb
    by (simp add: clock_body_def bind_def seq_def fire_own [OF v] timer_at_def as_timer_def whenK_def upd_timer_def call_callback_def)
qed

text \<open>The state in which hart 0 takes a clock interrupt: no lock of a process and not \<^verbatim>\<open>tickslock\<close> is held.\<close>

definition clock_ok :: "kernel \<Rightarrow> bool" where
  "clock_ok s \<longleftrightarrow> hart (lkst s) = 0 \<and> procs_free (lkst s) \<and> lk_free LkTicks (lkst s) \<and> timers_ok s"

definition clock_st :: "kernel \<Rightarrow> kernel" where
  "clock_st s =
     (wakeup_st ChTicks (fold fire [0..<NPROC] (s\<lparr>lkst := enter LkTicks (lkst s), ticks := ticks s + 1\<rparr>)))
       \<lparr>lkst := lkst s, csr := (csr s)(Stimecmp := csr s Time + 1000000)\<rparr>"

lemma fire_csr [simp]: "csr (fire i s) = csr s"
  by (simp add: fire_def Let_def split: page.split)

lemma fold_fire_frame [simp]:
  "lkst (fold fire js s) = lkst s" "ticks (fold fire js s) = ticks s" "csr (fold fire js s) = csr s"
  by (induction js arbitrary: s) simp_all

lemma fold_fire_timers_ok: "timers_ok s \<Longrightarrow> set js \<subseteq> {..<NPROC} \<Longrightarrow> timers_ok (fold fire js s)"
  by (induction js arbitrary: s) (auto simp: fire_timers_ok)

lemma fold_fire_other:
  assumes "timers_ok s" and "set js \<subseteq> {..<NPROC}" and "j \<notin> set js" and "own_timer s j v"
  shows "procs (fold fire js s) j = procs s j \<and> own_timer (fold fire js s) j v"
  using assms
proof (induction js arbitrary: s)
  case Nil
  then show ?case by simp
next
  case (Cons i js)
  then show ?case using fire_other [of s i j v] fire_timers_ok [of s i] by auto
qed

lemma timers_ok_upd: "timers_ok (s\<lparr>lkst := l\<rparr>) = timers_ok s" "timers_ok (s\<lparr>ticks := k\<rparr>) = timers_ok s" "timers_ok (s\<lparr>csr := c\<rparr>) = timers_ok s"
  by (simp_all add: timers_ok_def own_timer_def)

lemma clockintr_run:
  assumes "clock_ok s"
  shows "clockintr s e = Ok () (clock_st s) e"
proof -
  let ?s = "s\<lparr>lkst := enter LkTicks (lkst s), ticks := ticks s + 1\<rparr>"
  have l: "lk_avail LkTicks (lkst s)" "procs_free (enter LkTicks (lkst s))" and t: "timers_ok ?s"
    using assms by (auto simp: clock_ok_def procs_free_def lk_avail_def timers_ok_upd)
  have loop: "for_each [0..<NPROC] clock_body ?s e = Ok () (fold fire [0..<NPROC] ?s) e"
    using for_each_Ok [where P = "\<lambda>s. procs_free (lkst s) \<and> timers_ok s" and f = fire and js = "[0..<NPROC]"]
      clock_body_run fire_timers_ok l(2) t by auto
  have "wakeup ChTicks (fold fire [0..<NPROC] ?s) e = Ok () (wakeup_st ChTicks (fold fire [0..<NPROC] ?s)) e"
    using wakeup_run procs_free_others [OF l(2)] by simp
  then show ?thesis using assms l loop
    by (simp add: clockintr_def clock_ok_def clock_st_def bind_def seq_def ksimps spinlock_prims whenK_def)
qed

lemma wakeup_st_own [simp]: "own_timer (wakeup_st ch s) j = own_timer s j" "timers_ok (wakeup_st ch s) = timers_ok s"
  by (auto simp: wakeup_st_def own_timer_def timers_ok_def woken_def fun_eq_iff)

lemma own_timer_upd [simp]: "own_timer (s\<lparr>lkst := l\<rparr>) = own_timer s" "own_timer (s\<lparr>ticks := k\<rparr>) = own_timer s" "own_timer (s\<lparr>csr := c\<rparr>) = own_timer s"
  by (simp_all add: own_timer_def fun_eq_iff)

lemma clock_st_frame [simp]: "lkst (clock_st s) = lkst s" "ticks (clock_st s) = ticks s + 1"
  by (simp_all add: clock_st_def)

lemma clock_st_ok: "clock_ok s \<Longrightarrow> clock_ok (clock_st s)"
  by (simp add: clock_ok_def clock_st_def timers_ok_upd fold_fire_timers_ok atLeast0LessThan)

lemma upt_split: "i < n \<Longrightarrow> [0..<n] = [0..<i] @ i # [Suc i..<n]"
  using upt_add_eq_append [of 0 i "n - i"] upt_conv_Cons [of i n] by simp

text \<open>A timer fires in the interrupt that makes \<^verbatim>\<open>ticks\<close> reach its tick, and is set anew; before that nothing happens to its process.\<close>

lemma clock_st_timer:
  assumes "clock_ok s" and "i < NPROC" and "own_timer s i v" and "p_state (procs s i) \<noteq> UNUSED" and "p_chan (procs s i) \<noteq> ChTicks"
  shows "own_timer (clock_st s) i (if tm_next_tick v \<le> ticks s + 1 then v\<lparr>tm_next_tick := ticks s + 1 + tm_expiry v\<rparr> else v)"
    and "procs (clock_st s) i = (if tm_next_tick v \<le> ticks s + 1 then ready (procs s i) else procs s i)"
proof -
  let ?s = "s\<lparr>lkst := enter LkTicks (lkst s), ticks := ticks s + 1\<rparr>"
  let ?a = "fold fire [0..<i] ?s"
  have t: "timers_ok ?s" and o: "own_timer ?s i v" using assms(1,3) by (simp_all add: clock_ok_def timers_ok_upd)
  have split: "fold fire [0..<NPROC] ?s = fold fire [Suc i..<NPROC] (fire i ?a)"
    by (simp only: upt_split [OF assms(2)] fold_append comp_apply fold.simps)
  have sub: "set [0..<i] \<subseteq> {..<NPROC}" "set [Suc i..<NPROC] \<subseteq> {..<NPROC}" using assms(2) by auto
  have a: "procs ?a i = procs ?s i" "own_timer ?a i v" using fold_fire_other [OF t sub(1) _ o] by simp_all
  have ta: "timers_ok ?a" using fold_fire_timers_ok [OF t sub(1)] .
  let ?v = "if tm_next_tick v \<le> ticks s + 1 then v\<lparr>tm_next_tick := ticks s + 1 + tm_expiry v\<rparr> else v"
  have b: "own_timer (fire i ?a) i ?v" "procs (fire i ?a) i = (if tm_next_tick v \<le> ticks s + 1 then ready (procs s i) else procs s i)"
    using fire_same [OF a(2)] a(1) assms(4) by auto
  have c: "procs (fold fire [0..<NPROC] ?s) i = procs (fire i ?a) i \<and> own_timer (fold fire [0..<NPROC] ?s) i ?v"
    unfolding split using fold_fire_other [OF fire_timers_ok [OF ta assms(2)] sub(2) _ b(1)] by simp
  show "own_timer (clock_st s) i ?v" using c by (simp add: clock_st_def)
  show "procs (clock_st s) i = (if tm_next_tick v \<le> ticks s + 1 then ready (procs s i) else procs s i)"
    using c b(2) assms(5) by (auto simp: clock_st_def wakeup_st_def woken_def)
qed

section \<open>Setting a period\<close>

text \<open>
  \<^verbatim>\<open>setperiod\<close> gives the calling process such a timer, due one period from now: a new page the first time, and later the one it has.
\<close>

lemma xv6timer_forward_run:
  assumes "own_timer s i v"
  shows "xv6timer_forward (p_timer (procs s i)) d s e =
    Ok () (set_page (p_timer (procs s i)) (PgTimer (v\<lparr>tm_expiry := d, tm_next_tick := ticks s + d\<rparr>)) s) e"
  using assms by (simp add: own_timer_def xv6timer_forward_def upd_timer_def timer_at_def as_timer_def bind_def seq_def)

lemma setperiod_again:
  assumes "irq_ok (lkst s)" and "cur (lkst s) = Some i" and "p_trapframe (procs s i) \<noteq> 0" and "phys s (p_trapframe (procs s i)) = PgTrapframe f"
    and "1 \<le> sint (ucast (regs f (R_a 0)) :: cint)" and "own_timer s i v"
  shows "\<exists>t. sys_setperiod s e = Ok 0 t e \<and>
    own_timer t i (v\<lparr>tm_expiry := ucast (regs f (R_a 0)), tm_next_tick := ticks s + ucast (regs f (R_a 0))\<rparr>)"
proof -
  have "p_timer (procs s i) \<noteq> 0" using assms(6) by (simp add: own_timer_def)
  then show ?thesis
    using assms(5) argraw_run [OF assms(1-4), of 0 e] me_run [OF assms(1,2)] xv6timer_forward_run [OF assms(6)]
    by (simp add: sys_setperiod_def argint_def bind_def seq_def) (use assms(6) in \<open>simp add: own_timer_def\<close>)
qed

lemma setperiod_first:
  assumes "irq_ok (lkst s)" and "cur (lkst s) = Some i" and "p_trapframe (procs s i) \<noteq> 0" and "phys s (p_trapframe (procs s i)) = PgTrapframe f"
    and "1 \<le> sint (ucast (regs f (R_a 0)) :: cint)" and "p_timer (procs s i) = 0" and "free_pages s (a # as)" and "lk_avail LkKmem (lkst s)"
  shows "\<exists>t. sys_setperiod s e = Ok 0 t e \<and> own_timer t i
    \<lparr>tm_expiry = ucast (regs f (R_a 0)), tm_next_tick = ticks s + ucast (regs f (R_a 0)), tm_proc = Some i, tm_callback = Some PeriodCallback\<rparr>"
proof -
  note k = kalloc_st_cons [OF assms(7)]
  have a: "a \<noteq> 0" using kmem.pool_usable [OF assms(7), of a] by simp
  let ?v = "\<lparr>tm_expiry = 0, tm_next_tick = 0, tm_proc = Some i, tm_callback = Some PeriodCallback\<rparr> :: xv6timer_t"
  let ?s = "set_page a (PgTimer ?v) (set_page a (PgTimer (?v\<lparr>tm_callback := None\<rparr>)) (upd_proc i (\<lambda>p. p\<lparr>p_timer := a\<rparr>) (kalloc_st s)))"
  have o: "own_timer ?s i ?v" using a by (simp add: own_timer_def)
  have pt: "p_timer (procs ?s i) = a" by simp
  show ?thesis
    using assms(5,6) argraw_run [OF assms(1-4), of 0 e] me_run [OF assms(1,2)] kalloc_run [OF assms(7,8), of e] k(1) a
      xv6timer_forward_run [OF o, unfolded pt]
    by (simp add: sys_setperiod_def argint_def bind_def seq_def xv6timer_init_def xv6timer_register_callback_def upd_timer_def timer_at_def
        as_timer_def own_timer_def)
qed

section \<open>A period\<close>

text \<open>\<open>n\<close> clock interrupts on hart 0, with what everybody else does after each of them.\<close>

fun clock_run :: "(nat \<Rightarrow> unit kop) \<Rightarrow> nat \<Rightarrow> unit kop" where
  "clock_run env 0 = skip"
| "clock_run env (Suc n) = seq (clock_run env n) (seq clockintr (env n))"

text \<open>
  The others return to a state in which the interrupt can be taken; they leave \<^verbatim>\<open>ticks\<close> and the timer and the state of process \<open>i\<close> as
  they are.
\<close>

definition leaves_alone :: "nat \<Rightarrow> unit kop \<Rightarrow> bool" where
  "leaves_alone i m \<longleftrightarrow> (\<forall>s e. clock_ok s \<longrightarrow> (\<exists>t. m s e = Ok () t e \<and> clock_ok t \<and> ticks t = ticks s \<and>
     procs t i = procs s i \<and> phys t (p_timer (procs s i)) = phys s (p_timer (procs s i))))"

lemma next_tick_small: "unat (tm_next_tick v) < 4294967296"
  using unsigned_less [of "tm_next_tick v"] by simp

lemma clock_run_waits:
  assumes "clock_ok s" and "i < NPROC" and "own_timer s i v" and "p_state (procs s i) \<noteq> UNUSED" and "p_chan (procs s i) \<noteq> ChTicks"
    and "\<forall>n. leaves_alone i (env n)" and "unat (ticks s) + n < unat (tm_next_tick v)"
  shows "\<exists>t. clock_run env n s e = Ok () t e \<and> clock_ok t \<and> own_timer t i v \<and> procs t i = procs s i \<and>
    unat (ticks t) = unat (ticks s) + n"
  using assms(7)
proof (induction n)
  case 0
  then show ?case using assms(1,3) by simp
next
  case (Suc n)
  then obtain t where t: "clock_run env n s e = Ok () t e" "clock_ok t" "own_timer t i v" "procs t i = procs s i"
    "unat (ticks t) = unat (ticks s) + n" by auto
  have tk: "unat (ticks t + 1) = Suc (unat (ticks t))"
    using Suc.prems t(5) next_tick_small [of v] by (simp add: unat_word_ariths)
  then have less: "\<not> tm_next_tick v \<le> ticks t + 1" using Suc.prems t(5) by (simp add: word_le_nat_alt)
  have c: "own_timer (clock_st t) i v" "procs (clock_st t) i = procs s i"
    using clock_st_timer [OF t(2) assms(2) t(3)] t(4) assms(4,5) less by simp_all
  obtain u where u: "env n (clock_st t) e = Ok () u e" "clock_ok u" "ticks u = ticks (clock_st t)"
    "procs u i = procs (clock_st t) i" "phys u (p_timer (procs (clock_st t) i)) = phys (clock_st t) (p_timer (procs (clock_st t) i))"
    using assms(6) clock_st_ok [OF t(2)] unfolding leaves_alone_def by blast
  then have "own_timer u i v" using c(1) by (simp add: own_timer_def)
  then show ?case using t u c tk clockintr_run [OF t(2)] by (simp add: seq_def)
qed

text \<open>
  C1. A process that waits for its next period is woken on time. Let process \<open>i\<close> sleep, not on \<^verbatim>\<open>ticks\<close>, with a timer that
  is due \<open>Suc n\<close> ticks from now. Through the next \<open>n\<close> clock interrupts of hart 0 it stays asleep, whatever the others do in between that does not
  concern it; the interrupt after that makes it runnable and sets the timer to fire one period later. None of the interrupts
  blocks or panics.
\<close>

theorem period_wakes:
  assumes "clock_ok s" and "i < NPROC" and "own_timer s i v" and "p_state (procs s i) = SLEEPING" and "p_chan (procs s i) \<noteq> ChTicks"
    and "\<forall>n. leaves_alone i (env n)" and "unat (tm_next_tick v) = unat (ticks s) + Suc n"
  shows "\<exists>t u. clock_run env n s e = Ok () t e \<and> p_state (procs t i) = SLEEPING \<and>
    clockintr t e = Ok () u e \<and> p_state (procs u i) = RUNNABLE \<and> ticks u = tm_next_tick v \<and>
    own_timer u i (v\<lparr>tm_next_tick := tm_next_tick v + tm_expiry v\<rparr>)"
proof -
  obtain t where t: "clock_run env n s e = Ok () t e" "clock_ok t" "own_timer t i v" "procs t i = procs s i"
    "unat (ticks t) = unat (ticks s) + n"
    using clock_run_waits [OF assms(1-3) _ assms(5,6), of n e] assms(4,7) by auto
  have "unat (ticks t + 1) = Suc (unat (ticks t))"
    using assms(7) t(5) next_tick_small [of v] by (simp add: unat_word_ariths)
  then have tk: "ticks t + 1 = tm_next_tick v" using assms(7) t(5) by (simp add: word_unat_eq_iff)
  have "own_timer (clock_st t) i (v\<lparr>tm_next_tick := tm_next_tick v + tm_expiry v\<rparr>)" "procs (clock_st t) i = ready (procs s i)"
    using clock_st_timer [OF t(2) assms(2) t(3)] t(4) assms(4,5) by (simp_all add: tk)
  then show ?thesis using t clockintr_run [OF t(2)] assms(4) tk by (auto simp: ready_def)
qed

text \<open>Process 3 with a period of five ticks, asleep until tick 5; nobody else does anything.\<close>

definition periodic :: kernel where
  "periodic = (boot_kernel sample_syms)\<lparr>procs := (\<lambda>_. zero_proc)(3 := zero_proc\<lparr>p_state := SLEEPING, p_timer := 4096\<rparr>),
     phys := (\<lambda>_. PgFill 0)(4096 := PgTimer \<lparr>tm_expiry = 5, tm_next_tick = 5, tm_proc = Some 3, tm_callback = Some PeriodCallback\<rparr>)\<rparr>"

theorem period_wakes_witness:
  "\<exists>t u. clock_run (\<lambda>_. skip) 4 periodic [] = Ok () t [] \<and> p_state (procs t 3) = SLEEPING \<and>
    clockintr t [] = Ok () u [] \<and> p_state (procs u 3) = RUNNABLE \<and> ticks u = 5"
proof -
  let ?v = "\<lparr>tm_expiry = 5, tm_next_tick = 5, tm_proc = Some 3, tm_callback = Some PeriodCallback\<rparr> :: xv6timer_t"
  have o: "own_timer periodic 3 ?v" by (simp add: own_timer_def periodic_def)
  then have "timers_ok periodic" by (auto simp: timers_ok_def periodic_def zero_defs)
  then have ok: "clock_ok periodic"
    using boot_lk_avail [of _ sample_syms] by (simp add: clock_ok_def procs_free_def periodic_def lk_avail_def zero_defs)
  have alone: "\<forall>n. leaves_alone 3 ((\<lambda>_. skip) (n :: nat))" by (simp add: leaves_alone_def)
  show ?thesis using period_wakes [OF ok _ o _ _ alone, of 4 "[]"] by (auto simp: periodic_def NPROC_def zero_defs)
qed

end
