(* ===== verification/Mkfs.thy ===== *)
theory Mkfs
  imports LogCommit Fs
begin

text \<open>
  The program that builds the file system image, \<^verbatim>\<open>mkfs/mkfs.c\<close>, on the layout of \<^verbatim>\<open>kernel/fs.h\<close> that the kernel reads.

  It runs on a little-endian host. The image is a regular file of \<open>nsects\<close> sectors: a read past its end is short, a write past its end
  makes it longer (the gap reads as 0), and a write beyond \<open>quota\<close>, what the host has room for, fails; \<^verbatim>\<open>lseek\<close> to an offset that is not
  negative succeeds. Opening an input file is the parameter \<open>fopen\<close>: nothing, or what the calls of \<^verbatim>\<open>read\<close> return one after
  the other until the first that returns no bytes. A failed assertion is \<open>Panic ''assert''\<close>, and \<^verbatim>\<open>exit\<close> is \<open>Exited\<close>.
\<close>

section \<open>State\<close>

definition NINODES :: nat where "NINODES = 200"
definition FSSIZE :: nat where "FSSIZE = 2000"
definition nbitmap :: nat where "nbitmap = FSSIZE div BPB + 1"
definition ninodeblocks :: nat where "ninodeblocks = NINODES div IPB + 1"
definition nlog :: nat where "nlog = LOGSIZE"
definition nmeta :: nat where "nmeta = 2 + nlog + ninodeblocks + nbitmap"
definition nblocks :: nat where "nblocks = FSSIZE - nmeta"

record image =
  sects :: "nat \<Rightarrow> block"
  nsects :: nat
  quota :: nat
  sb :: superblock
  freeinode :: uint
  freeblock :: uint
  said :: "(string \<times> int list) list"
  exitcode :: "int option"

type_synonym 'a mkop = "(image, 'a) K"

definition zeroes :: block where
  "zeroes = (\<lambda>_. 0)"

definition say :: "string \<Rightarrow> int list \<Rightarrow> unit mkop" where
  "say f xs = modify (\<lambda>s. s\<lparr>said := said s @ [(f, xs)]\<rparr>)"

definition exit_mk :: "int \<Rightarrow> 'a mkop" where
  "exit_mk c s e = Stop (Exited (s\<lparr>exitcode := Some c\<rparr>))"

definition die :: "string \<Rightarrow> 'a mkop" where
  "die msg = seq (say msg []) (exit_mk 1)"

definition assertK :: "bool \<Rightarrow> unit mkop" where
  "assertK b = whenK (\<not> b) (panic ''assert'')"

section \<open>Byte order\<close>

definition xshort :: "cshort \<Rightarrow> cshort" where
  "xshort x = le_word [ucast x, ucast (drop_bit 8 x)]"

definition xint :: "uint \<Rightarrow> uint" where
  "xint x = le_word [ucast x, ucast (drop_bit 8 x), ucast (drop_bit 16 x), ucast (drop_bit 24 x)]"

section \<open>Sectors\<close>

text \<open>The product \<^verbatim>\<open>sec * BSIZE\<close> is an unsigned int.\<close>

definition sect_no :: "uint \<Rightarrow> nat" where
  "sect_no sec = unat (sec * of_nat BSIZE) div BSIZE"

definition wsect :: "uint \<Rightarrow> block \<Rightarrow> unit mkop" where
  "wsect sec buf =
     bind (gets quota) (\<lambda>q.
     if q \<le> sect_no sec then die ''write''
     else modify (\<lambda>s. s\<lparr>sects := (sects s)(sect_no sec := buf), nsects := max (nsects s) (sect_no sec + 1)\<rparr>))"

definition rsect :: "uint \<Rightarrow> block mkop" where
  "rsect sec =
     bind (gets nsects) (\<lambda>n.
     if n \<le> sect_no sec then die ''read''
     else gets (\<lambda>s. sects s (sect_no sec)))"

section \<open>Inodes\<close>

definition winode :: "uint \<Rightarrow> inode \<Rightarrow> unit mkop" where
  "winode inum ip =
     bind (gets (\<lambda>s. IBLOCK inum (sb s))) (\<lambda>bn.
     bind (rsect bn) (\<lambda>buf.
     wsect bn (store_dinode ip (dinode_off inum) buf)))"

definition rinode :: "uint \<Rightarrow> inode mkop" where
  "rinode inum =
     bind (gets (\<lambda>s. IBLOCK inum (sb s))) (\<lambda>bn.
     bind (rsect bn) (\<lambda>buf.
     ret (load_dinode buf (dinode_off inum) zero_inode)))"

definition ialloc_mk :: "cshort \<Rightarrow> uint mkop" where
  "ialloc_mk type =
     bind (gets freeinode) (\<lambda>inum.
     seq (modify (\<lambda>s. s\<lparr>freeinode := freeinode s + 1\<rparr>)) (
     seq (winode inum (zero_inode\<lparr>i_type := xshort type, i_nlink := xshort 1, i_size := xint 0\<rparr>)) (
     ret inum)))"

section \<open>Blocks\<close>

definition balloc_mk :: "uint \<Rightarrow> unit mkop" where
  "balloc_mk used =
     seq (say (''balloc: first %d blocks have been allocated'' @ [CHR 0x0A]) [sint used]) (
     seq (assertK (sint used < int BPB)) (
     let buf = fold (\<lambda>i b. b(i div 8 := b (i div 8) OR push_bit (i mod 8) 1)) [0..<nat (sint used)] zeroes in
     bind (gets (\<lambda>s. sb_bmapstart (sb s))) (\<lambda>bm.
     seq (say (''balloc: write bitmap block at sector %d'' @ [CHR 0x0A]) [sint bm]) (
     wsect bm buf))))"

text \<open>\<^verbatim>\<open>freeblock++\<close>.\<close>

definition take_block :: "uint mkop" where
  "take_block =
     bind (gets freeblock) (\<lambda>b.
     seq (modify (\<lambda>s. s\<lparr>freeblock := freeblock s + 1\<rparr>)) (
     ret b))"

text \<open>The first half of the body of \<^verbatim>\<open>iappend\<close>'s loop: the sector of block \<open>fbn\<close> of the file, allocated if need be.\<close>

definition file_sect :: "uint \<Rightarrow> inode \<Rightarrow> (inode \<times> uint) mkop" where
  "file_sect fbn din =
     (if unat fbn < NDIRECT then
        bind (if xint (i_addrs din (unat fbn)) = 0 then
                bind take_block (\<lambda>b. ret (din\<lparr>i_addrs := (i_addrs din)(unat fbn := xint b)\<rparr>))
              else ret din) (\<lambda>din.
        ret (din, xint (i_addrs din (unat fbn))))
      else
        bind (if xint (i_addrs din NDIRECT) = 0 then
                bind take_block (\<lambda>b. ret (din\<lparr>i_addrs := (i_addrs din)(NDIRECT := xint b)\<rparr>))
              else ret din) (\<lambda>din.
        bind (rsect (xint (i_addrs din NDIRECT))) (\<lambda>indirect.
        bind (if get32 indirect (4 * (unat fbn - NDIRECT)) = 0 then
                bind take_block (\<lambda>b.
                let indirect = put32 (4 * (unat fbn - NDIRECT)) (xint b) indirect in
                seq (wsect (xint (i_addrs din NDIRECT)) indirect) (
                ret indirect))
              else ret indirect) (\<lambda>indirect.
        ret (din, xint (get32 indirect (4 * (unat fbn - NDIRECT))))))))"

definition iappend_body :: "uchar list \<times> uint \<times> inode \<Rightarrow> ((uchar list \<times> uint \<times> inode) + (uint \<times> inode)) mkop" where
  "iappend_body = (\<lambda>(p, off, din).
     if p = [] then ret (Inr (off, din))
     else
       let fbn = off div of_nat BSIZE in
       seq (assertK (unat fbn < MAXFILE)) (
       bind (file_sect fbn din) (\<lambda>(din, x).
       let n1 = min (of_nat (length p)) ((fbn + 1) * of_nat BSIZE - off) in
       bind (rsect x) (\<lambda>buf.
       seq (wsect x (put_bytes (unat (off - fbn * of_nat BSIZE)) (take (unat n1) p) buf)) (
       ret (Inl (drop (unat n1) p, off + n1, din)))))))"

text \<open>\<^verbatim>\<open>n\<close> is the length of the bytes at \<^verbatim>\<open>xp\<close>.\<close>

definition iappend :: "uint \<Rightarrow> uchar list \<Rightarrow> unit mkop" where
  "iappend inum xp =
     bind (rinode inum) (\<lambda>din.
     bind (loopK iappend_body (xp, xint (i_size din), din)) (\<lambda>(off, din).
     winode inum (din\<lparr>i_size := xint off\<rparr>)))"

section \<open>The program\<close>

definition the_superblock :: superblock where
  "the_superblock = \<lparr>sb_magic = FSMAGIC, sb_size = xint (of_nat FSSIZE), sb_nblocks = xint (of_nat nblocks),
     sb_ninodes = xint (of_nat NINODES), sb_nlog = xint (of_nat nlog), sb_logstart = xint 2,
     sb_inodestart = xint (of_nat (2 + nlog)), sb_bmapstart = xint (of_nat (2 + nlog + ninodeblocks))\<rparr>"

text \<open>The bytes of the structure, copied to the start of a block.\<close>

definition put_superblock :: "superblock \<Rightarrow> block \<Rightarrow> block" where
  "put_superblock b d = put32 28 (sb_bmapstart b) (put32 24 (sb_inodestart b) (put32 20 (sb_logstart b) (put32 16 (sb_nlog b)
     (put32 12 (sb_ninodes b) (put32 8 (sb_nblocks b) (put32 4 (sb_size b) (put32 0 (sb_magic b) d)))))))"

definition format_image :: "unit mkop" where
  "format_image =
     seq (modify (\<lambda>s. s\<lparr>sb := the_superblock\<rparr>)) (
     seq (say (''nmeta %d (boot, super, log blocks %u inode blocks %u, bitmap blocks %u) blocks %d total %d'' @ [CHR 0x0A])
            [int nmeta, int nlog, int ninodeblocks, int nbitmap, int nblocks, int FSSIZE]) (
     seq (modify (\<lambda>s. s\<lparr>freeblock := of_nat nmeta\<rparr>)) (
     seq (for_each [0..<FSSIZE] (\<lambda>i. wsect (of_nat i) zeroes)) (
     bind (gets sb) (\<lambda>b.
     wsect 1 (put_superblock b zeroes))))))"

definition make_root :: "uint mkop" where
  "make_root =
     bind (ialloc_mk T_DIR) (\<lambda>rootino.
     seq (assertK (rootino = ROOTINO)) (
     seq (iappend rootino (dirent_bytes \<lparr>d_inum = xshort (ucast rootino), d_name = strncpy (map (of_nat \<circ> of_char) ''.'') DIRSIZ\<rparr>)) (
     seq (iappend rootino (dirent_bytes \<lparr>d_inum = xshort (ucast rootino), d_name = strncpy (map (of_nat \<circ> of_char) ''..'') DIRSIZ\<rparr>)) (
     ret rootino))))"

definition add_file :: "(uchar list \<Rightarrow> uchar list list option) \<Rightarrow> uint \<Rightarrow> uchar list \<Rightarrow> unit mkop" where
  "add_file fopen rootino arg =
     (let shortname = (if take 5 arg = map (of_nat \<circ> of_char) ''user/'' then drop 5 arg else arg) in
      seq (assertK (of_char (CHR ''/'') \<notin> set shortname)) (
      case fopen arg of None \<Rightarrow> die (map (char_of \<circ> unat) arg)
      | Some chunks \<Rightarrow>
          let shortname = (case shortname of c # cs \<Rightarrow> if c = of_char (CHR ''_'') then cs else shortname | [] \<Rightarrow> []) in
          seq (assertK (length shortname \<le> DIRSIZ)) (
          bind (ialloc_mk T_FILE) (\<lambda>inum.
          seq (iappend rootino (dirent_bytes \<lparr>d_inum = xshort (ucast inum), d_name = strncpy shortname DIRSIZ\<rparr>)) (
          for_each chunks (iappend inum))))))"

definition fix_root_size :: "uint \<Rightarrow> unit mkop" where
  "fix_root_size rootino =
     bind (rinode rootino) (\<lambda>din.
     let off = xint (i_size din); off = (off div of_nat BSIZE + 1) * of_nat BSIZE in
     winode rootino (din\<lparr>i_size := xint off\<rparr>))"

text \<open>\<open>argv\<close> are the arguments from \<^verbatim>\<open>argv[1]\<close> on; \<open>creat\<close> tells whether the image can be opened.\<close>

definition mkfs_main :: "(uchar list \<Rightarrow> bool) \<Rightarrow> (uchar list \<Rightarrow> uchar list list option) \<Rightarrow> uchar list list \<Rightarrow> unit mkop" where
  "mkfs_main creat fopen argv =
     (case argv of [] \<Rightarrow> seq (say (''Usage: mkfs fs.img files...'' @ [CHR 0x0A]) []) (exit_mk 1)
      | img # args \<Rightarrow>
          if \<not> creat img then die (map (char_of \<circ> unat) img)
          else
            seq format_image (
            bind make_root (\<lambda>rootino.
            seq (for_each args (add_file fopen rootino)) (
            seq (fix_root_size rootino) (
            bind (gets freeblock) (\<lambda>used.
            seq (balloc_mk used) (
            exit_mk 0)))))))"

end
