(* ===== verification/MkfsProps.thy ===== *)
theory MkfsProps
  imports Mkfs
begin

text \<open>
  What \<^verbatim>\<open>mkfs\<close> leaves on the image: its blocks belong to one file each, and \<^verbatim>\<open>iappend\<close> appends to the contents of one file and keeps those
  of all others.
\<close>

section \<open>Bytes on the image\<close>

lemma xint_id [simp]: "xint x = x"
proof -
  have "[ucast x, ucast (drop_bit 8 x), ucast (drop_bit 16 x), ucast (drop_bit 24 x)] = le_bytes 4 x"
    by (simp add: le_bytes_def upt_rec)
  then show ?thesis by (simp add: xint_def)
qed

lemma xshort_id [simp]: "xshort x = x"
proof -
  have "[ucast x, ucast (drop_bit 8 x)] = le_bytes 2 x"
    by (simp add: le_bytes_def upt_rec)
  then show ?thesis by (simp add: xshort_def)
qed

lemma map_put_bytes_other:
  assumes "b \<le> off \<or> off + length bs \<le> a"
  shows "map (put_bytes off bs d) [a..<b] = map d [a..<b]"
  using assms by (auto simp: put_bytes_def)

lemma map_put_bytes: "map (put_bytes off bs d) [off..<off + length bs] = bs"
  by (rule nth_equalityI) (auto simp: put_bytes_def)

lemma get_put:
  "get16 (put16 a v d) a = v"
  "b + 2 \<le> a \<or> a + 2 \<le> b \<Longrightarrow> get16 (put16 a v d) b = get16 d b"
  "b + 2 \<le> a \<or> a + 4 \<le> b \<Longrightarrow> get16 (put32 a w d) b = get16 d b"
  "b + 4 \<le> a \<or> a + 2 \<le> b \<Longrightarrow> get32 (put16 a v d) b = get32 d b"
  using map_put_bytes [of a "le_bytes 2 v" d] map_put_bytes_other [of "b + 2" a "le_bytes 2 v" b d]
    map_put_bytes_other [of "b + 2" a "le_bytes 4 w" b d] map_put_bytes_other [of "b + 4" a "le_bytes 2 v" b d]
  by (simp_all only: get16_def get32_def put16_def put32_def length_le_bytes le_word16_bytes)

lemma get32_fold_put32_other:
  "(\<forall>j < n. b + 4 \<le> a j \<or> a j + 4 \<le> b) \<Longrightarrow> get32 (fold (\<lambda>j. put32 (a j) (w j)) [0..<n] d) b = get32 d b"
proof (induction n)
  case (Suc n)
  then have "a n + 4 \<le> b \<or> b + 4 \<le> a n" by blast
  then show ?case using Suc by (simp add: get32_put32_other)
qed simp

lemma get16_fold_put32_other:
  "(\<forall>j < n. b + 2 \<le> a j \<or> a j + 4 \<le> b) \<Longrightarrow> get16 (fold (\<lambda>j. put32 (a j) (w j)) [0..<n] d) b = get16 d b"
proof (induction n)
  case (Suc n)
  then have "b + 2 \<le> a n \<or> a n + 4 \<le> b" by blast
  then show ?case using Suc by (simp add: get_put)
qed simp

lemma get_fold_put32:
  assumes "\<forall>j < n. \<forall>k < n. j < k \<longrightarrow> a j + 4 \<le> a k" and "k < n"
  shows "get32 (fold (\<lambda>j. put32 (a j) (w j)) [0..<n] d) (a k) = w k"
  using assms
proof (induction n)
  case (Suc n)
  then show ?case by (cases "k = n") (auto simp: get32_put32_other less_Suc_eq)
qed simp

lemma load_store_same: "load_dinode (store_dinode ip o' d) o' zero_inode =
    zero_inode\<lparr>i_type := i_type ip, i_major := i_major ip, i_minor := i_minor ip, i_nlink := i_nlink ip, i_size := i_size ip,
      i_addrs := (\<lambda>j. if j \<le> NDIRECT then i_addrs ip j else 0)\<rparr>"
proof -
  have "get32 (store_dinode ip o' d) (o' + 12 + 4 * j) = i_addrs ip j" if "j \<le> NDIRECT" for j
    unfolding store_dinode_def using that by (subst get_fold_put32) auto
  then show ?thesis
    by (auto simp: load_dinode_def zero_inode_def store_dinode_def get32_fold_put32_other get16_fold_put32_other get32_put32_other get_put fun_eq_iff)
qed

lemma load_store_other:
  assumes "o1 + 64 \<le> o2 \<or> o2 + 64 \<le> o1"
  shows "load_dinode (store_dinode ip o1 d) o2 zero_inode = load_dinode d o2 zero_inode"
proof -
  have g: "o2 + k + 4 \<le> o1 + 12 + 4 * j \<or> o1 + 12 + 4 * j + 4 \<le> o2 + k" if "j < Suc NDIRECT" "k \<le> 60" for j k
    using assms that by (auto simp: NDIRECT_def)
  have a: "get32 (store_dinode ip o1 d) (o2 + k) = get32 d (o2 + k)" if "k \<le> 60" for k
    unfolding store_dinode_def using g [OF _ that] assms that
    by (subst get32_fold_put32_other) (auto simp: get32_put32_other get_put)
  have b: "get16 (store_dinode ip o1 d) (o2 + k) = get16 d (o2 + k)" if "k \<le> 6" for k
    unfolding store_dinode_def using assms that
    by (subst get16_fold_put32_other) (auto simp: NDIRECT_def get_put)
  have "get32 (store_dinode ip o1 d) (o2 + 12 + 4 * j) = get32 d (o2 + 12 + 4 * j)" if "j \<le> NDIRECT" for j
    using a [of "12 + 4 * j"] that by (simp add: NDIRECT_def add.assoc)
  then show ?thesis using a [of 8] b [of 0] b [of 2] b [of 4] b [of 6] by (simp add: load_dinode_def zero_inode_def fun_eq_iff)
qed

section \<open>The blocks of a file\<close>

text \<open>The sector of block \<open>n\<close> of a file, 0 for none; the sectors a file uses; its bytes up to \<open>off\<close>.\<close>

definition baddr :: "(nat \<Rightarrow> block) \<Rightarrow> inode \<Rightarrow> nat \<Rightarrow> nat" where
  "baddr S din n =
     (if n < NDIRECT then unat (i_addrs din n)
      else if i_addrs din NDIRECT = 0 then 0
      else unat (get32 (S (unat (i_addrs din NDIRECT))) (4 * (n - NDIRECT))))"

definition ind :: "inode \<Rightarrow> nat" where
  "ind din = unat (i_addrs din NDIRECT)"

definition used :: "(nat \<Rightarrow> block) \<Rightarrow> inode \<Rightarrow> nat set" where
  "used S din = {ind din} \<union> baddr S din ` {..<MAXFILE} - {0}"

definition contents :: "(nat \<Rightarrow> block) \<Rightarrow> inode \<Rightarrow> nat \<Rightarrow> uchar list" where
  "contents S din off = map (\<lambda>k. S (baddr S din (k div BSIZE)) (k mod BSIZE)) [0..<off]"

definition file_ok :: "(nat \<Rightarrow> block) \<Rightarrow> nat \<Rightarrow> inode \<Rightarrow> nat \<Rightarrow> bool" where
  "file_ok S fb din off \<longleftrightarrow> off \<le> MAXFILE * BSIZE \<and> used S din \<subseteq> {nmeta..<fb} \<and>
     (\<forall>n < MAXFILE. n * BSIZE < off \<longrightarrow> baddr S din n \<noteq> 0) \<and>
     (\<forall>n < MAXFILE. baddr S din n \<noteq> 0 \<longrightarrow> baddr S din n \<noteq> ind din) \<and>
     (\<forall>m < MAXFILE. \<forall>n < MAXFILE. baddr S din m = baddr S din n \<longrightarrow> baddr S din m \<noteq> 0 \<longrightarrow> m = n)"

lemma baddr_cong: "(ind din \<noteq> 0 \<Longrightarrow> T (ind din) = S (ind din)) \<Longrightarrow> baddr T din n = baddr S din n"
  by (auto simp: baddr_def ind_def unat_eq_0)

text \<open>What a file is depends on its sectors only.\<close>

lemma used_frame:
  assumes "\<And>b. b \<in> used S din \<Longrightarrow> T b = S b"
  shows "baddr T din = baddr S din" "used T din = used S din"
proof -
  show "baddr T din = baddr S din"
    using assms by (intro ext baddr_cong) (simp add: used_def)
  then show "used T din = used S din" by (simp add: used_def)
qed

lemma contents_frame:
  assumes "\<And>b. b \<in> used S din \<Longrightarrow> T b = S b" and "file_ok S fb din off"
  shows "contents T din off = contents S din off"
proof -
  have "baddr S din (k div BSIZE) \<in> used S din" if "k < off" for k
  proof -
    have "k div BSIZE < MAXFILE" "k div BSIZE * BSIZE < off"
      using that assms(2) by (auto simp: file_ok_def BSIZE_def intro: le_less_trans [of _ k])
    then show ?thesis using assms(2) by (auto simp: file_ok_def used_def)
  qed
  then show ?thesis using assms(1) by (auto simp: contents_def used_frame(1) [OF assms(1)])
qed

lemma file_ok_frame:
  assumes "\<And>b. b \<in> used S din \<Longrightarrow> T b = S b" and "file_ok S fb din off" and "fb \<le> fb'"
  shows "file_ok T fb' din off"
  using assms(2,3) by (fastforce simp: file_ok_def used_frame [OF assms(1)])

section \<open>One more block\<close>

lemma file_ok_add:
  assumes "file_ok S fb din off" and "n < MAXFILE" and "nmeta \<le> fb"
    and "baddr T din' = (baddr S din)(n := fb)" and "ind din' = ind din"
  shows "file_ok T (Suc fb) din' off" "used T din' \<subseteq> insert fb (used S din)"
proof -
  have pos: "0 < fb" using assms(3) by (simp add: nmeta_def)
  show u: "used T din' \<subseteq> insert fb (used S din)" using assms(4,5) by (auto simp: used_def)
  have small: "baddr S din m < fb" if "m < MAXFILE" for m
    using assms(1) that pos by (cases "baddr S din m = 0") (auto simp: file_ok_def used_def)
  have "ind din < fb" using assms(1) pos by (cases "ind din = 0") (auto simp: file_ok_def used_def)
  moreover have "insert fb (used S din) \<subseteq> {nmeta..<Suc fb}"
    using assms(1,3) by (auto simp: file_ok_def subset_eq less_Suc_eq)
  then have "used T din' \<subseteq> {nmeta..<Suc fb}" using u by (rule order_trans [rotated])
  ultimately show "file_ok T (Suc fb) din' off"
    using assms(1,4,5) small pos unfolding file_ok_def
    by (auto split: if_splits)
qed

lemma add_direct:
  assumes "n < NDIRECT" and "unat b = fb"
  shows "baddr S (din\<lparr>i_addrs := (i_addrs din)(n := b)\<rparr>) = (baddr S din)(n := fb)" "ind (din\<lparr>i_addrs := (i_addrs din)(n := b)\<rparr>) = ind din"
  using assms by (auto simp: baddr_def ind_def fun_eq_iff)

lemma get32_zeroes [simp]: "get32 zeroes k = 0"
  by (simp add: get32_def zeroes_def upt_rec)

lemma add_ind:
  assumes "ind din = 0" and "S fb = zeroes" and "unat b = fb" and "file_ok S fb din off" and "nmeta \<le> fb"
  defines "din' \<equiv> din\<lparr>i_addrs := (i_addrs din)(NDIRECT := b)\<rparr>"
  shows "baddr S din' = baddr S din" "ind din' = fb" "file_ok S (Suc fb) din' off" "used S din' \<subseteq> insert fb (used S din)"
proof -
  show b: "baddr S din' = baddr S din" and i: "ind din' = fb"
    using assms(1-3) by (auto simp: din'_def baddr_def ind_def unat_eq_0)
  show u: "used S din' \<subseteq> insert fb (used S din)" using b i by (auto simp: used_def)
  have "baddr S din n < fb" if "n < MAXFILE" "baddr S din n \<noteq> 0" for n
    using assms(4) that by (auto simp: file_ok_def used_def)
  then show "file_ok S (Suc fb) din' off" using assms(4,5) b i u by (fastforce simp: file_ok_def)
qed

lemma add_indirect:
  assumes "ind din \<noteq> 0" and "NDIRECT \<le> n" and "unat b = fb"
  shows "baddr (S(ind din := put32 (4 * (n - NDIRECT)) b (S (ind din)))) din = (baddr S din)(n := fb)"
proof
  fix m
  show "baddr (S(ind din := put32 (4 * (n - NDIRECT)) b (S (ind din)))) din m = ((baddr S din)(n := fb)) m"
  proof (cases "m = n \<or> m < NDIRECT")
    case True
    then show ?thesis using assms by (auto simp: baddr_def ind_def unat_eq_0)
  next
    case False
    then have "4 * (n - NDIRECT) + 4 \<le> 4 * (m - NDIRECT) \<or> 4 * (m - NDIRECT) + 4 \<le> 4 * (n - NDIRECT)"
      using assms(2) by linarith
    then show ?thesis using False assms(1) get32_put32_other by (auto simp: baddr_def ind_def)
  qed
qed

section \<open>Writing into a block\<close>

lemma baddr_data: "file_ok S fb din off \<Longrightarrow> n < MAXFILE \<Longrightarrow> baddr S din n \<noteq> 0 \<Longrightarrow> baddr (S(baddr S din n := v)) din = baddr S din"
  by (intro ext baddr_cong) (auto simp: file_ok_def)

lemma same_block: "off mod BSIZE + k < BSIZE \<Longrightarrow> (off + k) div BSIZE = off div BSIZE \<and> (off + k) mod BSIZE = off mod BSIZE + k"
proof -
  have "(q * B + r) div B = q \<and> (q * B + r) mod B = r" if "r < B" for q r B :: nat
    using that by simp
  from this [of "off mod BSIZE + k" BSIZE "off div BSIZE"] show "off mod BSIZE + k < BSIZE \<Longrightarrow> ?thesis"
    by (metis add.assoc div_mult_mod_eq)
qed

lemma write_contents:
  assumes "file_ok S fb din off" and "n = off div BSIZE" and "n < MAXFILE" and "baddr S din n \<noteq> 0"
    and "off mod BSIZE + length bs \<le> BSIZE"
  defines "T \<equiv> S(baddr S din n := put_bytes (off mod BSIZE) bs (S (baddr S din n)))"
  shows "contents T din (off + length bs) = contents S din off @ bs" "file_ok T fb din (off + length bs)" "used T din = used S din"
proof -
  have b: "baddr T din = baddr S din" unfolding T_def by (rule baddr_data [OF assms(1,3,4)])
  then show u: "used T din = used S din" by (simp add: used_def)
  have off: "off = n * BSIZE + off mod BSIZE" using assms(2) by (simp add: BSIZE_def)
  have end': "m \<le> n" if "m * BSIZE < off + length bs" for m
  proof (rule ccontr)
    assume "\<not> m \<le> n"
    then have "Suc n * BSIZE \<le> m * BSIZE" by (intro mult_le_mono1) simp
    with that off assms(5) show False by simp
  qed
  have lim: "off + length bs \<le> MAXFILE * BSIZE"
  proof -
    have "off + length bs \<le> Suc n * BSIZE" using off assms(5) by simp
    also have "\<dots> \<le> MAXFILE * BSIZE" using assms(3) by (intro mult_le_mono1) simp
    finally show ?thesis .
  qed
  have "baddr S din m \<noteq> 0" if "m < MAXFILE" "m * BSIZE < off + length bs" for m
    using assms(1,4) that end' [OF that(2)] off by (cases "m = n") (auto simp: file_ok_def BSIZE_def)
  then show "file_ok T fb din (off + length bs)" using assms(1) lim u b by (simp add: file_ok_def)
  have old: "T (baddr S din (k div BSIZE)) (k mod BSIZE) = S (baddr S din (k div BSIZE)) (k mod BSIZE)" if k: "k < off" for k
  proof (cases "k div BSIZE = n")
    case True
    then have "k mod BSIZE < off mod BSIZE" using k off by (metis div_mult_mod_eq nat_add_left_cancel_less)
    then show ?thesis by (simp add: T_def True put_bytes_def)
  next
    case False
    have "k div BSIZE < MAXFILE" "k div BSIZE * BSIZE < off"
      using k lim by (auto simp: BSIZE_def intro: le_less_trans [of _ k])
    then show ?thesis using False assms(1,3,4) by (auto simp: T_def file_ok_def)
  qed
  have new: "T (baddr S din ((off + k) div BSIZE)) ((off + k) mod BSIZE) = bs ! k" if k: "k < length bs" for k
  proof -
    have "(off + k) div BSIZE = n" "(off + k) mod BSIZE = off mod BSIZE + k"
      using k assms(2,5) same_block [of off k] by simp_all
    then show ?thesis using k by (simp add: T_def put_bytes_def)
  qed
  have "T (baddr S din (k div BSIZE)) (k mod BSIZE) = bs ! (k - off)" if "off \<le> k" "k < off + length bs" for k
    using new [of "k - off"] that by simp
  with old show "contents T din (off + length bs) = contents S din off @ bs"
    by (auto simp: contents_def b nth_append intro!: nth_equalityI)
qed

section \<open>Sectors\<close>

text \<open>Everything from \<open>freeblock\<close> on is still 0, and the image has room on the host.\<close>

definition image_room :: "image \<Rightarrow> bool" where
  "image_room s \<longleftrightarrow> nsects s \<le> quota s \<and> nsects s \<le> 2 ^ 22 \<and> nmeta \<le> unat (freeblock s) \<and> unat (freeblock s) \<le> nsects s \<and>
     (\<forall>b \<ge> unat (freeblock s). sects s b = zeroes)"

lemma sect_no_small: "unat x < 2 ^ 22 \<Longrightarrow> sect_no x = unat x"
  by (simp add: sect_no_def BSIZE_def unat_word_ariths)

lemma rsect_run: "image_room s \<Longrightarrow> unat x < nsects s \<Longrightarrow> rsect x s e = Ok (sects s (unat x)) s e"
  by (simp add: rsect_def bind_def image_room_def sect_no_small)

lemma wsect_run: "image_room s \<Longrightarrow> unat x < nsects s \<Longrightarrow> wsect x v s e = Ok () (s\<lparr>sects := (sects s)(unat x := v)\<rparr>) e"
  by (simp add: wsect_def bind_def image_room_def sect_no_small max_def)

lemma take_block_run:
  assumes "image_room s" and "unat (freeblock s) < nsects s"
  shows "take_block s e = Ok (freeblock s) (s\<lparr>freeblock := freeblock s + 1\<rparr>) e"
    "unat (freeblock s + 1) = Suc (unat (freeblock s))" "image_room (s\<lparr>freeblock := freeblock s + 1\<rparr>)"
proof -
  show u: "unat (freeblock s + 1) = Suc (unat (freeblock s))"
    using assms by (simp add: image_room_def unat_word_ariths)
  show "take_block s e = Ok (freeblock s) (s\<lparr>freeblock := freeblock s + 1\<rparr>) e" by (simp add: take_block_def bind_def seq_def)
  show "image_room (s\<lparr>freeblock := freeblock s + 1\<rparr>)" using assms by (simp add: image_room_def u)
qed

lemma image_room_sect: "image_room s \<Longrightarrow> b < unat (freeblock s) \<Longrightarrow> image_room (s\<lparr>sects := (sects s)(b := v)\<rparr>)"
  by (auto simp: image_room_def)

lemma ind_small: "file_ok S fb din off \<Longrightarrow> ind din \<noteq> 0 \<Longrightarrow> ind din < fb"
  and baddr_small: "file_ok S fb din off \<Longrightarrow> n < MAXFILE \<Longrightarrow> baddr S din n \<noteq> 0 \<Longrightarrow> baddr S din n < fb"
  by (auto simp: file_ok_def used_def)

section \<open>Growing a file\<close>

text \<open>
  From \<open>s\<close> to \<open>t\<close> only the file's own sectors and new ones have changed; its inode \<open>d\<close>, not yet written back, has become \<open>d'\<close>.
\<close>

definition grows :: "image \<Rightarrow> inode \<Rightarrow> image \<Rightarrow> inode \<Rightarrow> bool" where
  "grows s d t d' \<longleftrightarrow> image_room t \<and> unat (freeblock s) \<le> unat (freeblock t) \<and>
     used (sects t) d' \<subseteq> used (sects s) d \<union> {unat (freeblock s)..<unat (freeblock t)} \<and>
     (\<forall>b < unat (freeblock s). b \<notin> used (sects s) d \<longrightarrow> sects t b = sects s b) \<and>
     nsects t = nsects s \<and> quota t = quota s \<and> sb t = sb s \<and> freeinode t = freeinode s \<and>
     i_type d' = i_type d \<and> i_major d' = i_major d \<and> i_minor d' = i_minor d \<and> i_nlink d' = i_nlink d \<and> i_size d' = i_size d"

lemma grows_refl: "image_room s \<Longrightarrow> grows s d s d"
  by (simp add: grows_def)

lemma grows_trans:
  assumes "grows s d t d'" and "grows t d' u d''"
  shows "grows s d u d''"
proof -
  have "b \<notin> used (sects t) d'" if "b < unat (freeblock s)" "b \<notin> used (sects s) d" for b
    using assms(1) that by (auto simp: grows_def)
  moreover have "used (sects u) d'' \<subseteq> used (sects s) d \<union> {unat (freeblock s)..<unat (freeblock u)}"
  proof
    fix x assume "x \<in> used (sects u) d''"
    then consider "x \<in> used (sects t) d'" | "unat (freeblock t) \<le> x" "x < unat (freeblock u)"
      using assms(2) by (auto simp: grows_def)
    then show "x \<in> used (sects s) d \<union> {unat (freeblock s)..<unat (freeblock u)}"
      using assms by cases (auto simp: grows_def dest!: subsetD)
  qed
  ultimately show ?thesis using assms by (simp add: grows_def)
qed

lemma contents_add:
  assumes "file_ok S fb din off" and "baddr T din' = (baddr S din)(n := x)" and "n < MAXFILE" and "baddr S din n = 0"
    and "\<And>b. b \<noteq> ind din \<Longrightarrow> T b = S b"
  shows "contents T din' off = contents S din off"
proof -
  have "baddr S din (k div BSIZE) \<noteq> 0 \<and> baddr S din (k div BSIZE) \<noteq> ind din" if "k < off" for k
  proof -
    have "k div BSIZE < MAXFILE" "k div BSIZE * BSIZE < off"
      using that assms(1) by (auto simp: file_ok_def BSIZE_def intro: le_less_trans [of _ k])
    then show ?thesis using assms(1) by (auto simp: file_ok_def)
  qed
  then have "T (baddr T din' (k div BSIZE)) = S (baddr S din (k div BSIZE))" if "k < off" for k
    using that assms(2,4,5) by (cases "k div BSIZE = n") force+
  then show ?thesis by (simp add: contents_def)
qed

lemma direct_step:
  assumes "image_room s" and "file_ok (sects s) (unat (freeblock s)) din off" and "n < NDIRECT" and "i_addrs din n = 0"
    and "unat (freeblock s) < nsects s"
  defines "t \<equiv> s\<lparr>freeblock := freeblock s + 1\<rparr>" and "din' \<equiv> din\<lparr>i_addrs := (i_addrs din)(n := freeblock s)\<rparr>"
  shows "grows s din t din'" "file_ok (sects t) (unat (freeblock t)) din' off" "contents (sects t) din' off = contents (sects s) din off"
    "baddr (sects t) din' = (baddr (sects s) din)(n := unat (freeblock s))" "ind din' = ind din"
proof -
  note tb = take_block_run [OF assms(1,5)]
  have fb: "nmeta \<le> unat (freeblock s)" using assms(1) by (simp add: image_room_def)
  show b: "baddr (sects t) din' = (baddr (sects s) din)(n := unat (freeblock s))" and i: "ind din' = ind din"
    unfolding t_def din'_def using add_direct [OF assms(3) refl] by simp_all
  have n: "n < MAXFILE" "baddr (sects s) din n = 0" using assms(3,4) by (simp_all add: MAXFILE_def baddr_def)
  note a = file_ok_add [OF assms(2) n(1) fb b i]
  show "file_ok (sects t) (unat (freeblock t)) din' off" using a(1) tb(2) by (simp add: t_def)
  show "contents (sects t) din' off = contents (sects s) din off"
    by (rule contents_add [OF assms(2) b n]) (simp add: t_def)
  show "grows s din t din'" using a(2) tb(2,3) unfolding grows_def by (auto simp: t_def din'_def)
qed

lemma ind_step:
  assumes "image_room s" and "file_ok (sects s) (unat (freeblock s)) din off" and "ind din = 0" and "unat (freeblock s) < nsects s"
  defines "t \<equiv> s\<lparr>freeblock := freeblock s + 1\<rparr>" and "din' \<equiv> din\<lparr>i_addrs := (i_addrs din)(NDIRECT := freeblock s)\<rparr>"
  shows "grows s din t din'" "file_ok (sects t) (unat (freeblock t)) din' off" "contents (sects t) din' off = contents (sects s) din off"
    "baddr (sects t) din' = baddr (sects s) din" "ind din' = unat (freeblock s)"
proof -
  note tb = take_block_run [OF assms(1,4)]
  have fb: "nmeta \<le> unat (freeblock s)" "sects s (unat (freeblock s)) = zeroes" using assms(1) by (simp_all add: image_room_def)
  note a = add_ind [where b = "freeblock s", OF assms(3) fb(2) refl assms(2) fb(1), folded din'_def]
  show b: "baddr (sects t) din' = baddr (sects s) din" and "ind din' = unat (freeblock s)" using a(1,2) by (simp_all add: t_def)
  show "file_ok (sects t) (unat (freeblock t)) din' off" using a(3) tb(2) by (simp add: t_def)
  show "contents (sects t) din' off = contents (sects s) din off" using b by (simp add: contents_def t_def)
  show "grows s din t din'" using a(4) tb(2,3) unfolding grows_def by (auto simp: t_def din'_def)
qed

lemma entry_step:
  assumes "image_room s" and "file_ok (sects s) (unat (freeblock s)) din off" and "ind din \<noteq> 0" and "NDIRECT \<le> n" and "n < MAXFILE"
    and "baddr (sects s) din n = 0" and "unat (freeblock s) < nsects s"
  defines "t \<equiv> s\<lparr>freeblock := freeblock s + 1, sects := (sects s)(ind din := put32 (4 * (n - NDIRECT)) (freeblock s) (sects s (ind din)))\<rparr>"
  shows "grows s din t din" "file_ok (sects t) (unat (freeblock t)) din off" "contents (sects t) din off = contents (sects s) din off"
    "baddr (sects t) din = (baddr (sects s) din)(n := unat (freeblock s))"
proof -
  note tb = take_block_run [OF assms(1,7)]
  have fb: "nmeta \<le> unat (freeblock s)" using assms(1) by (simp add: image_room_def)
  have i: "ind din < unat (freeblock s)" using ind_small assms(2,3) .
  show b: "baddr (sects t) din = (baddr (sects s) din)(n := unat (freeblock s))"
    unfolding t_def using add_indirect [OF assms(3,4) refl] by simp
  note a = file_ok_add [OF assms(2,5) fb b refl]
  show "file_ok (sects t) (unat (freeblock t)) din off" using a(1) tb(2) by (simp add: t_def)
  show "contents (sects t) din off = contents (sects s) din off"
    by (rule contents_add [OF assms(2) b assms(5,6)]) (simp add: t_def)
  have "image_room t" unfolding t_def using image_room_sect [OF tb(3)] tb(2) i by simp
  moreover have "ind din \<in> used (sects s) din" using assms(3) by (simp add: used_def)
  ultimately show "grows s din t din" using a(2) tb(2) unfolding grows_def by (auto simp: t_def)
qed

text \<open>How many sectors the block \<open>n\<close> of a file needs.\<close>

definition needs :: "image \<Rightarrow> inode \<Rightarrow> nat \<Rightarrow> nat" where
  "needs s din n = (if baddr (sects s) din n = 0 then 1 else 0) + (if NDIRECT \<le> n \<and> ind din = 0 then 1 else 0)"

definition sect_found :: "image \<Rightarrow> inode \<Rightarrow> nat \<Rightarrow> nat \<Rightarrow> image \<Rightarrow> inode \<Rightarrow> bool" where
  "sect_found s din off n t din' \<longleftrightarrow> grows s din t din' \<and> file_ok (sects t) (unat (freeblock t)) din' off \<and>
     contents (sects t) din' off = contents (sects s) din off \<and> baddr (sects t) din' n \<noteq> 0 \<and>
     unat (freeblock t) = unat (freeblock s) + needs s din n \<and>
     (ind din' \<noteq> 0 \<longleftrightarrow> ind din \<noteq> 0 \<or> NDIRECT \<le> n)"

lemma indirect_sect_run:
  assumes "image_room s" and "file_ok (sects s) (unat (freeblock s)) din off" and "ind din \<noteq> 0" and "NDIRECT \<le> unat fbn" and "unat fbn < MAXFILE"
    and "unat (freeblock s) + needs s din (unat fbn) \<le> nsects s"
  shows "\<exists>t x. file_sect fbn din s e = Ok (din, x) t e \<and> unat x = baddr (sects t) din (unat fbn) \<and> sect_found s din off (unat fbn) t din"
proof -
  let ?n = "unat fbn" and ?i = "sects s (ind din)" and ?a = "i_addrs din NDIRECT"
  have n: "\<not> ?n < NDIRECT" and a: "?a \<noteq> 0" "unat ?a = ind din" using assms(3,4) by (auto simp: ind_def unat_eq_0)
  have i: "unat ?a < nsects s" using ind_small [OF assms(2,3)] assms(1) a(2) by (simp add: image_room_def)
  have b: "baddr S din ?n = unat (get32 (S (ind din)) (4 * (?n - NDIRECT)))" for S using n a by (simp add: baddr_def)
  show ?thesis
  proof (cases "baddr (sects s) din ?n = 0")
    case False
    then have "get32 ?i (4 * (?n - NDIRECT)) \<noteq> 0" using b by (auto simp: unat_eq_0)
    then have "file_sect fbn din s e = Ok (din, get32 ?i (4 * (?n - NDIRECT))) s e"
      using n a rsect_run [OF assms(1) i] by (simp add: file_sect_def bind_def)
    then show ?thesis using False b assms(1-4) by (auto simp: sect_found_def needs_def grows_refl)
  next
    case True
    then have z: "get32 ?i (4 * (?n - NDIRECT)) = 0" using b by (simp add: unat_eq_0)
    have lt: "unat (freeblock s) < nsects s" using assms(6) True by (simp add: needs_def)
    note tb = take_block_run [OF assms(1) lt] and st = entry_step [OF assms(1-5) True lt]
    let ?t = "s\<lparr>freeblock := freeblock s + 1, sects := (sects s)(ind din := put32 (4 * (?n - NDIRECT)) (freeblock s) ?i)\<rparr>"
    have "wsect ?a v (s\<lparr>freeblock := freeblock s + 1\<rparr>) e = Ok () (s\<lparr>freeblock := freeblock s + 1, sects := (sects s)(ind din := v)\<rparr>) e" for v
      using wsect_run [OF tb(3), of ?a] i a(2) by simp
    then have "file_sect fbn din s e = Ok (din, freeblock s) ?t e"
      using n a z rsect_run [OF assms(1) i] tb(1) by (simp add: file_sect_def bind_def seq_def Let_def)
    moreover have "0 < unat (freeblock s)" using assms(1) by (simp add: image_room_def nmeta_def)
    ultimately show ?thesis using st True assms(3,4) tb(2) by (auto simp: sect_found_def needs_def)
  qed
qed

lemma file_sect_run:
  assumes "image_room s" and "file_ok (sects s) (unat (freeblock s)) din off" and "unat fbn < MAXFILE"
    and "unat (freeblock s) + needs s din (unat fbn) \<le> nsects s"
  shows "\<exists>t din' x. file_sect fbn din s e = Ok (din', x) t e \<and> unat x = baddr (sects t) din' (unat fbn) \<and> sect_found s din off (unat fbn) t din'"
proof -
  let ?n = "unat fbn"
  have pos: "0 < unat (freeblock s)" using assms(1) by (simp add: image_room_def nmeta_def)
  consider (direct) "?n < NDIRECT" "i_addrs din ?n \<noteq> 0" | (new) "?n < NDIRECT" "i_addrs din ?n = 0" | (ind) "NDIRECT \<le> ?n" "ind din \<noteq> 0"
    | (newind) "NDIRECT \<le> ?n" "ind din = 0" by linarith
  then show ?thesis
  proof cases
    case direct
    then have "file_sect fbn din s e = Ok (din, i_addrs din ?n) s e" "baddr (sects s) din ?n = unat (i_addrs din ?n)"
      by (simp_all add: file_sect_def bind_def baddr_def)
    moreover have "unat (i_addrs din ?n) \<noteq> 0" using direct(2) by (simp add: unat_eq_0)
    ultimately show ?thesis using direct(1) assms(1,2) by (auto simp: sect_found_def needs_def grows_refl)
  next
    case new
    then have z: "baddr (sects s) din ?n = 0" by (simp add: baddr_def)
    then have lt: "unat (freeblock s) < nsects s" using assms(4) by (simp add: needs_def)
    note st = direct_step [OF assms(1,2) new lt] and tb = take_block_run [OF assms(1) lt]
    have "file_sect fbn din s e = Ok (din\<lparr>i_addrs := (i_addrs din)(?n := freeblock s)\<rparr>, freeblock s) (s\<lparr>freeblock := freeblock s + 1\<rparr>) e"
      using new tb(1) by (simp add: file_sect_def bind_def)
    then show ?thesis using st new z pos tb(2) by (auto simp: sect_found_def needs_def)
  next
    case ind
    then show ?thesis using indirect_sect_run [OF assms(1,2)] assms(3,4) by blast
  next
    case newind
    have lt: "unat (freeblock s) < nsects s" using assms(4) newind by (simp add: needs_def)
    let ?t = "s\<lparr>freeblock := freeblock s + 1\<rparr>" and ?d = "din\<lparr>i_addrs := (i_addrs din)(NDIRECT := freeblock s)\<rparr>"
    note st = ind_step [OF assms(1,2) newind(2) lt] and tb = take_block_run [OF assms(1) lt]
    have z: "i_addrs din NDIRECT = 0" "freeblock s \<noteq> 0" using newind(2) pos by (auto simp: ind_def unat_eq_0)
    have eq: "file_sect fbn din s e = file_sect fbn ?d ?t e"
      using newind(1) z tb(1) by (simp add: file_sect_def bind_def)
    have nz: "needs s din ?n = Suc (needs ?t ?d ?n)" using newind st(4,5) pos by (simp add: needs_def)
    have "\<exists>u x. file_sect fbn ?d ?t e = Ok (?d, x) u e \<and> unat x = baddr (sects u) ?d ?n \<and> sect_found ?t ?d off ?n u ?d"
      by (rule indirect_sect_run) (use tb st pos newind(1) assms(3,4) nz in simp_all)
    then obtain u x where u: "file_sect fbn ?d ?t e = Ok (?d, x) u e" "unat x = baddr (sects u) ?d ?n" "sect_found ?t ?d off ?n u ?d" by blast
    note f = u(3) [unfolded sect_found_def]
    then have "grows s din u ?d" using grows_trans [OF st(1)] by blast
    moreover have "contents (sects u) ?d off = contents (sects s) din off" using f st(3) by simp
    moreover have "unat (freeblock u) = unat (freeblock s) + needs s din ?n" using f nz tb(2) by simp
    ultimately have "sect_found s din off ?n u ?d" using f newind(1) unfolding sect_found_def by blast
    then show ?thesis using u(1,2) eq by auto
  qed
qed

section \<open>Appending\<close>

text \<open>
  The number of blocks that \<open>len\<close> bytes at the end of the file need; the sectors that are gone, with one for the indirect block if the file has
  none yet; and that the image has room for the bytes.
\<close>

definition cost :: "nat \<Rightarrow> nat \<Rightarrow> nat" where
  "cost off len = (off + len + 1023) div BSIZE - (off + 1023) div BSIZE"

definition claimed :: "image \<Rightarrow> inode \<Rightarrow> nat" where
  "claimed s din = unat (freeblock s) + (if ind din = 0 then 1 else 0)"

definition room_for :: "image \<Rightarrow> inode \<Rightarrow> nat \<Rightarrow> nat \<Rightarrow> bool" where
  "room_for s din off len \<longleftrightarrow> off + len \<le> MAXFILE * BSIZE \<and> claimed s din + cost off len \<le> nsects s"

lemma cost_add: "cost off k + cost (off + k) l = cost off (k + l)"
proof -
  have "(off + 1023) div BSIZE \<le> (off + k + 1023) div BSIZE" "(off + k + 1023) div BSIZE \<le> (off + k + l + 1023) div BSIZE"
    by (intro div_le_mono; simp)+
  then show ?thesis by (simp add: cost_def add.assoc)
qed

lemma cost_zero [simp]: "cost off 0 = 0"
  by (simp add: cost_def)

lemma piece_bounds:
  fixes off :: uint and p :: "uchar list"
  assumes "unat off + length p \<le> MAXFILE * BSIZE"
  defines "n1 \<equiv> min (of_nat (length p)) ((off div of_nat BSIZE + 1) * of_nat BSIZE - off) :: uint"
  shows "unat (off div of_nat BSIZE) = unat off div BSIZE" "unat (off - off div of_nat BSIZE * of_nat BSIZE) = unat off mod BSIZE"
    "unat n1 = min (length p) (BSIZE - unat off mod BSIZE)" "unat (off + n1) = unat off + unat n1"
proof -
  have lim: "unat off + length p \<le> 274432" using assms(1) by (simp add: MAXFILE_def NDIRECT_def NINDIRECT_def BSIZE_def)
  show q: "unat (off div of_nat BSIZE) = unat off div BSIZE" by (simp add: BSIZE_def unat_div)
  then have m: "unat (off div 1024 * 1024) = unat off div 1024 * 1024" using lim by (simp add: BSIZE_def unat_word_ariths)
  show "unat (off - off div of_nat BSIZE * of_nat BSIZE) = unat off mod BSIZE"
    using m by (subst unat_sub) (simp_all add: BSIZE_def word_le_nat_alt minus_div_mult_eq_mod [symmetric])
  have e: "unat ((off div 1024 + 1) * 1024) = (unat off div 1024 + 1) * 1024"
    using lim q by (simp add: BSIZE_def unat_word_ariths)
  have "unat ((off div 1024 + 1) * 1024 - off) = (unat off div 1024 + 1) * 1024 - unat off"
    using e by (subst unat_sub) (simp_all add: word_le_nat_alt)
  also have "\<dots> = 1024 - unat off mod 1024" by (simp add: minus_div_mult_eq_mod [symmetric])
  finally have r: "unat ((off div of_nat BSIZE + 1) * of_nat BSIZE - off) = BSIZE - unat off mod BSIZE" by (simp add: BSIZE_def)
  have "unat (of_nat (length p) :: uint) = length p" using lim by (simp add: unat_of_nat take_bit_nat_eq_self)
  then show n1: "unat n1 = min (length p) (BSIZE - unat off mod BSIZE)"
    using r unfolding n1_def by (simp add: min_def word_le_nat_alt)
  show "unat (off + n1) = unat off + unat n1" using lim n1 by (simp add: unat_word_ariths)
qed

lemma round_up: "(off + 1023) div BSIZE = off div BSIZE + (if off mod BSIZE = 0 then 0 else 1)"
proof -
  have split: "(q * B + x) div B = q + x div B" if "0 < B" for q x B :: nat using that by simp
  have "off + 1023 = off div BSIZE * BSIZE + (off mod BSIZE + 1023)" by simp
  then have "(off + 1023) div BSIZE = off div BSIZE + (off mod BSIZE + 1023) div BSIZE"
    using split [of BSIZE] by (metis BSIZE_def zero_less_numeral)
  moreover have "(off mod BSIZE + 1023) div BSIZE = (if off mod BSIZE = 0 then 0 else 1)"
  proof (cases "off mod BSIZE = 0")
    case False
    then obtain r where r: "off mod BSIZE = Suc r" by (meson not0_implies_Suc)
    have "off mod BSIZE < BSIZE" by (simp add: BSIZE_def)
    then have "(1 * BSIZE + r) div BSIZE = 1" using r split [of BSIZE 1 r] by (simp add: BSIZE_def)
    moreover have "off mod BSIZE + 1023 = 1 * BSIZE + r" using r unfolding BSIZE_def by simp
    ultimately show ?thesis using False by simp
  qed (simp add: BSIZE_def)
  ultimately show ?thesis by simp
qed

text \<open>The number of blocks after a piece of \<open>k\<close> bytes that ends in the same block.\<close>

lemma round_up_piece:
  assumes "0 < k" and "off mod BSIZE + k \<le> BSIZE"
  shows "(off + k + 1023) div BSIZE = off div BSIZE + 1"
proof (cases "off mod BSIZE + k = BSIZE")
  case True
  have "off + k = off div BSIZE * BSIZE + (off mod BSIZE + k)" by simp
  then have "off + k = Suc (off div BSIZE) * BSIZE" using True by simp
  then show ?thesis by (simp add: round_up BSIZE_def)
next
  case False
  then have "off mod BSIZE + k < BSIZE" using assms(2) by simp
  then show ?thesis using same_block [of off k] assms(1) by (simp add: round_up)
qed

lemma room_needs:
  assumes "room_for s din off len" and "0 < len" and "file_ok (sects s) fb din off"
  shows "off div BSIZE < MAXFILE"
    "needs s din (off div BSIZE) \<le> (if off mod BSIZE = 0 then 1 else 0) + (if NDIRECT \<le> off div BSIZE \<and> ind din = 0 then 1 else 0)"
    "unat (freeblock s) + needs s din (off div BSIZE) \<le> nsects s"
proof -
  let ?n = "off div BSIZE"
  show n: "?n < MAXFILE" using assms(1,2) by (simp add: room_for_def div_less_iff_less_mult BSIZE_def)
  have "baddr (sects s) din ?n \<noteq> 0" if "off mod BSIZE \<noteq> 0"
  proof -
    have "?n * BSIZE < off" using that by (metis add_cancel_right_right div_mult_mod_eq div_times_less_eq_dividend le_neq_implies_less)
    then show ?thesis using assms(3) n by (simp add: file_ok_def)
  qed
  then show b: "needs s din ?n \<le> (if off mod BSIZE = 0 then 1 else 0) + (if NDIRECT \<le> ?n \<and> ind din = 0 then 1 else 0)"
    by (cases "off mod BSIZE = 0") (simp_all add: needs_def)
  have "(off + 1 + 1023) div BSIZE \<le> (off + len + 1023) div BSIZE" using assms(2) by (intro div_le_mono) simp
  then have "?n + 1 \<le> (off + len + 1023) div BSIZE" using round_up_piece [of 1 off] by (simp add: BSIZE_def Suc_le_eq)
  then show "unat (freeblock s) + needs s din ?n \<le> nsects s"
    using assms(1) b round_up [of off] by (simp add: room_for_def cost_def claimed_def split: if_splits)
qed

lemma room_step:
  assumes "room_for s din off len" and "0 < len" and "file_ok (sects s) fb din off" and "0 < k" "k \<le> len" "off mod BSIZE + k \<le> BSIZE"
    and "sect_found s din off (off div BSIZE) t din'" and "unat (freeblock u) = unat (freeblock t)" and "nsects u = nsects t"
  shows "claimed u din' \<le> claimed s din + cost off k" "room_for u din' (off + k) (len - k)"
proof -
  define n where "n = off div BSIZE"
  have f: "unat (freeblock t) = unat (freeblock s) + needs s din n" "nsects t = nsects s"
    "ind din' = 0 \<longleftrightarrow> ind din = 0 \<and> \<not> NDIRECT \<le> n"
    using assms(7) unfolding sect_found_def grows_def n_def by blast+
  have "cost off k = (if off mod BSIZE = 0 then 1 else 0)"
    unfolding cost_def using round_up [of off] round_up_piece [OF assms(4,6)] by simp
  then show c: "claimed u din' \<le> claimed s din + cost off k"
    using f room_needs(2) [OF assms(1-3), folded n_def] assms(8) unfolding claimed_def
    by (cases "off mod BSIZE = 0"; cases "ind din = 0"; cases "NDIRECT \<le> n"; simp)
  have "cost off k + cost (off + k) (len - k) = cost off len" using cost_add [of off k "len - k"] assms(5) by simp
  then show "room_for u din' (off + k) (len - k)" using assms(1,5,9) f(2) c unfolding room_for_def by simp
qed

lemma iappend_round:
  assumes "image_room s" and "file_ok (sects s) (unat (freeblock s)) din (unat off)" and "room_for s din (unat off) (length p)" and "p \<noteq> []"
  shows "\<exists>u off' din' k. iappend_body (p, off, din) s e = Ok (Inl (drop k p, off', din')) u e \<and> 0 < k \<and> k \<le> length p \<and>
    unat off' = unat off + k \<and> grows s din u din' \<and> file_ok (sects u) (unat (freeblock u)) din' (unat off') \<and>
    contents (sects u) din' (unat off') = contents (sects s) din (unat off) @ take k p \<and> claimed u din' \<le> claimed s din + cost (unat off) k \<and>
    room_for u din' (unat off') (length p - k)"
proof -
  define fbn where "fbn = off div of_nat BSIZE"
  define n1 where "n1 = min (of_nat (length p)) ((fbn + 1) * of_nat BSIZE - off)"
  define o1 where "o1 = unat (off - fbn * of_nat BSIZE)"
  let ?off = "unat off" and ?k = "unat n1" and ?n = "unat off div BSIZE"
  have lim: "?off + length p \<le> MAXFILE * BSIZE" using assms(3) by (simp add: room_for_def)
  note pb = piece_bounds [OF lim, folded fbn_def, folded n1_def, folded o1_def]
  have len: "0 < length p" using assms(4) by simp
  note rn = room_needs [OF assms(3) len assms(2)]
  have k: "0 < ?k" "?k \<le> length p" "?off mod BSIZE + ?k \<le> BSIZE" using pb(3) len by (auto simp: min_def BSIZE_def)
  obtain t din' x where t: "file_sect fbn din s e = Ok (din', x) t e" "unat x = baddr (sects t) din' ?n" and f: "sect_found s din ?off ?n t din'"
    using file_sect_run [OF assms(1,2), of fbn e] rn(1,3) pb(1) by auto
  have gt: "grows s din t din'" and ok: "file_ok (sects t) (unat (freeblock t)) din' ?off" and nz: "baddr (sects t) din' ?n \<noteq> 0"
    and ct: "contents (sects t) din' ?off = contents (sects s) din ?off" using f unfolding sect_found_def by blast+
  have room: "image_room t" using gt unfolding grows_def by blast
  have x: "unat x < unat (freeblock t)" "unat x < nsects t"
    using baddr_small [OF ok rn(1) nz] t(2) room by (simp_all add: image_room_def)
  let ?u = "t\<lparr>sects := (sects t)(unat x := put_bytes o1 (take ?k p) (sects t (unat x)))\<rparr>"
  have run: "iappend_body (p, off, din) s e = Ok (Inl (drop ?k p, off + n1, din')) ?u e"
    using assms(4) t(1) rsect_run [OF room x(2)] wsect_run [OF room x(2)] rn(1) pb(1)
    by (simp add: iappend_body_def Let_def fbn_def [symmetric] n1_def [symmetric] o1_def [symmetric] assertK_def bind_def seq_def)
  have lk: "length (take ?k p) = ?k" using k(2) by simp
  have w: "contents (sects ?u) din' (?off + ?k) = contents (sects t) din' ?off @ take ?k p"
    "file_ok (sects ?u) (unat (freeblock t)) din' (?off + ?k)" "used (sects ?u) din' = used (sects t) din'"
    using write_contents [OF ok refl rn(1) nz, of "take ?k p"] k(3) lk t(2) pb(2) by simp_all
  have "unat x \<in> used (sects t) din'" using t(2) nz rn(1) by (auto simp: used_def)
  then have "grows t din' ?u din'" using w(3) image_room_sect [OF room x(1)] by (auto simp: grows_def)
  then have gr: "grows s din ?u din'" using gt grows_trans by blast
  have "claimed ?u din' \<le> claimed s din + cost ?off ?k" "room_for ?u din' (?off + ?k) (length p - ?k)"
    by (rule room_step [OF assms(3) len assms(2) k f]; simp)+
  then show ?thesis using run k gr w(1,2) pb(4) ct by (intro exI [of _ ?u] exI [of _ "off + n1"] exI [of _ din'] exI [of _ ?k]) simp
qed

lemma iappend_loop:
  assumes "image_room s" and "file_ok (sects s) (unat (freeblock s)) din (unat off)" and "room_for s din (unat off) (length p)"
  shows "\<exists>u off' din'. loopK iappend_body (p, off, din) s e = Ok (off', din') u e \<and> unat off' = unat off + length p \<and>
    grows s din u din' \<and> file_ok (sects u) (unat (freeblock u)) din' (unat off') \<and>
    contents (sects u) din' (unat off') = contents (sects s) din (unat off) @ p \<and> claimed u din' \<le> claimed s din + cost (unat off) (length p)"
  using assms
proof (induction p arbitrary: s off din rule: length_induct)
  case (1 p)
  show ?case
  proof (cases "p = []")
    case True
    then have "loopK iappend_body (p, off, din) s e = Ok (off, din) s e" by (intro loopK_done) (simp add: iappend_body_def)
    then show ?thesis using 1(2-4) True by (auto intro: grows_refl)
  next
    case False
    obtain t off1 d1 k where r: "iappend_body (p, off, din) s e = Ok (Inl (drop k p, off1, d1)) t e" "0 < k" "k \<le> length p"
      "unat off1 = unat off + k" "grows s din t d1" "file_ok (sects t) (unat (freeblock t)) d1 (unat off1)"
      "contents (sects t) d1 (unat off1) = contents (sects s) din (unat off) @ take k p" "room_for t d1 (unat off1) (length p - k)"
      "claimed t d1 \<le> claimed s din + cost (unat off) k"
      using iappend_round [OF 1(2-4) False, of e] by blast
    have room: "image_room t" using r(5) by (simp add: grows_def)
    have less: "length (drop k p) < length p" and rm: "room_for t d1 (unat off1) (length (drop k p))" using r(2,3,8) by simp_all
    obtain u off' d' where u: "loopK iappend_body (drop k p, off1, d1) t e = Ok (off', d') u e"
      "unat off' = unat off1 + length (drop k p)" "grows t d1 u d'" "file_ok (sects u) (unat (freeblock u)) d' (unat off')"
      "contents (sects u) d' (unat off') = contents (sects t) d1 (unat off1) @ drop k p"
      "claimed u d' \<le> claimed t d1 + cost (unat off1) (length (drop k p))"
      using 1(1) less room r(6) rm by blast
    have "loopK iappend_body (p, off, din) s e = Ok (off', d') u e" using loopK_step [where body = iappend_body, OF r(1)] u(1) by simp
    moreover have "claimed u d' \<le> claimed s din + cost (unat off) (length p)"
      using u(6) r(3,4,9) cost_add [of "unat off" k "length p - k"] by simp
    ultimately show ?thesis using u(2-5) r(3,4,7) grows_trans [OF r(5) u(3)] by auto
  qed
qed

section \<open>The whole image\<close>

definition iblk :: "uint \<Rightarrow> nat" where
  "iblk i = unat i div IPB + 2 + nlog"

definition dinode :: "image \<Rightarrow> uint \<Rightarrow> inode" where
  "dinode s i = load_dinode (sects s (iblk i)) (dinode_off i) zero_inode"

definition file_bytes :: "image \<Rightarrow> uint \<Rightarrow> uchar list" where
  "file_bytes s i = contents (sects s) (dinode s i) (unat (i_size (dinode s i)))"

text \<open>Every file owns its sectors, which are above the metadata and below \<open>freeblock\<close>, and has a sector for each block of its contents.\<close>

definition image_ok :: "image \<Rightarrow> bool" where
  "image_ok s \<longleftrightarrow> image_room s \<and> sb s = the_superblock \<and>
     (\<forall>i. unat i < NINODES \<longrightarrow> file_ok (sects s) (unat (freeblock s)) (dinode s i) (unat (i_size (dinode s i)))) \<and>
     (\<forall>i j. unat i < NINODES \<longrightarrow> unat j < NINODES \<longrightarrow> i \<noteq> j \<longrightarrow> used (sects s) (dinode s i) \<inter> used (sects s) (dinode s j) = {})"

lemmas mk_numbers = nmeta_def nlog_def ninodeblocks_def nbitmap_def NINODES_def FSSIZE_def IPB_def BPB_def BSIZE_def LOGSIZE_def MAXOPBLOCKS_def

lemma iblk_bounds:
  assumes "unat i < NINODES"
  shows "iblk i < nmeta" "unat (IBLOCK i the_superblock) = iblk i"
proof -
  have "unat i div 16 \<le> 12" using assms by (simp add: mk_numbers)
  then show "iblk i < nmeta" "unat (IBLOCK i the_superblock) = iblk i"
    by (simp_all add: iblk_def IBLOCK_def the_superblock_def mk_numbers unat_word_ariths unat_div)
qed

lemma inode_slots:
  assumes "i \<noteq> j" and "iblk i = iblk j"
  shows "dinode_off i + 64 \<le> dinode_off j \<or> dinode_off j + 64 \<le> dinode_off i"
proof -
  have "unat i mod IPB \<noteq> unat j mod IPB"
    using assms by (metis (no_types, lifting) add_right_cancel div_mult_mod_eq iblk_def word_unat_eq_iff)
  then show ?thesis unfolding dinode_off_def by (cases "unat i mod IPB < unat j mod IPB") auto
qed

lemma rinode_run:
  assumes "image_room s" and "sb s = the_superblock" and "unat i < NINODES"
  shows "rinode i s e = Ok (dinode s i) s e"
proof -
  have "iblk i < nsects s" using iblk_bounds(1) [OF assms(3)] assms(1) by (simp add: image_room_def)
  then show ?thesis using rsect_run [OF assms(1)] assms(2) iblk_bounds(2) [OF assms(3)] by (simp add: rinode_def bind_def dinode_def)
qed

definition put_inode :: "uint \<Rightarrow> inode \<Rightarrow> image \<Rightarrow> image" where
  "put_inode i d s = s\<lparr>sects := (sects s)(iblk i := store_dinode d (dinode_off i) (sects s (iblk i)))\<rparr>"

lemma put_inode_frame [simp]:
  "freeinode (put_inode i d s) = freeinode s" "nsects (put_inode i d s) = nsects s" "freeblock (put_inode i d s) = freeblock s"
  "sb (put_inode i d s) = sb s" "quota (put_inode i d s) = quota s"
  by (simp_all add: put_inode_def)

lemma winode_run:
  assumes "image_room s" and "sb s = the_superblock" and "unat i < NINODES"
  shows "winode i d s e = Ok () (put_inode i d s) e" "image_room (put_inode i d s)"
proof -
  have b: "iblk i < nsects s" "iblk i < unat (freeblock s)" using iblk_bounds(1) [OF assms(3)] assms(1) by (simp_all add: image_room_def)
  then show "winode i d s e = Ok () (put_inode i d s) e"
    using rsect_run [OF assms(1)] wsect_run [OF assms(1)] assms(2) iblk_bounds(2) [OF assms(3)] by (simp add: winode_def bind_def put_inode_def)
  show "image_room (put_inode i d s)" unfolding put_inode_def using image_room_sect [OF assms(1) b(2)] .
qed

lemma dinode_put:
  "dinode (put_inode i d s) i = zero_inode\<lparr>i_type := i_type d, i_major := i_major d, i_minor := i_minor d, i_nlink := i_nlink d, i_size := i_size d,
      i_addrs := (\<lambda>j. if j \<le> NDIRECT then i_addrs d j else 0)\<rparr>"
  "i \<noteq> j \<Longrightarrow> dinode (put_inode i d s) j = dinode s j"
proof -
  show "dinode (put_inode i d s) i = zero_inode\<lparr>i_type := i_type d, i_major := i_major d, i_minor := i_minor d, i_nlink := i_nlink d, i_size := i_size d,
      i_addrs := (\<lambda>j. if j \<le> NDIRECT then i_addrs d j else 0)\<rparr>"
    by (simp add: dinode_def put_inode_def load_store_same)
  show "dinode (put_inode i d s) j = dinode s j" if "i \<noteq> j"
    using load_store_other [OF inode_slots [OF that]] by (auto simp: dinode_def put_inode_def)
qed

lemma same_addrs:
  assumes "\<And>j. j \<le> NDIRECT \<Longrightarrow> i_addrs d' j = i_addrs d j"
  shows "baddr S d' = baddr S d" "ind d' = ind d"
  using assms by (auto simp: baddr_def ind_def)

lemma same_file:
  assumes "baddr T d' = baddr S d" and "ind d' = ind d" and "\<And>b. b \<in> used S d \<Longrightarrow> T b = S b" and "file_ok S fb d off" and "fb \<le> fb'"
  shows "file_ok T fb' d' off" "used T d' = used S d" "contents T d' off = contents S d off"
proof -
  show u: "used T d' = used S d" using assms(1,2) by (simp add: used_def)
  have "used S d \<subseteq> {nmeta..<fb'}" using assms(4,5) by (auto simp: file_ok_def)
  then show "file_ok T fb' d' off" using assms(1,2,4) u unfolding file_ok_def by simp
  have "baddr S d = baddr T d" using used_frame(1) [OF assms(3)] by simp
  then have "contents T d' off = contents T d off" using assms(1) by (simp add: contents_def)
  then show "contents T d' off = contents S d off" using contents_frame [OF assms(3,4)] by simp
qed

text \<open>Writing an inode back whose file is in order and apart from the others.\<close>

lemma put_inode_files:
  assumes "image_room u" and "sb u = the_superblock" and "unat i < NINODES" and "file_ok (sects u) (unat (freeblock u)) d (unat (i_size d))"
    and others: "\<And>j. unat j < NINODES \<Longrightarrow> j \<noteq> i \<Longrightarrow> file_ok (sects u) (unat (freeblock u)) (dinode u j) (unat (i_size (dinode u j))) \<and>
      used (sects u) (dinode u j) \<inter> used (sects u) d = {}"
    and apart: "\<And>j k. unat j < NINODES \<Longrightarrow> unat k < NINODES \<Longrightarrow> j \<noteq> i \<Longrightarrow> k \<noteq> i \<Longrightarrow> j \<noteq> k \<Longrightarrow>
      used (sects u) (dinode u j) \<inter> used (sects u) (dinode u k) = {}"
  defines "t \<equiv> put_inode i d u"
  shows "image_ok t" "file_bytes t i = contents (sects u) d (unat (i_size d))"
    "\<And>j. unat j < NINODES \<Longrightarrow> j \<noteq> i \<Longrightarrow> file_bytes t j = file_bytes u j \<and> dinode t j = dinode u j"
proof -
  have low: "sects t b = sects u b" if "file_ok (sects u) (unat (freeblock u)) d1 off" "b \<in> used (sects u) d1" for b d1 off
    using that iblk_bounds(1) [OF assms(3)] by (auto simp: t_def put_inode_def file_ok_def)
  have fb: "freeblock t = freeblock u" by (simp add: t_def put_inode_def)
  have me: "baddr (sects t) (dinode t i) = baddr (sects u) d" "ind (dinode t i) = ind d" "i_size (dinode t i) = i_size d"
    using same_addrs [of "dinode t i" d] used_frame(1) [OF low [OF assms(4)]] by (simp_all add: t_def dinode_put)
  note mine = same_file [OF me(1,2) low [OF assms(4)] assms(4) order_refl]
  have eq: "dinode t j = dinode u j" if "j \<noteq> i" for j using dinode_put(2) that unfolding t_def by auto
  have theirs: "file_ok (sects t) (unat (freeblock u)) (dinode t j) (unat (i_size (dinode t j)))" "used (sects t) (dinode t j) = used (sects u) (dinode u j)"
    "file_bytes t j = file_bytes u j" if j: "unat j < NINODES" "j \<noteq> i" for j
  proof -
    have f: "file_ok (sects u) (unat (freeblock u)) (dinode u j) (unat (i_size (dinode u j)))" using others [OF j] by blast
    note fr = used_frame [OF low [OF f]]
    note s = same_file [OF fr(1) refl low [OF f] f order_refl]
    show "file_ok (sects t) (unat (freeblock u)) (dinode t j) (unat (i_size (dinode t j)))" "used (sects t) (dinode t j) = used (sects u) (dinode u j)"
      "file_bytes t j = file_bytes u j" using s by (simp_all add: eq [OF j(2)] file_bytes_def)
  qed
  show "file_bytes t i = contents (sects u) d (unat (i_size d))" using mine(3) me(3) by (simp add: file_bytes_def)
  show "file_bytes t j = file_bytes u j \<and> dinode t j = dinode u j" if "unat j < NINODES" "j \<noteq> i" for j using theirs(3) [OF that] eq [OF that(2)] by simp
  have "image_room t" unfolding t_def using winode_run(2) [OF assms(1-3)] .
  moreover have "sb t = the_superblock" using assms(2) by (simp add: t_def put_inode_def)
  moreover have "file_ok (sects t) (unat (freeblock t)) (dinode t j) (unat (i_size (dinode t j)))" if "unat j < NINODES" for j
    using mine(1) me(3) theirs(1) that fb by (cases "j = i") simp_all
  moreover have "used (sects t) (dinode t j) \<inter> used (sects t) (dinode t k) = {}" if "unat j < NINODES" "unat k < NINODES" "j \<noteq> k" for j k
  proof -
    consider "j = i" | "k = i" | "j \<noteq> i" "k \<noteq> i" by blast
    then show ?thesis
    proof cases
      case 1
      then show ?thesis using others [of k] theirs(2) [of k] mine(2) that by auto
    next
      case 2
      then show ?thesis using others [of j] theirs(2) [of j] mine(2) that by auto
    next
      case 3
      then show ?thesis using apart [of j k] theirs(2) [of k] theirs(2) [of j] that by auto
    qed
  qed
  ultimately show "image_ok t" unfolding image_ok_def by blast
qed

text \<open>A file that has grown leaves the other files as they are.\<close>

lemma grows_others:
  assumes "image_ok s" and "unat i < NINODES" and "grows s (dinode s i) u d" and "unat j < NINODES"
  shows "dinode u j = dinode s j"
    "j \<noteq> i \<Longrightarrow> file_ok (sects u) (unat (freeblock u)) (dinode s j) (unat (i_size (dinode s j))) \<and> used (sects u) (dinode s j) = used (sects s) (dinode s j) \<and>
      file_bytes u j = file_bytes s j \<and> used (sects s) (dinode s j) \<inter> used (sects u) d = {}"
proof -
  have fi: "used (sects s) (dinode s i) \<subseteq> {nmeta..<unat (freeblock s)}" and fb: "nmeta \<le> unat (freeblock s)" "unat (freeblock s) \<le> unat (freeblock u)"
    using assms(1-3) by (auto simp: image_ok_def file_ok_def image_room_def grows_def)
  have keep: "sects u b = sects s b" if "b < unat (freeblock s)" "b \<notin> used (sects s) (dinode s i)" for b
    using assms(3) that by (simp add: grows_def)
  have "iblk j < unat (freeblock s)" "iblk j \<notin> used (sects s) (dinode s i)" using iblk_bounds(1) [OF assms(4)] fi fb by auto
  then show eq: "dinode u j = dinode s j" using keep by (simp add: dinode_def)
  assume "j \<noteq> i"
  then have f: "file_ok (sects s) (unat (freeblock s)) (dinode s j) (unat (i_size (dinode s j)))"
    and dis: "used (sects s) (dinode s j) \<inter> used (sects s) (dinode s i) = {}" using assms(1,2,4) unfolding image_ok_def by blast+
  have sub: "used (sects s) (dinode s j) \<subseteq> {nmeta..<unat (freeblock s)}" using f unfolding file_ok_def by blast
  have same: "sects u b = sects s b" if "b \<in> used (sects s) (dinode s j)" for b
  proof -
    have "b \<in> {nmeta..<unat (freeblock s)}" "b \<notin> used (sects s) (dinode s i)" using that sub dis by blast+
    then show ?thesis using keep [of b] by simp
  qed
  note fr = used_frame [OF same]
  have "used (sects u) d \<subseteq> used (sects s) (dinode s i) \<union> {unat (freeblock s)..<unat (freeblock u)}" using assms(3) unfolding grows_def by blast
  then have "used (sects s) (dinode s j) \<inter> used (sects u) d = {}" using dis sub by fastforce
  then show "file_ok (sects u) (unat (freeblock u)) (dinode s j) (unat (i_size (dinode s j))) \<and> used (sects u) (dinode s j) = used (sects s) (dinode s j) \<and>
      file_bytes u j = file_bytes s j \<and> used (sects s) (dinode s j) \<inter> used (sects u) d = {}"
    using same_file(1,3) [OF fr(1) refl same f fb(2)] fr(2) by (simp add: file_bytes_def eq)
qed

text \<open>The bytes \<open>p\<close> have been appended to file \<open>i\<close>; the other files, the free inodes and the first sectors are as before.\<close>

definition appended :: "image \<Rightarrow> uint \<Rightarrow> uchar list \<Rightarrow> image \<Rightarrow> bool" where
  "appended s i p t \<longleftrightarrow> image_ok t \<and> file_bytes t i = file_bytes s i @ p \<and>
    (\<forall>j. unat j < NINODES \<longrightarrow> j \<noteq> i \<longrightarrow> file_bytes t j = file_bytes s j \<and> dinode t j = dinode s j) \<and>
    (\<forall>b < 2 + nlog. sects t b = sects s b) \<and>
    i_type (dinode t i) = i_type (dinode s i) \<and> freeinode t = freeinode s \<and> nsects t = nsects s \<and>
    unat (i_size (dinode t i)) = unat (i_size (dinode s i)) + length p \<and>
    claimed t (dinode t i) \<le> claimed s (dinode s i) + cost (unat (i_size (dinode s i))) (length p) \<and>
    unat (freeblock s) \<le> unat (freeblock t)"

lemma iappend_run:
  assumes "image_ok s" and "unat i < NINODES" and "room_for s (dinode s i) (unat (i_size (dinode s i))) (length p)"
  shows "\<exists>t. iappend i p s e = Ok () t e \<and> appended s i p t"
proof -
  let ?d = "dinode s i"
  have room: "image_room s" and sb: "sb s = the_superblock" and ok: "file_ok (sects s) (unat (freeblock s)) ?d (unat (i_size ?d))"
    using assms(1,2) unfolding image_ok_def by blast+
  obtain u off d where u: "loopK iappend_body (p, i_size ?d, ?d) s e = Ok (off, d) u e" "unat off = unat (i_size ?d) + length p"
    "grows s ?d u d" "file_ok (sects u) (unat (freeblock u)) d (unat off)"
    "contents (sects u) d (unat off) = contents (sects s) ?d (unat (i_size ?d)) @ p"
    "claimed u d \<le> claimed s ?d + cost (unat (i_size ?d)) (length p)"
    using iappend_loop [OF room ok assms(3), of e] by blast
  let ?d' = "d\<lparr>i_size := off\<rparr>" and ?t = "put_inode i (d\<lparr>i_size := off\<rparr>) u"
  have ru: "image_room u" "sb u = the_superblock" and gr: "i_type d = i_type ?d" "freeinode u = freeinode s" "nsects u = nsects s"
    using u(3) sb by (simp_all add: grows_def)
  have a: "baddr S ?d' = baddr S d" "ind ?d' = ind d" for S using same_addrs [of ?d' d] by simp_all
  then have c: "used S ?d' = used S d" "contents S ?d' n = contents S d n" "file_ok S fb ?d' n = file_ok S fb d n" for S n fb
    by (simp_all add: used_def contents_def file_ok_def)
  note o = grows_others [OF assms(1,2) u(3)]
  have fo: "file_ok (sects u) (unat (freeblock u)) ?d' (unat (i_size ?d'))" using u(4) c(3) by simp
  have "file_ok (sects u) (unat (freeblock u)) (dinode u j) (unat (i_size (dinode u j))) \<and> used (sects u) (dinode u j) \<inter> used (sects u) ?d' = {}"
    if "unat j < NINODES" "j \<noteq> i" for j using o(1) [OF that(1)] o(2) [OF that] c(1) by simp
  moreover have "used (sects u) (dinode u j) \<inter> used (sects u) (dinode u k) = {}"
    if "unat j < NINODES" "unat k < NINODES" "j \<noteq> i" "k \<noteq> i" "j \<noteq> k" for j k
    using o(1) [OF that(1)] o(1) [OF that(2)] o(2) [OF that(1,3)] o(2) [OF that(2,4)] assms(1) that unfolding image_ok_def by simp
  ultimately have t: "image_ok ?t" "file_bytes ?t i = contents (sects u) ?d' (unat (i_size ?d'))"
    "\<And>j. unat j < NINODES \<Longrightarrow> j \<noteq> i \<Longrightarrow> file_bytes ?t j = file_bytes u j \<and> dinode ?t j = dinode u j"
    using put_inode_files [OF ru assms(2) fo] by blast+
  have run: "iappend i p s e = Ok () ?t e"
    using rinode_run [OF room sb assms(2)] u(1) winode_run(1) [OF ru assms(2)] by (simp add: iappend_def bind_def)
  have "file_bytes ?t i = file_bytes s i @ p" using t(2) c(2) u(5) by (simp add: file_bytes_def)
  moreover have "file_bytes ?t j = file_bytes s j \<and> dinode ?t j = dinode s j" if "unat j < NINODES" "j \<noteq> i" for j
    using t(3) [OF that] o(1) [OF that(1)] o(2) [OF that] by simp
  moreover have "i_type (dinode ?t i) = i_type ?d" "freeinode ?t = freeinode s" "nsects ?t = nsects s"
    using gr by (simp_all add: dinode_put)
  moreover have "unat (i_size (dinode ?t i)) = unat (i_size ?d) + length p" using u(2) by (simp add: dinode_put)
  moreover have "sects ?t b = sects s b" if "b < 2 + nlog" for b
  proof -
    have "b < unat (freeblock s)" "b \<notin> used (sects s) ?d" using that room ok by (auto simp: image_room_def nmeta_def file_ok_def)
    then have "sects u b = sects s b" using u(3) by (simp add: grows_def)
    then show ?thesis using that by (simp add: put_inode_def iblk_def)
  qed
  moreover have "ind (dinode ?t i) = ind d" by (simp add: ind_def dinode_put)
  then have "claimed ?t (dinode ?t i) \<le> claimed s ?d + cost (unat (i_size ?d)) (length p)" using u(6) by (simp add: claimed_def)
  moreover have "unat (freeblock s) \<le> unat (freeblock ?t)" using u(3) by (simp add: grows_def)
  ultimately show ?thesis using run t(1) unfolding appended_def by (intro exI [of _ ?t] conjI allI impI) blast+
qed

lemma appended_refl: "image_ok s \<Longrightarrow> appended s i [] s"
  by (simp add: appended_def)

lemma appended_trans:
  assumes "appended s i p t" and "appended t i q u"
  shows "appended s i (p @ q) u"
proof -
  have "claimed u (dinode u i) \<le> claimed s (dinode s i) + cost (unat (i_size (dinode s i))) (length (p @ q))"
    using assms cost_add [of "unat (i_size (dinode s i))" "length p" "length q"] by (simp add: appended_def)
  then show ?thesis using assms unfolding appended_def by simp
qed

lemma appended_room:
  assumes "appended s i p t" and "room_for s (dinode s i) (unat (i_size (dinode s i))) (length p + l)"
  shows "room_for t (dinode t i) (unat (i_size (dinode t i))) l"
  using assms cost_add [of "unat (i_size (dinode s i))" "length p" l] by (simp add: appended_def room_for_def)

lemma room_for_less: "room_for s d off (k + l) \<Longrightarrow> room_for s d off k"
  using cost_add [of off k l] by (simp add: room_for_def)

lemma chunks_run:
  assumes "image_ok s" and "unat i < NINODES" and "room_for s (dinode s i) (unat (i_size (dinode s i))) (length (concat cs))"
  shows "\<exists>t. for_each cs (iappend i) s e = Ok () t e \<and> appended s i (concat cs) t"
  using assms
proof (induction cs arbitrary: s)
  case Nil
  then show ?case by (auto intro: appended_refl)
next
  case (Cons c cs)
  obtain t where t: "iappend i c s e = Ok () t e" "appended s i c t"
    using iappend_run [OF Cons.prems(1,2) room_for_less, of c "length (concat cs)" e] Cons.prems(3) by auto
  have "room_for t (dinode t i) (unat (i_size (dinode t i))) (length (concat cs))"
    by (rule appended_room [OF t(2)]) (use Cons.prems(3) in simp)
  then obtain u where "for_each cs (iappend i) t e = Ok () u e" "appended t i (concat cs) u"
    using Cons.IH [of t] Cons.prems(2) t(2) by (auto simp: appended_def)
  then show ?case using t appended_trans [OF t(2)] by (auto simp: seq_def)
qed

section \<open>The empty image\<close>

lemma load_zeroes: "load_dinode zeroes k zero_inode = zero_inode"
  by (simp add: load_dinode_def zero_inode_def get16_def zeroes_def upt_rec fun_eq_iff get32_zeroes [unfolded zeroes_def])

definition empty_inode :: "inode \<Rightarrow> bool" where
  "empty_inode d \<longleftrightarrow> i_size d = 0 \<and> (\<forall>j \<le> NDIRECT. i_addrs d j = 0)"

lemma empty_file:
  assumes "empty_inode d"
  shows "used S d = {}" "file_ok S fb d 0" "ind d = 0"
proof -
  have "baddr S d n = 0" for n using assms by (simp add: empty_inode_def baddr_def)
  moreover show "ind d = 0" using assms by (simp add: empty_inode_def ind_def)
  ultimately show "used S d = {}" "file_ok S fb d 0" by (auto simp: used_def file_ok_def)
qed

lemma blank_ok:
  assumes "image_room s" and "sb s = the_superblock" and "\<And>i. unat i < NINODES \<Longrightarrow> empty_inode (dinode s i)"
  shows "image_ok s"
  using assms by (auto simp: image_ok_def empty_file empty_inode_def)

lemma wipe_run:
  assumes "sects s = (\<lambda>_. zeroes)" and "nsects s = 0" and "FSSIZE \<le> quota s" and "k \<le> FSSIZE"
  shows "for_each [0..<k] (\<lambda>i. wsect (of_nat i) zeroes) s e = Ok () (s\<lparr>nsects := k\<rparr>) e"
  using assms(4)
proof (induction k)
  case 0
  then show ?case using assms(2) by simp
next
  case (Suc k)
  have k: "sect_no (of_nat k) = k"
    using Suc.prems by (subst sect_no_small) (simp_all add: FSSIZE_def unat_of_nat take_bit_nat_eq_self)
  have "(\<lambda>_. zeroes)(k := zeroes) = (\<lambda>_. zeroes)" by auto
  then have "wsect (of_nat k) zeroes (s\<lparr>nsects := k\<rparr>) e = Ok () (s\<lparr>nsects := Suc k\<rparr>) e"
    using Suc.prems assms(1,3) by (auto simp: wsect_def bind_def k intro!: image.equality)
  then show ?case using Suc by (simp add: for_each_append seq_def)
qed

text \<open>The state in which \<^verbatim>\<open>mkfs\<close> starts, with an empty image file and room for \<open>q\<close> sectors.\<close>

definition fresh_image :: "nat \<Rightarrow> image" where
  "fresh_image q = \<lparr>sects = (\<lambda>_. zeroes), nsects = 0, quota = q, sb = zero_superblock, freeinode = 1, freeblock = 0, said = [], exitcode = None\<rparr>"

lemma format_run:
  assumes "FSSIZE \<le> q"
  shows "\<exists>s. format_image (fresh_image q) e = Ok () s e \<and> image_ok s \<and> freeinode s = 1 \<and> unat (freeblock s) = nmeta \<and> nsects s = FSSIZE \<and>
    (\<forall>i. unat i < NINODES \<longrightarrow> dinode s i = zero_inode) \<and> sects s 1 = put_superblock the_superblock zeroes"
proof -
  let ?m = "(''nmeta %d (boot, super, log blocks %u inode blocks %u, bitmap blocks %u) blocks %d total %d'' @ [CHR 0x0A],
    [int nmeta, int nlog, int ninodeblocks, int nbitmap, int nblocks, int FSSIZE])"
  let ?s = "\<lambda>S n. \<lparr>sects = S, nsects = n, quota = q, sb = the_superblock, freeinode = 1, freeblock = of_nat nmeta, said = [?m], exitcode = None\<rparr>"
  let ?t = "?s ((\<lambda>_. zeroes)(1 := put_superblock the_superblock zeroes)) FSSIZE"
  have w: "for_each [0..<FSSIZE] (\<lambda>i. wsect (of_nat i) zeroes) (?s (\<lambda>_. zeroes) 0) e = Ok () (?s (\<lambda>_. zeroes) FSSIZE) e"
    using wipe_run [of "?s (\<lambda>_. zeroes) 0" FSSIZE e] assms by simp
  have one: "sect_no 1 = 1" by (subst sect_no_small) simp_all
  have "wsect 1 v (?s (\<lambda>_. zeroes) FSSIZE) e = Ok () (?s ((\<lambda>_. zeroes)(1 := v)) FSSIZE) e" for v
    using assms by (simp add: wsect_def bind_def one FSSIZE_def)
  then have run: "format_image (fresh_image q) e = Ok () ?t e"
    using w by (simp add: format_image_def say_def bind_def seq_def fresh_image_def)
  have z: "dinode ?t i = zero_inode" if "unat i < NINODES" for i
    by (simp add: dinode_def iblk_def load_zeroes)
  have fb: "unat (freeblock ?t) = nmeta" by (simp add: mk_numbers)
  have "image_room ?t" using assms fb by (auto simp: image_room_def mk_numbers)
  moreover have "empty_inode (dinode ?t i)" if "unat i < NINODES" for i unfolding z [OF that] by (simp add: empty_inode_def zero_inode_def)
  ultimately have "image_ok ?t" by (intro blank_ok) simp_all
  then show ?thesis using run z fb by (intro exI [of _ ?t]) (simp del: One_nat_def)
qed

end
