(* ===== verification/MkfsImage.thy ===== *)
theory MkfsImage
  imports MkfsProps
begin

text \<open>
  The whole run of \<^verbatim>\<open>mkfs\<close>: every file it is given is on the image, in the layout that the kernel's code reads, with its directory entry.
\<close>

section \<open>Making an inode\<close>

lemma image_ok_freeinode [simp]: "image_ok (s\<lparr>freeinode := n\<rparr>) = image_ok s"
  by (simp add: image_ok_def image_room_def dinode_def)

lemma freeinode_simps [simp]: "dinode (s\<lparr>freeinode := n\<rparr>) i = dinode s i" "file_bytes (s\<lparr>freeinode := n\<rparr>) i = file_bytes s i"
  by (simp_all add: dinode_def file_bytes_def)

lemma length_file_bytes: "length (file_bytes s i) = unat (i_size (dinode s i))"
  by (simp add: file_bytes_def contents_def)

definition made :: "image \<Rightarrow> cshort \<Rightarrow> image \<Rightarrow> bool" where
  "made s ty t \<longleftrightarrow> image_ok t \<and> freeinode t = freeinode s + 1 \<and> freeblock t = freeblock s \<and> nsects t = nsects s \<and>
     (\<forall>b < 2 + nlog. sects t b = sects s b) \<and> i_type (dinode t (freeinode s)) = ty \<and> empty_inode (dinode t (freeinode s)) \<and>
     (\<forall>j. unat j < NINODES \<longrightarrow> j \<noteq> freeinode s \<longrightarrow> file_bytes t j = file_bytes s j \<and> dinode t j = dinode s j)"

lemma ialloc_run:
  assumes "image_ok s" and "unat (freeinode s) < NINODES"
  shows "\<exists>t. ialloc_mk ty s e = Ok (freeinode s) t e \<and> made s ty t"
proof -
  let ?i = "freeinode s" and ?u = "s\<lparr>freeinode := freeinode s + 1\<rparr>"
  let ?d = "zero_inode\<lparr>i_type := ty, i_nlink := 1, i_size := 0\<rparr>"
  let ?t = "put_inode ?i ?d ?u"
  have u: "image_room ?u" "sb ?u = the_superblock" using assms(1) by (simp_all add: image_ok_def image_room_def)
  have d: "empty_inode ?d" by (simp add: empty_inode_def zero_inode_def)
  have f: "file_ok (sects ?u) (unat (freeblock ?u)) ?d (unat (i_size ?d))" "used (sects ?u) ?d = {}" using empty_file [OF d] by simp_all
  have "file_ok (sects ?u) (unat (freeblock ?u)) (dinode ?u j) (unat (i_size (dinode ?u j))) \<and> used (sects ?u) (dinode ?u j) \<inter> used (sects ?u) ?d = {}"
    if "unat j < NINODES" "j \<noteq> ?i" for j using assms(1) that f(2) unfolding image_ok_def by simp
  moreover have "used (sects ?u) (dinode ?u j) \<inter> used (sects ?u) (dinode ?u k) = {}"
    if "unat j < NINODES" "unat k < NINODES" "j \<noteq> ?i" "k \<noteq> ?i" "j \<noteq> k" for j k using assms(1) that unfolding image_ok_def by simp
  ultimately have t: "image_ok ?t" "\<And>j. unat j < NINODES \<Longrightarrow> j \<noteq> ?i \<Longrightarrow> file_bytes ?t j = file_bytes ?u j \<and> dinode ?t j = dinode ?u j"
    using put_inode_files [OF u assms(2) f(1)] by blast+
  have "ialloc_mk ty s e = Ok ?i ?t e" using winode_run(1) [OF u assms(2)] by (simp add: ialloc_mk_def bind_def seq_def)
  moreover have "sects ?t b = sects s b" if "b < 2 + nlog" for b using that by (simp add: put_inode_def iblk_def)
  moreover have "i_type (dinode ?t ?i) = ty" "empty_inode (dinode ?t ?i)"
    by (simp_all add: dinode_put empty_inode_def zero_inode_def)
  ultimately show ?thesis using t by (auto simp: made_def)
qed

section \<open>The files so far\<close>

text \<open>Inodes 1 to \<open>length fs\<close> have the types and contents \<open>fs\<close>, the others are free.\<close>

definition built :: "image \<Rightarrow> (cshort \<times> uchar list) list \<Rightarrow> bool" where
  "built s fs \<longleftrightarrow> image_ok s \<and> nsects s = FSSIZE \<and> freeinode s = of_nat (Suc (length fs)) \<and> length fs < NINODES \<and>
     sects s 1 = put_superblock the_superblock zeroes \<and>
     (\<forall>k < length fs. i_type (dinode s (of_nat (Suc k))) = fst (fs ! k) \<and> file_bytes s (of_nat (Suc k)) = snd (fs ! k)) \<and>
     (\<forall>i. length fs < unat i \<longrightarrow> unat i < NINODES \<longrightarrow> empty_inode (dinode s i))"

lemma inum_small: "k < NINODES \<Longrightarrow> unat (of_nat k :: uint) = k"
  by (simp add: NINODES_def unat_of_nat take_bit_nat_eq_self)

lemma inum_eq: "j < NINODES \<Longrightarrow> k < NINODES \<Longrightarrow> (of_nat j :: uint) = of_nat k \<longleftrightarrow> j = k"
  by (metis inum_small)

lemma built_appended:
  assumes "built s fs" and "k < length fs" and "appended s (of_nat (Suc k)) p t"
  shows "built t (fs[k := (fst (fs ! k), snd (fs ! k) @ p)])"
proof -
  have n: "length fs < NINODES" using assms(1) by (simp add: built_def)
  have "i_type (dinode t (of_nat (Suc j))) = fst (fs ! j) \<and> file_bytes t (of_nat (Suc j)) = snd (fs ! j) @ (if j = k then p else [])"
    if "j < length fs" for j
  proof (cases "j = k")
    case True
    then show ?thesis using assms by (simp add: appended_def built_def)
  next
    case False
    have "unat (of_nat (Suc j) :: uint) < NINODES" "(of_nat (Suc j) :: uint) \<noteq> of_nat (Suc k)"
      using that assms(2) n False inum_small [of "Suc j"] inum_eq [of "Suc j" "Suc k"] by auto
    then show ?thesis using assms(1,3) that False unfolding appended_def built_def by simp
  qed
  moreover have "empty_inode (dinode t i)" if "length fs < unat i" "unat i < NINODES" for i
  proof -
    have "i \<noteq> of_nat (Suc k)" using that assms(2) n inum_small [of "Suc k"] by auto
    then show ?thesis using assms(1,3) that unfolding appended_def built_def by simp
  qed
  moreover have "sects t 1 = sects s 1" using assms(3) by (simp add: appended_def)
  ultimately show ?thesis using assms unfolding built_def appended_def by (auto simp: nth_list_update)
qed

lemma built_made:
  assumes "built s fs" and "made s ty t" and "Suc (length fs) < NINODES"
  shows "built t (fs @ [(ty, [])])"
proof -
  have fi: "freeinode s = of_nat (Suc (length fs))" using assms(1) unfolding built_def by blast
  have i: "unat (freeinode s) = Suc (length fs)" unfolding fi by (rule inum_small [OF assms(3)])
  have "i_type (dinode t (of_nat (Suc j))) = fst ((fs @ [(ty, [])]) ! j) \<and> file_bytes t (of_nat (Suc j)) = snd ((fs @ [(ty, [])]) ! j)"
    if "j < Suc (length fs)" for j
  proof (cases "j = length fs")
    case True
    then have "of_nat (Suc j) = freeinode s" using assms(1) by (simp add: built_def)
    then show ?thesis using True assms(2) length_file_bytes [of t "freeinode s"] by (simp add: made_def empty_inode_def)
  next
    case False
    have "unat (of_nat (Suc j) :: uint) = Suc j" using that assms(3) by (intro inum_small) simp
    then have "unat (of_nat (Suc j) :: uint) < NINODES" "of_nat (Suc j) \<noteq> freeinode s" using that False i assms(3) by auto
    then show ?thesis using assms(1,2) that False unfolding made_def built_def by (simp add: nth_append)
  qed
  moreover have "empty_inode (dinode t j)" if "Suc (length fs) < unat j" "unat j < NINODES" for j
    using assms(1,2) that i unfolding made_def built_def by (metis Suc_lessD less_irrefl)
  moreover have "sects t 1 = sects s 1" using assms(2) by (simp add: made_def)
  ultimately show ?thesis using assms unfolding built_def made_def by simp
qed

section \<open>The program\<close>

text \<open>The name of a file on the image, and that \<^verbatim>\<open>mkfs\<close> accepts it.\<close>

definition short_name :: "uchar list \<Rightarrow> uchar list" where
  "short_name arg =
     (let n = (if take 5 arg = map (of_nat \<circ> of_char) ''user/'' then drop 5 arg else arg) in
      case n of c # cs \<Rightarrow> if c = of_char (CHR ''_'') then cs else n | [] \<Rightarrow> [])"

definition name_ok :: "uchar list \<Rightarrow> bool" where
  "name_ok arg \<longleftrightarrow> of_char (CHR ''/'') \<notin> set (if take 5 arg = map (of_nat \<circ> of_char) ''user/'' then drop 5 arg else arg) \<and>
     length (short_name arg) \<le> DIRSIZ"

definition entry_bytes :: "nat \<Rightarrow> uchar list \<Rightarrow> uchar list" where
  "entry_bytes inum nm = dirent_bytes \<lparr>d_inum = of_nat inum, d_name = strncpy nm DIRSIZ\<rparr>"

lemma length_entry [simp]: "length (entry_bytes i nm) = 16"
  by (simp add: entry_bytes_def dirent_bytes_def DIRSIZ_def)

lemma add_file_eq:
  assumes "name_ok arg" and "fopen arg = Some chunks"
  shows "add_file fopen root arg = bind (ialloc_mk T_FILE) (\<lambda>inum.
    seq (iappend root (dirent_bytes \<lparr>d_inum = ucast inum, d_name = strncpy (short_name arg) DIRSIZ\<rparr>)) (for_each chunks (iappend inum)))"
  using assms by (auto simp: add_file_def name_ok_def short_name_def assertK_def whenK_def Let_def seq_def fun_eq_iff split: list.split)

lemma ucast_inum: "k < NINODES \<Longrightarrow> ucast (of_nat k :: uint) = (of_nat k :: cshort)"
  by (simp add: unsigned_of_nat take_bit_eq_mod NINODES_def flip: of_nat_mod)

lemma claimed_le: "unat (freeblock s) \<le> claimed s d" "claimed s d \<le> Suc (unat (freeblock s))"
  by (simp_all add: claimed_def)

lemma made_claimed: "made s ty t \<Longrightarrow> unat j < NINODES \<Longrightarrow> j \<noteq> freeinode s \<Longrightarrow> claimed t (dinode t j) = claimed s (dinode s j)"
  by (simp add: made_def claimed_def)

text \<open>What is claimed when another file \<open>i\<close> has grown.\<close>

lemma appended_claimed:
  assumes "appended s i p t" and "unat j < NINODES" and "j \<noteq> i"
  shows "claimed t (dinode t j) \<le> claimed s (dinode s j) + (claimed t (dinode t i) - unat (freeblock s))"
  using assms claimed_le(1) [of t "dinode t i"] unfolding appended_def claimed_def by auto

lemma add_file_run:
  assumes "built s fs" and "fs \<noteq> []" and "Suc (length fs) < NINODES" and "name_ok arg" and "fopen arg = Some chunks"
    and "length (snd (fs ! 0)) + 16 \<le> MAXFILE * BSIZE" and "length (concat chunks) \<le> MAXFILE * BSIZE"
    and "claimed s (dinode s 1) + cost (length (snd (fs ! 0))) 16 + 1 + cost 0 (length (concat chunks)) \<le> FSSIZE"
  defines "fs' \<equiv> fs[0 := (fst (fs ! 0), snd (fs ! 0) @ entry_bytes (Suc (length fs)) (short_name arg))] @ [(T_FILE, concat chunks)]"
  shows "\<exists>t. add_file fopen 1 arg s e = Ok () t e \<and> built t fs' \<and>
    claimed t (dinode t 1) \<le> claimed s (dinode s 1) + cost (length (snd (fs ! 0))) 16 + 1 + cost 0 (length (concat chunks))"
proof -
  let ?n = "length fs" and ?i = "freeinode s" and ?en = "entry_bytes (Suc (length fs)) (short_name arg)" and ?r = "length (snd (fs ! 0))"
  have i: "?i = of_nat (Suc ?n)" and ok: "image_ok s" using assms(1) unfolding built_def by blast+
  have ui: "unat ?i = Suc ?n" unfolding i by (rule inum_small [OF assms(3)])
  have one: "unat (1 :: uint) < NINODES" "1 \<noteq> ?i" using ui assms(2,3) by auto
  obtain s1 where s1: "ialloc_mk T_FILE s e = Ok ?i s1 e" "made s T_FILE s1" using ialloc_run [OF ok, of T_FILE e] ui assms(3) by auto
  have b1: "built s1 (fs @ [(T_FILE, [])])" by (rule built_made [OF assms(1) s1(2) assms(3)])
  have c1: "claimed s1 (dinode s1 1) = claimed s (dinode s 1)" by (rule made_claimed [OF s1(2) one])
  have root: "unat (i_size (dinode s1 1)) = ?r"
    using b1 assms(2) length_file_bytes [of s1 1] unfolding built_def by (auto simp: nth_append dest!: spec [of _ 0])
  have n1: "image_ok s1" "nsects s1 = FSSIZE" using b1 by (simp_all add: built_def)
  have "room_for s1 (dinode s1 1) (unat (i_size (dinode s1 1))) (length ?en)" using assms(6,8) c1 n1 by (simp add: room_for_def root)
  then obtain s2 where s2: "iappend 1 ?en s1 e = Ok () s2 e" "appended s1 1 ?en s2" using iappend_run [OF n1(1) one(1)] by blast
  have b2: "built s2 (fs[0 := (fst (fs ! 0), snd (fs ! 0) @ ?en)] @ [(T_FILE, [])])"
    using built_appended [OF b1, of 0 ?en s2] s2(2) assms(2) by (simp add: nth_append list_update_append)
  have n2: "image_ok s2" "nsects s2 = FSSIZE" using b2 by (simp_all add: built_def)
  have ne: "?i \<noteq> 1" using one by simp
  have e2: "dinode s2 ?i = dinode s1 ?i" "empty_inode (dinode s1 ?i)" using s2(2) s1(2) ui assms(3) ne by (simp_all add: appended_def made_def)
  have z2: "unat (i_size (dinode s2 ?i)) = 0" using e2 by (simp add: empty_inode_def)
  have c2: "claimed s2 (dinode s2 1) \<le> claimed s (dinode s 1) + cost ?r 16" using s2(2) c1 root by (simp add: appended_def)
  have l2: "claimed s2 (dinode s2 ?i) \<le> claimed s (dinode s 1) + cost ?r 16 + 1"
    using claimed_le(2) [of s2 "dinode s2 ?i"] claimed_le(1) [of s2 "dinode s2 1"] c2 by simp
  have "room_for s2 (dinode s2 ?i) (unat (i_size (dinode s2 ?i))) (length (concat chunks))"
    using assms(7,8) l2 n2(2) by (simp add: room_for_def z2)
  then obtain t where t: "for_each chunks (iappend ?i) s2 e = Ok () t e" "appended s2 ?i (concat chunks) t"
    using chunks_run [OF n2(1)] ui assms(3) by (metis)
  have "built t fs'"
    using built_appended [OF b2, of ?n "concat chunks" t] t(2) i by (simp add: fs'_def nth_append list_update_append)
  moreover have "add_file fopen 1 arg s e = Ok () t e"
    using s1(1) s2(1) t(1) by (simp add: add_file_eq [where fopen = fopen, OF assms(4,5)] bind_def seq_def i ucast_inum [OF assms(3)] entry_bytes_def del: of_nat_Suc)
  moreover have "claimed t (dinode t ?i) \<le> claimed s2 (dinode s2 ?i) + cost 0 (length (concat chunks))" using t(2) z2 by (simp add: appended_def)
  then have "claimed t (dinode t 1) \<le> claimed s (dinode s 1) + cost ?r 16 + 1 + cost 0 (length (concat chunks))"
    using appended_claimed [OF t(2) one] c2 claimed_le(2) [of s2 "dinode s2 ?i"] by simp
  ultimately show ?thesis by blast
qed

text \<open>The directory entries and the files that the arguments make, from inode \<open>k\<close> on; the sectors that the files take.\<close>

fun entries :: "nat \<Rightarrow> uchar list list \<Rightarrow> uchar list" where
  "entries k [] = []"
| "entries k (a # as) = entry_bytes k (short_name a) @ entries (Suc k) as"

definition file_of :: "(uchar list \<Rightarrow> uchar list list option) \<Rightarrow> uchar list \<Rightarrow> uchar list" where
  "file_of fopen a = concat (the (fopen a))"

definition takes :: "(uchar list \<Rightarrow> uchar list list option) \<Rightarrow> uchar list list \<Rightarrow> nat" where
  "takes fopen as = sum_list (map (\<lambda>a. 1 + cost 0 (length (file_of fopen a))) as)"

definition args_ok :: "(uchar list \<Rightarrow> uchar list list option) \<Rightarrow> uchar list list \<Rightarrow> bool" where
  "args_ok fopen as \<longleftrightarrow> list_all (\<lambda>a. name_ok a \<and> fopen a \<noteq> None \<and> length (file_of fopen a) \<le> MAXFILE * BSIZE) as"

lemma length_entries [simp]: "length (entries k as) = 16 * length as"
  by (induction as arbitrary: k) simp_all

lemma args_run:
  assumes "built s ((ty, r) # fs)" and "args_ok fopen as" and "Suc (length fs + length as) < NINODES"
    and "length r + 16 * length as \<le> MAXFILE * BSIZE"
    and "claimed s (dinode s 1) + cost (length r) (16 * length as) + takes fopen as \<le> FSSIZE"
  shows "\<exists>t. for_each as (add_file fopen 1) s e = Ok () t e \<and>
    built t ((ty, r @ entries (length fs + 2) as) # fs @ map (\<lambda>a. (T_FILE, file_of fopen a)) as)"
  using assms
proof (induction as arbitrary: s r fs)
  case Nil
  then show ?case by simp
next
  case (Cons a as)
  obtain chunks where ch: "fopen a = Some chunks" "file_of fopen a = concat chunks" using Cons.prems(2) by (auto simp: args_ok_def file_of_def)
  have nm: "name_ok a" "length (concat chunks) \<le> MAXFILE * BSIZE" "args_ok fopen as" using Cons.prems(2) ch by (simp_all add: args_ok_def)
  have cs: "cost (length r) (16 * length (a # as)) = cost (length r) 16 + cost (length r + 16) (16 * length as)"
    using cost_add [of "length r" 16 "16 * length as"] by simp
  have tk: "takes fopen (a # as) = 1 + cost 0 (length (concat chunks)) + takes fopen as" by (simp add: takes_def ch(2))
  let ?r = "r @ entry_bytes (length fs + 2) (short_name a)" and ?fs = "fs @ [(T_FILE, concat chunks)]"
  obtain t where t: "add_file fopen 1 a s e = Ok () t e" "built t ((ty, ?r) # ?fs)"
    "claimed t (dinode t 1) \<le> claimed s (dinode s 1) + cost (length r) 16 + 1 + cost 0 (length (concat chunks))"
    using add_file_run [where fopen = fopen, OF Cons.prems(1) _ _ nm(1) ch(1) _ nm(2), of e] Cons.prems(3-5) cs tk by auto
  have "\<exists>u. for_each as (add_file fopen 1) t e = Ok () u e \<and>
      built u ((ty, ?r @ entries (length ?fs + 2) as) # ?fs @ map (\<lambda>a. (T_FILE, file_of fopen a)) as)"
    by (rule Cons.IH [OF t(2) nm(3)]) (use Cons.prems(3-5) t(3) cs tk in simp_all)
  then show ?case using t(1) ch(2) by (auto simp: seq_def)
qed

lemma make_root_run:
  assumes "built s []" and "claimed s (dinode s 1) + cost 0 32 \<le> FSSIZE"
  shows "\<exists>t. make_root s e = Ok 1 t e \<and> built t [(T_DIR, entry_bytes 1 (map (of_nat \<circ> of_char) ''.'') @ entry_bytes 1 (map (of_nat \<circ> of_char) ''..''))] \<and>
    claimed t (dinode t 1) \<le> Suc (unat (freeblock s)) + cost 0 32"
proof -
  let ?a = "entry_bytes 1 (map (of_nat \<circ> of_char) ''.'')" and ?b = "entry_bytes 1 (map (of_nat \<circ> of_char) ''..'')"
  have i: "freeinode s = 1" and ok: "image_ok s" using assms(1) by (simp_all add: built_def)
  have one: "unat (1 :: uint) < NINODES" by (simp add: NINODES_def)
  obtain s1 where s1: "ialloc_mk T_DIR s e = Ok 1 s1 e" "made s T_DIR s1" using ialloc_run [OF ok, of T_DIR e] i one by auto
  have b1: "built s1 [(T_DIR, [])]" using built_made [OF assms(1) s1(2)] by (simp add: NINODES_def)
  have z: "i_size (dinode s1 1) = 0" and fb: "freeblock s1 = freeblock s" and n1: "image_ok s1" "nsects s1 = FSSIZE"
    using s1(2) i b1 by (simp_all add: made_def empty_inode_def built_def)
  have "ind (dinode s 1) = 0" using assms(1) one empty_file(3) by (simp add: built_def)
  then have "claimed s1 (dinode s1 1) \<le> claimed s (dinode s 1)" by (simp add: claimed_def fb)
  then have room: "room_for s1 (dinode s1 1) (unat (i_size (dinode s1 1))) (length (concat [?a, ?b]))"
    using assms(2) n1 by (simp add: room_for_def z MAXFILE_def NDIRECT_def BSIZE_def)
  obtain t where t: "for_each [?a, ?b] (iappend 1) s1 e = Ok () t e" "appended s1 1 (concat [?a, ?b]) t"
    using chunks_run [OF n1(1) one room] by blast
  have "built t [(T_DIR, ?a @ ?b)]" using built_appended [OF b1, of 0 "concat [?a, ?b]" t] t(2) by simp
  moreover have "make_root s e = Ok 1 t e"
  proof -
    obtain s2 f where "iappend 1 ?a s1 e = Ok () s2 f" "iappend 1 ?b s2 f = Ok () t e"
      using t(1) by (auto simp: seq_def split: outcome.splits)
    then show ?thesis using s1(1) by (simp add: make_root_def bind_def seq_def assertK_def ROOTINO_def entry_bytes_def)
  qed
  moreover have "claimed t (dinode t 1) \<le> claimed s1 (dinode s1 1) + cost 0 32" using t(2) by (simp add: appended_def z)
  then have "claimed t (dinode t 1) \<le> Suc (unat (freeblock s)) + cost 0 32" using claimed_le(2) [of s1 "dinode s1 1"] fb by simp
  ultimately show ?thesis by blast
qed

section \<open>The end of the run\<close>

lemma set_bit_bit: "bit (w OR push_bit n 1 :: 8 word) k \<longleftrightarrow> bit w k \<or> (k = n \<and> n < 8)"
  by (auto simp: bit_or_iff bit_exp_iff possible_bit_word)

lemma bitmap_bits:
  "bit (fold (\<lambda>i b. b(i div 8 := b (i div 8) OR push_bit (i mod 8) 1)) [0..<m] zeroes (k div 8)) (k mod 8) \<longleftrightarrow> k < m"
proof (induction m)
  case 0
  then show ?case by (simp add: zeroes_def)
next
  case (Suc m)
  have eq: "k div 8 = m div 8 \<and> k mod 8 = m mod 8 \<longleftrightarrow> k = m" by (metis div_mult_mod_eq)
  show ?case
  proof (cases "k div 8 = m div 8")
    case True
    then show ?thesis using Suc eq by (auto simp: set_bit_bit less_Suc_eq simp del: push_bit_of_1)
  next
    case False
    then show ?thesis using Suc by (auto simp: less_Suc_eq)
  qed
qed

definition bitmap_at :: "image \<Rightarrow> nat \<Rightarrow> bool" where
  "bitmap_at s b \<longleftrightarrow> bit (sects s (unat (sb_bmapstart the_superblock)) (b div 8)) (b mod 8)"

lemma bmapstart: "unat (sb_bmapstart the_superblock) = 45"
  by (simp add: the_superblock_def mk_numbers)

lemma sint_mk_small: "k \<le> FSSIZE \<Longrightarrow> sint (of_nat k :: uint) = int k"
  by (simp add: sint_uint uint_nat unat_of_nat take_bit_nat_eq_self signed_take_bit_int_eq_self FSSIZE_def)

lemma balloc_run:
  assumes "image_room s" and "sb s = the_superblock" and "unat (freeblock s) \<le> FSSIZE"
  shows "\<exists>t. balloc_mk (freeblock s) s e = Ok () t e \<and> (\<forall>b. bitmap_at t b \<longleftrightarrow> b < unat (freeblock s)) \<and>
    (\<forall>b. b \<noteq> 45 \<longrightarrow> sects t b = sects s b) \<and> freeblock t = freeblock s \<and> exitcode t = exitcode s"
proof -
  have sb: "unat (sb_bmapstart (sb s)) = 45" using bmapstart assms(2) by simp
  have si: "sint (freeblock s) = int (unat (freeblock s))"
    using sint_mk_small [OF assms(3)] by simp
  have r: "image_room (s\<lparr>said := x\<rparr>) = image_room s" for x by (simp add: image_room_def)
  have n: "45 < nsects s" using assms(1) by (simp add: image_room_def mk_numbers)
  have w: "wsect (sb_bmapstart (sb s)) v (s\<lparr>said := x\<rparr>) e = Ok () (s\<lparr>said := x, sects := (sects s)(45 := v)\<rparr>) e" for v x
    using wsect_run [of "s\<lparr>said := x\<rparr>" "sb_bmapstart (sb s)" v e] assms(1) r n sb by simp
  have b: "sint (freeblock s) < int BPB" "nat (sint (freeblock s)) = unat (freeblock s)" 
    unfolding si of_nat_less_iff nat_int using assms(3) by (simp_all add: BPB_def BSIZE_def FSSIZE_def)
  define v where "v = fold (\<lambda>i b. b(i div 8 := b (i div 8) OR push_bit (i mod 8) 1)) [0..<unat (freeblock s)] zeroes"
  obtain x where "balloc_mk (freeblock s) s e = Ok () (s\<lparr>said := x, sects := (sects s)(45 := v)\<rparr>) e"
    using w b by (simp add: balloc_mk_def seq_def bind_def say_def assertK_def Let_def v_def del: push_bit_of_1)
  moreover have "bit (v (k div 8)) (k mod 8) \<longleftrightarrow> k < unat (freeblock s)" for k unfolding v_def by (rule bitmap_bits)
  ultimately show ?thesis by (intro exI [of _ "s\<lparr>said := x, sects := (sects s)(45 := v)\<rparr>"]) (simp add: bitmap_at_def bmapstart)
qed

text \<open>The contents of a file do not change when only sectors of the metadata do.\<close>

lemma keep_file:
  assumes "image_ok s" and "unat j < NINODES" and "\<And>b. nmeta \<le> b \<Longrightarrow> sects t b = sects s b"
    and "\<And>n. n \<le> NDIRECT \<Longrightarrow> i_addrs d n = i_addrs (dinode s j) n"
  shows "contents (sects t) d (length (file_bytes s j)) = file_bytes s j"
proof -
  have f: "file_ok (sects s) (unat (freeblock s)) (dinode s j) (unat (i_size (dinode s j)))" using assms(1,2) unfolding image_ok_def by blast
  have same: "sects t b = sects s b" if "b \<in> used (sects s) (dinode s j)" for b
    using f that assms(3) [of b] unfolding file_ok_def by (meson atLeastLessThan_iff subsetD)
  have "baddr (sects t) d = baddr (sects s) (dinode s j)" "ind d = ind (dinode s j)"
    using same_addrs [OF assms(4)] used_frame(1) [OF same] by simp_all
  then show ?thesis using same_file(3) [OF _ _ same f order_refl] by (simp add: file_bytes_def contents_def)
qed

lemma fix_root_run:
  assumes "image_ok s"
  shows "fix_root_size 1 s e = Ok () (put_inode 1 ((dinode s 1)\<lparr>i_size := (i_size (dinode s 1) div 1024 + 1) * 1024\<rparr>) s) e"
proof -
  have "image_room s" "sb s = the_superblock" "unat (1 :: uint) < NINODES" using assms by (simp_all add: image_ok_def NINODES_def)
  from rinode_run [OF this] winode_run(1) [OF this] show ?thesis by (simp add: fix_root_size_def bind_def Let_def BSIZE_def)
qed

lemma get_put_superblock: "get_superblock (put_superblock b zeroes) = b"
  by (simp add: get_superblock_def put_superblock_def get32_put32_other)

definition mk_done :: "image \<Rightarrow> (cshort \<times> uchar list) list \<Rightarrow> bool" where
  "mk_done t fs \<longleftrightarrow> get_superblock (sects t 1) = the_superblock \<and>
     (\<forall>k < length fs. i_type (dinode t (of_nat (Suc k))) = fst (fs ! k) \<and>
        take (length (snd (fs ! k))) (file_bytes t (of_nat (Suc k))) = snd (fs ! k) \<and>
        (0 < k \<longrightarrow> file_bytes t (of_nat (Suc k)) = snd (fs ! k))) \<and>
     (\<forall>b. bitmap_at t b \<longleftrightarrow> b < unat (freeblock t))"

lemma mk_done_file: "mk_done t fs \<Longrightarrow> k < length fs \<Longrightarrow> 0 < k \<Longrightarrow> file_bytes t (of_nat (Suc k)) = snd (fs ! k)"
  by (simp add: mk_done_def)

lemma take_contents: "m \<le> n \<Longrightarrow> take m (contents S d n) = contents S d m"
  by (simp add: contents_def take_map)

lemma size_up:
  fixes z :: uint
  assumes "unat z \<le> MAXFILE * BSIZE"
  shows "unat z \<le> unat ((z div 1024 + 1) * 1024)"
proof -
  have z: "unat z \<le> 274432" using assms by (simp add: MAXFILE_def NDIRECT_def NINDIRECT_def BSIZE_def)
  then have "unat z div 1024 \<le> 268" by simp
  then have "unat ((z div 1024 + 1) * 1024) = (unat z div 1024 + 1) * 1024" by (simp add: unat_word_ariths unat_div)
  then show ?thesis by simp
qed

lemma finish_run:
  assumes "built s fs" and "fs \<noteq> []" and "length (snd (fs ! 0)) \<le> MAXFILE * BSIZE"
  shows "\<exists>t. seq (fix_root_size 1) (bind (gets freeblock) (\<lambda>used. seq (balloc_mk used) (exit_mk 0 :: unit mkop))) s e = Stop (Exited t) \<and>
    exitcode t = Some 0 \<and> mk_done t fs"
proof -
  let ?d = "(dinode s 1)\<lparr>i_size := (i_size (dinode s 1) div 1024 + 1) * 1024\<rparr>"
  let ?u = "put_inode 1 ?d s"
  have ok: "image_ok s" and n: "length fs < NINODES" "nsects s = FSSIZE" using assms(1) by (simp_all add: built_def)
  have r: "image_room ?u" "sb ?u = the_superblock" using winode_run(2) [of s 1 ?d] ok by (simp_all add: image_ok_def NINODES_def)
  have "unat (freeblock ?u) \<le> FSSIZE" using ok n(2) by (simp add: image_ok_def image_room_def)
  then obtain v where v: "balloc_mk (freeblock ?u) ?u e = Ok () v e" "\<forall>b. bitmap_at v b \<longleftrightarrow> b < unat (freeblock s)"
    "\<forall>b. b \<noteq> 45 \<longrightarrow> sects v b = sects ?u b" "freeblock v = freeblock s"
    using balloc_run [OF r, of e] by auto
  let ?t = "v\<lparr>exitcode := Some 0\<rparr>"
  have run: "seq (fix_root_size 1) (bind (gets freeblock) (\<lambda>used. seq (balloc_mk used) (exit_mk 0 :: unit mkop))) s e = Stop (Exited ?t)"
    using fix_root_run [OF ok, of e] v(1) by (simp add: seq_def bind_def exit_mk_def)
  have hi: "sects ?t b = sects s b" if "nmeta \<le> b" for b
    using v(3) that iblk_bounds(1) [of 1] by (auto simp: put_inode_def mk_numbers)
  have dn: "dinode ?t j = dinode ?u j" if "unat j < NINODES" for j
    using v(3) that by (auto simp: dinode_def iblk_def mk_numbers)
  have sb: "sects ?t 1 = sects s 1" using v(3) by (simp add: put_inode_def iblk_def)
  have "i_type (dinode ?t (of_nat (Suc k))) = fst (fs ! k) \<and> take (length (snd (fs ! k))) (file_bytes ?t (of_nat (Suc k))) = snd (fs ! k) \<and>
        (0 < k \<longrightarrow> file_bytes ?t (of_nat (Suc k)) = snd (fs ! k))" if k: "k < length fs" for k
  proof -
    let ?j = "of_nat (Suc k) :: uint"
    have j: "unat ?j = Suc k" "unat ?j < NINODES" using k n inum_small [of "Suc k"] by simp_all
    have f: "file_bytes s ?j = snd (fs ! k)" "i_type (dinode s ?j) = fst (fs ! k)" using assms(1) k unfolding built_def by blast+
    show ?thesis
    proof (cases "k = 0")
      case True
      have dt: "dinode ?t 1 = dinode ?u 1" using dn [of 1] by (simp add: NINODES_def)
      have m: "unat (i_size (dinode s 1)) = length (snd (fs ! 0))" using f(1) True length_file_bytes [of s 1] by simp
      have le: "length (snd (fs ! 0)) \<le> unat (i_size (dinode ?t 1))" using size_up [of "i_size (dinode s 1)"] m assms(3) by (simp add: dt dinode_put)
      have "contents (sects ?t) (dinode ?t 1) (length (file_bytes s 1)) = file_bytes s 1"
        by (rule keep_file [OF ok _ hi]) (simp_all add: dt dinode_put NINODES_def)
      then show ?thesis using True f le take_contents [OF le, of "sects ?t" "dinode ?t 1"] by (simp add: file_bytes_def [of ?t] dt dinode_put)
    next
      case False
      then have "?j \<noteq> 1" using j(1) by auto
      then have d: "dinode ?t ?j = dinode s ?j" using dn [OF j(2)] dinode_put(2) by auto
      have "file_bytes ?t ?j = contents (sects ?t) (dinode s ?j) (length (file_bytes s ?j))" unfolding file_bytes_def [of ?t] d length_file_bytes ..
      also have "\<dots> = snd (fs ! k)" using keep_file [OF ok j(2) hi, of "dinode s ?j"] f(1) by simp
      finally show ?thesis using d f(2) by simp
    qed
  qed
  then have "mk_done ?t fs" using v(2,4) sb assms(1) unfolding mk_done_def by (simp add: built_def get_put_superblock bitmap_at_def)
  then show ?thesis using run by (intro exI [of _ ?t]) simp
qed

text \<open>What the image is to hold: the root directory with its entries, and the files.\<close>

definition wanted :: "(uchar list \<Rightarrow> uchar list list option) \<Rightarrow> uchar list list \<Rightarrow> (cshort \<times> uchar list) list" where
  "wanted fopen args =
     (T_DIR, entry_bytes 1 (map (of_nat \<circ> of_char) ''.'') @ entry_bytes 1 (map (of_nat \<circ> of_char) ''..'') @ entries 2 args) #
     map (\<lambda>a. (T_FILE, file_of fopen a)) args"

lemma built_format:
  assumes "image_ok s" and "freeinode s = 1" and "nsects s = FSSIZE" and "\<forall>i. unat i < NINODES \<longrightarrow> dinode s i = zero_inode"
    and "sects s 1 = put_superblock the_superblock zeroes"
  shows "built s []"
  using assms by (simp add: built_def NINODES_def empty_inode_def zero_inode_def)

text \<open>
  C1. \<^verbatim>\<open>mkfs\<close> puts what it is given on the image. Let the names of the files be acceptable, the files readable and at most \<^verbatim>\<open>MAXFILE\<close> blocks
  long, not more than the inodes last, and altogether not more blocks than the image has. Then \<^verbatim>\<open>mkfs\<close> exits with 0, and in the image, read with the kernel's layout,
  the superblock is the one computed, inode 1 is a directory that begins with the entries for \<^verbatim>\<open>.\<close>, \<^verbatim>\<open>..\<close> and each file, inode \<open>k + 2\<close> is a file
  with the bytes of the \<open>k\<close>-th file, however the reads split it, and the bitmap marks exactly the blocks below \<^verbatim>\<open>freeblock\<close>.
\<close>

theorem mkfs_builds:
  assumes "creat img" and "args_ok fopen args" and "Suc (length args) < NINODES" and "FSSIZE \<le> q"
    and "nmeta + 1 + cost 0 (16 * (length args + 2)) + takes fopen args \<le> FSSIZE"
  shows "\<exists>t. mkfs_main creat fopen (img # args) (fresh_image q) e = Stop (Exited t) \<and> exitcode t = Some 0 \<and> mk_done t (wanted fopen args)"
proof -
  obtain s where s: "format_image (fresh_image q) e = Ok () s e" "image_ok s" "freeinode s = 1" "unat (freeblock s) = nmeta" "nsects s = FSSIZE"
    "\<forall>i. unat i < NINODES \<longrightarrow> dinode s i = zero_inode" "sects s 1 = put_superblock the_superblock zeroes"
    using format_run [OF assms(4), of e] by blast
  have b: "built s []" using built_format s by blast
  have c: "cost 0 32 + cost 32 (16 * length args) = cost 0 (16 * (length args + 2))" using cost_add [of 0 32 "16 * length args"] by (simp add: algebra_simps)
  have "claimed s (dinode s 1) + cost 0 32 \<le> FSSIZE" using claimed_le(2) [of s "dinode s 1"] assms(5) c s(4) by simp
  then obtain s1 where s1: "make_root s e = Ok 1 s1 e"
    "built s1 [(T_DIR, entry_bytes 1 (map (of_nat \<circ> of_char) ''.'') @ entry_bytes 1 (map (of_nat \<circ> of_char) ''..''))]"
    "claimed s1 (dinode s1 1) \<le> Suc (unat (freeblock s)) + cost 0 32" using make_root_run [OF b, of e] by blast
  have "\<exists>t. for_each args (add_file fopen 1) s1 e = Ok () t e \<and>
    built t ((T_DIR, (entry_bytes 1 (map (of_nat \<circ> of_char) ''.'') @ entry_bytes 1 (map (of_nat \<circ> of_char) ''..'')) @ entries (length ([] :: (cshort \<times> uchar list) list) + 2) args) #
      [] @ map (\<lambda>a. (T_FILE, file_of fopen a)) args)"
    by (rule args_run [OF s1(2) assms(2)]) (use assms(3,5) s1(3) s(4) c in \<open>simp_all add: MAXFILE_def NDIRECT_def NINDIRECT_def BSIZE_def NINODES_def\<close>)
  then obtain s2 where s2: "for_each args (add_file fopen 1) s1 e = Ok () s2 e" "built s2 (wanted fopen args)" by (auto simp: wanted_def numeral_2_eq_2)
  have "length (snd (wanted fopen args ! 0)) \<le> MAXFILE * BSIZE" "wanted fopen args \<noteq> []"
    using assms(3) by (simp_all add: wanted_def MAXFILE_def NDIRECT_def NINDIRECT_def BSIZE_def NINODES_def)
  then obtain t where "seq (fix_root_size 1) (bind (gets freeblock) (\<lambda>used. seq (balloc_mk used) (exit_mk 0 :: unit mkop))) s2 e = Stop (Exited t)"
    "exitcode t = Some 0" "mk_done t (wanted fopen args)" using finish_run [OF s2(2), of e] by blast
  moreover have "mkfs_main creat fopen (img # args) (fresh_image q) e =
      seq (fix_root_size 1) (bind (gets freeblock) (\<lambda>used. seq (balloc_mk used) (exit_mk 0 :: unit mkop))) s2 e"
    using s(1) s1(1) s2(1) assms(1) by (simp add: mkfs_main_def seq_def bind_def)
  ultimately show ?thesis by auto
qed

definition cat_name :: "uchar list" where
  "cat_name = map (of_nat \<circ> of_char) ''user/_cat''"

definition cat_open :: "uchar list \<Rightarrow> uchar list list option" where
  "cat_open a = Some [[1, 2], [3]]"

theorem mkfs_builds_witness:
  "\<exists>t. mkfs_main (\<lambda>_. True) cat_open [[1], cat_name] (fresh_image 2000) [] = Stop (Exited t) \<and> file_bytes t 2 = [1, 2, 3]"
proof -
  have "name_ok cat_name" by (simp add: name_ok_def short_name_def DIRSIZ_def cat_name_def)
  then have ok: "args_ok cat_open [cat_name]"
    by (simp add: args_ok_def file_of_def cat_open_def MAXFILE_def NDIRECT_def BSIZE_def)
  have n: "Suc (length [cat_name]) < NINODES" "FSSIZE \<le> 2000"
    "nmeta + 1 + cost 0 (16 * (length [cat_name] + 2)) + takes cat_open [cat_name] \<le> FSSIZE"
    by (simp_all add: cost_def takes_def file_of_def cat_open_def mk_numbers)
  have "\<exists>t. mkfs_main (\<lambda>_. True) cat_open ([1] # [cat_name]) (fresh_image 2000) [] = Stop (Exited t) \<and> exitcode t = Some 0 \<and>
      mk_done t (wanted cat_open [cat_name])"
    by (rule mkfs_builds) (use ok n in simp_all)
  then obtain t where t: "mkfs_main (\<lambda>_. True) cat_open ([1] # [cat_name]) (fresh_image 2000) [] = Stop (Exited t)"
    "mk_done t (wanted cat_open [cat_name])" by (elim exE conjE)
  have "file_bytes t (of_nat (Suc 1)) = snd (wanted cat_open [cat_name] ! 1)" by (rule mk_done_file [OF t(2)]) (simp_all add: wanted_def)
  then show ?thesis using t(1) by (simp add: wanted_def file_of_def cat_open_def)
qed

end
