(* ===== verification/Spec2Isabelle.thy ===== *)
theory Spec2Isabelle
  imports Trap VmProps LogOps PipeProps Grep ShellProps Ipc UmallocProps Asm TimerProps MkfsImage
begin

text \<open>
  A verification development for a teaching kernel (xv6 for RISC-V) with five projects on top of it: priority pipes, periodic
  tasks and CPU affinity, shared memory, and a file size call; for its C library, shell and programs; and for the program that builds
  its file system image.

  \<^bold>\<open>The program and how its parts interact.\<close> A hart starts in \<^verbatim>\<open>kernel/entry.S\<close>, \<^verbatim>\<open>start.c\<close> and \<^verbatim>\<open>main.c\<close>, which set up the allocator of pages
  (\<^verbatim>\<open>kalloc.c\<close>), page tables (\<^verbatim>\<open>vm.c\<close>), the process table (\<^verbatim>\<open>proc.c\<close>), traps (\<^verbatim>\<open>trap.c\<close>, \<^verbatim>\<open>plic.c\<close>), the buffer cache (\<^verbatim>\<open>bio.c\<close>), inodes and files
  (\<^verbatim>\<open>fs.c\<close>, \<^verbatim>\<open>file.c\<close>) and the disk (\<^verbatim>\<open>virtio_disk.c\<close>), and then enters the scheduler. A process traps through \<^verbatim>\<open>trampoline.S\<close> into \<^verbatim>\<open>usertrap\<close>,
  which dispatches system calls (\<^verbatim>\<open>syscall.c\<close>, \<^verbatim>\<open>sysproc.c\<close>, \<^verbatim>\<open>sysfile.c\<close>) and interrupts. Calls on files go through \<^verbatim>\<open>file.c\<close> to pipes (\<^verbatim>\<open>pipe.c\<close>), priority
  pipes (\<^verbatim>\<open>proj2/kernel\<close>), devices (\<^verbatim>\<open>console.c\<close>, \<^verbatim>\<open>uart.c\<close>) or inodes; changes of the file system are transactions of the log (\<^verbatim>\<open>log.c\<close>) over the buffer
  cache. Spin locks (\<^verbatim>\<open>spinlock.c\<close>) protect all of this, and sleep locks (\<^verbatim>\<open>sleeplock.c\<close>) buffers and inodes. The clock interrupt runs the timers of
  \<^verbatim>\<open>proj3/kernel\<close>. The user side is \<^verbatim>\<open>user/\<close> and the projects' programs, and \<^verbatim>\<open>mkfs/mkfs.c\<close> makes the disk.

  \<^bold>\<open>How code is modelled.\<close> A C function is a function of the execution monad of \<open>Prelude\<close> over a state: the record \<open>kernel\<close> of \<open>KTypes\<close> for the kernel (its global
  variables and tables, the memory as typed pages, the disk, the registers), a world \<open>'w\<close> for user programs, the record \<open>image\<close> for \<^verbatim>\<open>mkfs\<close>. The outcome is a result with
  a new state, or a stop: \<open>Panic\<close>, \<open>Fault\<close> (a use of a pointer that C leaves undefined), \<open>Diverges\<close>, \<open>Blocked\<close> (a context switch
  with nothing left in the schedule) or \<open>Exited\<close>. Where a function gives up the processor, the next entry of the schedule is what everybody
  else does to the state. Integers are words of their width. Loops are \<open>for_each\<close>, \<open>forK\<close> over a list and \<open>loopK\<close>, which is \<open>Diverges\<close> if the loop
  never ends, so that a result is always also a claim that the loop ends.

  \<^bold>\<open>The theories.\<close>
  \<^item> \<open>Prelude\<close>, \<open>Bytes\<close>, \<open>Ring\<close>, \<open>PageArith\<close>: the monad and its loops; bytes of integers; ring buffers with counters that wrap (locale \<open>ring_buffer\<close>); page arithmetic.
  \<^item> \<open>KTypes\<close>: \<^verbatim>\<open>param.h\<close>, \<^verbatim>\<open>memlayout.h\<close>, \<^verbatim>\<open>riscv.h\<close>, \<^verbatim>\<open>proc.h\<close>, \<^verbatim>\<open>fs.h\<close>, \<^verbatim>\<open>buf.h\<close>, \<^verbatim>\<open>file.h\<close> and the other headers.
  \<^item> \<open>Spinlock\<close>, \<open>Sleeplock\<close>: the locks. The locale \<open>mutex\<close> is what clients of a lock know; \<open>hart_step\<close> is a step relation for many harts at one lock.
  \<^item> \<open>Kalloc\<close>: \<^verbatim>\<open>kalloc.c\<close> and the locale \<open>page_allocator\<close>.
  \<^item> \<open>Proc\<close>, \<open>ProcLife\<close>, \<open>Exec\<close>: \<^verbatim>\<open>proc.c\<close> and \<^verbatim>\<open>exec.c\<close>.
  \<^item> \<open>Vm\<close> with \<open>PageTable\<close>, \<open>UserMem\<close>, \<open>Sample\<close>, \<open>VmProps\<close>: \<^verbatim>\<open>vm.c\<close>, page tables as address spaces, a process's memory as bytes, a concrete state for the witnesses.
  \<^item> \<open>PrioQueue\<close>, \<open>Pqueue\<close>, \<open>PipeRt\<close>: \<^verbatim>\<open>proj2/kernel/pqueue.c\<close> and \<^verbatim>\<open>pipe_rt.c\<close>, with the locale \<open>prio_queue\<close> interpreted on both list routines.
  \<^item> \<open>Pipe\<close>, \<open>PipeProps\<close>: \<^verbatim>\<open>pipe.c\<close> as a bounded queue of bytes.
  \<^item> \<open>Bio\<close>, \<open>Cache\<close>: \<^verbatim>\<open>bio.c\<close> and the locale \<open>block_cache\<close>, interpreted on it; \<open>Log\<close>, \<open>LogCommit\<close>, \<open>LogOps\<close>: \<^verbatim>\<open>log.c\<close>, proved under that contract.
  \<^item> \<open>Fs\<close>, \<open>FileOps\<close>, \<open>Sysfile\<close>: \<^verbatim>\<open>fs.c\<close>, \<^verbatim>\<open>file.c\<close>, \<^verbatim>\<open>sysfile.c\<close>, \<^verbatim>\<open>proj5/kernel/getfilesize.c\<close>.
  \<^item> \<open>Strings\<close>, \<open>Console\<close>, \<open>Virtio\<close>, \<open>Syscall\<close>, \<open>Trap\<close>: \<^verbatim>\<open>string.c\<close>; \<^verbatim>\<open>uart.c\<close>, \<^verbatim>\<open>console.c\<close>, \<^verbatim>\<open>printf.c\<close>; \<^verbatim>\<open>virtio_disk.c\<close>; \<^verbatim>\<open>syscall.c\<close>; \<^verbatim>\<open>trap.c\<close>, \<^verbatim>\<open>plic.c\<close>, \<^verbatim>\<open>sysproc.c\<close>, \<^verbatim>\<open>start.c\<close>, \<^verbatim>\<open>main.c\<close>.
  \<^item> \<open>Timer\<close>, \<open>TimerProps\<close>: \<^verbatim>\<open>proj3/kernel\<close> and \<^verbatim>\<open>clockintr\<close>; \<open>Shm\<close>: \<^verbatim>\<open>proj4/kernel\<close>.
  \<^item> \<open>Asm\<close>: the assembly files of the kernel on a small machine.
  \<^item> \<open>ULib\<close>, \<open>Umalloc\<close>, \<open>UmallocProps\<close>, \<open>Shell\<close>, \<open>ShellProps\<close>, \<open>Grep\<close>, \<open>Progs\<close>, \<open>Ipc\<close>: the user side. System calls are a record of functions, a parameter; what a theorem relies on is
    a named predicate (\<open>file_io\<close>: successive reads return the pieces of the file; \<open>sbrk_grows\<close>: the heap grows where it ends), with an instance for the witness.
  \<^item> \<open>Mkfs\<close>, \<open>MkfsProps\<close>, \<open>MkfsImage\<close>: \<^verbatim>\<open>mkfs.c\<close> on the encodings of \<open>Fs\<close>, so that its theorem speaks of what the kernel reads.
\<close>

text \<open>
  \<^bold>\<open>What the theorems show.\<close>
  \<^item> Locks and processes: at most one hart is in the critical section; a pair of \<^verbatim>\<open>acquire\<close> and \<^verbatim>\<open>release\<close> restores the interrupt state; \<^verbatim>\<open>sleep\<close> and \<^verbatim>\<open>wakeup\<close> lose no wakeup at the lock;
    what \<^verbatim>\<open>kill\<close> marks and what one round of the scheduler runs; a process that waits for its period is woken at that tick and not before.
  \<^item> Memory: the allocator hands out each page once; \<^verbatim>\<open>mappages\<close> maps what it says; \<^verbatim>\<open>copyout\<close>, \<^verbatim>\<open>copyin\<close> and \<^verbatim>\<open>copyinstr\<close> move exactly the bytes of the process; the heap of a
    program never hands out overlapping blocks; the trampoline saves and restores every register.
  \<^item> Files: through the cache every block reads as last written, and the buffer reused is the least recently used one; recovery after a crash at any write of a commit yields all or nothing of the transaction; the
    reservation of \<^verbatim>\<open>begin_op\<close> keeps the log within \<^verbatim>\<open>LOGSIZE\<close>, and is one block short of what \<^verbatim>\<open>log_write\<close> accepts on an image of \<^verbatim>\<open>mkfs\<close>; \<^verbatim>\<open>mkfs\<close> builds the image it is asked for.
  \<^item> Pipes: \<^verbatim>\<open>pipe.c\<close> is a bounded queue; the priority lists stay sorted, with the highest priority first and a different order among equals in the two versions; what reading, writing, waiting and closing a priority pipe do.
  \<^item> Programs: the shell's parser ends and builds well-formed commands with the words of the line; \<^verbatim>\<open>grep\<close>'s matcher decides the language of the pattern, and \<^verbatim>\<open>grep\<close> prints the matching lines however the reads split them.

  \<^bold>\<open>Bounds and fuel.\<close> The recursive parser of the shell has fuel for the depth of its calls, \<open>4 * length + 4\<close>, and the theorem on it says that this is always enough. \<^verbatim>\<open>freewalk\<close> has fuel for 64 levels; a
  page table has three. All other loops are \<open>loopK\<close>, which has no bound, or structural. The theorem on \<^verbatim>\<open>mkfs\<close> asks for the room that the files need, written out as \<open>cost\<close> and \<open>takes\<close>, and that on the heap for requests of at most
  \<open>2 ^ 31 - 32\<close> bytes, above which sizes wrap.

  \<^bold>\<open>Not modelled.\<close>
  \<^item> \<^verbatim>\<open>user/usertests.c\<close> and \<^verbatim>\<open>user/grind.c\<close>: test programs that call the kernel with many arguments and compare what it returns; they add no component. \<^verbatim>\<open>proj1/user/calc-test.c\<close> does not compile.
  \<^item> \<^verbatim>\<open>proj1/kernel\<close>: older copies of \<^verbatim>\<open>syscall.c\<close>, \<^verbatim>\<open>syscall.h\<close> and \<^verbatim>\<open>sysproc.c\<close>, without the projects' calls, that the build does not use.
  \<^item> \<^verbatim>\<open>user/initcode.S\<close> (its bytes are data in \<open>ProcLife\<close>), the linker scripts, and the script that generates the system call stubs.
  \<^item> Memory ordering and caches: memory is sequentially consistent, and the fences have no effect. Devices other than through the registers and queues the drivers use: \<open>disk_rw\<close> in \<open>Bio\<close> is a transfer after the
    device has answered.
\<close>

section \<open>The image and the kernel\<close>

text \<open>
  The numbers in the superblock of \<^verbatim>\<open>mkfs\<close> and the macros of the kernel agree: the log, the inode blocks, the bitmap block and the data blocks
  follow each other without overlap, and every inode and every bit of the bitmap is in its own region.
\<close>

lemma mkfs_regions:
  "unat (sb_logstart the_superblock) + nlog = unat (sb_inodestart the_superblock)"
  "unat (sb_inodestart the_superblock) + ninodeblocks = unat (sb_bmapstart the_superblock)"
  "unat (sb_bmapstart the_superblock) + nbitmap = nmeta"
  by (simp_all add: the_superblock_def mk_numbers)

lemma mkfs_inode_region:
  assumes "unat i < unat (sb_ninodes the_superblock)"
  shows "unat (sb_inodestart the_superblock) \<le> unat (IBLOCK i the_superblock)" "unat (IBLOCK i the_superblock) < unat (sb_bmapstart the_superblock)"
proof -
  have i: "unat i < NINODES" using assms by (simp add: the_superblock_def mk_numbers)
  then have "unat i div 16 \<le> 12" by (simp add: mk_numbers)
  then show "unat (sb_inodestart the_superblock) \<le> unat (IBLOCK i the_superblock)" "unat (IBLOCK i the_superblock) < unat (sb_bmapstart the_superblock)"
    unfolding iblk_bounds(2) [OF i] by (simp_all add: iblk_def the_superblock_def mk_numbers)
qed

lemma mkfs_bitmap_region:
  assumes "unat b < unat (sb_size the_superblock)"
  shows "unat (BBLOCK b the_superblock) = unat (sb_bmapstart the_superblock)"
proof -
  have "unat b div 8192 = 0" using assms by (simp add: the_superblock_def mk_numbers)
  then have "b div 8192 = 0" by (simp add: unat_div word_unat_eq_iff)
  then show ?thesis by (simp add: BBLOCK_def BPB_def BSIZE_def)
qed

end
